(* ===== verification/Prelude.thy ===== *)
theory Prelude
  imports
    Main
    "HOL-Library.Word"
    "HOL-Library.Char_ord"
    "HOL-Library.List_Lexorder"
    "HOL-Library.Multiset"
    "HOL-Library.AList"
begin

text \<open>
  What every component shares.

  \<^item> The types of Go values: \<open>i64\<close> for \<open>int64\<close> and \<open>time.Duration\<close> (read with
    \<open>sint\<close>), \<open>u64\<close> for \<open>uint64\<close> (read with \<open>unat\<close>), \<open>bytes\<close> for \<open>[]byte\<close>,
    \<open>string\<close> for Go strings (a Go string is a sequence of bytes, and so is a HOL
    \<open>char list\<close>), \<open>time\<close> for \<open>time.Time\<close> as nanoseconds. A Go \<open>int\<close> that only counts
    elements is a HOL \<open>int\<close>. The length of a Go slice is below \<open>2 ^ 63\<close>, so
    \<open>int64(len(x))\<close> is exact and is written \<open>int (length x)\<close>.
  \<^item> Arithmetic of \<open>i64\<close> where it does not wrap (collection \<open>i64_simps\<close>).
  \<^item> The parts of the Go standard library the program calls on plain data:
    \<open>hex.EncodeToString\<close>, \<open>hex.DecodeString\<close>, \<open>strings.TrimSpace\<close>, \<open>sort.Slice\<close>
    (with the contract of a sorter as the locale \<open>slice_sorter\<close>), decimal printing.
  \<^item> \<open>ctx_error\<close>, what \<open>ctx.Err()\<close> returns when it is not nil.
\<close>

named_theorems i64_simps "signed 64-bit arithmetic that does not wrap"

type_synonym i64 = "64 word"
type_synonym u64 = "64 word"
type_synonym u32 = "32 word"
type_synonym byte = "8 word"
type_synonym bytes = "byte list"
type_synonym time = int

datatype ctx_error = Canceled | DeadlineExceeded


section \<open>Signed 64-bit integers\<close>

lemma i64_range: "- (2 ^ 63) \<le> sint (x :: i64)" "sint (x :: i64) < 2 ^ 63"
  using sint_ge [of x] sint_lt [of x] by simp_all

lemma sint_i64_of_int [i64_simps]:
  "- (2 ^ 63) \<le> k \<Longrightarrow> k < 2 ^ 63 \<Longrightarrow> sint (word_of_int k :: i64) = k"
  by (simp add: sint_sbintrunc' signed_take_bit_int_eq_self)

lemma sint_add_i64 [i64_simps]:
  "- (2 ^ 63) \<le> sint a + sint b \<Longrightarrow> sint a + sint b < 2 ^ 63 \<Longrightarrow>
   sint (a + b :: i64) = sint a + sint b"
  by (simp add: sint_word_add signed_take_bit_int_eq_self)

lemma sint_sub_i64 [i64_simps]:
  "- (2 ^ 63) \<le> sint a - sint b \<Longrightarrow> sint a - sint b < 2 ^ 63 \<Longrightarrow>
   sint (a - b :: i64) = sint a - sint b"
  by (simp add: sint_word_diff signed_take_bit_int_eq_self)

lemma sint_sub_nonneg:
  fixes a b :: i64
  assumes "0 \<le> sint a" "0 \<le> sint b"
  shows "sint (a - b) = sint a - sint b"
  using assms i64_range [of a] i64_range [of b] by (intro sint_sub_i64) auto

lemma sint_add_le:
  fixes a b c :: i64
  assumes "0 \<le> sint a" "0 \<le> sint b" "sint a + sint b \<le> sint c"
  shows "sint (a + b) = sint a + sint b"
  using assms i64_range [of c] by (intro sint_add_i64) auto

lemma sint_mult_i64 [i64_simps]:
  "- (2 ^ 63) \<le> sint a * sint b \<Longrightarrow> sint a * sint b < 2 ^ 63 \<Longrightarrow>
   sint (a * b :: i64) = sint a * sint b"
  by (simp add: sint_word_mult signed_take_bit_int_eq_self)


lemma byte_less [simp]: "unat (b :: byte) < 256"
  using unsigned_less [of b] by simp

lemma byte_nibbles [simp]: "unat (b :: byte) div 16 < 16" "unat b mod 16 < 16"
  using byte_less [of b] by (auto simp del: byte_less)


section \<open>Hexadecimal\<close>

definition hex_char :: "nat \<Rightarrow> char" where
  "hex_char n = (if n < 10 then char_of (48 + n) else char_of (87 + n))"

definition hex_val :: "char \<Rightarrow> nat option" where
  "hex_val c =
     (let n = (of_char c :: nat)
      in if 48 \<le> n \<and> n \<le> 57 then Some (n - 48)
         else if 97 \<le> n \<and> n \<le> 102 then Some (n - 87)
         else if 65 \<le> n \<and> n \<le> 70 then Some (n - 55)
         else None)"

fun hex_encode :: "bytes \<Rightarrow> string" where
  "hex_encode [] = []"
| "hex_encode (b # bs) = hex_char (unat b div 16) # hex_char (unat b mod 16) # hex_encode bs"

text \<open>\<open>hex.DecodeString\<close>: an odd length or a character that is no hex digit is an error.\<close>

fun hex_decode :: "string \<Rightarrow> bytes option" where
  "hex_decode [] = Some []"
| "hex_decode [c] = None"
| "hex_decode (c # d # cs) =
     (case (hex_val c, hex_val d) of
        (Some a, Some b) \<Rightarrow> map_option ((#) (word_of_nat (16 * a + b))) (hex_decode cs)
      | _ \<Rightarrow> None)"

lemma hex_val_hex_char [simp]: "n < 16 \<Longrightarrow> hex_val (hex_char n) = Some n"
  by (auto simp: hex_val_def hex_char_def Let_def)

lemma hex_decode_encode [simp]: "hex_decode (hex_encode bs) = Some bs"
  by (induction bs) (simp_all add: word_unat_eq_iff)

lemma length_hex_encode [simp]: "length (hex_encode bs) = 2 * length bs"
  by (induction bs) auto

text \<open>Lower case is the only case \<open>hex.EncodeToString\<close> writes.\<close>

definition upper_hex :: "char \<Rightarrow> bool" where
  "upper_hex c \<longleftrightarrow> 65 \<le> (of_char c :: nat) \<and> (of_char c :: nat) \<le> 70"

lemma hex_char_not_upper [simp]: "n < 16 \<Longrightarrow> \<not> upper_hex (hex_char n)"
  by (auto simp: upper_hex_def hex_char_def)

lemma hex_encode_not_upper: "c \<in> set (hex_encode bs) \<Longrightarrow> \<not> upper_hex c"
  by (induction bs) auto


section \<open>Decimal numbers\<close>

fun dec :: "nat \<Rightarrow> string" where
  "dec n = (if n < 10 then [char_of (48 + n)] else dec (n div 10) @ [char_of (48 + n mod 10)])"

declare dec.simps [simp del]

definition undec :: "string \<Rightarrow> nat" where
  "undec cs = foldl (\<lambda>a c. 10 * a + (of_char c - 48)) 0 cs"

lemma undec_snoc: "undec (cs @ [c]) = 10 * undec cs + (of_char c - 48)"
  by (simp add: undec_def)

lemma undec_dec [simp]: "undec (dec n) = n"
proof (induction n rule: dec.induct)
  case (1 n)
  show ?case
  proof (cases "n < 10")
    case True
    then show ?thesis by (simp add: dec.simps [of n] undec_def)
  next
    case False
    with 1 have "undec (dec (n div 10)) = n div 10" by simp
    with False show ?thesis by (simp add: dec.simps [of n] undec_snoc)
  qed
qed

lemma dec_inject [simp]: "dec m = dec n \<longleftrightarrow> m = n"
  by (metis undec_dec)

lemma dec_nonempty [simp]: "dec n \<noteq> []"
  by (subst dec.simps) simp


section \<open>Trimming white space\<close>

text \<open>
  \<open>strings.TrimSpace\<close> removes the characters of \<open>unicode.IsSpace\<close> from both ends:
  six ASCII characters and the UTF-8 encodings of the other white space code points.
\<close>

definition go_spaces :: "string list" where
  "go_spaces = map (map char_of)
     ([[9], [10], [11], [12], [13], [32], [0xC2, 0x85], [0xC2, 0xA0], [0xE1, 0x9A, 0x80]]
      @ map (\<lambda>k. [0xE2, 0x80, k]) [0x80..<0x8B]
      @ [[0xE2, 0x80, 0xA8], [0xE2, 0x80, 0xA9], [0xE2, 0x80, 0xAF],
         [0xE2, 0x81, 0x9F], [0xE3, 0x80, 0x80 :: nat]])"

definition front :: "string list \<Rightarrow> string \<Rightarrow> string option" where
  "front ws s = find (\<lambda>w. w \<noteq> [] \<and> take (length w) s = w) ws"

lemma front_SomeD: "front ws s = Some w \<Longrightarrow> w \<in> set ws \<and> w \<noteq> [] \<and> s \<noteq> [] \<and> take (length w) s = w"
  by (force simp: front_def find_Some_iff)

lemma front_shorter: "front ws s = Some w \<Longrightarrow> length (drop (length w) s) < length s"
  by (drule front_SomeD) simp

lemma front_None: "front ws s = None \<longleftrightarrow> (\<forall>w\<in>set ws. w \<noteq> [] \<longrightarrow> take (length w) s \<noteq> w)"
  by (auto simp: front_def find_None_iff)

function trim_with :: "string list \<Rightarrow> string \<Rightarrow> string" where
  "trim_with ws s =
     (case front ws s of None \<Rightarrow> s | Some w \<Rightarrow> trim_with ws (drop (length w) s))"
  by pat_completeness auto
termination
  by (relation "measure (\<lambda>(ws, s). length s)") (auto simp: front_shorter simp del: length_drop)

declare trim_with.simps [simp del]

definition trim_space :: "string \<Rightarrow> string" where
  "trim_space s = rev (trim_with (map rev go_spaces) (rev (trim_with go_spaces s)))"

lemma trim_with_front: "front ws (trim_with ws s) = None"
proof (induction ws s rule: trim_with.induct)
  case (1 ws s)
  then show ?case
    by (cases "front ws s") (simp_all add: trim_with.simps [of ws s])
qed

lemma trim_with_id [simp]: "front ws s = None \<Longrightarrow> trim_with ws s = s"
  by (subst trim_with.simps) simp

lemma trim_with_suffix: "\<exists>p. s = p @ trim_with ws s"
proof (induction ws s rule: trim_with.induct)
  case (1 ws s)
  show ?case
  proof (cases "front ws s")
    case (Some w)
    with 1 obtain p where "drop (length w) s = p @ trim_with ws (drop (length w) s)" by blast
    with Some have "s = (take (length w) s @ p) @ trim_with ws s"
      by (metis append_assoc append_take_drop_id option.simps(5) trim_with.simps)
    then show ?thesis by blast
  qed simp
qed

lemma front_prefix:
  assumes "front ws (t @ u) = None"
  shows "front ws t = None"
proof -
  have "take (length w) t \<noteq> w" if "w \<in> set ws" "w \<noteq> []" for w
  proof
    assume w: "take (length w) t = w"
    then have "length w \<le> length t" by (metis length_take min.cobounded1)
    with w have "take (length w) (t @ u) = w" by simp
    with assms that show False by (auto simp: front_None)
  qed
  then show ?thesis by (simp add: front_None)
qed

lemma trim_space_idem [simp]: "trim_space (trim_space s) = trim_space s"
proof -
  let ?l = "trim_with go_spaces s"
  obtain p where "rev ?l = p @ trim_with (map rev go_spaces) (rev ?l)"
    using trim_with_suffix by blast
  then have split: "?l = trim_space s @ rev p"
    by (metis rev_append rev_rev_ident trim_space_def)
  have "front go_spaces ?l = None" by (rule trim_with_front)
  with split have "front go_spaces (trim_space s) = None" by (metis front_prefix)
  moreover have "front (map rev go_spaces) (rev (trim_space s)) = None"
    by (simp add: trim_space_def trim_with_front)
  ultimately show ?thesis
    by (subst trim_space_def) simp
qed

text \<open>A string that starts and ends with a printable ASCII character is left alone.\<close>

definition graphic :: "char \<Rightarrow> bool" where
  "graphic c \<longleftrightarrow> 33 \<le> (of_char c :: nat) \<and> (of_char c :: nat) \<le> 126"

lemma go_spaces_not_graphic:
  "w \<in> set go_spaces \<Longrightarrow> w \<noteq> [] \<and> \<not> graphic (hd w) \<and> \<not> graphic (last w)"
  by (auto simp: go_spaces_def graphic_def)

lemma trim_space_graphic:
  assumes "s \<noteq> []" "graphic (hd s)" "graphic (last s)"
  shows "trim_space s = s"
proof -
  have l: "take (length w) s \<noteq> w" if "w \<in> set go_spaces" for w
    using go_spaces_not_graphic [OF that] assms
    by (metis hd_append2 append_take_drop_id)
  have r: "take (length w) (rev s) \<noteq> rev w" if "w \<in> set go_spaces" for w
    using go_spaces_not_graphic [OF that] assms
    by (metis hd_append2 append_take_drop_id hd_rev rev_is_Nil_conv)
  have "front go_spaces s = None" "front (map rev go_spaces) (rev s) = None"
    using l r by (auto simp: front_None)
  then show ?thesis by (simp add: trim_space_def)
qed


section \<open>Sorting a slice\<close>

text \<open>
  \<open>sort.Slice(xs, less)\<close> reorders the slice so that no element is less than one before
  it, and promises nothing on elements that \<open>less\<close> does not separate. The locales are
  that contract: \<open>weak_order\<close> is what the documentation asks of \<open>less\<close>,
  \<open>slice_sorter\<close> what it promises then. Insertion sort, which the library uses on short
  slices, is the executable sorter, and a sorter for every weak order.
\<close>

fun insert_slice :: "('a \<Rightarrow> 'a \<Rightarrow> bool) \<Rightarrow> 'a \<Rightarrow> 'a list \<Rightarrow> 'a list" where
  "insert_slice lt x [] = [x]"
| "insert_slice lt x (y # ys) = (if lt y x then y # insert_slice lt x ys else x # y # ys)"

definition sort_slice :: "('a \<Rightarrow> 'a \<Rightarrow> bool) \<Rightarrow> 'a list \<Rightarrow> 'a list" where
  "sort_slice lt xs = foldr (insert_slice lt) xs []"

lemma mset_insert_slice [simp]: "mset (insert_slice lt x ys) = add_mset x (mset ys)"
  by (induction ys) auto

lemma mset_sort_slice [simp]: "mset (sort_slice lt xs) = mset xs"
  by (induction xs) (auto simp: sort_slice_def)

lemma set_insert_slice [simp]: "set (insert_slice lt x ys) = insert x (set ys)"
  by (induction ys) auto

locale weak_order =
  fixes lt :: "'a \<Rightarrow> 'a \<Rightarrow> bool"
  assumes lt_asym: "lt x y \<Longrightarrow> \<not> lt y x"
    and lt_neg_trans: "\<not> lt x y \<Longrightarrow> \<not> lt y z \<Longrightarrow> \<not> lt x z"
begin

lemma sorted_insert_slice:
  "sorted_wrt (\<lambda>x y. \<not> lt y x) ys \<Longrightarrow> sorted_wrt (\<lambda>x y. \<not> lt y x) (insert_slice lt x ys)"
proof (induction ys)
  case (Cons y ys)
  show ?case
  proof (cases "lt y x")
    case True
    with Cons lt_asym [of y x] show ?thesis by simp
  next
    case False
    then have "\<not> lt z x" if "z \<in> set ys" for z
      using Cons.prems lt_neg_trans [of z y x] that by auto
    with False Cons.prems show ?thesis by simp
  qed
qed simp

lemma sorted_sort_slice: "sorted_wrt (\<lambda>x y. \<not> lt y x) (sort_slice lt xs)"
  by (induction xs) (simp_all add: sort_slice_def sorted_insert_slice)

end

locale slice_sorter = weak_order lt
  for lt :: "'a \<Rightarrow> 'a \<Rightarrow> bool" +
  fixes sorter :: "'a list \<Rightarrow> 'a list"
  assumes mset_sorter: "mset (sorter xs) = mset xs"
    and sorted_sorter: "sorted_wrt (\<lambda>x y. \<not> lt y x) (sorter xs)"
begin

lemma set_sorter: "set (sorter xs) = set xs"
  by (metis mset_sorter set_mset_mset)

lemma length_sorter: "length (sorter xs) = length xs"
  by (metis mset_sorter size_mset)

text \<open>Where \<open>lt\<close> separates the elements there is one sorted order only.\<close>

lemma sorted_unique:
  assumes "mset xs = mset ys" "sorted_wrt (\<lambda>x y. \<not> lt y x) xs"
    "sorted_wrt (\<lambda>x y. \<not> lt y x) ys"
    "\<And>x y. x \<in> set xs \<Longrightarrow> y \<in> set xs \<Longrightarrow> x \<noteq> y \<Longrightarrow> lt x y \<or> lt y x"
  shows "xs = ys"
  using assms
proof (induction xs arbitrary: ys)
  case Nil
  then show ?case by simp
next
  case (Cons x xs)
  then obtain y ys' where ys: "ys = y # ys'" by (cases ys) auto
  have mem: "x \<in> set ys" "y \<in> set (x # xs)"
    using Cons.prems(1) ys by (metis list.set_intros(1) set_mset_mset)+
  have "\<not> lt y x \<or> x = y" "\<not> lt x y \<or> x = y"
    using Cons.prems(2,3) mem ys by auto
  with Cons.prems(4) mem(2) have "x = y" by auto
  moreover have "xs = ys'"
    using Cons.prems \<open>x = y\<close> ys by (intro Cons.IH) auto
  ultimately show ?case using ys by simp
qed

lemma sorter_id:
  assumes "sorted_wrt (\<lambda>x y. \<not> lt y x) xs"
    "\<And>x y. x \<in> set xs \<Longrightarrow> y \<in> set xs \<Longrightarrow> x \<noteq> y \<Longrightarrow> lt x y \<or> lt y x"
  shows "sorter xs = xs"
  using assms
  by (intro sorted_unique) (auto simp: mset_sorter sorted_sorter set_sorter)

lemma sorter_perm:
  assumes "mset xs = mset ys"
    "\<And>x y. x \<in> set xs \<Longrightarrow> y \<in> set xs \<Longrightarrow> x \<noteq> y \<Longrightarrow> lt x y \<or> lt y x"
  shows "sorter xs = sorter ys"
  using assms
  by (intro sorted_unique) (auto simp: mset_sorter sorted_sorter set_sorter)

end

sublocale weak_order \<subseteq> ins: slice_sorter lt "sort_slice lt"
  by unfold_locales (simp_all add: sorted_sort_slice)


section \<open>Counting along a list\<close>

lemma sum_list_update_token:
  fixes f :: "'a \<Rightarrow> 'b multiset"
  shows "i < length xs \<Longrightarrow> (\<Sum>x\<leftarrow>xs[i := y]. f x) + f (xs ! i) = (\<Sum>x\<leftarrow>xs. f x) + f y"
proof (induction xs arbitrary: i)
  case (Cons x xs)
  then show ?case by (cases i) (auto simp: ac_simps)
qed simp

lemma token_subset:
  fixes f :: "'a \<Rightarrow> 'b multiset"
  shows "x \<in> set xs \<Longrightarrow> f x \<subseteq># (\<Sum>x\<leftarrow>xs. f x)"
  by (induction xs) (auto intro: subset_mset.order_trans simp: subset_mset.add_increasing)

lemma in_sum_list_token:
  fixes f :: "'a \<Rightarrow> 'b multiset"
  shows "y \<in># (\<Sum>x\<leftarrow>xs. f x) \<longleftrightarrow> (\<exists>x\<in>set xs. y \<in># f x)"
  by (induction xs) auto

lemma sum_list_no_token:
  fixes f :: "'a \<Rightarrow> 'b multiset"
  shows "(\<And>x. x \<in> set xs \<Longrightarrow> f x = {#}) \<Longrightarrow> (\<Sum>x\<leftarrow>xs. f x) = {#}"
  by (induction xs) auto

lemma token_twice_less:
  fixes f :: "'a \<Rightarrow> 'b multiset"
  shows "i < j \<Longrightarrow> j < length xs \<Longrightarrow> f (xs ! i) + f (xs ! j) \<subseteq># (\<Sum>x\<leftarrow>xs. f x)"
proof (induction xs arbitrary: i j)
  case (Cons x xs)
  then obtain j' where j: "j = Suc j'" by (cases j) auto
  show ?case
  proof (cases i)
    case 0
    then show ?thesis using Cons.prems j token_subset [of "xs ! j'" xs f] by simp
  next
    case (Suc i')
    then have "f (xs ! i') + f (xs ! j') \<subseteq># (\<Sum>x\<leftarrow>xs. f x)" using Cons j by simp
    then show ?thesis using Suc j by (simp add: subset_mset.add_increasing)
  qed
qed simp

lemma token_twice:
  fixes f :: "'a \<Rightarrow> 'b multiset"
  assumes "i < length xs" "j < length xs" "i \<noteq> j"
  shows "f (xs ! i) + f (xs ! j) \<subseteq># (\<Sum>x\<leftarrow>xs. f x)"
  using assms token_twice_less [of i j xs f] token_twice_less [of j i xs f]
  by (cases "i < j") (auto simp: add.commute)

lemma mset_set_minus:
  assumes "finite A" "M \<subseteq># mset_set A"
  shows "mset_set A - M = mset_set (A - set_mset M)"
proof (rule multiset_eqI)
  fix x
  have le: "count M x \<le> count (mset_set A) x" using assms(2) by (rule mset_subset_eq_count)
  have A: "count (mset_set A) x = (if x \<in> A then 1 else 0)"
    using assms(1) by (simp add: count_mset_set')
  have B: "count (mset_set (A - set_mset M)) x = (if x \<in> A \<and> count M x = 0 then 1 else 0)"
    using assms(1) by (simp add: count_mset_set' not_in_iff)
  show "count (mset_set A - M) x = count (mset_set (A - set_mset M)) x"
    using le unfolding count_diff A B
    by (cases "x \<in> A"; cases "count M x = 0") (simp_all del: count_eq_zero_iff)
qed

lemma nth_update_same: "g y = g (xs ! l) \<Longrightarrow> g (xs[l := y] ! k) = g (xs ! k)"
  by (cases "l < length xs"; cases "k = l") (simp_all add: list_update_beyond)

text \<open>Keys of an association list without duplicates.\<close>

lemma delete_absent: "k \<notin> fst ` set al \<Longrightarrow> AList.delete k al = al"
  by (induction al) auto

lemma sum_delete_token:
  fixes f :: "'k \<times> 'v \<Rightarrow> 'b multiset"
  shows "distinct (map fst al) \<Longrightarrow> map_of al k = Some v \<Longrightarrow>
    f (k, v) + (\<Sum>p\<leftarrow>AList.delete k al. f p) = (\<Sum>p\<leftarrow>al. f p)"
proof (induction al)
  case (Cons p al)
  show ?case
  proof (cases "fst p = k")
    case True
    then have "AList.delete k al = al"
      using Cons.prems(1) by (intro delete_absent) auto
    with True Cons.prems show ?thesis by (cases p) auto
  next
    case False
    with Cons show ?thesis by (cases p) (auto simp: ac_simps)
  qed
qed simp

lemma update_fresh: "k \<notin> fst ` set al \<Longrightarrow> AList.update k v al = al @ [(k, v)]"
  by (induction al) auto

end
