(* ===== verification/Lease.thy ===== *)
theory Lease
  imports Prelude
begin

text \<open>
  \<open>lease/manager.go\<close>: ownership of resources for a limited time, with fencing tokens.

  Each operation reads the clock before it takes the lock, so what it read is an argument
  \<open>now\<close>, and the readings of operations that follow each other need not increase. The Go map
  \<open>leases\<close> is an association list without duplicate keys; the order of a \<open>range\<close> over it,
  which Go leaves open, is the order of the list, and no property depends on it. What a client of
  fencing tokens relies on is the locale \<open>fencing\<close>.
\<close>

section \<open>The manager\<close>

datatype lease_error =
    LeaseInvalid
  | LeaseTTL
  | ErrBusy string string
  | ErrLeaseNotFound
  | ErrOwnerMismatch
  | ErrFenceMismatch
  | ErrExpired

record lease =
  le_Resource :: string
  le_Owner :: string
  le_Fence :: u64
  le_Acquired :: time
  le_ExpiresAt :: time

definition Expired :: "time \<Rightarrow> lease \<Rightarrow> bool" where
  "Expired now l \<longleftrightarrow> \<not> now < le_ExpiresAt l"

text \<open>\<open>time.Time.Sub\<close> saturates at the largest \<open>time.Duration\<close>.\<close>

definition Remaining :: "time \<Rightarrow> lease \<Rightarrow> i64" where
  "Remaining now l =
     (if Expired now l then 0 else word_of_int (min (2 ^ 63 - 1) (le_ExpiresAt l - now)))"

record lease_manager =
  lm_next :: u64
  lm_leases :: "(string \<times> lease) list"

definition NewManager :: lease_manager where
  "NewManager = \<lparr>lm_next = 0, lm_leases = []\<rparr>"

definition Lease_Acquire ::
  "time \<Rightarrow> string \<Rightarrow> string \<Rightarrow> i64 \<Rightarrow> lease_manager \<Rightarrow> (lease_error + lease) \<times> lease_manager" where
  "Lease_Acquire now resource owner ttl m =
     (if resource = [] \<or> owner = [] then (Inl LeaseInvalid, m)
      else if sint ttl \<le> 0 then (Inl LeaseTTL, m)
      else
        (let grant =
           (let created = \<lparr>le_Resource = resource, le_Owner = owner, le_Fence = lm_next m + 1,
                  le_Acquired = now, le_ExpiresAt = now + sint ttl\<rparr>
            in (Inr created,
                m\<lparr>lm_next := lm_next m + 1, lm_leases := AList.update resource created (lm_leases m)\<rparr>))
         in case map_of (lm_leases m) resource of
              Some current \<Rightarrow>
                if \<not> Expired now current then (Inl (ErrBusy resource (le_Owner current)), m) else grant
            | None \<Rightarrow> grant))"

definition Renew ::
  "time \<Rightarrow> string \<Rightarrow> string \<Rightarrow> u64 \<Rightarrow> i64 \<Rightarrow> lease_manager \<Rightarrow> (lease_error + lease) \<times> lease_manager" where
  "Renew now resource owner fence ttl m =
     (if sint ttl \<le> 0 then (Inl LeaseTTL, m)
      else
        (case map_of (lm_leases m) resource of
           None \<Rightarrow> (Inl ErrLeaseNotFound, m)
         | Some current \<Rightarrow>
             if le_Owner current \<noteq> owner then (Inl ErrOwnerMismatch, m)
             else if le_Fence current \<noteq> fence then (Inl ErrFenceMismatch, m)
             else if Expired now current
             then (Inl ErrExpired, m\<lparr>lm_leases := AList.delete resource (lm_leases m)\<rparr>)
             else (let current' = current\<lparr>le_ExpiresAt := now + sint ttl\<rparr>
                   in (Inr current', m\<lparr>lm_leases := AList.update resource current' (lm_leases m)\<rparr>))))"

definition Lease_Release ::
  "string \<Rightarrow> string \<Rightarrow> u64 \<Rightarrow> lease_manager \<Rightarrow> lease_error option \<times> lease_manager" where
  "Lease_Release resource owner fence m =
     (case map_of (lm_leases m) resource of
        None \<Rightarrow> (None, m)
      | Some current \<Rightarrow>
          if le_Owner current \<noteq> owner then (Some ErrOwnerMismatch, m)
          else if le_Fence current \<noteq> fence then (Some ErrFenceMismatch, m)
          else (None, m\<lparr>lm_leases := AList.delete resource (lm_leases m)\<rparr>))"

definition Lease_Get :: "time \<Rightarrow> string \<Rightarrow> lease_manager \<Rightarrow> lease option" where
  "Lease_Get now resource m =
     (case map_of (lm_leases m) resource of
        None \<Rightarrow> None
      | Some current \<Rightarrow> if Expired now current then None else Some current)"

definition SweepExpired :: "time \<Rightarrow> lease_manager \<Rightarrow> lease list \<times> lease_manager" where
  "SweepExpired now m =
     (filter (Expired now) (map snd (lm_leases m)),
      m\<lparr>lm_leases := filter (\<lambda>(r, l). \<not> Expired now l) (lm_leases m)\<rparr>)"

definition Lease_Snapshot :: "time \<Rightarrow> lease_manager \<Rightarrow> lease list" where
  "Lease_Snapshot now m = filter (\<lambda>l. \<not> Expired now l) (map snd (lm_leases m))"


section \<open>The invariant\<close>

definition manager_ok :: "lease_manager \<Rightarrow> bool" where
  "manager_ok m \<longleftrightarrow>
     distinct (map fst (lm_leases m))
     \<and> (\<forall>r l. map_of (lm_leases m) r = Some l \<longrightarrow> le_Resource l = r \<and> unat (le_Fence l) \<le> unat (lm_next m))
     \<and> (\<forall>r r' l l'. map_of (lm_leases m) r = Some l \<longrightarrow> map_of (lm_leases m) r' = Some l' \<longrightarrow>
          le_Fence l = le_Fence l' \<longrightarrow> r = r')"

lemma manager_ok_new: "manager_ok NewManager"
  by (simp add: manager_ok_def NewManager_def)

lemma u64_Suc: "unat (n :: u64) < 2 ^ 64 - 1 \<Longrightarrow> unat (n + 1) = Suc (unat n)"
  by (simp add: unat_word_ariths)

lemma manager_ok_fence:
  "manager_ok m \<Longrightarrow> map_of (lm_leases m) r = Some l \<Longrightarrow> unat (lm_next m) < 2 ^ 64 - 1 \<Longrightarrow>
   le_Fence l \<noteq> lm_next m + 1"
  using u64_Suc [of "lm_next m"] by (force simp: manager_ok_def)

text \<open>The operations, each with the clock it read.\<close>

datatype lease_op =
    OpAcquire time string string i64
  | OpRenew time string string u64 i64
  | OpRelease string string u64
  | OpSweep time

fun lease_step :: "lease_op \<Rightarrow> lease_manager \<Rightarrow> lease_manager" where
  "lease_step (OpAcquire now r w ttl) m = snd (Lease_Acquire now r w ttl m)"
| "lease_step (OpRenew now r w f ttl) m = snd (Renew now r w f ttl m)"
| "lease_step (OpRelease r w f) m = snd (Lease_Release r w f m)"
| "lease_step (OpSweep now) m = snd (SweepExpired now m)"

text \<open>The token an operation hands out.\<close>

definition granted :: "lease_op \<Rightarrow> lease_manager \<Rightarrow> nat option" where
  "granted op m =
     (case op of
        OpAcquire now r w ttl \<Rightarrow>
          (case fst (Lease_Acquire now r w ttl m) of Inr l \<Rightarrow> Some (unat (le_Fence l)) | Inl _ \<Rightarrow> None)
      | _ \<Rightarrow> None)"

lemma Lease_Get_Some:
  "Lease_Get now r m = Some l \<longleftrightarrow> map_of (lm_leases m) r = Some l \<and> \<not> Expired now l"
  by (auto simp: Lease_Get_def split: option.split)

definition new_lease :: "time \<Rightarrow> string \<Rightarrow> string \<Rightarrow> i64 \<Rightarrow> lease_manager \<Rightarrow> lease" where
  "new_lease now r w ttl m =
     \<lparr>le_Resource = r, le_Owner = w, le_Fence = lm_next m + 1, le_Acquired = now,
      le_ExpiresAt = now + sint ttl\<rparr>"

lemma Lease_Acquire_eq:
  "Lease_Acquire now r w ttl m =
     (if r = [] \<or> w = [] then (Inl LeaseInvalid, m)
      else if sint ttl \<le> 0 then (Inl LeaseTTL, m)
      else case Lease_Get now r m of
             Some c \<Rightarrow> (Inl (ErrBusy r (le_Owner c)), m)
           | None \<Rightarrow> (Inr (new_lease now r w ttl m),
               m\<lparr>lm_next := lm_next m + 1,
                 lm_leases := AList.update r (new_lease now r w ttl m) (lm_leases m)\<rparr>))"
  by (simp add: Lease_Acquire_def Lease_Get_def Let_def new_lease_def split: option.split)

lemma Lease_Acquire_cases:
  assumes "Lease_Acquire now r w ttl m = (res, m')"
  obtains (refused) e where "res = Inl e" "m' = m"
  | (granted) "res = Inr (new_lease now r w ttl m)" "0 < sint ttl" "r \<noteq> []" "w \<noteq> []"
      "Lease_Get now r m = None"
      "m' = m\<lparr>lm_next := lm_next m + 1,
              lm_leases := AList.update r (new_lease now r w ttl m) (lm_leases m)\<rparr>"
proof (cases "\<exists>e. res = Inl e \<and> m' = m")
  case True
  then show ?thesis using refused by blast
next
  case False
  with assms show ?thesis
    unfolding Lease_Acquire_eq by (intro granted) (auto split: if_splits option.splits)
qed

text \<open>What the other operations do to the lease of a resource.\<close>

lemma lease_step_lookup:
  assumes "\<And>now w ttl. op \<noteq> OpAcquire now r w ttl" "map_of (lm_leases (lease_step op m)) r = Some l'"
    "manager_ok m"
  shows "\<exists>l. map_of (lm_leases m) r = Some l \<and> le_Fence l' = le_Fence l \<and> le_Owner l' = le_Owner l
    \<and> le_Resource l' = le_Resource l"
proof (cases op)
  case (OpAcquire now r' w ttl)
  then have "r' \<noteq> r" using assms(1) by blast
  obtain res m' where acq: "Lease_Acquire now r' w ttl m = (res, m')" by fastforce
  then show ?thesis
  proof (cases rule: Lease_Acquire_cases)
    case (refused e)
    with assms(2) acq OpAcquire show ?thesis by simp
  next
    case granted
    with assms(2) acq OpAcquire \<open>r' \<noteq> r\<close> show ?thesis by (simp add: update_conv')
  qed
next
  case (OpRenew now r' w f ttl)
  with assms show ?thesis
    by (auto simp: Renew_def Let_def update_conv' AList.delete_conv' split: if_splits option.splits)
next
  case (OpRelease r' w f)
  with assms show ?thesis
    by (auto simp: Lease_Release_def AList.delete_conv' split: if_splits option.splits)
next
  case (OpSweep now)
  have "distinct (map fst (lm_leases m))" using assms(3) by (simp add: manager_ok_def)
  with OpSweep assms show ?thesis
    by (auto simp: SweepExpired_def dest!: map_of_SomeD intro: map_of_is_SomeI)
qed


lemma granted_iff:
  "granted op m = Some n \<longleftrightarrow>
     (\<exists>now r w ttl m'. op = OpAcquire now r w ttl \<and> n = unat (lm_next m + 1)
        \<and> Lease_Acquire now r w ttl m = (Inr (new_lease now r w ttl m), m')
        \<and> m' = m\<lparr>lm_next := lm_next m + 1,
                  lm_leases := AList.update r (new_lease now r w ttl m) (lm_leases m)\<rparr>)"
proof (cases op)
  case (OpAcquire now r w ttl)
  obtain res m' where acq: "Lease_Acquire now r w ttl m = (res, m')" by fastforce
  then show ?thesis
  proof (cases rule: Lease_Acquire_cases)
    case (refused e)
    with acq have "Lease_Acquire now r w ttl m = (Inl e, m)" by simp
    then show ?thesis by (simp add: granted_def OpAcquire)
  next
    case granted
    with acq show ?thesis by (auto simp: granted_def OpAcquire new_lease_def)
  qed
qed (simp_all add: granted_def)

lemma lease_step_next:
  "lm_next (lease_step op m) = (if granted op m = None then lm_next m else lm_next m + 1)"
proof (cases op)
  case (OpAcquire now r w ttl)
  obtain res m' where acq: "Lease_Acquire now r w ttl m = (res, m')" by fastforce
  then show ?thesis
    by (cases rule: Lease_Acquire_cases) (simp_all add: granted_def OpAcquire acq)
next
  case (OpRenew now r w f ttl)
  then show ?thesis by (simp add: granted_def Renew_def Let_def split: option.split)
next
  case (OpRelease r w f)
  then show ?thesis by (simp add: granted_def Lease_Release_def split: option.split)
qed (simp add: granted_def SweepExpired_def)

lemma manager_ok_step:
  assumes ok: "manager_ok m" and room: "unat (lm_next m) < 2 ^ 64 - 1"
  shows "manager_ok (lease_step op m)"
proof -
  let ?m = "lease_step op m"
  have dist: "distinct (map fst (lm_leases m))" using ok by (simp add: manager_ok_def)
  have le: "unat (lm_next m) \<le> unat (lm_next ?m)"
    using u64_Suc [OF room] by (simp add: lease_step_next)
  show ?thesis
  proof (cases "granted op m")
    case None
    then have old: "\<exists>l. map_of (lm_leases m) r = Some l \<and> le_Fence l' = le_Fence l
        \<and> le_Resource l' = le_Resource l" if "map_of (lm_leases ?m) r = Some l'" for r l'
    proof (cases "\<exists>now w ttl. op = OpAcquire now r w ttl")
      case True
      then obtain now w ttl where op: "op = OpAcquire now r w ttl" by blast
      obtain res m' where acq: "Lease_Acquire now r w ttl m = (res, m')" by fastforce
      then have "m' = m"
        by (cases rule: Lease_Acquire_cases) (use None acq op in \<open>simp_all add: granted_def\<close>)
      with that op acq show ?thesis by simp
    next
      case False
      then show ?thesis using lease_step_lookup [of op r m l'] that ok by blast
    qed
    have "distinct (map fst (lm_leases ?m))"
      using dist None
      by (cases op)
        (auto simp: Lease_Acquire_def Renew_def Lease_Release_def SweepExpired_def Let_def distinct_update
          AList.distinct_delete distinct_map_filter split: option.split)
    moreover have "le_Resource l = r \<and> unat (le_Fence l) \<le> unat (lm_next ?m)"
      if "map_of (lm_leases ?m) r = Some l" for r l
      using old [OF that] ok le by (force simp: manager_ok_def)
    moreover have "r = r'" if "map_of (lm_leases ?m) r = Some l" "map_of (lm_leases ?m) r' = Some l'"
      "le_Fence l = le_Fence l'" for r r' l l'
      using old [OF that(1)] old [OF that(2)] that(3) ok unfolding manager_ok_def by metis
    ultimately show ?thesis unfolding manager_ok_def by blast
  next
    case (Some n)
    then obtain now r w ttl where op: "op = OpAcquire now r w ttl"
      "?m = m\<lparr>lm_next := lm_next m + 1,
              lm_leases := AList.update r (new_lease now r w ttl m) (lm_leases m)\<rparr>"
      by (auto simp: granted_iff)
    have fresh: "le_Fence l \<noteq> lm_next m + 1 \<and> lm_next m + 1 \<noteq> le_Fence l"
      if "map_of (lm_leases m) r' = Some l" for r' l
      using manager_ok_fence [OF ok that room] by auto
    show ?thesis
      unfolding op(2) using ok u64_Suc [OF room] dist fresh
      by (auto simp: manager_ok_def update_conv' distinct_update new_lease_def le_SucI
          split: if_splits)
  qed
qed


section \<open>Fencing\<close>

text \<open>
  What a client of fencing tokens relies on: an operation that hands out a token hands out a
  new one, larger than all before, as long as the counter has room. From it: the tokens of any
  sequence of operations increase.
\<close>

locale fencing =
  fixes step :: "'op \<Rightarrow> 's \<Rightarrow> 's"
    and token :: "'op \<Rightarrow> 's \<Rightarrow> nat option"
    and high :: "'s \<Rightarrow> nat"
    and room :: nat
  assumes high_step: "high s < room \<Longrightarrow> high s \<le> high (step op s) \<and> high (step op s) \<le> Suc (high s)"
    and token_fresh: "high s < room \<Longrightarrow> token op s = Some n \<Longrightarrow> high s < n \<and> n \<le> high (step op s)"
begin

fun tokens :: "'op list \<Rightarrow> 's \<Rightarrow> nat list" where
  "tokens [] s = []"
| "tokens (op # ops) s =
     (case token op s of None \<Rightarrow> tokens ops (step op s) | Some n \<Rightarrow> n # tokens ops (step op s))"

lemma tokens_increase:
  "high s + length ops \<le> room \<Longrightarrow>
   sorted_wrt (<) (tokens ops s) \<and> (\<forall>n\<in>set (tokens ops s). high s < n)"
proof (induction ops arbitrary: s)
  case (Cons op ops)
  then have room: "high s < room" by simp
  have IH: "sorted_wrt (<) (tokens ops (step op s)) \<and> (\<forall>n\<in>set (tokens ops (step op s)). high (step op s) < n)"
    using Cons.prems high_step [OF room, of op] by (intro Cons.IH) simp
  show ?case
    using IH high_step [OF room, of op] token_fresh [OF room, of op]
    by (cases "token op s") fastforce+
qed simp

lemma high_steps: "high s + length ops \<le> room \<Longrightarrow> high s \<le> high (fold step ops s)
    \<and> high (fold step ops s) \<le> high s + length ops"
proof (induction ops arbitrary: s)
  case (Cons op ops)
  then have room: "high s < room" by simp
  have "high (step op s) \<le> high (fold step ops (step op s))
    \<and> high (fold step ops (step op s)) \<le> high (step op s) + length ops"
    using Cons.prems high_step [OF room, of op] by (intro Cons.IH) simp
  then show ?case using high_step [OF room, of op] by simp
qed simp

end

interpretation lease: fencing lease_step granted "\<lambda>m. unat (lm_next m)" "2 ^ 64 - 1"
proof
  fix m :: lease_manager and op and n :: nat
  assume room: "unat (lm_next m) < 2 ^ 64 - 1"
  show "unat (lm_next m) \<le> unat (lm_next (lease_step op m))
      \<and> unat (lm_next (lease_step op m)) \<le> Suc (unat (lm_next m))"
    using u64_Suc [OF room] by (simp add: lease_step_next)
  show "unat (lm_next m) < n \<and> n \<le> unat (lm_next (lease_step op m))" if "granted op m = Some n"
  proof -
    have "n = unat (lm_next m + 1)" using that by (auto simp: granted_iff)
    with that u64_Suc [OF room] show ?thesis by (simp add: lease_step_next)
  qed
qed

lemma manager_ok_steps:
  "manager_ok m \<Longrightarrow> unat (lm_next m) + length ops \<le> 2 ^ 64 - 1 \<Longrightarrow> manager_ok (fold lease_step ops m)"
proof (induction ops arbitrary: m)
  case (Cons op ops)
  then have room: "unat (lm_next m) < 2 ^ 64 - 1" by simp
  have "manager_ok (lease_step op m)" using Cons.prems(1) room by (rule manager_ok_step)
  then show ?case using Cons lease.high_step [OF room, of op] by simp
qed simp

text \<open>Once a token has been overtaken on a resource it stays so.\<close>

definition overtaken :: "nat \<Rightarrow> string \<Rightarrow> lease_manager \<Rightarrow> bool" where
  "overtaken f r m \<longleftrightarrow>
     f \<le> unat (lm_next m) \<and> (\<forall>l. map_of (lm_leases m) r = Some l \<longrightarrow> f < unat (le_Fence l))"

lemma overtaken_step:
  assumes "overtaken f r m" "manager_ok m" "unat (lm_next m) < 2 ^ 64 - 1"
  shows "overtaken f r (lease_step op m)"
proof -
  have "f < unat (le_Fence l')" if l': "map_of (lm_leases (lease_step op m)) r = Some l'" for l'
  proof (cases "\<exists>now w ttl. op = OpAcquire now r w ttl")
    case False
    then obtain l where "map_of (lm_leases m) r = Some l" "le_Fence l' = le_Fence l"
      using lease_step_lookup [of op r m l'] l' assms(2) by blast
    with assms(1) show ?thesis by (simp add: overtaken_def)
  next
    case True
    then obtain now w ttl where op: "op = OpAcquire now r w ttl" by blast
    obtain res m' where acq: "Lease_Acquire now r w ttl m = (res, m')" by fastforce
    then show ?thesis
      by (cases rule: Lease_Acquire_cases)
        (use assms l' acq op u64_Suc [OF assms(3)] in
          \<open>auto simp: overtaken_def new_lease_def update_conv'\<close>)
  qed
  moreover have "f \<le> unat (lm_next (lease_step op m))"
    using assms(1) lease.high_step [OF assms(3), of op] by (simp add: overtaken_def)
  ultimately show ?thesis by (simp add: overtaken_def)
qed

lemma overtaken_steps:
  "overtaken f r m \<Longrightarrow> manager_ok m \<Longrightarrow> unat (lm_next m) + length ops \<le> 2 ^ 64 - 1 \<Longrightarrow>
   overtaken f r (fold lease_step ops m)"
proof (induction ops arbitrary: m)
  case (Cons op ops)
  then have room: "unat (lm_next m) < 2 ^ 64 - 1" by simp
  then have "overtaken f r (lease_step op m)" "manager_ok (lease_step op m)"
    using Cons.prems overtaken_step manager_ok_step by blast+
  then show ?case using Cons lease.high_step [OF room, of op] by simp
qed simp

text \<open>A holder whose token was overtaken can neither renew nor release.\<close>

lemma overtaken_powerless:
  assumes "overtaken (unat f) r m"
  shows "(\<exists>e. Renew t r w f ttl m = (Inl e, m)) \<and> snd (Lease_Release r w f m) = m"
  using assms
  by (auto simp: overtaken_def Renew_def Lease_Release_def split: option.split)


section \<open>Properties\<close>

text \<open>
  C33: Whatever the operations, on whatever resources and with whatever clock readings, the
  tokens that \<open>Acquire\<close> hands out increase strictly, so no token is ever used twice (the
  counter wraps only after \<open>2 ^ 64 - 1\<close> operations).
\<close>
theorem tokens_strictly_increase:
  assumes "length ops \<le> 2 ^ 64 - 1"
  shows "sorted_wrt (<) (lease.tokens ops NewManager)"
  using lease.tokens_increase [of NewManager ops] assms by (simp add: NewManager_def)

definition handover :: "lease_op list" where
  "handover = [OpAcquire 0 ''file'' ''a'' 10, OpAcquire 5 ''file'' ''b'' 10, OpAcquire 10 ''file'' ''b'' 10]"

theorem tokens_strictly_increase_witness:
  "lease.tokens handover NewManager = [1, 2] \<and> sorted_wrt (<) (lease.tokens handover NewManager)"
  using tokens_strictly_increase [of handover]
  by (simp add: handover_def granted_def Lease_Acquire_def Let_def NewManager_def Expired_def)

text \<open>
  C34: A worker that lost its lease cannot disturb its successor. After the resource was
  acquired again, at any later moment and whatever happened in between, renewing or releasing with
  the old token has no effect, and the renewal is refused, even when the new holder has the same
  owner name.
\<close>
theorem stale_token_powerless:
  assumes "manager_ok m" "fst (Lease_Acquire now r w ttl m) = Inr l"
    "m2 = fold lease_step ops (snd (Lease_Acquire now r w ttl m))"
    "fst (Lease_Acquire now' r w' ttl' m2) = Inr l'"
    "m4 = fold lease_step ops' (snd (Lease_Acquire now' r w' ttl' m2))"
    "unat (lm_next m) + length ops + length ops' + 2 \<le> 2 ^ 64 - 1"
  shows "(\<exists>e. Renew t r w (le_Fence l) ttl'' m4 = (Inl e, m4))
    \<and> snd (Lease_Release r w (le_Fence l) m4) = m4
    \<and> unat (le_Fence l) < unat (le_Fence l')"
proof -
  let ?op = "OpAcquire now r w ttl" and ?op' = "OpAcquire now' r w' ttl'"
  have m2: "m2 = fold lease_step (?op # ops) m" using assms(3) by simp
  have ok2: "manager_ok m2" unfolding m2 using assms(1,6) by (intro manager_ok_steps) auto
  have n1: "unat (lm_next m) < 2 ^ 64 - 1" using assms(6) by simp
  have n2: "unat (lm_next m2) + length ops' + 1 \<le> 2 ^ 64 - 1"
    using lease.high_steps [of m "?op # ops"] assms(6) unfolding m2 by simp
  obtain m1 where acq: "Lease_Acquire now r w ttl m = (Inr l, m1)" using assms(2) by (metis prod.collapse)
  then have "unat (le_Fence l) = Suc (unat (lm_next m))" "unat (lm_next m1) = Suc (unat (lm_next m))"
    by (cases rule: Lease_Acquire_cases; use u64_Suc [OF n1] in \<open>auto simp: new_lease_def\<close>)+
  then have l: "unat (le_Fence l) \<le> unat (lm_next m2)"
    using lease.high_steps [of m1 ops] assms(3,6) acq by simp
  obtain m3 where acq': "Lease_Acquire now' r w' ttl' m2 = (Inr l', m3)"
    using assms(4) by (metis prod.collapse)
  then have l': "unat (le_Fence l') = Suc (unat (lm_next m2))"
    and m3: "unat (lm_next m3) = Suc (unat (lm_next m2))" "map_of (lm_leases m3) r = Some l'"
    by (cases rule: Lease_Acquire_cases; use u64_Suc [of "lm_next m2"] n2 in \<open>auto simp: new_lease_def update_conv'\<close>)+
  then have "overtaken (unat (le_Fence l)) r m3" using l by (simp add: overtaken_def)
  moreover have "manager_ok m3"
    using manager_ok_step [OF ok2, of ?op'] n2 acq' by simp
  ultimately have "overtaken (unat (le_Fence l)) r m4"
    using overtaken_steps [of _ r m3 ops'] assms(5) acq' n2 m3(1) by simp
  then show ?thesis using overtaken_powerless l l' by auto
qed


theorem stale_token_powerless_witness:
  "\<exists>(l :: lease) e. unat (le_Fence l) = 1
     \<and> Renew 11 ''file'' ''a'' (le_Fence l) 10 (fold lease_step handover NewManager)
         = (Inl e, fold lease_step handover NewManager)"
proof -
  let ?m2 = "fold lease_step [OpAcquire 5 ''file'' ''b'' 10]
    (snd (Lease_Acquire 0 ''file'' ''a'' 10 NewManager))"
  let ?m4 = "fold lease_step [] (snd (Lease_Acquire 10 ''file'' ''b'' 10 ?m2))"
  obtain l where l: "fst (Lease_Acquire 0 ''file'' ''a'' 10 NewManager) = Inr l" "unat (le_Fence l) = 1"
    by (simp add: Lease_Acquire_def Let_def NewManager_def)
  obtain l' where l': "fst (Lease_Acquire 10 ''file'' ''b'' 10 ?m2) = Inr l'"
    by (simp add: Lease_Acquire_def Let_def NewManager_def Expired_def)
  have m4: "?m4 = fold lease_step handover NewManager" by (simp add: handover_def)
  have "\<exists>e. Renew 11 ''file'' ''a'' (le_Fence l) 10 ?m4 = (Inl e, ?m4)"
    by (rule stale_token_powerless [OF manager_ok_new l(1) refl l' refl, THEN conjunct1])
      (simp add: NewManager_def)
  then show ?thesis unfolding m4 using l(2) by blast
qed

text \<open>What leaves a holder alone: the operations of others, and its own acquisitions.\<close>

fun disturbs :: "string \<Rightarrow> string \<Rightarrow> u64 \<Rightarrow> lease_op \<Rightarrow> bool" where
  "disturbs r w f (OpRenew now r' w' f' ttl) = (r' = r \<and> w' = w \<and> f' = f)"
| "disturbs r w f (OpRelease r' w' f') = (r' = r \<and> w' = w \<and> f' = f)"
| "disturbs r w f _ = False"

fun op_time :: "lease_op \<Rightarrow> time option" where
  "op_time (OpAcquire now r w ttl) = Some now"
| "op_time (OpRenew now r w f ttl) = Some now"
| "op_time (OpRelease r w f) = None"
| "op_time (OpSweep now) = Some now"

definition quiet :: "string \<Rightarrow> lease \<Rightarrow> lease_op \<Rightarrow> bool" where
  "quiet r l op \<longleftrightarrow>
     \<not> disturbs r (le_Owner l) (le_Fence l) op \<and> (\<forall>now. op_time op = Some now \<longrightarrow> now < le_ExpiresAt l)"

lemma quiet_step:
  assumes "map_of (lm_leases m) r = Some l" "quiet r l op" "distinct (map fst (lm_leases m))"
  shows "map_of (lm_leases (lease_step op m)) r = Some l"
proof (cases op)
  case (OpAcquire now r' w ttl)
  have "Lease_Get now r m = Some l"
    using assms OpAcquire by (simp add: Lease_Get_def Expired_def quiet_def)
  with OpAcquire assms(1) show ?thesis
    by (cases "r' = r") (auto simp: Lease_Acquire_eq update_conv' split: option.split)
next
  case (OpRenew now r' w f ttl)
  with assms show ?thesis
    by (cases "r' = r")
      (auto simp: Renew_def Let_def quiet_def update_conv' AList.delete_conv' simp del: map_of_eq_Some_iff
        split: option.split)
next
  case (OpRelease r' w f)
  with assms show ?thesis
    by (cases "r' = r")
      (auto simp: Lease_Release_def quiet_def AList.delete_conv' simp del: map_of_eq_Some_iff
        split: option.split)
next
  case (OpSweep now)
  with assms show ?thesis
    by (auto simp: SweepExpired_def quiet_def Expired_def distinct_map_filter
        intro!: map_of_is_SomeI dest: map_of_SomeD)
qed

lemma quiet_steps:
  "map_of (lm_leases m) r = Some l \<Longrightarrow> list_all (quiet r l) ops \<Longrightarrow> manager_ok m \<Longrightarrow>
   unat (lm_next m) + length ops \<le> 2 ^ 64 - 1 \<Longrightarrow> map_of (lm_leases (fold lease_step ops m)) r = Some l"
proof (induction ops arbitrary: m)
  case (Cons op ops)
  then have room: "unat (lm_next m) < 2 ^ 64 - 1" by simp
  have "map_of (lm_leases (lease_step op m)) r = Some l"
    using Cons.prems by (intro quiet_step) (simp_all add: manager_ok_def)
  then show ?case
    using Cons manager_ok_step [OF _ room, of op] lease.high_step [OF room, of op] by simp
qed simp

text \<open>
  A lease is exclusive until it expires. From its acquisition on, as long as the clocks of
  all operations read less than its expiry and its holder neither renews nor releases it, \<open>Get\<close>
  returns this lease, and every \<open>Acquire\<close> of the resource, by anyone, is refused with \<open>ErrBusy\<close>.
\<close>
theorem lease_exclusive:
  assumes "manager_ok m" "Lease_Acquire now r w ttl m = (Inr l, m1)" "list_all (quiet r l) ops"
    "unat (lm_next m) + length ops + 1 \<le> 2 ^ 64 - 1" "t < now + sint ttl"
    "r' = r" "w' \<noteq> []" "0 < sint ttl'"
  shows "Lease_Get t r (fold lease_step ops m1) = Some l
    \<and> Lease_Acquire t r' w' ttl' (fold lease_step ops m1) = (Inl (ErrBusy r w), fold lease_step ops m1)"
proof -
  have n: "unat (lm_next m) < 2 ^ 64 - 1" using assms(4) by simp
  have ok: "manager_ok m1" using manager_ok_step [OF assms(1) n, of "OpAcquire now r w ttl"] assms(2) by simp
  have l: "map_of (lm_leases m1) r = Some l" "le_ExpiresAt l = now + sint ttl" "le_Owner l = w" "r \<noteq> []"
    and next1: "unat (lm_next m1) = Suc (unat (lm_next m))"
    using assms(2)
    by (cases rule: Lease_Acquire_cases; use u64_Suc [OF n] in \<open>auto simp: new_lease_def update_conv'\<close>)+
  have "map_of (lm_leases (fold lease_step ops m1)) r = Some l"
    using l(1) assms(3) ok next1 assms(4) by (intro quiet_steps) auto
  then have "Lease_Get t r (fold lease_step ops m1) = Some l"
    using assms(5) l(2) by (simp add: Lease_Get_def Expired_def)
  with assms(6-8) l show ?thesis by (simp add: Lease_Acquire_eq)
qed

theorem lease_exclusive_witness:
  "\<exists>l m1. Lease_Acquire 0 ''file'' ''a'' 10 NewManager = (Inr l, m1)
     \<and> Lease_Acquire 9 ''file'' ''b'' 5 (fold lease_step [OpSweep 8] m1)
         = (Inl (ErrBusy ''file'' ''a''), fold lease_step [OpSweep 8] m1)"
proof -
  obtain l m1 where l: "Lease_Acquire 0 ''file'' ''a'' 10 NewManager = (Inr l, m1)" "le_ExpiresAt l = 10"
    by (simp add: Lease_Acquire_def Let_def NewManager_def)
  have "Lease_Get 9 ''file'' (fold lease_step [OpSweep 8] m1) = Some l
    \<and> Lease_Acquire 9 ''file'' ''b'' 5 (fold lease_step [OpSweep 8] m1)
         = (Inl (ErrBusy ''file'' ''a''), fold lease_step [OpSweep 8] m1)"
    by (rule lease_exclusive [OF manager_ok_new l(1)]) (simp_all add: quiet_def l(2) NewManager_def)
  with l(1) show ?thesis by blast
qed

text \<open>
  The background sweep is invisible: it returns exactly the expired leases and removes
  them, and no \<open>Get\<close>, at that moment or later, of any resource, can tell that it ran; \<open>Snapshot\<close>
  lists exactly the leases \<open>Get\<close> finds.
\<close>
theorem sweep_invisible:
  assumes "manager_ok m" "now \<le> t"
  shows "set (fst (SweepExpired now m)) = {l. \<exists>r. map_of (lm_leases m) r = Some l \<and> Expired now l}
    \<and> Lease_Get t r (snd (SweepExpired now m)) = Lease_Get t r m
    \<and> set (Lease_Snapshot now m) = {l. \<exists>r. Lease_Get now r m = Some l}"
proof -
  have dist: "distinct (map fst (lm_leases m))" using assms(1) by (simp add: manager_ok_def)
  have mem: "map_of (lm_leases m) r = Some l \<longleftrightarrow> (r, l) \<in> set (lm_leases m)" for r l
    using dist by (simp add: map_of_eq_Some_iff)
  have swept: "map_of (lm_leases (snd (SweepExpired now m))) r = Some l \<longleftrightarrow>
      (r, l) \<in> set (lm_leases m) \<and> \<not> Expired now l" for r l
    using dist by (simp add: SweepExpired_def map_of_eq_Some_iff distinct_map_filter)
  have "Lease_Get t r (snd (SweepExpired now m)) = Some l \<longleftrightarrow> Lease_Get t r m = Some l" for l
    using assms(2) by (auto simp only: Lease_Get_Some swept mem) (auto simp: Expired_def)
  then have "Lease_Get t r (snd (SweepExpired now m)) = Lease_Get t r m"
    by (metis not_None_eq)
  moreover have "set (fst (SweepExpired now m)) = {l. \<exists>r. map_of (lm_leases m) r = Some l \<and> Expired now l}"
    "set (Lease_Snapshot now m) = {l. \<exists>r. Lease_Get now r m = Some l}"
    unfolding Lease_Get_Some mem by (force simp: SweepExpired_def Lease_Snapshot_def)+
  ultimately show ?thesis by simp
qed

theorem sweep_invisible_witness:
  "Lease_Get 12 ''file'' (snd (SweepExpired 11 (fold lease_step handover NewManager)))
     = Lease_Get 12 ''file'' (fold lease_step handover NewManager)"
proof -
  have "manager_ok (fold lease_step handover NewManager)"
    using manager_ok_steps [OF manager_ok_new, of handover] by (simp add: NewManager_def handover_def)
  then show ?thesis using sweep_invisible [of _ 11 12] by simp
qed

end
