(* ===== verification/Model.thy ===== *)
theory Model
  imports Sha256
begin

text \<open>
  The data of \<open>segmentmerge/model.go\<close>, the errors of \<open>segmentmerge/errors.go\<close> and the
  checks of \<open>segmentmerge/checksum.go\<close>.

  An error value keeps its sentinel and the data its text is made of; the text itself is
  not built. \<open>errors_is\<close> is \<open>errors.Is\<close> on these values: a wrapped error (\<open>%w\<close>) is
  found below the message that wraps it.
\<close>

section \<open>Data\<close>

record segment =
  seg_ID :: string
  seg_Offset :: i64
  seg_StoredSize :: i64
  seg_LogicalSize :: i64
  seg_Digest :: string
  seg_Encoding :: string

record manifest =
  mf_FileID :: string
  mf_Version :: string
  mf_TotalSize :: i64
  mf_Segments :: "segment list"

definition EncodingRaw :: string where "EncodingRaw = ''raw''"
definition EncodingGzip :: string where "EncodingGzip = ''gzip''"

record plan_entry =
  pe_Ordinal :: int
  pe_MemoryWeight :: i64
  pe_Segment :: segment

record merge_plan =
  pl_FileID :: string
  pl_Version :: string
  pl_TotalSize :: i64
  pl_StartOrdinal :: int
  pl_SessionID :: string
  pl_Entries :: "plan_entry list"

text \<open>A lease of the byte budget is a pointer; \<open>Some l\<close> is the address, \<open>None\<close> is nil.\<close>

record loaded_segment =
  ls_Entry :: plan_entry
  ls_Data :: bytes
  ls_lease :: "nat option"

record checkpoint =
  cp_FileID :: string
  cp_Version :: string
  cp_SessionID :: string
  cp_NextOrdinal :: int
  cp_OutputSize :: i64

definition Matches :: "checkpoint \<Rightarrow> manifest \<Rightarrow> bool" where
  "Matches cp m \<longleftrightarrow> cp_FileID cp = mf_FileID m \<and> cp_Version cp = mf_Version m"

record commit_receipt =
  rc_FileID :: string
  rc_Version :: string
  rc_Size :: i64
  rc_Digest :: string

record merge_result =
  mr_FileID :: string
  mr_Version :: string
  mr_Size :: i64
  mr_Digest :: string
  mr_SegmentCount :: int
  mr_Resumed :: bool
  mr_BudgetLimit :: i64
  mr_PeakResidentBytes :: i64


section \<open>Errors\<close>

datatype sentinel =
    S_InvalidManifest | S_SegmentNotFound | S_SegmentIntegrity | S_CheckpointMismatch
  | S_WriterState | S_BudgetExceeded | S_Canceled | S_DeadlineExceeded

datatype manifest_fault =
    MissingIdentity
  | InvalidBounds nat
  | DuplicateSegment string
  | Overlap string
  | ExceedsTotal string
  | UnsupportedEncoding string
  | InvalidDigest string

datatype integrity_fault =
    StoredSizeMismatch string nat i64
  | LogicalSizeMismatch string nat i64
  | DigestMismatch string

datatype writer_fault =
    ResumeSession string
  | SessionState
  | InvalidReceipt
  | IncompleteResults

datatype budget_fault =
    WeightExceeds i64 i64
  | ResidentExceeds int

datatype gzip_fault = GzipHeader | GzipData | GzipClose

datatype sm_error =
    ErrInvalidManifest manifest_fault
  | ErrSegmentNotFound string
  | ErrSegmentIntegrity integrity_fault
  | ErrCheckpointMismatch string string
  | ErrWriterState writer_fault
  | ErrBudgetExceeded budget_fault
  | CtxErr ctx_error
  | SourceIO nat
  | OpenSegment string sm_error
  | ReadSegment string sm_error
  | CloseSegment string sm_error
  | DecodeSegment string gzip_fault
  | WriteSegment string sm_error
  | MakeSlicePanic

fun errors_is :: "sm_error \<Rightarrow> sentinel \<Rightarrow> bool" where
  "errors_is (ErrInvalidManifest _) s = (s = S_InvalidManifest)"
| "errors_is (ErrSegmentNotFound _) s = (s = S_SegmentNotFound)"
| "errors_is (ErrSegmentIntegrity _) s = (s = S_SegmentIntegrity)"
| "errors_is (ErrCheckpointMismatch _ _) s = (s = S_CheckpointMismatch)"
| "errors_is (ErrWriterState _) s = (s = S_WriterState)"
| "errors_is (ErrBudgetExceeded _) s = (s = S_BudgetExceeded)"
| "errors_is (CtxErr Canceled) s = (s = S_Canceled)"
| "errors_is (CtxErr DeadlineExceeded) s = (s = S_DeadlineExceeded)"
| "errors_is (OpenSegment _ e) s = errors_is e s"
| "errors_is (ReadSegment _ e) s = errors_is e s"
| "errors_is (CloseSegment _ e) s = errors_is e s"
| "errors_is (WriteSegment _ e) s = errors_is e s"
| "errors_is (SourceIO _) s = False"
| "errors_is (DecodeSegment _ _) s = False"
| "errors_is MakeSlicePanic s = False"


section \<open>Checksums\<close>

definition Digest :: "bytes \<Rightarrow> string" where
  "Digest data = hex_encode (Sum256 data)"

text \<open>The check \<open>err != nil || len(decoded) != 32\<close> of two callers, negated.\<close>

definition sha_digest :: "string \<Rightarrow> bool" where
  "sha_digest s = (case hex_decode s of None \<Rightarrow> False | Some d \<Rightarrow> length d = 32)"

definition verifyLogicalSegment :: "segment \<Rightarrow> bytes \<Rightarrow> sm_error option" where
  "verifyLogicalSegment s data =
     (if int (length data) \<noteq> sint (seg_LogicalSize s)
      then Some (ErrSegmentIntegrity
             (LogicalSizeMismatch (seg_ID s) (length data) (seg_LogicalSize s)))
      else if Digest data \<noteq> seg_Digest s
      then Some (ErrSegmentIntegrity (DigestMismatch (seg_ID s)))
      else None)"

definition validateReceipt :: "commit_receipt \<Rightarrow> sm_error option" where
  "validateReceipt r =
     (if rc_FileID r = [] \<or> rc_Version r = [] \<or> sint (rc_Size r) < 0 \<or> \<not> sha_digest (rc_Digest r)
      then Some (ErrWriterState InvalidReceipt) else None)"

lemma sha_digest_Digest [simp]: "sha_digest (Digest data)"
  by (simp add: sha_digest_def Digest_def)

lemma verifyLogicalSegment_None:
  "verifyLogicalSegment s data = None \<longleftrightarrow>
   int (length data) = sint (seg_LogicalSize s) \<and> Digest data = seg_Digest s"
  by (simp add: verifyLogicalSegment_def)

lemma verifyLogicalSegment_Some:
  "verifyLogicalSegment s data = Some e \<Longrightarrow> errors_is e S_SegmentIntegrity"
  by (auto simp: verifyLogicalSegment_def split: if_splits)

lemma validateReceipt_None:
  "validateReceipt r = None \<longleftrightarrow>
   rc_FileID r \<noteq> [] \<and> rc_Version r \<noteq> [] \<and> 0 \<le> sint (rc_Size r) \<and> sha_digest (rc_Digest r)"
  by (auto simp: validateReceipt_def)

end
