(* ===== verification/Manifest.thy ===== *)
theory Manifest
  imports Model
begin

text \<open>
  \<open>segmentmerge/manifest.go\<close>: \<open>CompileManifest\<close> trims the identity, copies and sorts the
  segments and validates them in one pass. \<open>sort.Slice\<close> is a parameter of
  \<open>compile_with\<close>; \<open>CompileManifest\<close> runs it with insertion sort, and
  \<open>compile_with_any_sorter\<close> shows that another sorter gives the same manifests.

  The specification \<open>layout_ok\<close> is about the segments in the caller's order: pairwise
  disjoint ranges inside the file, distinct names. What the pass checks on the sorted
  slice (each segment starts at or after the end of the one before) is equivalent to it.
\<close>

section \<open>The pass over the sorted segments\<close>

definition seg_less :: "segment \<Rightarrow> segment \<Rightarrow> bool" where
  "seg_less a b =
     (if sint (seg_Offset a) \<noteq> sint (seg_Offset b)
      then sint (seg_Offset a) < sint (seg_Offset b)
      else seg_ID a < seg_ID b)"

fun check_segments ::
  "i64 \<Rightarrow> nat \<Rightarrow> string set \<Rightarrow> i64 \<Rightarrow> segment list \<Rightarrow> manifest_fault option" where
  "check_segments tot index seen previousEnd [] = None"
| "check_segments tot index seen previousEnd (s # ss) =
     (if seg_ID s = [] \<or> sint (seg_Offset s) < 0 \<or> sint (seg_StoredSize s) \<le> 0
         \<or> sint (seg_LogicalSize s) \<le> 0
      then Some (InvalidBounds index)
      else if seg_ID s \<in> seen then Some (DuplicateSegment (seg_ID s))
      else if sint (seg_Offset s) < sint previousEnd then Some (Overlap (seg_ID s))
      else if sint (seg_Offset s) > sint (tot - seg_LogicalSize s)
      then Some (ExceedsTotal (seg_ID s))
      else if seg_Encoding s \<noteq> EncodingRaw \<and> seg_Encoding s \<noteq> EncodingGzip
      then Some (UnsupportedEncoding (seg_ID s))
      else if \<not> sha_digest (seg_Digest s) then Some (InvalidDigest (seg_ID s))
      else check_segments tot (Suc index) (insert (seg_ID s) seen)
             (seg_Offset s + seg_LogicalSize s) ss)"

definition compile_with ::
  "(segment list \<Rightarrow> segment list) \<Rightarrow> manifest \<Rightarrow> sm_error + manifest" where
  "compile_with sorter input =
     (let m = input\<lparr>mf_FileID := trim_space (mf_FileID input),
                    mf_Version := trim_space (mf_Version input)\<rparr>
      in if mf_FileID m = [] \<or> mf_Version m = [] \<or> sint (mf_TotalSize m) < 0
         then Inl (ErrInvalidManifest MissingIdentity)
         else let m' = m\<lparr>mf_Segments := sorter (mf_Segments input)\<rparr>
              in case check_segments (mf_TotalSize m') 0 {} 0 (mf_Segments m') of
                   Some f \<Rightarrow> Inl (ErrInvalidManifest f)
                 | None \<Rightarrow> Inr m')"

definition CompileManifest :: "manifest \<Rightarrow> sm_error + manifest" where
  "CompileManifest = compile_with (sort_slice seg_less)"

interpretation seg: weak_order seg_less
  by unfold_locales (auto simp: seg_less_def split: if_splits)


section \<open>What a valid layout is\<close>

definition seg_start :: "segment \<Rightarrow> int" where
  "seg_start s = sint (seg_Offset s)"

definition seg_end :: "segment \<Rightarrow> int" where
  "seg_end s = sint (seg_Offset s) + sint (seg_LogicalSize s)"

definition seg_ok :: "i64 \<Rightarrow> segment \<Rightarrow> bool" where
  "seg_ok tot s \<longleftrightarrow>
     seg_ID s \<noteq> [] \<and> 0 \<le> seg_start s \<and> 0 < sint (seg_StoredSize s) \<and> seg_start s < seg_end s
     \<and> seg_end s \<le> sint tot \<and> (seg_Encoding s = EncodingRaw \<or> seg_Encoding s = EncodingGzip)
     \<and> sha_digest (seg_Digest s)"

definition disjoint_segs :: "segment \<Rightarrow> segment \<Rightarrow> bool" where
  "disjoint_segs a b \<longleftrightarrow> seg_end a \<le> seg_start b \<or> seg_end b \<le> seg_start a"

definition layout_ok :: "i64 \<Rightarrow> segment list \<Rightarrow> bool" where
  "layout_ok tot ss \<longleftrightarrow>
     list_all (seg_ok tot) ss \<and> distinct (map seg_ID ss) \<and> sorted_wrt disjoint_segs ss"

definition manifest_ok :: "manifest \<Rightarrow> bool" where
  "manifest_ok m \<longleftrightarrow>
     trim_space (mf_FileID m) \<noteq> [] \<and> trim_space (mf_Version m) \<noteq> []
     \<and> 0 \<le> sint (mf_TotalSize m) \<and> layout_ok (mf_TotalSize m) (mf_Segments m)"

definition normalise :: "manifest \<Rightarrow> manifest" where
  "normalise m =
     m\<lparr>mf_FileID := trim_space (mf_FileID m), mf_Version := trim_space (mf_Version m),
       mf_Segments := sort_slice seg_less (mf_Segments m)\<rparr>"

text \<open>The ranges of the segments follow each other.\<close>

definition in_order :: "segment list \<Rightarrow> bool" where
  "in_order ss \<longleftrightarrow> sorted_wrt (\<lambda>a b. seg_end a \<le> seg_start b) ss"

lemmas seg_defs = seg_start_def seg_end_def

lemma seg_ok_sizes:
  assumes "seg_ok tot s"
  shows "0 \<le> sint (seg_Offset s)" "0 < sint (seg_LogicalSize s)" "0 < sint (seg_StoredSize s)"
    "sint (seg_Offset s) + sint (seg_LogicalSize s) \<le> sint tot"
  using assms by (auto simp: seg_ok_def seg_defs)

text \<open>Neither the subtraction nor the addition of the pass can overflow.\<close>

lemma seg_arith:
  assumes "0 \<le> sint tot" "0 \<le> sint (seg_Offset s)" "0 < sint (seg_LogicalSize s)"
  shows "sint (tot - seg_LogicalSize s) = sint tot - sint (seg_LogicalSize s)"
    and "sint (seg_Offset s) + sint (seg_LogicalSize s) \<le> sint tot \<Longrightarrow>
         sint (seg_Offset s + seg_LogicalSize s) = seg_end s"
  using assms sint_sub_nonneg [of tot "seg_LogicalSize s"]
    sint_add_le [of "seg_Offset s" "seg_LogicalSize s" tot]
  by (auto simp: seg_end_def)

lemma check_segments_None:
  assumes "0 \<le> sint tot"
  shows "check_segments tot i seen prev ss = None \<longleftrightarrow>
    list_all (seg_ok tot) ss \<and> distinct (map seg_ID ss) \<and> seg_ID ` set ss \<inter> seen = {}
    \<and> in_order ss \<and> list_all (\<lambda>s. sint prev \<le> seg_start s) ss"
proof (induction ss arbitrary: i seen prev)
  case Nil
  then show ?case by (simp add: in_order_def)
next
  case (Cons s ss)
  show ?case
  proof (cases "seg_ok tot s")
    case False
    then have "check_segments tot i seen prev (s # ss) \<noteq> None"
      using seg_arith [of tot s] assms by (auto simp: seg_ok_def seg_defs)
    with False show ?thesis by simp
  next
    case True
    note sz = seg_ok_sizes [OF True]
    have nowrap: "sint (tot - seg_LogicalSize s) = sint tot - sint (seg_LogicalSize s)"
      "sint (seg_Offset s + seg_LogicalSize s) = seg_end s"
      using seg_arith [of tot s] assms sz by auto
    have unfold: "check_segments tot i seen prev (s # ss) = None \<longleftrightarrow>
      seg_ID s \<notin> seen \<and> sint prev \<le> seg_start s \<and>
      check_segments tot (Suc i) (insert (seg_ID s) seen) (seg_Offset s + seg_LogicalSize s) ss = None"
      using True sz nowrap by (auto simp: seg_ok_def seg_defs)
    have mono: "list_all (\<lambda>t. sint prev \<le> seg_start t) ss"
      if "sint prev \<le> seg_start s" "list_all (\<lambda>t. seg_end s \<le> seg_start t) ss"
      using that True by (auto simp: list_all_iff seg_ok_def)
    show ?thesis
      unfolding unfold Cons.IH nowrap using True mono
      by (auto simp: in_order_def list_all_iff)
  qed
qed


section \<open>Sorted order and disjoint ranges\<close>

lemma in_order_disjoint: "in_order ss \<Longrightarrow> sorted_wrt disjoint_segs ss"
  unfolding in_order_def by (erule sorted_wrt_mono_rel [rotated]) (auto simp: disjoint_segs_def)

text \<open>Disjoint ranges in the order of their offsets follow each other.\<close>

lemma disjoint_in_order:
  assumes "list_all (seg_ok tot) ss" "sorted_wrt disjoint_segs ss"
    "sorted_wrt (\<lambda>a b. \<not> seg_less b a) ss"
  shows "in_order ss"
proof -
  have "sorted_wrt (\<lambda>a b. disjoint_segs a b \<and> \<not> seg_less b a) ss"
    using assms(2,3) by (simp add: sorted_wrt_iff_nth_less)
  then show ?thesis
    unfolding in_order_def
  proof (rule sorted_wrt_mono_rel [rotated])
    fix a b
    assume "a \<in> set ss" "b \<in> set ss" "disjoint_segs a b \<and> \<not> seg_less b a"
    moreover from this have "seg_ok tot a" "seg_ok tot b"
      using assms(1) by (auto simp: list_all_iff)
    ultimately show "seg_end a \<le> seg_start b"
      by (auto simp: disjoint_segs_def seg_less_def seg_ok_def seg_defs split: if_splits)
  qed
qed

lemma in_order_sorted:
  assumes "list_all (seg_ok tot) ss" "in_order ss"
  shows "sorted_wrt (\<lambda>a b. \<not> seg_less b a) ss"
  using assms(2) unfolding in_order_def
proof (rule sorted_wrt_mono_rel [rotated])
  fix a b
  assume "a \<in> set ss" "b \<in> set ss" and le: "seg_end a \<le> seg_start b"
  with assms(1) have "seg_start a < seg_start b" by (force simp: list_all_iff seg_ok_def)
  then show "\<not> seg_less b a" by (simp add: seg_less_def seg_start_def)
qed

text \<open>\<open>layout_ok\<close> does not depend on the order of the list.\<close>

lemma sorted_wrt_sym_mset:
  assumes "\<And>x y. R x y \<Longrightarrow> R y x" "mset xs = mset ys" "sorted_wrt R xs"
  shows "sorted_wrt R ys"
  using assms(2,3)
proof (induction xs arbitrary: ys)
  case (Cons x xs)
  then have "x \<in> set ys" by (metis list.set_intros(1) set_mset_mset)
  then obtain us vs where ys: "ys = us @ x # vs" by (meson split_list)
  with Cons have *: "mset xs = mset (us @ vs)" by simp
  then have "set xs = set us \<union> set vs" by (metis set_append set_mset_mset)
  moreover have "sorted_wrt R (us @ vs)" using Cons * by auto
  ultimately show ?case
    using Cons.prems assms(1) by (auto simp: ys sorted_wrt_append)
qed simp

lemma disjoint_segs_sym: "disjoint_segs a b \<Longrightarrow> disjoint_segs b a"
  by (auto simp: disjoint_segs_def)

lemma layout_ok_perm:
  assumes "mset xs = mset ys"
  shows "layout_ok tot xs \<longleftrightarrow> layout_ok tot ys"
proof -
  have "set xs = set ys" using assms by (metis set_mset_mset)
  moreover have "distinct (map seg_ID xs) = distinct (map seg_ID ys)"
    by (metis assms mset_eq_imp_distinct_iff mset_map)
  moreover have "sorted_wrt disjoint_segs xs = sorted_wrt disjoint_segs ys"
    using sorted_wrt_sym_mset [of disjoint_segs, OF disjoint_segs_sym assms]
      sorted_wrt_sym_mset [of disjoint_segs, OF disjoint_segs_sym assms [symmetric]]
    by blast
  ultimately show ?thesis by (simp add: layout_ok_def list_all_iff)
qed

lemma layout_ok_total:
  assumes "layout_ok tot ss" "x \<in> set ss" "y \<in> set ss" "x \<noteq> y"
  shows "seg_less x y \<or> seg_less y x"
proof -
  have "seg_ID x \<noteq> seg_ID y"
    using assms by (auto simp: layout_ok_def distinct_map dest: inj_onD)
  then show ?thesis by (auto simp: seg_less_def)
qed


section \<open>What CompileManifest returns\<close>

lemma compile_with_Inr:
  "compile_with sorter m = Inr c \<longleftrightarrow>
     c = m\<lparr>mf_FileID := trim_space (mf_FileID m), mf_Version := trim_space (mf_Version m),
            mf_Segments := sorter (mf_Segments m)\<rparr>
     \<and> trim_space (mf_FileID m) \<noteq> [] \<and> trim_space (mf_Version m) \<noteq> []
     \<and> 0 \<le> sint (mf_TotalSize m)
     \<and> check_segments (mf_TotalSize m) 0 {} 0 (sorter (mf_Segments m)) = None"
  by (auto simp: compile_with_def Let_def split: option.splits)

lemma compile_with_Inl:
  "compile_with sorter m = Inl e \<Longrightarrow> \<exists>f. e = ErrInvalidManifest f"
  by (auto simp: compile_with_def Let_def split: if_splits option.splits)

lemma check_sorter:
  assumes "slice_sorter seg_less sorter" "0 \<le> sint tot"
  shows "check_segments tot 0 {} 0 (sorter ss) = None \<longleftrightarrow> layout_ok tot ss"
proof -
  have mset: "mset (sorter ss) = mset ss"
    and sorted: "sorted_wrt (\<lambda>a b. \<not> seg_less b a) (sorter ss)"
    using slice_sorter.mset_sorter slice_sorter.sorted_sorter assms(1) by blast+
  have "check_segments tot 0 {} 0 (sorter ss) = None \<longleftrightarrow>
      list_all (seg_ok tot) (sorter ss) \<and> distinct (map seg_ID (sorter ss)) \<and> in_order (sorter ss)"
    using assms(2) by (auto simp: check_segments_None list_all_iff seg_ok_def)
  also have "\<dots> \<longleftrightarrow> layout_ok tot (sorter ss)"
    using sorted in_order_disjoint disjoint_in_order by (auto simp: layout_ok_def)
  also have "\<dots> \<longleftrightarrow> layout_ok tot ss"
    using mset by (rule layout_ok_perm)
  finally show ?thesis .
qed

lemma sort_slice_sorter: "slice_sorter seg_less (sort_slice seg_less)"
  by unfold_locales (simp_all add: seg.sorted_sort_slice)

lemma CompileManifest_Inr: "CompileManifest m = Inr c \<longleftrightarrow> manifest_ok m \<and> c = normalise m"
  by (auto simp: CompileManifest_def compile_with_Inr manifest_ok_def normalise_def
      check_sorter [OF sort_slice_sorter])

lemma CompileManifest_Inl: "CompileManifest m = Inl e \<Longrightarrow> \<exists>f. e = ErrInvalidManifest f"
  by (auto simp: CompileManifest_def dest: compile_with_Inl)

text \<open>Facts about a compiled manifest that the planner and the merger use.\<close>

lemma compiled_layout:
  assumes "CompileManifest m = Inr c"
  shows "layout_ok (mf_TotalSize c) (mf_Segments c)" "in_order (mf_Segments c)"
    "0 \<le> sint (mf_TotalSize c)" "mf_FileID c \<noteq> []" "mf_Version c \<noteq> []"
    "list_all (seg_ok (mf_TotalSize c)) (mf_Segments c)"
proof -
  from assms have m: "manifest_ok m" and c: "c = normalise m"
    by (simp_all add: CompileManifest_Inr)
  have lay: "layout_ok (mf_TotalSize c) (sort_slice seg_less (mf_Segments m))"
    using m c by (simp add: manifest_ok_def normalise_def
        layout_ok_perm [of "sort_slice seg_less (mf_Segments m)" "mf_Segments m"])
  with c show "layout_ok (mf_TotalSize c) (mf_Segments c)" by (simp add: normalise_def)
  then show "list_all (seg_ok (mf_TotalSize c)) (mf_Segments c)" by (simp add: layout_ok_def)
  show "in_order (mf_Segments c)"
    using lay c disjoint_in_order [OF _ _ seg.sorted_sort_slice]
    by (auto simp: layout_ok_def normalise_def)
qed (use assms in \<open>auto simp: CompileManifest_Inr manifest_ok_def normalise_def\<close>)

lemma compiled_again:
  assumes "CompileManifest m = Inr c"
  shows "CompileManifest c = Inr c"
proof -
  note lay = compiled_layout [OF assms]
  have "sort_slice seg_less (mf_Segments c) = mf_Segments c"
    using lay in_order_sorted layout_ok_total by (intro seg.ins.sorter_id) blast+
  moreover have "trim_space (mf_FileID c) = mf_FileID c" "trim_space (mf_Version c) = mf_Version c"
    using assms by (auto simp: CompileManifest_Inr normalise_def)
  ultimately show ?thesis
    using lay by (simp add: CompileManifest_Inr manifest_ok_def normalise_def)
qed

text \<open>The ranges of a compiled manifest fit in the file together.\<close>

lemma in_order_sum:
  assumes "list_all (seg_ok tot) ss" "in_order ss" "0 \<le> lo"
    "list_all (\<lambda>s. lo \<le> seg_start s) ss" "lo \<le> sint tot"
  shows "lo + (\<Sum>s\<leftarrow>ss. sint (seg_LogicalSize s)) \<le> sint tot"
  using assms
proof (induction ss arbitrary: lo)
  case (Cons s ss)
  then have s: "seg_ok tot s" "lo \<le> seg_start s" by auto
  have "seg_end s + (\<Sum>s\<leftarrow>ss. sint (seg_LogicalSize s)) \<le> sint tot"
    using Cons.prems s by (intro Cons.IH) (auto simp: in_order_def list_all_iff seg_ok_def)
  with s(2) show ?case by (simp add: seg_defs)
qed simp


section \<open>The manifest of the demo program\<close>

text \<open>\<open>cmd/merge-demo/main.go\<close>: two raw segments, used to evaluate the model.\<close>

definition bytes_of :: "string \<Rightarrow> bytes" where
  "bytes_of s = map (\<lambda>c. word_of_nat (of_char c)) s"

definition raw_segment :: "string \<Rightarrow> i64 \<Rightarrow> bytes \<Rightarrow> segment" where
  "raw_segment i off d =
     \<lparr>seg_ID = i, seg_Offset = off, seg_StoredSize = word_of_int (int (length d)),
      seg_LogicalSize = word_of_int (int (length d)), seg_Digest = Digest d,
      seg_Encoding = EncodingRaw\<rparr>"

definition demo_first :: bytes where "demo_first = bytes_of ''hello ''"
definition demo_second :: bytes where "demo_second = bytes_of ''world''"

definition demo_manifest :: manifest where
  "demo_manifest =
     \<lparr>mf_FileID = ''demo'', mf_Version = ''v1'',
      mf_TotalSize = word_of_int (int (length demo_first + length demo_second)),
      mf_Segments = [raw_segment ''part-1'' 0 demo_first,
                     raw_segment ''part-2'' (word_of_int (int (length demo_first))) demo_second]\<rparr>"

lemma length_bytes_of [simp]: "length (bytes_of s) = length s"
  by (simp add: bytes_of_def)

lemmas demo_defs = demo_manifest_def raw_segment_def demo_first_def demo_second_def

lemma demo_trim [simp]: "trim_space ''demo'' = ''demo''" "trim_space ''v1'' = ''v1''"
  by (simp_all add: trim_space_graphic graphic_def)

lemma demo_manifest_ok: "manifest_ok demo_manifest"
  by (simp add: manifest_ok_def layout_ok_def seg_ok_def disjoint_segs_def seg_defs demo_defs)

lemma demo_compiled: "CompileManifest demo_manifest = Inr demo_manifest"
  by (simp add: CompileManifest_Inr demo_manifest_ok)
    (simp add: normalise_def sort_slice_def seg_less_def demo_defs)


section \<open>Properties\<close>

text \<open>
  C27: \<open>CompileManifest\<close> accepts a manifest exactly when it has an identity after trimming
  and its segments, in any order, are well formed, have distinct names and occupy pairwise
  disjoint ranges inside the file. It then returns the trimmed manifest with the segments
  sorted, and otherwise an error that is \<open>ErrInvalidManifest\<close>.
\<close>
theorem CompileManifest_decides:
  "case CompileManifest m of
     Inr c \<Rightarrow> manifest_ok m \<and> c = normalise m
   | Inl e \<Rightarrow> \<not> manifest_ok m \<and> errors_is e S_InvalidManifest"
proof (cases "CompileManifest m")
  case (Inl e)
  then have "\<not> manifest_ok m" using CompileManifest_Inr [of m "normalise m"] by auto
  with Inl show ?thesis by (auto dest: CompileManifest_Inl)
next
  case (Inr c)
  then show ?thesis using CompileManifest_Inr [of m c] by simp
qed

text \<open>
  In a compiled manifest the end of a segment, computed in 64-bit arithmetic, is its
  mathematical end; it is at most the start of every later segment; and the logical sizes
  add up to at most the total size.
\<close>
theorem compiled_ranges:
  assumes "CompileManifest m = Inr c" "i < j" "j < length (mf_Segments c)"
  shows "sint (seg_Offset (mf_Segments c ! i) + seg_LogicalSize (mf_Segments c ! i))
           = seg_end (mf_Segments c ! i)
    \<and> seg_end (mf_Segments c ! i) \<le> seg_start (mf_Segments c ! j)
    \<and> seg_end (mf_Segments c ! j) \<le> sint (mf_TotalSize c)
    \<and> (\<Sum>s\<leftarrow>mf_Segments c. sint (seg_LogicalSize s)) \<le> sint (mf_TotalSize c)"
proof (intro conjI)
  note lay = compiled_layout [OF assms(1)]
  have ok: "seg_ok (mf_TotalSize c) (mf_Segments c ! k)" if "k < length (mf_Segments c)" for k
    using lay(6) that by (auto simp: list_all_length)
  from ok [of i] assms(2,3) lay(3)
  show "sint (seg_Offset (mf_Segments c ! i) + seg_LogicalSize (mf_Segments c ! i))
           = seg_end (mf_Segments c ! i)"
    by (intro seg_arith(2) [where tot = "mf_TotalSize c"]) (auto dest: seg_ok_sizes)
  show "seg_end (mf_Segments c ! i) \<le> seg_start (mf_Segments c ! j)"
    using lay(2) assms(2,3) by (auto simp: in_order_def sorted_wrt_iff_nth_less)
  show "seg_end (mf_Segments c ! j) \<le> sint (mf_TotalSize c)"
    using ok [OF assms(3)] by (simp add: seg_ok_def)
  show "(\<Sum>s\<leftarrow>mf_Segments c. sint (seg_LogicalSize s)) \<le> sint (mf_TotalSize c)"
    using in_order_sum [OF lay(6,2), of 0] lay(3,6)
    by (auto simp: list_all_iff seg_ok_def)
qed

theorem compiled_ranges_witness:
  "seg_end (mf_Segments demo_manifest ! 0) \<le> seg_start (mf_Segments demo_manifest ! 1)
   \<and> seg_end (mf_Segments demo_manifest ! 1) \<le> sint (mf_TotalSize demo_manifest)"
  using compiled_ranges [OF demo_compiled, of 0 1] by (simp add: demo_defs)

text \<open>
  Compiling a compiled manifest changes nothing; \<open>BuildPlan\<close> and \<open>EncodeManifest\<close>
  compile again what the merger has compiled.
\<close>
theorem CompileManifest_idempotent:
  assumes "CompileManifest m = Inr c"
  shows "CompileManifest c = Inr c"
  using assms by (rule compiled_again)

theorem CompileManifest_idempotent_witness: "CompileManifest demo_manifest = Inr demo_manifest"
  using CompileManifest_idempotent [OF demo_compiled] .

text \<open>
  The compiled manifest depends neither on the sorting algorithm nor on the order of the
  caller's segments: with any sorter that keeps the contract of \<open>sort.Slice\<close>, and the
  segments permuted, the same manifests compile and to the same result.
\<close>
theorem compile_with_any_sorter:
  assumes "slice_sorter seg_less sorter" "mset ss = mset (mf_Segments m)"
  shows "compile_with sorter (m\<lparr>mf_Segments := ss\<rparr>) = Inr c \<longleftrightarrow> CompileManifest m = Inr c"
proof -
  have "sorter ss = sort_slice seg_less (mf_Segments m)" if "layout_ok (mf_TotalSize m) ss"
    using slice_sorter.sorted_unique [OF assms(1), of "sorter ss" "sort_slice seg_less (mf_Segments m)"]
      slice_sorter.set_sorter [OF assms(1)] slice_sorter.mset_sorter [OF assms(1)]
      slice_sorter.sorted_sorter [OF assms(1)] layout_ok_total [OF that] assms(2)
    by (simp add: seg.sorted_sort_slice)
  then show ?thesis
    by (auto simp: compile_with_Inr CompileManifest_Inr manifest_ok_def normalise_def
        check_sorter [OF assms(1)] check_sorter [OF sort_slice_sorter] layout_ok_perm [OF assms(2)])
qed

theorem compile_with_any_sorter_witness:
  "compile_with (\<lambda>xs. sort_slice seg_less (rev xs))
     (demo_manifest\<lparr>mf_Segments := rev (mf_Segments demo_manifest)\<rparr>) = Inr demo_manifest"
proof -
  have "slice_sorter seg_less (\<lambda>xs. sort_slice seg_less (rev xs))"
    by unfold_locales (simp_all add: seg.sorted_sort_slice)
  then show ?thesis
    using compile_with_any_sorter [of _ "rev (mf_Segments demo_manifest)" demo_manifest] demo_compiled
    by simp
qed

text \<open>
  The digest of a segment may be written in either case as far as \<open>CompileManifest\<close> is
  concerned, but no data verifies against a digest with an upper case letter, because
  \<open>Digest\<close> writes lower case and \<open>verifyLogicalSegment\<close> compares the strings.
\<close>
theorem upper_case_digest_never_verifies:
  assumes "c \<in> set (seg_Digest s)" "upper_hex c"
  shows "\<exists>e. verifyLogicalSegment s data = Some e \<and> errors_is e S_SegmentIntegrity"
proof -
  have "Digest data \<noteq> seg_Digest s"
    using assms hex_encode_not_upper by (metis Digest_def)
  then show ?thesis by (auto simp: verifyLogicalSegment_def)
qed

definition upper_segment :: segment where
  "upper_segment =
     (raw_segment ''part-1'' 0 demo_first)\<lparr>seg_Digest := concat (replicate 32 ''AB'')\<rparr>"

theorem upper_case_digest_never_verifies_witness:
  "(\<exists>e. verifyLogicalSegment upper_segment demo_first = Some e \<and> errors_is e S_SegmentIntegrity)
   \<and> manifest_ok (demo_manifest\<lparr>mf_Segments := [upper_segment]\<rparr>)"
proof -
  have "\<exists>e. verifyLogicalSegment upper_segment demo_first = Some e \<and> errors_is e S_SegmentIntegrity"
    by (rule upper_case_digest_never_verifies [of "CHR ''A''"])
      (simp_all add: upper_segment_def upper_hex_def)
  moreover have "sha_digest (concat (replicate 32 ''AB''))"
    by (simp add: sha_digest_def hex_val_def numeral_eq_Suc)
  ultimately show ?thesis
    by (simp add: manifest_ok_def layout_ok_def seg_ok_def seg_defs demo_defs upper_segment_def)
qed

end
