(* ===== verification/Planner.thy ===== *)
theory Planner
  imports Manifest
begin

text \<open>
  \<open>segmentmerge/planner.go\<close>: the work list of a merge, from the first segment or from the
  one a checkpoint names.
\<close>

definition plan_entry_at :: "segment list \<Rightarrow> nat \<Rightarrow> plan_entry" where
  "plan_entry_at ss i =
     \<lparr>pe_Ordinal = int i, pe_MemoryWeight = seg_LogicalSize (ss ! i), pe_Segment = ss ! i\<rparr>"

definition plan_from :: "manifest \<Rightarrow> int \<Rightarrow> string \<Rightarrow> merge_plan" where
  "plan_from c start session =
     \<lparr>pl_FileID = mf_FileID c, pl_Version = mf_Version c, pl_TotalSize = mf_TotalSize c,
      pl_StartOrdinal = start, pl_SessionID = session,
      pl_Entries = map (plan_entry_at (mf_Segments c)) [nat start..<length (mf_Segments c)]\<rparr>"

definition BuildPlan :: "manifest \<Rightarrow> checkpoint option \<Rightarrow> sm_error + merge_plan" where
  "BuildPlan m cp =
     (case CompileManifest m of
        Inl e \<Rightarrow> Inl e
      | Inr c \<Rightarrow>
          (case cp of
             None \<Rightarrow> Inr (plan_from c 0 [])
           | Some k \<Rightarrow>
               if \<not> Matches k c \<or> cp_NextOrdinal k < 0
                  \<or> cp_NextOrdinal k > int (length (mf_Segments c))
               then Inl (ErrCheckpointMismatch (cp_FileID k) (cp_Version k))
               else Inr (plan_from c (cp_NextOrdinal k) (cp_SessionID k))))"

text \<open>The checkpoint a plan may resume from.\<close>

definition resumable :: "manifest \<Rightarrow> checkpoint \<Rightarrow> bool" where
  "resumable c k \<longleftrightarrow>
     Matches k c \<and> 0 \<le> cp_NextOrdinal k \<and> cp_NextOrdinal k \<le> int (length (mf_Segments c))"

lemma BuildPlan_compiled:
  assumes "CompileManifest m = Inr c"
  shows "BuildPlan c None = Inr (plan_from c 0 [])"
    and "BuildPlan c (Some k) =
      (if resumable c k then Inr (plan_from c (cp_NextOrdinal k) (cp_SessionID k))
       else Inl (ErrCheckpointMismatch (cp_FileID k) (cp_Version k)))"
  by (auto simp: BuildPlan_def compiled_again [OF assms] resumable_def)

lemma BuildPlan_Inr:
  assumes "CompileManifest c = Inr c" "BuildPlan c r = Inr p"
  obtains "r = None" "p = plan_from c 0 []"
  | k where "r = Some k" "resumable c k" "p = plan_from c (cp_NextOrdinal k) (cp_SessionID k)"
  using assms by (cases r) (auto simp: BuildPlan_compiled [OF assms(1)] split: if_splits)

lemma plan_from_simps [simp]:
  "pl_FileID (plan_from c i s) = mf_FileID c"
  "pl_Version (plan_from c i s) = mf_Version c"
  "pl_TotalSize (plan_from c i s) = mf_TotalSize c"
  "pl_StartOrdinal (plan_from c i s) = i"
  "pl_SessionID (plan_from c i s) = s"
  "length (pl_Entries (plan_from c i s)) = length (mf_Segments c) - nat i"
  by (simp_all add: plan_from_def)

lemma plan_entries_nth:
  "k < length (mf_Segments c) - nat i \<Longrightarrow>
   pl_Entries (plan_from c i s) ! k = plan_entry_at (mf_Segments c) (nat i + k)"
  by (simp add: plan_from_def)

lemma plan_entries_drop:
  assumes "0 \<le> i"
  shows "pl_Entries (plan_from c i s) = drop (nat i) (pl_Entries (plan_from c 0 t))"
  using assms by (simp add: plan_from_def drop_map)

lemma plan_entries_segments:
  "0 \<le> i \<Longrightarrow> map pe_Segment (pl_Entries (plan_from c i s)) = drop (nat i) (mf_Segments c)"
  by (rule nth_equalityI) (auto simp: plan_from_def plan_entry_at_def)

lemma plan_entry_weight:
  assumes "CompileManifest m = Inr c" "e \<in> set (pl_Entries (plan_from c i s))"
  shows "pe_MemoryWeight e = seg_LogicalSize (pe_Segment e)"
    and "0 < sint (pe_MemoryWeight e)" "seg_ok (mf_TotalSize c) (pe_Segment e)"
proof -
  from assms(2) obtain k where k: "k < length (mf_Segments c)" "e = plan_entry_at (mf_Segments c) k"
    by (auto simp: plan_from_def)
  have "seg_ok (mf_TotalSize c) (mf_Segments c ! k)"
    using compiled_layout(6) [OF assms(1)] k(1) by (simp add: list_all_length)
  with k show "pe_MemoryWeight e = seg_LogicalSize (pe_Segment e)"
    and "0 < sint (pe_MemoryWeight e)" "seg_ok (mf_TotalSize c) (pe_Segment e)"
    by (auto simp: plan_entry_at_def dest: seg_ok_sizes)
qed


section \<open>Properties\<close>

text \<open>
  From a compiled manifest, \<open>BuildPlan\<close> with a checkpoint succeeds exactly when the
  checkpoint names the file and the version and its ordinal is in range. The plan then keeps
  the session of the checkpoint, and its entries are those of the fresh plan without the
  segments already written, so the two together are the whole file in order. Any other
  checkpoint is \<open>ErrCheckpointMismatch\<close>.
\<close>
theorem BuildPlan_resume:
  assumes "CompileManifest m = Inr c"
  shows "case BuildPlan c (Some k) of
      Inr p \<Rightarrow> resumable c k \<and> pl_SessionID p = cp_SessionID k
        \<and> pl_StartOrdinal p = cp_NextOrdinal k
        \<and> (\<exists>q. BuildPlan c None = Inr q
             \<and> map pe_Segment (pl_Entries q) = mf_Segments c
             \<and> take (nat (cp_NextOrdinal k)) (pl_Entries q) @ pl_Entries p = pl_Entries q)
    | Inl e \<Rightarrow> \<not> resumable c k \<and> errors_is e S_CheckpointMismatch"
proof (cases "resumable c k")
  case True
  then have "pl_Entries (plan_from c (cp_NextOrdinal k) (cp_SessionID k)) =
      drop (nat (cp_NextOrdinal k)) (pl_Entries (plan_from c 0 []))"
    by (intro plan_entries_drop) (simp add: resumable_def)
  with True show ?thesis
    by (simp add: BuildPlan_compiled [OF assms] plan_entries_segments)
qed (simp add: BuildPlan_compiled [OF assms])

definition demo_checkpoint :: "int \<Rightarrow> checkpoint" where
  "demo_checkpoint n =
     \<lparr>cp_FileID = ''demo'', cp_Version = ''v1'', cp_SessionID = ''merge-1'', cp_NextOrdinal = n,
      cp_OutputSize = 6\<rparr>"

theorem BuildPlan_resume_witness:
  "case BuildPlan demo_manifest (Some (demo_checkpoint 1)) of
     Inr p \<Rightarrow> pl_SessionID p = ''merge-1'' \<and> pl_StartOrdinal p = 1
   | Inl e \<Rightarrow> False"
proof -
  have "resumable demo_manifest (demo_checkpoint 1)"
    by (simp add: resumable_def Matches_def demo_checkpoint_def demo_defs)
  with BuildPlan_resume [OF demo_compiled, of "demo_checkpoint 1"] show ?thesis
    by (auto split: sum.splits simp: demo_checkpoint_def)
qed

end
