(* ===== verification/Writer.thy ===== *)
theory Writer
  imports Planner
begin

text \<open>
  \<open>segmentmerge/writer.go\<close>: staged output. \<open>Begin\<close> makes a draft of zeros or takes up
  the one a checkpoint names, \<open>AppendAt\<close> copies bytes into it, \<open>Commit\<close> publishes it,
  \<open>Abort\<close> drops it.

  Drafts are objects behind pointers: they live in the list \<open>mw_heap\<close> in the order of
  their creation and a pointer is an index; the map \<open>drafts\<close> holds pointers, and so does a
  session, so two sessions on one draft see each other's writes. The contract of a session
  is the locale \<open>write_session\<close>.
\<close>

record memory_draft =
  md_fileID :: string
  md_version :: string
  md_data :: bytes

record memory_writer =
  mw_next :: nat
  mw_drafts :: "string \<rightharpoonup> nat"
  mw_heap :: "memory_draft list"
  mw_outputs :: "string \<rightharpoonup> commit_receipt"
  mw_data :: "string \<rightharpoonup> bytes"

record memory_session =
  ss_id :: string
  ss_draft :: nat
  ss_closed :: bool

definition NewMemoryWriter :: memory_writer where
  "NewMemoryWriter =
     \<lparr>mw_next = 0, mw_drafts = Map.empty, mw_heap = [], mw_outputs = Map.empty,
      mw_data = Map.empty\<rparr>"

definition session_id :: "nat \<Rightarrow> string" where
  "session_id n = ''merge-'' @ dec n"

definition Begin ::
  "ctx_error option \<Rightarrow> merge_plan \<Rightarrow> memory_writer \<Rightarrow> (sm_error + memory_session) \<times> memory_writer"
where
  "Begin cx plan w =
     (case cx of Some e \<Rightarrow> (Inl (CtxErr e), w)
      | None \<Rightarrow>
          if pl_SessionID plan \<noteq> [] then
            (let refused = (Inl (ErrWriterState (ResumeSession (pl_SessionID plan))), w)
             in case mw_drafts w (pl_SessionID plan) of
                  None \<Rightarrow> refused
                | Some p \<Rightarrow>
                    let d = mw_heap w ! p
                    in if md_fileID d \<noteq> pl_FileID plan \<or> md_version d \<noteq> pl_Version plan
                          \<or> int (length (md_data d)) \<noteq> sint (pl_TotalSize plan)
                       then refused
                       else (Inr \<lparr>ss_id = pl_SessionID plan, ss_draft = p, ss_closed = False\<rparr>, w))
          else
            (let n = Suc (mw_next w); i = session_id n
             in if sint (pl_TotalSize plan) < 0 then (Inl MakeSlicePanic, w\<lparr>mw_next := n\<rparr>)
                else (Inr \<lparr>ss_id = i, ss_draft = length (mw_heap w), ss_closed = False\<rparr>,
                      w\<lparr>mw_next := n,
                        mw_heap := mw_heap w
                          @ [\<lparr>md_fileID = pl_FileID plan, md_version = pl_Version plan,
                              md_data = replicate (nat (sint (pl_TotalSize plan))) 0\<rparr>],
                        mw_drafts := (mw_drafts w)(i \<mapsto> length (mw_heap w))\<rparr>)))"

definition Output :: "string \<Rightarrow> memory_writer \<Rightarrow> (bytes \<times> commit_receipt) option" where
  "Output fileID w =
     (case (mw_data w fileID, mw_outputs w fileID) of
        (Some d, Some r) \<Rightarrow> Some (d, r)
      | _ \<Rightarrow> None)"

text \<open>\<open>copy(dst[off:], data)\<close> where the data fits.\<close>

definition splice :: "nat \<Rightarrow> bytes \<Rightarrow> bytes \<Rightarrow> bytes" where
  "splice off d xs = take off xs @ d @ drop (off + length d) xs"

definition AppendAt ::
  "ctx_error option \<Rightarrow> memory_session \<Rightarrow> i64 \<Rightarrow> bytes \<Rightarrow> memory_writer
     \<Rightarrow> sm_error option \<times> memory_writer" where
  "AppendAt cx s off data w =
     (case cx of Some e \<Rightarrow> (Some (CtxErr e), w)
      | None \<Rightarrow>
          let d = mw_heap w ! ss_draft s
          in if ss_closed s \<or> sint off < 0
                \<or> sint off > int (length (md_data d)) - int (length data)
             then (Some (ErrWriterState SessionState), w)
             else (None,
                   w\<lparr>mw_heap := (mw_heap w)
                       [ss_draft s := d\<lparr>md_data := splice (nat (sint off)) data (md_data d)\<rparr>]\<rparr>))"

definition Commit ::
  "ctx_error option \<Rightarrow> memory_session \<Rightarrow> memory_writer
     \<Rightarrow> (sm_error + commit_receipt) \<times> memory_session \<times> memory_writer" where
  "Commit cx s w =
     (case cx of Some e \<Rightarrow> (Inl (CtxErr e), s, w)
      | None \<Rightarrow>
          if ss_closed s then (Inl (ErrWriterState SessionState), s, w)
          else let d = mw_heap w ! ss_draft s;
                   r = \<lparr>rc_FileID = md_fileID d, rc_Version = md_version d,
                        rc_Size = word_of_int (int (length (md_data d))),
                        rc_Digest = Digest (md_data d)\<rparr>
               in (Inr r, s\<lparr>ss_closed := True\<rparr>,
                   w\<lparr>mw_outputs := (mw_outputs w)(rc_FileID r \<mapsto> r),
                     mw_data := (mw_data w)(rc_FileID r \<mapsto> md_data d),
                     mw_drafts := (mw_drafts w)(ss_id s := None)\<rparr>))"

definition Abort ::
  "ctx_error option \<Rightarrow> memory_session \<Rightarrow> memory_writer
     \<Rightarrow> sm_error option \<times> memory_session \<times> memory_writer" where
  "Abort cx s w =
     (case cx of Some e \<Rightarrow> (Some (CtxErr e), s, w)
      | None \<Rightarrow>
          if ss_closed s then (None, s, w)
          else (None, s\<lparr>ss_closed := True\<rparr>, w\<lparr>mw_drafts := (mw_drafts w)(ss_id s := None)\<rparr>))"

definition draft_data :: "memory_session \<Rightarrow> memory_writer \<Rightarrow> bytes" where
  "draft_data s w = md_data (mw_heap w ! ss_draft s)"


section \<open>Invariant\<close>

text \<open>
  Pointers are valid and a draft is known by the name it got when it was made, so two
  different live names are two different drafts.
\<close>

definition writer_ok :: "memory_writer \<Rightarrow> bool" where
  "writer_ok w \<longleftrightarrow>
     length (mw_heap w) = mw_next w
     \<and> (\<forall>i p. mw_drafts w i = Some p \<longrightarrow> p < length (mw_heap w) \<and> i = session_id (Suc p))"

text \<open>An open session on a live draft.\<close>

definition session_live :: "memory_session \<Rightarrow> memory_writer \<Rightarrow> bool" where
  "session_live s w \<longleftrightarrow>
     \<not> ss_closed s \<and> ss_draft s < length (mw_heap w) \<and> mw_drafts w (ss_id s) = Some (ss_draft s)"

lemma session_id_inject [simp]: "session_id m = session_id n \<longleftrightarrow> m = n"
  by (simp add: session_id_def)

lemma session_id_nonempty [simp]: "session_id n \<noteq> []"
  by (simp add: session_id_def)

lemma writer_ok_new: "writer_ok NewMemoryWriter"
  by (simp add: writer_ok_def NewMemoryWriter_def)

lemma writer_ok_AppendAt: "writer_ok w \<Longrightarrow> AppendAt cx s off d w = (e, w') \<Longrightarrow> writer_ok w'"
  by (auto simp: AppendAt_def writer_ok_def Let_def split: option.splits if_splits)

lemma writer_ok_Commit: "writer_ok w \<Longrightarrow> Commit cx s w = (r, s', w') \<Longrightarrow> writer_ok w'"
  by (auto simp: Commit_def writer_ok_def Let_def split: option.splits if_splits)

lemma writer_ok_Abort: "writer_ok w \<Longrightarrow> Abort cx s w = (r, s', w') \<Longrightarrow> writer_ok w'"
  by (auto simp: Abort_def writer_ok_def Let_def split: option.splits if_splits)

lemma writer_ok_Begin:
  assumes "writer_ok w" "Begin cx plan w = (Inr s, w')"
  shows "writer_ok w' \<and> session_live s w'"
  using assms
  by (auto simp: Begin_def writer_ok_def session_live_def Let_def less_SucI
      split: option.splits if_splits)

lemma Begin_fresh:
  assumes "writer_ok w" "pl_SessionID plan = []" "0 \<le> sint (pl_TotalSize plan)"
  shows "\<exists>s w'. Begin None plan w = (Inr s, w') \<and> ss_id s = session_id (Suc (mw_next w))
    \<and> draft_data s w' = replicate (nat (sint (pl_TotalSize plan))) 0
    \<and> mw_outputs w' = mw_outputs w \<and> mw_data w' = mw_data w"
  using assms by (simp add: Begin_def Let_def draft_data_def)

lemma length_splice [simp]: "off + length d \<le> length xs \<Longrightarrow> length (splice off d xs) = length xs"
  by (simp add: splice_def)

lemma splice_nth:
  assumes "off + length d \<le> length xs" "k < length xs"
  shows "splice off d xs ! k =
    (if off \<le> k \<and> k < off + length d then d ! (k - off) else xs ! k)"
  using assms by (auto simp: splice_def nth_append min_def)


section \<open>The contract of a write session\<close>

text \<open>
  A session over a state \<open>'s\<close> that holds its staged bytes: an append inside the bounds
  overwrites its range and nothing else, one outside them is refused and changes nothing.
  From it: a list of appends to disjoint ranges leaves each range with its own data,
  whatever the order, and the bytes outside them as they were.
\<close>

locale write_session =
  fixes append_at :: "i64 \<Rightarrow> bytes \<Rightarrow> 's \<Rightarrow> sm_error option \<times> 's"
    and staged :: "'s \<Rightarrow> bytes"
    and live :: "'s \<Rightarrow> bool"
  assumes append_inside: "live s \<Longrightarrow> 0 \<le> sint off \<Longrightarrow>
      sint off + int (length d) \<le> int (length (staged s)) \<Longrightarrow>
      \<exists>s'. append_at off d s = (None, s') \<and> live s'
         \<and> staged s' = splice (nat (sint off)) d (staged s)"
    and append_outside: "live s \<Longrightarrow>
      sint off < 0 \<or> int (length (staged s)) < sint off + int (length d) \<Longrightarrow>
      \<exists>e. append_at off d s = (Some e, s)"
begin

fun append_all :: "(i64 \<times> bytes) list \<Rightarrow> 's \<Rightarrow> sm_error option \<times> 's" where
  "append_all [] s = (None, s)"
| "append_all ((off, d) # ps) s =
     (case append_at off d s of (Some e, s') \<Rightarrow> (Some e, s') | (None, s') \<Rightarrow> append_all ps s')"

lemma append_all_splices:
  assumes "live s"
    "\<forall>(off, d)\<in>set ps. 0 \<le> sint off \<and> sint off + int (length d) \<le> int (length (staged s))"
  shows "\<exists>s'. append_all ps s = (None, s') \<and> live s'
    \<and> staged s' = fold (\<lambda>(off, d). splice (nat (sint off)) d) ps (staged s)"
  using assms
proof (induction ps arbitrary: s)
  case (Cons p ps)
  obtain off d where p: "p = (off, d)" by (cases p)
  with Cons.prems have in_range: "0 \<le> sint off" "sint off + int (length d) \<le> int (length (staged s))"
    by auto
  with append_inside [OF Cons.prems(1)] obtain s1 where
    s1: "append_at off d s = (None, s1)" "live s1"
      "staged s1 = splice (nat (sint off)) d (staged s)"
    by blast
  moreover have "nat (sint off) + length d \<le> length (staged s)" using in_range by linarith
  ultimately have "length (staged s1) = length (staged s)" by simp
  then have "\<exists>s'. append_all ps s1 = (None, s') \<and> live s'
    \<and> staged s' = fold (\<lambda>(off, d). splice (nat (sint off)) d) ps (staged s1)"
    using Cons.prems(2) p s1(2) by (intro Cons.IH) auto
  with s1 p show ?case by auto
qed simp

end

text \<open>The sessions of \<open>MemoryWriter\<close> keep the contract.\<close>

lemma AppendAt_inside:
  assumes "session_live s w" "0 \<le> sint off"
    "sint off + int (length d) \<le> int (length (draft_data s w))"
  shows "\<exists>w'. AppendAt None s off d w = (None, w') \<and> session_live s w'
    \<and> draft_data s w' = splice (nat (sint off)) d (draft_data s w)"
  using assms by (auto simp: AppendAt_def Let_def session_live_def draft_data_def)

interpretation memory_session: write_session
  "\<lambda>off d w. AppendAt None s off d w" "draft_data s" "session_live s" for s
  by unfold_locales
    (use AppendAt_inside in \<open>auto simp: AppendAt_def Let_def session_live_def draft_data_def\<close>)


text \<open>Different live names are different drafts.\<close>

lemma live_drafts_differ:
  assumes "writer_ok w" "session_live s w" "session_live t w" "ss_id s \<noteq> ss_id t"
  shows "ss_draft s \<noteq> ss_draft t"
  using assms by (metis session_live_def writer_ok_def)

lemma AppendAt_other:
  assumes "ss_draft s \<noteq> ss_draft t"
  shows "draft_data t (snd (AppendAt cx s off d w)) = draft_data t w"
  using assms by (auto simp: AppendAt_def draft_data_def Let_def split: option.splits)

lemma AppendAt_outputs [simp]:
  "mw_outputs (snd (AppendAt cx s off d w)) = mw_outputs w"
  "mw_data (snd (AppendAt cx s off d w)) = mw_data w"
  "mw_drafts (snd (AppendAt cx s off d w)) = mw_drafts w"
  "mw_next (snd (AppendAt cx s off d w)) = mw_next w"
  by (auto simp: AppendAt_def Let_def split: option.splits)

lemma Commit_live:
  assumes "session_live s w"
  shows "Commit None s w =
    (let d = mw_heap w ! ss_draft s;
         r = \<lparr>rc_FileID = md_fileID d, rc_Version = md_version d,
              rc_Size = word_of_int (int (length (md_data d))), rc_Digest = Digest (md_data d)\<rparr>
     in (Inr r, s\<lparr>ss_closed := True\<rparr>,
         w\<lparr>mw_outputs := (mw_outputs w)(rc_FileID r \<mapsto> r),
           mw_data := (mw_data w)(rc_FileID r \<mapsto> md_data d),
           mw_drafts := (mw_drafts w)(ss_id s := None)\<rparr>))"
  using assms by (simp add: Commit_def session_live_def)


section \<open>Properties\<close>

definition demo_plan :: merge_plan where
  "demo_plan = plan_from demo_manifest 0 []"

definition demo_begun :: "memory_session \<times> memory_writer" where
  "demo_begun =
     (case Begin None demo_plan NewMemoryWriter of
        (Inr s, w) \<Rightarrow> (s, w)
      | (Inl e, w) \<Rightarrow> (\<lparr>ss_id = [], ss_draft = 0, ss_closed = True\<rparr>, w))"

lemma demo_begin:
  "Begin None demo_plan NewMemoryWriter = (Inr (fst demo_begun), snd demo_begun)"
  by (simp add: demo_begun_def Begin_def Let_def demo_plan_def demo_defs)

lemma demo_live:
  "writer_ok (snd demo_begun)" "session_live (fst demo_begun) (snd demo_begun)"
  "draft_data (fst demo_begun) (snd demo_begun) = replicate 11 0"
  using writer_ok_Begin [OF writer_ok_new demo_begin]
    Begin_fresh [OF writer_ok_new, of demo_plan] demo_begin
  by (auto simp: demo_plan_def demo_defs)

lemma AppendAt_accepted:
  assumes "AppendAt cx s off d w = (None, w')"
  shows "cx = None" "\<not> ss_closed s" "0 \<le> sint off"
    "sint off + int (length d) \<le> int (length (draft_data s w))"
  using assms by (auto simp: AppendAt_def Let_def draft_data_def split: option.splits if_splits)

lemma AppendAt_refused:
  assumes "AppendAt cx s off d w = (Some e, w')"
  shows "w' = w"
    "case cx of
       Some ce \<Rightarrow> e = CtxErr ce
     | None \<Rightarrow> e = ErrWriterState SessionState
         \<and> (ss_closed s \<or> sint off < 0 \<or> int (length (draft_data s w)) < sint off + int (length d))"
  using assms by (auto simp: AppendAt_def Let_def draft_data_def split: option.splits if_splits)

lemma AppendAt_live:
  assumes "session_live t w" "AppendAt cx s off d w = (r, w')"
  shows "session_live t w'"
  using assms by (auto simp: AppendAt_def session_live_def Let_def split: option.splits if_splits)

text \<open>
  C29: What \<open>AppendAt\<close> does on a live session, whatever the context. It succeeds exactly when the context
  is live and the bytes fit into the draft at the offset; then the draft has the bytes there and every
  other byte of it is as before, and so are the outputs and the draft of every other live session, and the
  session stays live. Otherwise it changes nothing, and the error is the context's, or \<open>ErrWriterState\<close>.
  On a session that is closed every append is refused.
\<close>
theorem AppendAt_exact:
  assumes "writer_ok w" "session_live s w"
  shows "(case AppendAt cx s off d w of
      (None, w') \<Rightarrow> cx = None \<and> 0 \<le> sint off
        \<and> sint off + int (length d) \<le> int (length (draft_data s w))
        \<and> session_live s w' \<and> length (draft_data s w') = length (draft_data s w)
        \<and> (\<forall>k. k < length (draft_data s w) \<longrightarrow>
             draft_data s w' ! k =
               (if nat (sint off) \<le> k \<and> k < nat (sint off) + length d
                then d ! (k - nat (sint off)) else draft_data s w ! k))
        \<and> (\<forall>f. Output f w' = Output f w)
        \<and> (\<forall>t. session_live t w \<and> ss_id t \<noteq> ss_id s \<longrightarrow>
             session_live t w' \<and> draft_data t w' = draft_data t w)
    | (Some e, w') \<Rightarrow> w' = w
        \<and> (case cx of
              Some ce \<Rightarrow> e = CtxErr ce
            | None \<Rightarrow> errors_is e S_WriterState
                \<and> (sint off < 0 \<or> int (length (draft_data s w)) < sint off + int (length d))))
    \<and> (\<forall>u. ss_closed u \<longrightarrow> (\<exists>e. AppendAt cx u off d w = (Some e, w)))"
proof -
  obtain r w' where app: "AppendAt cx s off d w = (r, w')" by fastforce
  have closed: "\<exists>e. AppendAt cx u off d w = (Some e, w)" if "ss_closed u" for u
    using that by (auto simp: AppendAt_def Let_def split: option.splits)
  show ?thesis
  proof (cases r)
    case [simp]: (Some e)
    have "\<not> ss_closed s" using assms(2) by (simp add: session_live_def)
    with AppendAt_refused [of cx s off d w e w'] app closed show ?thesis by (auto split: option.splits)
  next
    case [simp]: None
    note ok = AppendAt_accepted [of cx s off d w w', OF app [simplified]]
    have fits: "nat (sint off) + length d \<le> length (draft_data s w)" using ok(3,4) by linarith
    have draft: "draft_data s w' = splice (nat (sint off)) d (draft_data s w)"
      using AppendAt_inside [OF assms(2) ok(3,4)] app ok(1) by auto
    have "session_live t w' \<and> draft_data t w' = draft_data t w" if "session_live t w" "ss_id t \<noteq> ss_id s" for t
      using AppendAt_other [OF live_drafts_differ [OF assms that(1)], of cx off d w] that(2) app
        AppendAt_live [OF that(1) app] by auto
    moreover have "Output f w' = Output f w" for f
      using AppendAt_outputs(1,2) [of cx s off d w] app by (simp add: Output_def)
    moreover have "session_live s w'" using AppendAt_live [OF assms(2) app] .
    ultimately show ?thesis using app ok draft fits closed by (simp add: splice_nth [OF fits])
  qed
qed

theorem AppendAt_exact_witness:
  "\<exists>w'. AppendAt None (fst demo_begun) 6 demo_second (snd demo_begun) = (None, w')
     \<and> length (draft_data (fst demo_begun) w') = 11
     \<and> draft_data (fst demo_begun) w' ! 6 = demo_second ! 0"
proof -
  have len: "length (draft_data (fst demo_begun) (snd demo_begun)) = 11" by (simp add: demo_live)
  have six: "nat (sint (6 :: i64)) = 6" "length demo_second = 5" by (simp_all add: demo_second_def)
  obtain r w' where app: "AppendAt None (fst demo_begun) 6 demo_second (snd demo_begun) = (r, w')" by fastforce
  note all = AppendAt_exact [OF demo_live(1,2), of None 6 demo_second]
  have "r = None" using all app six len by (cases r) auto
  with all app six len show ?thesis by auto
qed

text \<open>
  \<open>Commit\<close> publishes the staged bytes under the file of the draft, with their length
  and their SHA-256 in the receipt, a receipt the index accepts; no other file changes. The
  session is then closed for good: an append or a second commit fails and changes nothing, an
  abort is a no-op, and a plan that resumes the session is refused.
\<close>
theorem Commit_publishes:
  assumes "session_live s w" "Commit None s w = (Inr r, s', w')"
    "md_fileID (mw_heap w ! ss_draft s) \<noteq> []" "md_version (mw_heap w ! ss_draft s) \<noteq> []"
    "length (draft_data s w) < 2 ^ 63"
  shows "Output (rc_FileID r) w' = Some (draft_data s w, r)
    \<and> sint (rc_Size r) = int (length (draft_data s w)) \<and> rc_Digest r = Digest (draft_data s w)
    \<and> validateReceipt r = None
    \<and> (\<forall>f. f \<noteq> rc_FileID r \<longrightarrow> Output f w' = Output f w)
    \<and> AppendAt None s' off d w' = (Some (ErrWriterState SessionState), w')
    \<and> Commit None s' w' = (Inl (ErrWriterState SessionState), s', w')
    \<and> Abort None s' w' = (None, s', w')
    \<and> (ss_id s \<noteq> [] \<longrightarrow> Begin None (p\<lparr>pl_SessionID := ss_id s\<rparr>) w'
         = (Inl (ErrWriterState (ResumeSession (ss_id s))), w'))"
proof -
  have size: "sint (word_of_int (int (length (draft_data s w))) :: i64) = int (length (draft_data s w))"
    using assms(5) by (intro sint_i64_of_int) auto
  have eq: "r = \<lparr>rc_FileID = md_fileID (mw_heap w ! ss_draft s),
      rc_Version = md_version (mw_heap w ! ss_draft s),
      rc_Size = word_of_int (int (length (draft_data s w))), rc_Digest = Digest (draft_data s w)\<rparr>"
    "s' = s\<lparr>ss_closed := True\<rparr>"
    "w' = w\<lparr>mw_outputs := (mw_outputs w)(rc_FileID r \<mapsto> r),
        mw_data := (mw_data w)(rc_FileID r \<mapsto> draft_data s w),
        mw_drafts := (mw_drafts w)(ss_id s := None)\<rparr>"
    using assms(2) unfolding Commit_live [OF assms(1)] Let_def draft_data_def by auto
  have valid: "validateReceipt r = None"
    using assms(3,4) size by (simp add: eq(1) validateReceipt_None)
  have out: "Output (rc_FileID r) w' = Some (draft_data s w, r)"
    "\<forall>f. f \<noteq> rc_FileID r \<longrightarrow> Output f w' = Output f w"
    by (auto simp: Output_def eq(3))
  have closed: "AppendAt None s' off d w' = (Some (ErrWriterState SessionState), w')"
    "Commit None s' w' = (Inl (ErrWriterState SessionState), s', w')" "Abort None s' w' = (None, s', w')"
    by (auto simp: AppendAt_def Commit_def Abort_def eq(2) Let_def)
  have "ss_id s \<noteq> [] \<longrightarrow> Begin None (p\<lparr>pl_SessionID := ss_id s\<rparr>) w'
         = (Inl (ErrWriterState (ResumeSession (ss_id s))), w')"
    by (simp add: Begin_def eq(3))
  with valid out closed size show ?thesis by (simp add: eq(1))
qed

theorem Commit_publishes_witness:
  "\<exists>r s' w'. Commit None (fst demo_begun) (snd demo_begun) = (Inr r, s', w')
     \<and> Output ''demo'' w' = Some (replicate 11 0, r) \<and> sint (rc_Size r) = 11"
proof -
  let ?s = "fst demo_begun" and ?w = "snd demo_begun"
  have draft: "mw_heap ?w ! ss_draft ?s =
      \<lparr>md_fileID = ''demo'', md_version = ''v1'', md_data = replicate 11 0\<rparr>"
    by (simp add: demo_begun_def Begin_def NewMemoryWriter_def Let_def demo_plan_def demo_defs)
  obtain r s' w' where c: "Commit None ?s ?w = (Inr r, s', w')" "rc_FileID r = ''demo''"
    unfolding Commit_live [OF demo_live(2)] Let_def draft by auto
  then show ?thesis
    using Commit_publishes [OF demo_live(2) c(1)] draft demo_live(3) by auto
qed

end
