(* ===== verification/Budget.thy ===== *)
theory Budget
  imports Model
begin

text \<open>
  \<open>segmentmerge/budget.go\<close>: the byte budget shared by the workers of a merge.

  A \<open>BudgetLease\<close> is an object behind a pointer: the leases live in the list
  \<open>bb_leases\<close>, in the order of their creation, and a pointer is an index. The channel
  \<open>changed\<close> is closed and replaced by every effective release, so it is a generation
  number: a waiter holds the number it saw, and its channel is closed once the number has
  moved on. Each section under \<open>budget.mu\<close> is one step; \<open>Acquire\<close> is split at its
  \<open>select\<close>: \<open>Acquire_loop\<close> is one turn of the loop and returns \<open>AcqWait g\<close> where the
  code would block on generation \<open>g\<close>.
\<close>

record budget_lease =
  bl_weight :: i64
  bl_resident :: i64
  bl_released :: bool

record byte_budget =
  bb_limit :: i64
  bb_reserved :: i64
  bb_resident :: i64
  bb_peak :: i64
  bb_changed :: nat
  bb_leases :: "budget_lease list"

datatype acquired = AcqLease nat | AcqError sm_error | AcqWait nat

definition NewByteBudget :: "i64 \<Rightarrow> byte_budget" where
  "NewByteBudget limit =
     \<lparr>bb_limit = (if sint limit < 1 then 1 else limit), bb_reserved = 0, bb_resident = 0,
      bb_peak = 0, bb_changed = 0, bb_leases = []\<rparr>"

definition Acquire_loop :: "i64 \<Rightarrow> byte_budget \<Rightarrow> acquired \<times> byte_budget" where
  "Acquire_loop weight b =
     (if sint (bb_reserved b) \<le> sint (bb_limit b - weight)
      then (AcqLease (length (bb_leases b)),
            b\<lparr>bb_reserved := bb_reserved b + weight,
              bb_leases := bb_leases b
                @ [\<lparr>bl_weight = weight, bl_resident = 0, bl_released = False\<rparr>]\<rparr>)
      else (AcqWait (bb_changed b), b))"

definition Acquire :: "i64 \<Rightarrow> byte_budget \<Rightarrow> acquired \<times> byte_budget" where
  "Acquire weight b =
     (if sint weight < 1 \<or> sint weight > sint (bb_limit b)
      then (AcqError (ErrBudgetExceeded (WeightExceeds weight (bb_limit b))), b)
      else Acquire_loop weight b)"

text \<open>The two ways out of the \<open>select\<close>.\<close>

definition Acquire_wake :: "nat \<Rightarrow> i64 \<Rightarrow> byte_budget \<Rightarrow> (acquired \<times> byte_budget) option" where
  "Acquire_wake g weight b =
     (if bb_changed b \<noteq> g then Some (Acquire_loop weight b) else None)"

definition Acquire_cancelled :: "ctx_error option \<Rightarrow> sm_error option" where
  "Acquire_cancelled cx = map_option CtxErr cx"

definition PeakResident :: "byte_budget \<Rightarrow> i64" where
  "PeakResident b = bb_peak b"

definition Limit :: "byte_budget \<Rightarrow> i64" where
  "Limit b = bb_limit b"

definition MarkResident :: "nat \<Rightarrow> int \<Rightarrow> byte_budget \<Rightarrow> sm_error option \<times> byte_budget" where
  "MarkResident l actual b =
     (let lease = bb_leases b ! l
      in if actual < 0 \<or> actual > sint (bl_weight lease)
         then (Some (ErrBudgetExceeded (ResidentExceeds actual)), b)
         else let n = word_of_int actual; res = bb_resident b + n
              in (None,
                  b\<lparr>bb_leases := (bb_leases b)[l := lease\<lparr>bl_resident := n\<rparr>],
                    bb_resident := res,
                    bb_peak := (if sint res > sint (bb_peak b) then res else bb_peak b)\<rparr>))"

definition Release :: "nat \<Rightarrow> byte_budget \<Rightarrow> bool \<times> byte_budget" where
  "Release l b =
     (let lease = bb_leases b ! l
      in if bl_released lease then (False, b)
         else (True,
               b\<lparr>bb_leases := (bb_leases b)[l := lease\<lparr>bl_released := True\<rparr>],
                 bb_reserved := bb_reserved b - bl_weight lease,
                 bb_resident := bb_resident b - bl_resident lease,
                 bb_changed := Suc (bb_changed b)\<rparr>))"


section \<open>The invariant\<close>

text \<open>What the leases that are not released hold, as mathematical integers.\<close>

definition held_weight :: "budget_lease \<Rightarrow> int" where
  "held_weight l = (if bl_released l then 0 else sint (bl_weight l))"

definition held_resident :: "budget_lease \<Rightarrow> int" where
  "held_resident l = (if bl_released l then 0 else sint (bl_resident l))"

definition lease_ok :: "i64 \<Rightarrow> budget_lease \<Rightarrow> bool" where
  "lease_ok limit l \<longleftrightarrow>
     1 \<le> sint (bl_weight l) \<and> sint (bl_weight l) \<le> sint limit
     \<and> 0 \<le> sint (bl_resident l) \<and> sint (bl_resident l) \<le> sint (bl_weight l)"

definition budget_ok :: "byte_budget \<Rightarrow> bool" where
  "budget_ok b \<longleftrightarrow>
     1 \<le> sint (bb_limit b)
     \<and> list_all (lease_ok (bb_limit b)) (bb_leases b)
     \<and> sint (bb_reserved b) = (\<Sum>l\<leftarrow>bb_leases b. held_weight l)
     \<and> sint (bb_resident b) = (\<Sum>l\<leftarrow>bb_leases b. held_resident l)
     \<and> sint (bb_reserved b) \<le> sint (bb_limit b)
     \<and> sint (bb_resident b) \<le> sint (bb_peak b)
     \<and> sint (bb_peak b) \<le> sint (bb_limit b)"

lemma sum_list_update_int:
  fixes f :: "'a \<Rightarrow> int"
  shows "i < length xs \<Longrightarrow> (\<Sum>x\<leftarrow>xs[i := y]. f x) = (\<Sum>x\<leftarrow>xs. f x) - f (xs ! i) + f y"
proof (induction xs arbitrary: i)
  case (Cons x xs)
  then show ?case by (cases i) auto
qed simp

lemma held_le:
  assumes "list_all (lease_ok limit) ls"
  shows "0 \<le> (\<Sum>l\<leftarrow>ls. held_resident l)"
    and "(\<Sum>l\<leftarrow>ls. held_resident l) \<le> (\<Sum>l\<leftarrow>ls. held_weight l)"
  using assms by (induction ls) (auto simp: held_weight_def held_resident_def lease_ok_def)

lemma held_nth_le:
  assumes "list_all (lease_ok limit) ls" "i < length ls"
  shows "held_weight (ls ! i) \<le> (\<Sum>l\<leftarrow>ls. held_weight l)"
    and "held_resident (ls ! i) \<le> (\<Sum>l\<leftarrow>ls. held_resident l)"
proof -
  have w: "\<And>l. l \<in> set ls \<Longrightarrow> 0 \<le> held_weight l" "\<And>l. l \<in> set ls \<Longrightarrow> 0 \<le> held_resident l"
    using assms(1) by (auto simp: list_all_iff lease_ok_def held_weight_def held_resident_def)
  show "held_weight (ls ! i) \<le> (\<Sum>l\<leftarrow>ls. held_weight l)"
    using w assms(2) by (intro member_le_sum_list) auto
  show "held_resident (ls ! i) \<le> (\<Sum>l\<leftarrow>ls. held_resident l)"
    using w assms(2) by (intro member_le_sum_list) auto
qed

lemma budget_ok_bounds:
  assumes "budget_ok b"
  shows "0 \<le> sint (bb_resident b)" "sint (bb_resident b) \<le> sint (bb_reserved b)"
    "sint (bb_reserved b) \<le> sint (bb_limit b)" "0 \<le> sint (bb_peak b)"
  using assms held_le [of "bb_limit b" "bb_leases b"] by (auto simp: budget_ok_def)

lemma budget_ok_new: "budget_ok (NewByteBudget limit)"
  by (simp add: budget_ok_def NewByteBudget_def)

lemma Acquire_loop_fits:
  assumes "budget_ok b" "1 \<le> sint w" "sint w \<le> sint (bb_limit b)"
  shows "sint (bb_reserved b) \<le> sint (bb_limit b - w) \<longleftrightarrow>
         sint (bb_reserved b) + sint w \<le> sint (bb_limit b)"
  using assms sint_sub_nonneg [of "bb_limit b" w] by auto

lemma budget_ok_Acquire_loop:
  assumes "budget_ok b" "1 \<le> sint w" "sint w \<le> sint (bb_limit b)" "Acquire_loop w b = (r, b')"
  shows "budget_ok b'"
proof (cases "sint (bb_reserved b) + sint w \<le> sint (bb_limit b)")
  case True
  then have add: "sint (bb_reserved b + w) = sint (bb_reserved b) + sint w"
    using budget_ok_bounds [OF assms(1)] assms(2)
    by (intro sint_add_le [of _ _ "bb_limit b"]) auto
  have "b' = b\<lparr>bb_reserved := bb_reserved b + w, bb_leases := bb_leases b
           @ [\<lparr>bl_weight = w, bl_resident = 0, bl_released = False\<rparr>]\<rparr>"
    using True assms Acquire_loop_fits [OF assms(1-3)] by (auto simp: Acquire_loop_def)
  with True add assms(1-3) show ?thesis
    by (simp add: budget_ok_def lease_ok_def held_weight_def held_resident_def)
next
  case False
  then have "b' = b"
    using assms Acquire_loop_fits [OF assms(1-3)] by (auto simp: Acquire_loop_def)
  with assms(1) show ?thesis by simp
qed

lemma budget_ok_Acquire: "budget_ok b \<Longrightarrow> Acquire w b = (r, b') \<Longrightarrow> budget_ok b'"
  by (auto simp: Acquire_def not_less split: if_splits dest: budget_ok_Acquire_loop)

text \<open>\<open>MarkResident\<close> is for a lease that is held and was not marked before.\<close>

definition markable :: "byte_budget \<Rightarrow> nat \<Rightarrow> bool" where
  "markable b l \<longleftrightarrow>
     l < length (bb_leases b) \<and> \<not> bl_released (bb_leases b ! l) \<and> bl_resident (bb_leases b ! l) = 0"

lemma budget_ok_MarkResident:
  assumes ok: "budget_ok b" and l: "markable b l" and m: "MarkResident l n b = (e, b')"
  shows "budget_ok b'"
proof (cases "n < 0 \<or> n > sint (bl_weight (bb_leases b ! l))")
  case True
  with m ok show ?thesis by (auto simp: MarkResident_def Let_def)
next
  case False
  let ?ls = "bb_leases b" and ?w = "word_of_int n :: i64"
  let ?lease = "?ls ! l"
  let ?ls' = "?ls[l := ?lease\<lparr>bl_resident := ?w\<rparr>]"
  have l: "l < length ?ls" "\<not> bl_released ?lease" "bl_resident ?lease = 0"
    using l by (auto simp: markable_def)
  have n: "0 \<le> n" "n \<le> sint (bl_weight ?lease)" using False by auto
  then have w: "sint ?w = n"
    using i64_range [of "bl_weight ?lease"] by (intro sint_i64_of_int) auto
  have lok: "lease_ok (bb_limit b) ?lease" "list_all (lease_ok (bb_limit b)) ?ls"
    using ok l(1) by (auto simp: budget_ok_def list_all_length)
  have ls': "list_all (lease_ok (bb_limit b)) ?ls'"
    using lok n w l(1) by (auto simp: list_all_length nth_list_update lease_ok_def)
  have sums: "(\<Sum>l\<leftarrow>?ls'. held_weight l) = (\<Sum>l\<leftarrow>?ls. held_weight l)"
    "(\<Sum>l\<leftarrow>?ls'. held_resident l) = (\<Sum>l\<leftarrow>?ls. held_resident l) + n"
    using l w by (auto simp: sum_list_update_int held_weight_def held_resident_def)
  have le: "sint (bb_resident b) + n \<le> sint (bb_limit b)"
    using held_le(2) [OF ls'] sums ok by (simp add: budget_ok_def)
  have add: "sint (bb_resident b + ?w) = sint (bb_resident b) + n"
    using budget_ok_bounds [OF ok] n w le sint_add_le [of "bb_resident b" ?w "bb_limit b"] by simp
  from m False have b': "b' = b\<lparr>bb_leases := ?ls', bb_resident := bb_resident b + ?w,
      bb_peak := (if sint (bb_resident b + ?w) > sint (bb_peak b) then bb_resident b + ?w
                  else bb_peak b)\<rparr>"
    by (auto simp: MarkResident_def Let_def)
  show ?thesis
    unfolding b' using ok ls' sums add le by (simp add: budget_ok_def)
qed

lemma budget_ok_Release:
  assumes ok: "budget_ok b" and l: "l < length (bb_leases b)" and r: "Release l b = (x, b')"
  shows "budget_ok b'"
proof (cases "bl_released (bb_leases b ! l)")
  case True
  with r ok show ?thesis by (auto simp: Release_def Let_def)
next
  case False
  let ?ls = "bb_leases b"
  let ?lease = "?ls ! l"
  let ?ls' = "?ls[l := ?lease\<lparr>bl_released := True\<rparr>]"
  have lok: "lease_ok (bb_limit b) ?lease" "list_all (lease_ok (bb_limit b)) ?ls"
    using ok l by (auto simp: budget_ok_def list_all_length)
  have ls': "list_all (lease_ok (bb_limit b)) ?ls'"
    using lok l by (auto simp: list_all_length nth_list_update lease_ok_def)
  have sums: "(\<Sum>l\<leftarrow>?ls'. held_weight l) = (\<Sum>l\<leftarrow>?ls. held_weight l) - sint (bl_weight ?lease)"
    "(\<Sum>l\<leftarrow>?ls'. held_resident l) = (\<Sum>l\<leftarrow>?ls. held_resident l) - sint (bl_resident ?lease)"
    using l False by (auto simp: sum_list_update_int held_weight_def held_resident_def)
  have "sint (bb_reserved b - bl_weight ?lease) = sint (bb_reserved b) - sint (bl_weight ?lease)"
    "sint (bb_resident b - bl_resident ?lease) = sint (bb_resident b) - sint (bl_resident ?lease)"
    using budget_ok_bounds [OF ok] lok by (auto intro!: sint_sub_nonneg simp: lease_ok_def)
  moreover from r False have "b' = b\<lparr>bb_leases := ?ls', bb_reserved := bb_reserved b - bl_weight ?lease,
      bb_resident := bb_resident b - bl_resident ?lease, bb_changed := Suc (bb_changed b)\<rparr>"
    by (auto simp: Release_def Let_def)
  ultimately show ?thesis using ok ls' sums lok by (simp add: budget_ok_def lease_ok_def)
qed


section \<open>Interleaved use\<close>

text \<open>
  Any sequence of sections under the lock, from any number of goroutines: \<open>Acquire\<close>, the
  later turns of its loop, \<open>MarkResident\<close> once per lease, \<open>Release\<close> any number of times.
\<close>

inductive budget_step :: "byte_budget \<Rightarrow> byte_budget \<Rightarrow> bool" where
  acquire: "Acquire w b = (r, b') \<Longrightarrow> budget_step b b'"
| retry: "1 \<le> sint w \<Longrightarrow> sint w \<le> sint (bb_limit b) \<Longrightarrow> Acquire_loop w b = (r, b') \<Longrightarrow>
    budget_step b b'"
| mark: "markable b l \<Longrightarrow> MarkResident l n b = (e, b') \<Longrightarrow> budget_step b b'"
| release: "l < length (bb_leases b) \<Longrightarrow> Release l b = (x, b') \<Longrightarrow> budget_step b b'"

lemma budget_step_ok: "budget_step b b' \<Longrightarrow> budget_ok b \<Longrightarrow> budget_ok b'"
  by (induction rule: budget_step.induct)
    (auto intro: budget_ok_Acquire budget_ok_Acquire_loop budget_ok_MarkResident budget_ok_Release)

lemma budget_steps_ok: "budget_step\<^sup>*\<^sup>* b b' \<Longrightarrow> budget_ok b \<Longrightarrow> budget_ok b'"
  by (induction rule: rtranclp_induct) (auto intro: budget_step_ok)

lemma budget_step_limit: "budget_step b b' \<Longrightarrow> bb_limit b' = bb_limit b"
  by (auto elim!: budget_step.cases simp: Acquire_def Acquire_loop_def MarkResident_def Release_def
      Let_def split: if_splits)

text \<open>A step either moves the generation on or gives nothing back.\<close>

lemma Acquire_loop_progress:
  assumes "budget_ok b" "1 \<le> sint w" "sint w \<le> sint (bb_limit b)" "Acquire_loop w b = (r, b')"
  shows "bb_changed b' = bb_changed b \<and> sint (bb_reserved b) \<le> sint (bb_reserved b')"
proof (cases "sint (bb_reserved b) + sint w \<le> sint (bb_limit b)")
  case True
  then have "sint (bb_reserved b + w) = sint (bb_reserved b) + sint w"
    using budget_ok_bounds [OF assms(1)] assms(2)
    by (intro sint_add_le [of _ _ "bb_limit b"]) auto
  with assms show ?thesis by (auto simp: Acquire_loop_def split: if_splits)
next
  case False
  with assms Acquire_loop_fits [OF assms(1-3)] show ?thesis by (auto simp: Acquire_loop_def)
qed

lemma budget_step_progress:
  assumes "budget_step b b'" "budget_ok b"
  shows "bb_changed b \<le> bb_changed b'
    \<and> (bb_changed b' = bb_changed b \<longrightarrow> sint (bb_reserved b) \<le> sint (bb_reserved b'))"
  using assms
proof (induction rule: budget_step.induct)
  case (acquire w b r b')
  then show ?case
    using Acquire_loop_progress [of b w r b'] by (auto simp: Acquire_def not_less split: if_splits)
next
  case (retry w b r b')
  then show ?case using Acquire_loop_progress [of b w r b'] by auto
qed (auto simp: MarkResident_def Release_def Let_def split: if_splits)

lemma budget_steps_progress:
  assumes "budget_step\<^sup>*\<^sup>* b b'" "budget_ok b"
  shows "bb_limit b' = bb_limit b \<and> bb_changed b \<le> bb_changed b'
    \<and> (bb_changed b' = bb_changed b \<longrightarrow> sint (bb_reserved b) \<le> sint (bb_reserved b'))"
  using assms
proof (induction rule: rtranclp_induct)
  case (step c d)
  then have "budget_ok c" by (blast intro: budget_steps_ok)
  then show ?case
    using step budget_step_progress [of c d] budget_step_limit [of c d] by auto
qed simp

lemma Release_again: "l < length (bb_leases b) \<Longrightarrow> Release l (snd (Release l b)) = (False, snd (Release l b))"
  by (simp add: Release_def Let_def)


section \<open>Properties\<close>

text \<open>
  C28: Whatever the interleaving, the reserved bytes are the sum of the weights of the leases
  not released, the resident bytes never exceed the reserved bytes, the reserved bytes never
  exceed the limit, and so neither does the recorded peak: no 64-bit operation of the budget
  overflows and the merger never holds more decoded bytes than the limit.
\<close>
theorem budget_bounds:
  assumes "budget_step\<^sup>*\<^sup>* (NewByteBudget limit) b"
  shows "sint (bb_reserved b) = (\<Sum>l\<leftarrow>bb_leases b. held_weight l)
    \<and> sint (bb_resident b) = (\<Sum>l\<leftarrow>bb_leases b. held_resident l)
    \<and> 0 \<le> sint (bb_resident b) \<and> sint (bb_resident b) \<le> sint (bb_reserved b)
    \<and> sint (bb_reserved b) \<le> sint (Limit b) \<and> sint (PeakResident b) \<le> sint (Limit b)"
proof -
  have "budget_ok b" using budget_steps_ok [OF assms budget_ok_new] .
  then show ?thesis
    using budget_ok_bounds [of b] by (auto simp: budget_ok_def Limit_def PeakResident_def)
qed

lemma NewByteBudget_10: "NewByteBudget 10 = \<lparr>bb_limit = 10, bb_reserved = 0, bb_resident = 0,
    bb_peak = 0, bb_changed = 0, bb_leases = []\<rparr>"
  by (simp add: NewByteBudget_def)

definition budget_after_six :: byte_budget where
  "budget_after_six = \<lparr>bb_limit = 10, bb_reserved = 6, bb_resident = 0, bb_peak = 0,
     bb_changed = 0, bb_leases = [\<lparr>bl_weight = 6, bl_resident = 0, bl_released = False\<rparr>]\<rparr>"

lemma Acquire_six: "Acquire 6 (NewByteBudget 10) = (AcqLease 0, budget_after_six)"
  by (simp add: NewByteBudget_10 Acquire_def Acquire_loop_def budget_after_six_def)

theorem budget_bounds_witness:
  "sint (bb_reserved budget_after_six) = 6 \<and> sint (PeakResident budget_after_six) \<le> 10"
  using budget_bounds [OF r_into_rtranclp [where r = budget_step, OF budget_step.acquire [OF Acquire_six]]]
  by (simp add: budget_after_six_def Limit_def)

text \<open>
  No wake-up is lost. A waiter that found the budget full holds the generation of that
  moment; in every later state in which its weight would fit the generation has moved on, so
  the channel it selects on is closed and its next turn of the loop gets the lease.
\<close>
theorem budget_no_lost_wakeup:
  assumes "budget_ok b" "1 \<le> sint w" "sint w \<le> sint (bb_limit b)"
    "Acquire_loop w b = (AcqWait g, b)" "budget_step\<^sup>*\<^sup>* b b'"
    "sint (bb_reserved b') + sint w \<le> sint (bb_limit b')"
  shows "\<exists>b''. Acquire_wake g w b' = Some (AcqLease (length (bb_leases b')), b'')"
proof -
  have full: "\<not> sint (bb_reserved b) + sint w \<le> sint (bb_limit b)" and g: "g = bb_changed b"
    using assms(4) Acquire_loop_fits [OF assms(1-3)] by (auto simp: Acquire_loop_def split: if_splits)
  note prog = budget_steps_progress [OF assms(5,1)]
  have "bb_changed b' \<noteq> g" using prog full g assms(6) by auto
  moreover have "sint (bb_reserved b') \<le> sint (bb_limit b' - w)"
    using Acquire_loop_fits [of b' w] budget_steps_ok [OF assms(5,1)] prog assms(2,3,6) by auto
  ultimately show ?thesis by (auto simp: Acquire_wake_def Acquire_loop_def)
qed

theorem budget_no_lost_wakeup_witness:
  "\<exists>b''. Acquire_wake 0 5 (snd (Release 0 budget_after_six)) = Some (AcqLease 1, b'')"
proof -
  let ?b = budget_after_six
  have ok: "budget_ok ?b" using budget_ok_Acquire [OF budget_ok_new Acquire_six] .
  have wait: "Acquire_loop 5 ?b = (AcqWait 0, ?b)"
    by (simp add: Acquire_loop_def budget_after_six_def)
  have step: "budget_step ?b (snd (Release 0 ?b))"
    by (rule budget_step.release [of 0 _ True])
      (simp_all add: budget_after_six_def Release_def)
  show ?thesis
    using budget_no_lost_wakeup [OF ok _ _ wait r_into_rtranclp [where r = budget_step, OF step]]
    by (simp add: budget_after_six_def Release_def)
qed

text \<open>
  \<open>Release\<close> takes effect once. The first call on a lease gives back exactly its weight and
  the bytes it marked resident, and moves the generation on; every later call returns false and
  changes nothing, so the error paths of the merger may release a segment twice.
\<close>
theorem Release_once:
  assumes "budget_ok b" "l < length (bb_leases b)"
  shows "Release l b = (\<not> bl_released (bb_leases b ! l), snd (Release l b))
    \<and> sint (bb_reserved (snd (Release l b))) = sint (bb_reserved b) - held_weight (bb_leases b ! l)
    \<and> sint (bb_resident (snd (Release l b))) = sint (bb_resident b) - held_resident (bb_leases b ! l)
    \<and> Release l (snd (Release l b)) = (False, snd (Release l b))"
proof -
  have ok: "budget_ok (snd (Release l b))"
    using budget_ok_Release [OF assms, of "fst (Release l b)"] by simp
  have "sint (bb_reserved (snd (Release l b))) = sint (bb_reserved b) - held_weight (bb_leases b ! l)"
    "sint (bb_resident (snd (Release l b))) = sint (bb_resident b) - held_resident (bb_leases b ! l)"
    using ok assms
    by (auto simp: budget_ok_def Release_def Let_def sum_list_update_int held_weight_def
        held_resident_def)
  moreover have "Release l b = (\<not> bl_released (bb_leases b ! l), snd (Release l b))"
    by (simp add: Release_def Let_def)
  ultimately show ?thesis using Release_again [OF assms(2)] by blast
qed

theorem Release_once_witness:
  "fst (Release 0 budget_after_six) \<and> sint (bb_reserved (snd (Release 0 budget_after_six))) = 0
   \<and> \<not> fst (Release 0 (snd (Release 0 budget_after_six)))"
  using Release_once [OF budget_ok_Acquire [OF budget_ok_new Acquire_six], of 0]
  by (auto simp: budget_after_six_def held_weight_def Release_def)

end
