(* ===== verification/Policy.thy ===== *)
theory Policy
  imports Writer Budget "HOL-Library.Signed_Division"
begin

text \<open>
  \<open>policy/policy.go\<close>: admission of merges under load, and backoff between attempts.

  Sizes and durations are the 64-bit words of the source, with their wrap-around; counts
  (\<open>int\<close>) are integers. The source computes a square root in floating point: \<open>float64\<close> is
  exact on the number of segments and the rounding of \<open>math.Sqrt\<close> cannot move a root across an
  integer below \<open>2 ^ 26\<close>, so \<open>math.Ceil\<close> of it is \<open>ceil_sqrt\<close>, the least integer whose square
  reaches the number (and all roots above 8 are cut to 8 in the end).
\<close>

section \<open>Limits\<close>

record load =
  lo_ActiveOperations :: int
  lo_ResidentBytes :: i64

record limits =
  li_MaxActiveOperations :: int
  li_MaxManifestBytes :: i64
  li_MaxSegments :: int
  li_MaxResidentBytes :: i64
  li_MaxAttempts :: int
  li_BaseBackoff :: i64
  li_MaxBackoff :: i64

definition Millisecond :: i64 where
  "Millisecond = 1000000"

definition DefaultLimits :: limits where
  "DefaultLimits =
     \<lparr>li_MaxActiveOperations = 16, li_MaxManifestBytes = push_bit 30 4, li_MaxSegments = 4096,
      li_MaxResidentBytes = push_bit 20 512, li_MaxAttempts = 4,
      li_BaseBackoff = 100 * Millisecond, li_MaxBackoff = 5 * (1000 * Millisecond)\<rparr>"

record decision =
  de_Allowed :: bool
  de_Reason :: string
  de_Concurrency :: int
  de_MemoryLimit :: i64
  de_EstimatedWeight :: i64

definition NewAdmission :: "limits \<Rightarrow> limits" where
  "NewAdmission l =
     \<lparr>li_MaxActiveOperations =
        (if li_MaxActiveOperations l \<le> 0 then li_MaxActiveOperations DefaultLimits
         else li_MaxActiveOperations l),
      li_MaxManifestBytes =
        (if sint (li_MaxManifestBytes l) \<le> 0 then li_MaxManifestBytes DefaultLimits
         else li_MaxManifestBytes l),
      li_MaxSegments =
        (if li_MaxSegments l \<le> 0 then li_MaxSegments DefaultLimits else li_MaxSegments l),
      li_MaxResidentBytes =
        (if sint (li_MaxResidentBytes l) \<le> 0 then li_MaxResidentBytes DefaultLimits
         else li_MaxResidentBytes l),
      li_MaxAttempts =
        (if li_MaxAttempts l \<le> 0 then li_MaxAttempts DefaultLimits else li_MaxAttempts l),
      li_BaseBackoff =
        (if sint (li_BaseBackoff l) \<le> 0 then li_BaseBackoff DefaultLimits else li_BaseBackoff l),
      li_MaxBackoff =
        (if sint (li_MaxBackoff l) \<le> 0 then li_MaxBackoff DefaultLimits else li_MaxBackoff l)\<rparr>"

definition max64 :: "i64 \<Rightarrow> i64 \<Rightarrow> i64" where
  "max64 a b = (if sint a > sint b then a else b)"

definition minInt :: "int \<Rightarrow> int \<Rightarrow> int" where
  "minInt a b = (if a < b then a else b)"

definition maxInt :: "int \<Rightarrow> int \<Rightarrow> int" where
  "maxInt a b = (if a > b then a else b)"


section \<open>Admission\<close>

function ceil_sqrt_from :: "nat \<Rightarrow> nat \<Rightarrow> nat" where
  "ceil_sqrt_from k n = (if n \<le> k * k then k else ceil_sqrt_from (Suc k) n)"
  by pat_completeness auto
termination
proof (relation "measure (\<lambda>(k, n). n - k)")
  fix k n :: nat
  assume "\<not> n \<le> k * k"
  then have "k < n" by (metis le_square less_le_trans not_le)
  then show "((Suc k, n), k, n) \<in> measure (\<lambda>(k, n). n - k)" by simp
qed simp

declare ceil_sqrt_from.simps [simp del]

definition ceil_sqrt :: "nat \<Rightarrow> nat" where
  "ceil_sqrt n = ceil_sqrt_from 0 n"

text \<open>The loop that finds the largest segment.\<close>

definition peak_of :: "segment list \<Rightarrow> i64" where
  "peak_of ss =
     fold (\<lambda>s peak. if sint (seg_LogicalSize s) > sint peak then seg_LogicalSize s else peak) ss 0"

definition rejected :: "limits \<Rightarrow> string \<Rightarrow> decision" where
  "rejected a why =
     \<lparr>de_Allowed = False, de_Reason = why, de_Concurrency = 1, de_MemoryLimit = li_MaxResidentBytes a,
      de_EstimatedWeight = 0\<rparr>"

definition Evaluate :: "limits \<Rightarrow> manifest \<Rightarrow> load \<Rightarrow> decision" where
  "Evaluate a m load =
     (if lo_ActiveOperations load \<ge> li_MaxActiveOperations a
      then rejected a ''active operation limit reached''
      else if sint (lo_ResidentBytes load) \<ge> sint (li_MaxResidentBytes a)
      then rejected a ''resident byte limit reached''
      else if sint (mf_TotalSize m) \<le> 0 \<or> sint (mf_TotalSize m) > sint (li_MaxManifestBytes a)
      then rejected a ''manifest size outside admission range''
      else if length (mf_Segments m) = 0 \<or> int (length (mf_Segments m)) > li_MaxSegments a
      then rejected a ''segment count outside admission range''
      else
        (let peak = peak_of (mf_Segments m);
             available = li_MaxResidentBytes a - lo_ResidentBytes load
         in if sint peak > sint available
            then rejected a ''largest segment exceeds available byte budget''
            else
              (let byMemory = sint available sdiv sint (max64 peak 1);
                   bySegments = int (ceil_sqrt (length (mf_Segments m)))
               in \<lparr>de_Allowed = True, de_Reason = ''admitted'',
                   de_Concurrency = minInt 8 (maxInt 1 (minInt byMemory bySegments)),
                   de_MemoryLimit = available, de_EstimatedWeight = peak\<rparr>)))"


section \<open>Retry\<close>

datatype failure_class = FailureTransient | FailurePermanent | FailureCancelled

record retry_decision =
  rd_Retry :: bool
  rd_After :: i64
  rd_Class :: failure_class
  rd_Reason :: string

definition no_retry :: "failure_class \<Rightarrow> string \<Rightarrow> retry_decision" where
  "no_retry class why = \<lparr>rd_Retry = False, rd_After = 0, rd_Class = class, rd_Reason = why\<rparr>"

text \<open>\<open>time.Duration(1 << k)\<close> shifts a 64-bit one, which is zero from \<open>k = 64\<close> on.\<close>

definition backoff :: "limits \<Rightarrow> int \<Rightarrow> i64" where
  "backoff a attempt =
     (let delay = li_BaseBackoff a * push_bit (nat (maxInt 0 (attempt - 1))) 1
      in if sint delay > sint (li_MaxBackoff a) then li_MaxBackoff a else delay)"

definition Retry :: "limits \<Rightarrow> int \<Rightarrow> failure_class \<Rightarrow> retry_decision" where
  "Retry a attempt class =
     (if class = FailureCancelled then no_retry class ''caller cancelled''
      else if class = FailurePermanent
      then no_retry class ''permanent validation or integrity failure''
      else if attempt \<ge> li_MaxAttempts a
      then no_retry class (''attempt limit '' @ dec (nat (li_MaxAttempts a)) @ '' reached'')
      else \<lparr>rd_Retry = True, rd_After = backoff a attempt, rd_Class = class,
            rd_Reason = ''transient failure''\<rparr>)"

section \<open>Lemmas\<close>

lemma ceil_sqrt_from_spec:
  "(\<forall>j<k. j * j < n) \<Longrightarrow> n \<le> (ceil_sqrt_from k n)\<^sup>2 \<and> (\<forall>j<ceil_sqrt_from k n. j * j < n)"
proof (induction k n rule: ceil_sqrt_from.induct)
  case (1 k n)
  show ?case
  proof (cases "n \<le> k * k")
    case True
    with "1.prems" show ?thesis by (simp add: ceil_sqrt_from.simps [of k n] power2_eq_square)
  next
    case False
    then have "\<forall>j<Suc k. j * j < n" using "1.prems" by (auto simp: less_Suc_eq)
    with 1 False show ?thesis by (simp add: ceil_sqrt_from.simps [of k n])
  qed
qed

lemma ceil_sqrt: "n \<le> (ceil_sqrt n)\<^sup>2" "j < ceil_sqrt n \<Longrightarrow> j * j < n"
  using ceil_sqrt_from_spec [of 0 n] by (auto simp: ceil_sqrt_def)

lemma ceil_sqrt_pos: "0 < n \<Longrightarrow> 1 \<le> ceil_sqrt n"
  using ceil_sqrt(1) [of n] by (cases "ceil_sqrt n") auto

lemma peak_from:
  fixes ss :: "segment list"
  defines "step \<equiv> \<lambda>(s :: segment) peak :: i64. if sint (seg_LogicalSize s) > sint peak then seg_LogicalSize s else peak"
  shows "sint p \<le> sint (fold step ss p) \<and> (\<forall>s\<in>set ss. sint (seg_LogicalSize s) \<le> sint (fold step ss p))
    \<and> (fold step ss p = p \<or> (\<exists>s\<in>set ss. fold step ss p = seg_LogicalSize s))"
proof (induction ss arbitrary: p)
  case (Cons s ss)
  have "sint p \<le> sint (step s p)" "sint (seg_LogicalSize s) \<le> sint (step s p)"
    "step s p = p \<or> step s p = seg_LogicalSize s"
    by (auto simp: step_def)
  with Cons [of "step s p"] show ?case by fastforce
qed simp

lemma peak_of_ge: "0 \<le> sint (peak_of ss)" "s \<in> set ss \<Longrightarrow> sint (seg_LogicalSize s) \<le> sint (peak_of ss)"
  using peak_from [of 0 ss] by (auto simp: peak_of_def)

lemma peak_of_least:
  "0 \<le> k \<Longrightarrow> (\<And>s. s \<in> set ss \<Longrightarrow> sint (seg_LogicalSize s) \<le> k) \<Longrightarrow> sint (peak_of ss) \<le> k"
  using peak_from [of 0 ss] by (auto simp: peak_of_def)

lemma sdiv_pos: "0 \<le> a \<Longrightarrow> 0 < b \<Longrightarrow> (a :: int) sdiv b = a div b"
  by (cases "a = 0") (simp_all add: signed_divide_int_def)

text \<open>What an admitted merge satisfies.\<close>

definition admissible :: "limits \<Rightarrow> manifest \<Rightarrow> load \<Rightarrow> bool" where
  "admissible a m load \<longleftrightarrow>
     lo_ActiveOperations load < li_MaxActiveOperations a
     \<and> sint (lo_ResidentBytes load) < sint (li_MaxResidentBytes a)
     \<and> 0 < sint (mf_TotalSize m) \<and> sint (mf_TotalSize m) \<le> sint (li_MaxManifestBytes a)
     \<and> mf_Segments m \<noteq> [] \<and> int (length (mf_Segments m)) \<le> li_MaxSegments a
     \<and> (\<forall>s\<in>set (mf_Segments m).
          sint (seg_LogicalSize s) + sint (lo_ResidentBytes load) \<le> sint (li_MaxResidentBytes a))"

definition suggested :: "manifest \<Rightarrow> i64 \<Rightarrow> int" where
  "suggested m available =
     min 8 (max 1 (min (sint available div max 1 (sint (peak_of (mf_Segments m))))
                       (int (ceil_sqrt (length (mf_Segments m))))))"

lemma Evaluate_eq:
  fixes a :: limits
  assumes "0 \<le> sint (lo_ResidentBytes load)"
  defines "available \<equiv> li_MaxResidentBytes a - lo_ResidentBytes load"
  shows "if admissible a m load
    then Evaluate a m load =
      \<lparr>de_Allowed = True, de_Reason = ''admitted'', de_Concurrency = suggested m available,
       de_MemoryLimit = available, de_EstimatedWeight = peak_of (mf_Segments m)\<rparr>
      \<and> sint available + sint (lo_ResidentBytes load) = sint (li_MaxResidentBytes a)
    else \<exists>why. Evaluate a m load = rejected a why"
proof (cases "lo_ActiveOperations load < li_MaxActiveOperations a
     \<and> sint (lo_ResidentBytes load) < sint (li_MaxResidentBytes a)
     \<and> 0 < sint (mf_TotalSize m) \<and> sint (mf_TotalSize m) \<le> sint (li_MaxManifestBytes a)
     \<and> mf_Segments m \<noteq> [] \<and> int (length (mf_Segments m)) \<le> li_MaxSegments a")
  case False
  then show ?thesis by (auto simp: Evaluate_def admissible_def Let_def)
next
  case True
  let ?peak = "peak_of (mf_Segments m)"
  have av: "sint available = sint (li_MaxResidentBytes a) - sint (lo_ResidentBytes load)"
    using True assms(1) unfolding available_def by (intro sint_sub_nonneg) auto
  have fits: "admissible a m load \<longleftrightarrow> sint ?peak \<le> sint available"
    using True av peak_of_ge(2) [of _ "mf_Segments m"] peak_of_least [of "sint available" "mf_Segments m"]
    by (fastforce simp: admissible_def)
  have "sint (max64 ?peak 1) = max 1 (sint ?peak)" by (simp add: max64_def max_def)
  then have "minInt 8 (maxInt 1 (minInt (sint available sdiv sint (max64 ?peak 1))
      (int (ceil_sqrt (length (mf_Segments m)))))) = suggested m available"
    using True av by (simp add: sdiv_pos suggested_def minInt_def maxInt_def min_def max_def)
  with True av fits show ?thesis
    by (auto simp: Evaluate_def Let_def simp flip: available_def)
qed

lemma suggested_bounds:
  assumes "sint (peak_of (mf_Segments m)) \<le> sint available"
  shows "1 \<le> suggested m available" "suggested m available \<le> 8"
    "suggested m available * sint (peak_of (mf_Segments m)) \<le> sint available"
    "mf_Segments m \<noteq> [] \<Longrightarrow> (suggested m available - 1)\<^sup>2 < int (length (mf_Segments m))"
proof -
  let ?peak = "sint (peak_of (mf_Segments m))" and ?n = "length (mf_Segments m)"
  let ?q = "sint available div max 1 ?peak"
  show one: "1 \<le> suggested m available" and "suggested m available \<le> 8" by (simp_all add: suggested_def)
  have nn: "0 \<le> ?peak" by (rule peak_of_ge)
  show "suggested m available * ?peak \<le> sint available"
  proof (cases "1 \<le> ?peak")
    case True
    with assms have "1 \<le> ?q" by (simp add: pos_imp_zdiv_pos_iff int_one_le_iff_zero_less)
    then have "suggested m available \<le> ?q" by (auto simp: suggested_def)
    then have "suggested m available * ?peak \<le> ?q * ?peak" using nn by (rule mult_right_mono)
    also have "\<dots> \<le> sint available" using True by (simp add: max_def minus_mod_eq_div_mult [symmetric])
    finally show ?thesis .
  next
    case False
    with nn have "?peak = 0" by simp
    with assms show ?thesis by simp
  qed
  assume "mf_Segments m \<noteq> []"
  then have r: "1 \<le> ceil_sqrt ?n" by (intro ceil_sqrt_pos) simp
  then have "suggested m available \<le> int (ceil_sqrt ?n)" by (auto simp: suggested_def)
  then have "(suggested m available - 1)\<^sup>2 \<le> (int (ceil_sqrt ?n) - 1)\<^sup>2"
    using one by (intro power_mono) auto
  also have "\<dots> = int ((ceil_sqrt ?n - 1) * (ceil_sqrt ?n - 1))"
    using r by (simp add: power2_eq_square of_nat_diff)
  also have "\<dots> < int ?n" using r by (intro of_nat_mono ceil_sqrt(2) iffD2 [OF of_nat_less_iff]) simp
  finally show "(suggested m available - 1)\<^sup>2 < int ?n" .
qed


section \<open>Properties of admission\<close>

text \<open>
  C31: A merge is admitted exactly when fewer operations are active than the limit, its size
  and its number of segments are in range, and each of its segments fits in what the resident
  bytes leave. The byte budget and the resident bytes then make up the whole limit, the estimated
  weight bounds every segment, and the suggested number of workers is between 1 and 8, at most the
  rounded-up square root of the number of segments, and so small that all workers can hold the
  largest segment at once.
\<close>
theorem admission_sound:
  assumes "0 \<le> sint (lo_ResidentBytes load)"
  shows "if admissible a m load
    then de_Allowed (Evaluate a m load)
      \<and> sint (de_MemoryLimit (Evaluate a m load)) + sint (lo_ResidentBytes load) = sint (li_MaxResidentBytes a)
      \<and> (\<forall>s\<in>set (mf_Segments m). sint (seg_LogicalSize s) \<le> sint (de_EstimatedWeight (Evaluate a m load)))
      \<and> 1 \<le> de_Concurrency (Evaluate a m load) \<and> de_Concurrency (Evaluate a m load) \<le> 8
      \<and> (de_Concurrency (Evaluate a m load) - 1)\<^sup>2 < int (length (mf_Segments m))
      \<and> de_Concurrency (Evaluate a m load) * sint (de_EstimatedWeight (Evaluate a m load))
          \<le> sint (de_MemoryLimit (Evaluate a m load))
    else \<not> de_Allowed (Evaluate a m load)"
proof (cases "admissible a m load")
  case True
  let ?available = "li_MaxResidentBytes a - lo_ResidentBytes load"
  have ev: "Evaluate a m load =
      \<lparr>de_Allowed = True, de_Reason = ''admitted'', de_Concurrency = suggested m ?available,
       de_MemoryLimit = ?available, de_EstimatedWeight = peak_of (mf_Segments m)\<rparr>"
    and av: "sint ?available + sint (lo_ResidentBytes load) = sint (li_MaxResidentBytes a)"
    using Evaluate_eq [OF assms, of a m] True by simp_all
  have "sint (peak_of (mf_Segments m)) \<le> sint ?available"
    using True av by (intro peak_of_least) (auto simp: admissible_def)
  from suggested_bounds [OF this] True av show ?thesis
    by (simp add: ev peak_of_ge admissible_def)
next
  case False
  then obtain why where "Evaluate a m load = rejected a why"
    using Evaluate_eq [OF assms, of a m] by auto
  with False show ?thesis by (simp add: rejected_def)
qed

definition idle_load :: load where
  "idle_load = \<lparr>lo_ActiveOperations = 0, lo_ResidentBytes = 0\<rparr>"

lemma demo_admissible: "admissible DefaultLimits demo_manifest idle_load"
  by (simp add: admissible_def DefaultLimits_def idle_load_def demo_defs)

theorem admission_sound_witness:
  "de_Allowed (Evaluate DefaultLimits demo_manifest idle_load)"
  using admission_sound [of idle_load DefaultLimits demo_manifest] demo_admissible
  by (simp add: idle_load_def)

text \<open>Leases for a list of weights, taken one after the other without waiting.\<close>

fun acquire_all :: "i64 list \<Rightarrow> byte_budget \<Rightarrow> byte_budget option" where
  "acquire_all [] b = Some b"
| "acquire_all (w # ws) b =
     (case Acquire w b of (AcqLease l, b') \<Rightarrow> acquire_all ws b' | _ \<Rightarrow> None)"

lemma acquire_all_fits:
  assumes "budget_ok b" "\<forall>w\<in>set ws. 1 \<le> sint w"
    "sint (bb_reserved b) + (\<Sum>w\<leftarrow>ws. sint w) \<le> sint (bb_limit b)"
  shows "acquire_all ws b \<noteq> None"
  using assms
proof (induction ws arbitrary: b)
  case (Cons w ws)
  have nn: "0 \<le> (\<Sum>w\<leftarrow>ws. sint w)" using Cons.prems(2) by (intro sum_list_nonneg) auto
  have res: "0 \<le> sint (bb_reserved b)"
    using Cons.prems(1) held_le [of "bb_limit b" "bb_leases b"] by (auto simp: budget_ok_def)
  have w: "1 \<le> sint w" "sint w \<le> sint (bb_limit b)"
    using Cons.prems nn res by auto
  obtain r b' where acq: "Acquire_loop w b = (r, b')" by fastforce
  have "sint (bb_reserved b + w) = sint (bb_reserved b) + sint w"
    using Cons.prems nn res w by (intro sint_add_le [of _ _ "bb_limit b"]) auto
  then have fits: "r = AcqLease (length (bb_leases b))"
    "sint (bb_reserved b') = sint (bb_reserved b) + sint w" "bb_limit b' = bb_limit b"
    using Acquire_loop_fits [OF Cons.prems(1) w] acq Cons.prems nn
    by (auto simp: Acquire_loop_def split: if_splits)
  have "acquire_all ws b' \<noteq> None"
    using Cons.prems fits budget_ok_Acquire_loop [OF Cons.prems(1) w acq] by (intro Cons.IH) auto
  with w fits acq show ?case by (auto simp: Acquire_def)
qed simp

lemma compiled_weight:
  assumes "CompileManifest m = Inr c" "BuildPlan c None = Inr p" "e \<in> set (pl_Entries p)"
  shows "1 \<le> sint (pe_MemoryWeight e)"
    "\<exists>s\<in>set (mf_Segments m). seg_LogicalSize s = pe_MemoryWeight e"
proof -
  have p: "p = plan_from c 0 []"
    using assms(2) by (simp add: BuildPlan_compiled [OF assms(1)])
  show "1 \<le> sint (pe_MemoryWeight e)"
    using plan_entry_weight(2) [OF assms(1)] assms(3) unfolding p by force
  have "pe_Segment e \<in> set (mf_Segments c)"
    using assms(3) unfolding p by (auto simp: plan_from_def plan_entry_at_def)
  moreover have "pe_MemoryWeight e = seg_LogicalSize (pe_Segment e)"
    using plan_entry_weight(1) [OF assms(1)] assms(3) unfolding p by blast
  moreover have "mset (mf_Segments c) = mset (mf_Segments m)"
    using assms(1) by (simp add: CompileManifest_Inr normalise_def)
  ultimately show "\<exists>s\<in>set (mf_Segments m). seg_LogicalSize s = pe_MemoryWeight e"
    by (metis set_mset_mset)
qed

text \<open>
  The workers that admission suggests never wait for each other: with the byte budget of the
  decision, any choice of entries of the plan, one for each worker, gets all its leases at once.
  (A merge can wait all the same, for leases that segments already loaded keep until they are
  written.)
\<close>
theorem admitted_workers_together:
  assumes "0 \<le> sint (lo_ResidentBytes load)" "de_Allowed (Evaluate a m load)"
    "CompileManifest m = Inr c" "BuildPlan c None = Inr p" "set es \<subseteq> set (pl_Entries p)"
    "int (length es) \<le> de_Concurrency (Evaluate a m load)"
  shows "acquire_all (map pe_MemoryWeight es) (NewByteBudget (de_MemoryLimit (Evaluate a m load))) \<noteq> None"
proof -
  let ?d = "Evaluate a m load" and ?available = "li_MaxResidentBytes a - lo_ResidentBytes load"
  have adm: "admissible a m load"
    using Evaluate_eq [OF assms(1), of a m] assms(2)
    by (cases "admissible a m load") (auto simp: rejected_def)
  then have d: "?d = \<lparr>de_Allowed = True, de_Reason = ''admitted'', de_Concurrency = suggested m ?available,
       de_MemoryLimit = ?available, de_EstimatedWeight = peak_of (mf_Segments m)\<rparr>"
    and av: "sint ?available + sint (lo_ResidentBytes load) = sint (li_MaxResidentBytes a)"
    using Evaluate_eq [OF assms(1), of a m] by simp_all
  have peak: "sint (peak_of (mf_Segments m)) \<le> sint ?available"
    using adm av by (intro peak_of_least) (auto simp: admissible_def)
  have w: "1 \<le> sint (pe_MemoryWeight e)" "sint (pe_MemoryWeight e) \<le> sint (peak_of (mf_Segments m))"
    if "e \<in> set es" for e
    using compiled_weight [OF assms(3,4), of e] assms(5) that peak_of_ge(2) by fastforce+
  have "(\<Sum>e\<leftarrow>es. sint (pe_MemoryWeight e)) \<le> (\<Sum>e\<leftarrow>es. sint (peak_of (mf_Segments m)))"
    using w(2) by (rule sum_list_mono)
  also have "\<dots> = int (length es) * sint (peak_of (mf_Segments m))" by (simp add: sum_list_triv)
  also have "\<dots> \<le> suggested m ?available * sint (peak_of (mf_Segments m))"
    using assms(6) peak_of_ge(1) by (intro mult_right_mono) (simp_all add: d)
  also have "\<dots> \<le> sint ?available" using peak by (rule suggested_bounds(3))
  finally have sum: "(\<Sum>e\<leftarrow>es. sint (pe_MemoryWeight e)) \<le> sint ?available" .
  show ?thesis
  proof (rule acquire_all_fits)
    show "budget_ok (NewByteBudget (de_MemoryLimit ?d))" by (rule budget_ok_new)
    show "\<forall>w\<in>set (map pe_MemoryWeight es). 1 \<le> sint w" using w(1) by simp
    show "sint (bb_reserved (NewByteBudget (de_MemoryLimit ?d))) + (\<Sum>w\<leftarrow>map pe_MemoryWeight es. sint w)
        \<le> sint (bb_limit (NewByteBudget (de_MemoryLimit ?d)))"
      using sum by (simp add: NewByteBudget_def d comp_def)
  qed
qed

theorem admitted_workers_together_witness:
  "acquire_all (map pe_MemoryWeight (pl_Entries demo_plan))
     (NewByteBudget (de_MemoryLimit (Evaluate DefaultLimits demo_manifest idle_load))) \<noteq> None"
proof (rule admitted_workers_together)
  have "sint (peak_of (mf_Segments demo_manifest)) = 6" "length (mf_Segments demo_manifest) = 2"
    by (simp_all add: peak_of_def demo_defs)
  then have "suggested demo_manifest (li_MaxResidentBytes DefaultLimits) = 2"
    by (simp add: suggested_def DefaultLimits_def ceil_sqrt_def ceil_sqrt_from.simps)
  then have "de_Concurrency (Evaluate DefaultLimits demo_manifest idle_load) = 2"
    and "de_Allowed (Evaluate DefaultLimits demo_manifest idle_load)"
    using Evaluate_eq [of idle_load DefaultLimits demo_manifest] demo_admissible
    by (simp_all add: idle_load_def)
  then show "int (length (pl_Entries demo_plan)) \<le> de_Concurrency (Evaluate DefaultLimits demo_manifest idle_load)"
    and "de_Allowed (Evaluate DefaultLimits demo_manifest idle_load)"
    by (simp_all add: demo_plan_def plan_from_def demo_defs)
  show "BuildPlan demo_manifest None = Inr demo_plan"
    by (simp add: BuildPlan_compiled(1) [OF demo_compiled] demo_plan_def)
qed (simp_all add: idle_load_def demo_compiled)



section \<open>Properties of the backoff\<close>

lemma sint_backoff:
  assumes "0 < sint (li_BaseBackoff a)" "sint (li_BaseBackoff a) * 2 ^ k < 2 ^ 63" "attempt - 1 \<le> int k"
  shows "sint (backoff a attempt)
    = min (sint (li_MaxBackoff a)) (sint (li_BaseBackoff a) * 2 ^ nat (attempt - 1))"
proof -
  let ?j = "nat (maxInt 0 (attempt - 1))" and ?b = "sint (li_BaseBackoff a)"
  have j: "?j = nat (attempt - 1)" "?j \<le> k" using assms(3) by (auto simp: maxInt_def)
  have "(2 :: int) ^ ?j \<le> 2 ^ k" using j(2) by (intro power_increasing) auto
  then have "?b * 2 ^ ?j \<le> ?b * 2 ^ k" "2 ^ ?j \<le> ?b * 2 ^ ?j"
    using assms(1) by (auto intro: mult_left_mono mult_right_mono [of 1 ?b "2 ^ ?j", simplified])
  then have lt: "?b * 2 ^ ?j < 2 ^ 63" "(2 :: int) ^ ?j < 2 ^ 63" using assms(2) by linarith+
  have low: "- (2 ^ 63) \<le> (2 :: int) ^ ?j" "- (2 ^ 63) \<le> ?b * 2 ^ ?j"
    using assms(1) by (auto intro: order_trans [of _ "0 :: int"])
  have bit: "sint (push_bit ?j (1 :: i64)) = 2 ^ ?j"
    using lt(2) low(1) sint_i64_of_int [of "2 ^ ?j"] by (simp add: push_bit_eq_mult)
  have "sint (li_BaseBackoff a * push_bit ?j 1) = ?b * 2 ^ ?j"
    using sint_mult_i64 [of "li_BaseBackoff a" "push_bit ?j 1"] lt(1) low(2) unfolding bit by simp
  then show ?thesis unfolding backoff_def Let_def j(1) [symmetric] by (simp add: min_def)
qed

text \<open>
  C32: A failed attempt is repeated exactly when the failure is transient and the attempts are
  not used up, so the number of attempts is bounded. The pause doubles with each attempt and is cut
  at the maximum; it is positive, never shorter than the one before, as long as the longest
  product of the schedule fits in a \<open>time.Duration\<close>.
\<close>
theorem retry_schedule:
  assumes "a = NewAdmission l" "sint (li_BaseBackoff a) * 2 ^ nat (li_MaxAttempts a - 2) < 2 ^ 63"
  shows "(rd_Retry (Retry a n class) \<longleftrightarrow> class = FailureTransient \<and> n < li_MaxAttempts a)
    \<and> rd_Class (Retry a n class) = class
    \<and> (rd_Retry (Retry a n class) \<longrightarrow>
         sint (rd_After (Retry a n class))
           = min (sint (li_MaxBackoff a)) (sint (li_BaseBackoff a) * 2 ^ nat (n - 1))
         \<and> 0 < sint (rd_After (Retry a n class))
         \<and> (rd_Retry (Retry a (n + 1) class) \<longrightarrow>
              sint (rd_After (Retry a n class)) \<le> sint (rd_After (Retry a (n + 1) class))))"
proof -
  have pos: "0 < sint (li_BaseBackoff a)" "0 < sint (li_MaxBackoff a)"
    by (simp_all add: assms(1) NewAdmission_def DefaultLimits_def Millisecond_def)
  have after: "sint (backoff a k) = min (sint (li_MaxBackoff a)) (sint (li_BaseBackoff a) * 2 ^ nat (k - 1))"
    if "k < li_MaxAttempts a" for k
    using that by (intro sint_backoff [OF pos(1) assms(2)]) linarith
  have mono: "sint (li_BaseBackoff a) * 2 ^ nat (n - 1) \<le> sint (li_BaseBackoff a) * 2 ^ nat (n + 1 - 1)"
    using pos(1) by (intro mult_left_mono power_increasing nat_mono) auto
  have grow: "sint (backoff a n) \<le> sint (backoff a (n + 1))" if "n + 1 < li_MaxAttempts a"
    using after [of n] after [OF that] mono that by (simp add: min.coboundedI2)
  have "0 < sint (backoff a n)" if "n < li_MaxAttempts a" using after [OF that] pos by simp
  with after [of n] grow show ?thesis
    by (cases "class") (auto simp: Retry_def no_retry_def)
qed

theorem retry_schedule_witness:
  "map (\<lambda>n. rd_Retry (Retry (NewAdmission DefaultLimits) n FailureTransient)) [1, 2, 3, 4]
     = [True, True, True, False]
   \<and> map (\<lambda>n. sint (rd_After (Retry (NewAdmission DefaultLimits) n FailureTransient))) [1, 2, 3]
     = [100000000, 200000000, 400000000]"
proof -
  have lim: "li_MaxAttempts (NewAdmission DefaultLimits) = 4"
    "sint (li_BaseBackoff (NewAdmission DefaultLimits)) = 100000000"
    "sint (li_MaxBackoff (NewAdmission DefaultLimits)) = 5000000000"
    by (simp_all add: NewAdmission_def DefaultLimits_def Millisecond_def)
  show ?thesis
    using retry_schedule [OF refl, of DefaultLimits 1 FailureTransient]
      retry_schedule [OF refl, of DefaultLimits 2 FailureTransient]
      retry_schedule [OF refl, of DefaultLimits 3 FailureTransient]
      retry_schedule [OF refl, of DefaultLimits 4 FailureTransient]
    by (simp add: lim)
qed

text \<open>
  With more attempts allowed, the pause wraps around. With the default pauses and 100
  attempts, the pause after the attempt 38 is negative and the one after the attempt 60 is zero,
  although the maximum is five seconds: the product is compared with the maximum after it has
  overflowed.
\<close>
theorem retry_pause_overflows:
  "sint (rd_After (Retry (NewAdmission (DefaultLimits\<lparr>li_MaxAttempts := 100\<rparr>)) 38 FailureTransient)) < 0
   \<and> rd_After (Retry (NewAdmission (DefaultLimits\<lparr>li_MaxAttempts := 100\<rparr>)) 60 FailureTransient) = 0
   \<and> rd_Retry (Retry (NewAdmission (DefaultLimits\<lparr>li_MaxAttempts := 100\<rparr>)) 38 FailureTransient)
   \<and> rd_Retry (Retry (NewAdmission (DefaultLimits\<lparr>li_MaxAttempts := 100\<rparr>)) 60 FailureTransient)"
  by (simp add: Retry_def backoff_def NewAdmission_def DefaultLimits_def Millisecond_def maxInt_def
      Let_def push_bit_eq_mult)

end
