(* ===== verification/Catalog.thy ===== *)
theory Catalog
  imports Model
begin

text \<open>
  \<open>catalog/catalog.go\<close>: operation records with optimistic revisions, an index from idempotency
  keys to operations, and the artifacts committed.

  Every operation runs under the catalog's lock, so it is one step. The Go maps are association
  lists without duplicate keys; a \<open>range\<close> goes through a map in the order of the list, which no
  property depends on. Times are instants, so \<open>Equal\<close> and \<open>After\<close> are equality and order.
\<close>

section \<open>The catalog\<close>

datatype catalog_error =
    CatalogFields
  | KeyBelongsTo string
  | OperationExists string
  | ErrOperationNotFound
  | ErrRevisionConflict u64 u64
  | IdentityChanged
  | ArtifactFields
  | ArtifactConflicts string
  | ErrArtifactNotFound

record operation_record =
  or_ID :: string
  or_Partition :: u32
  or_FileID :: string
  or_IdempotencyKey :: string
  or_State :: string
  or_Revision :: u64
  or_Attempt :: int
  or_Fence :: u64
  or_Owner :: string
  or_Completed :: int
  or_Total :: int
  or_LastError :: string
  or_RetryAt :: "time option"
  or_Result :: "merge_result option"
  or_CreatedAt :: time
  or_UpdatedAt :: time

record artifact_record =
  ar_Receipt :: commit_receipt
  ar_OperationID :: string
  ar_CommittedAt :: time

record catalog =
  ct_operations :: "(string \<times> operation_record) list"
  ct_idempotency :: "(string \<times> string) list"
  ct_artifacts :: "(string \<times> artifact_record) list"

definition New :: catalog where
  "New = \<lparr>ct_operations = [], ct_idempotency = [], ct_artifacts = []\<rparr>"

text \<open>What reading an absent key of the Go map gives: every field zero.\<close>

definition zero_record :: operation_record where
  "zero_record =
     \<lparr>or_ID = [], or_Partition = 0, or_FileID = [], or_IdempotencyKey = [], or_State = [],
      or_Revision = 0, or_Attempt = 0, or_Fence = 0, or_Owner = [], or_Completed = 0, or_Total = 0,
      or_LastError = [], or_RetryAt = None, or_Result = None, or_CreatedAt = 0, or_UpdatedAt = 0\<rparr>"

definition Create ::
  "operation_record \<Rightarrow> catalog \<Rightarrow> (catalog_error + operation_record \<times> bool) \<times> catalog" where
  "Create record c =
     (if or_ID record = [] \<or> or_FileID record = [] \<or> or_IdempotencyKey record = []
      then (Inl CatalogFields, c)
      else
        (case map_of (ct_idempotency c) (or_IdempotencyKey record) of
           Some existingID \<Rightarrow>
             (let existing = (case map_of (ct_operations c) existingID of
                                None \<Rightarrow> zero_record | Some r \<Rightarrow> r)
              in if or_FileID existing \<noteq> or_FileID record
                 then (Inl (KeyBelongsTo (or_FileID existing)), c)
                 else (Inr (existing, False), c))
         | None \<Rightarrow>
             (if map_of (ct_operations c) (or_ID record) \<noteq> None
              then (Inl (OperationExists (or_ID record)), c)
              else (let record' = record\<lparr>or_Revision := 1\<rparr>
                    in (Inr (record', True),
                        c\<lparr>ct_operations := AList.update (or_ID record') record' (ct_operations c),
                          ct_idempotency := AList.update (or_IdempotencyKey record') (or_ID record')
                            (ct_idempotency c)\<rparr>)))))"

definition GetOperation :: "string \<Rightarrow> catalog \<Rightarrow> catalog_error + operation_record" where
  "GetOperation i c =
     (case map_of (ct_operations c) i of None \<Rightarrow> Inl ErrOperationNotFound | Some r \<Rightarrow> Inr r)"

definition Update ::
  "operation_record \<Rightarrow> u64 \<Rightarrow> catalog \<Rightarrow> (catalog_error + operation_record) \<times> catalog" where
  "Update record expectedRevision c =
     (case map_of (ct_operations c) (or_ID record) of
        None \<Rightarrow> (Inl ErrOperationNotFound, c)
      | Some current \<Rightarrow>
          if or_Revision current \<noteq> expectedRevision
          then (Inl (ErrRevisionConflict expectedRevision (or_Revision current)), c)
          else if or_FileID current \<noteq> or_FileID record
                 \<or> or_IdempotencyKey current \<noteq> or_IdempotencyKey record
          then (Inl IdentityChanged, c)
          else (let record' = record\<lparr>or_Revision := or_Revision current + 1\<rparr>
                in (Inr record',
                    c\<lparr>ct_operations := AList.update (or_ID record') record' (ct_operations c)\<rparr>)))"

definition PutArtifact :: "artifact_record \<Rightarrow> catalog \<Rightarrow> catalog_error option \<times> catalog" where
  "PutArtifact record c =
     (if rc_FileID (ar_Receipt record) = [] \<or> ar_OperationID record = [] then (Some ArtifactFields, c)
      else
        (case map_of (ct_artifacts c) (rc_FileID (ar_Receipt record)) of
           Some current \<Rightarrow>
             if rc_Version (ar_Receipt current) \<noteq> rc_Version (ar_Receipt record)
               \<or> rc_Digest (ar_Receipt current) \<noteq> rc_Digest (ar_Receipt record)
             then (Some (ArtifactConflicts (rc_FileID (ar_Receipt record))), c)
             else (None, c)
         | None \<Rightarrow>
             (None, c\<lparr>ct_artifacts :=
                AList.update (rc_FileID (ar_Receipt record)) record (ct_artifacts c)\<rparr>)))"

definition GetArtifact :: "string \<Rightarrow> catalog \<Rightarrow> catalog_error + artifact_record" where
  "GetArtifact fileID c =
     (case map_of (ct_artifacts c) fileID of None \<Rightarrow> Inl ErrArtifactNotFound | Some r \<Rightarrow> Inr r)"

text \<open>Newest first; equal times by identifier.\<close>

definition newer :: "operation_record \<Rightarrow> operation_record \<Rightarrow> bool" where
  "newer a b =
     (if or_UpdatedAt a = or_UpdatedAt b then or_ID a < or_ID b else or_UpdatedAt a > or_UpdatedAt b)"

definition list_limit :: "int \<Rightarrow> int" where
  "list_limit limit = (if limit \<le> 0 \<or> limit > 1000 then 100 else limit)"

definition list_with ::
  "(operation_record list \<Rightarrow> operation_record list) \<Rightarrow> string \<Rightarrow> int \<Rightarrow> catalog \<Rightarrow> operation_record list"
  where
  "list_with sorter state limit c =
     (let limit = list_limit limit;
          result = sorter (filter (\<lambda>r. state = [] \<or> or_State r = state) (map snd (ct_operations c)))
      in if int (length result) > limit then take (nat limit) result else result)"

definition ListOperations :: "string \<Rightarrow> int \<Rightarrow> catalog \<Rightarrow> operation_record list" where
  "ListOperations = list_with (sort_slice newer)"

definition bump :: "string \<Rightarrow> (string \<times> int) list \<Rightarrow> (string \<times> int) list" where
  "bump k counts =
     AList.update k ((case map_of counts k of None \<Rightarrow> 0 | Some n \<Rightarrow> n) + 1) counts"

definition Counts :: "catalog \<Rightarrow> (string \<times> int) list" where
  "Counts c =
     fold (\<lambda>r. bump (''state.'' @ or_State r)) (map snd (ct_operations c))
       [(''operations'', int (length (ct_operations c))), (''artifacts'', int (length (ct_artifacts c)))]"

text \<open>Reading a Go map of numbers: zero where the key is absent.\<close>

definition count_at :: "(string \<times> int) list \<Rightarrow> string \<Rightarrow> int" where
  "count_at counts k = (case map_of counts k of None \<Rightarrow> 0 | Some n \<Rightarrow> n)"


section \<open>The invariant\<close>

text \<open>
  The table the records form, and the index that belongs to it: the key of every record leads to
  the record, and to nothing else.
\<close>

definition table :: "catalog \<Rightarrow> string \<Rightarrow> operation_record option" where
  "table c = map_of (ct_operations c)"

definition catalog_ok :: "catalog \<Rightarrow> bool" where
  "catalog_ok c \<longleftrightarrow>
     distinct (map fst (ct_operations c))
     \<and> (\<forall>i r. table c i = Some r \<longrightarrow> or_ID r = i \<and> i \<noteq> [] \<and> or_FileID r \<noteq> [] \<and> or_IdempotencyKey r \<noteq> [])
     \<and> (\<forall>k i. map_of (ct_idempotency c) k = Some i \<longleftrightarrow>
          (\<exists>r. table c i = Some r \<and> or_IdempotencyKey r = k))
     \<and> (\<forall>f a. map_of (ct_artifacts c) f = Some a \<longrightarrow> rc_FileID (ar_Receipt a) = f \<and> ar_OperationID a \<noteq> [])"

lemma catalog_ok_New: "catalog_ok New"
  by (simp add: catalog_ok_def New_def table_def)

lemma catalog_okD:
  assumes "catalog_ok c"
  shows "distinct (map fst (ct_operations c))"
    "table c i = Some r \<Longrightarrow> or_ID r = i" "table c i = Some r \<Longrightarrow> or_FileID r \<noteq> []"
    "map_of (ct_idempotency c) k = Some i \<longleftrightarrow> (\<exists>r. table c i = Some r \<and> or_IdempotencyKey r = k)"
    "map_of (ct_artifacts c) f = Some a \<Longrightarrow> rc_FileID (ar_Receipt a) = f"
  using assms unfolding catalog_ok_def by blast+

lemma catalog_okI:
  assumes "distinct (map fst (ct_operations c))"
    "\<And>i r. table c i = Some r \<Longrightarrow> or_ID r = i \<and> i \<noteq> [] \<and> or_FileID r \<noteq> [] \<and> or_IdempotencyKey r \<noteq> []"
    "\<And>k i. map_of (ct_idempotency c) k = Some i \<longleftrightarrow> (\<exists>r. table c i = Some r \<and> or_IdempotencyKey r = k)"
    "\<And>f a. map_of (ct_artifacts c) f = Some a \<Longrightarrow> rc_FileID (ar_Receipt a) = f \<and> ar_OperationID a \<noteq> []"
  shows "catalog_ok c"
  using assms unfolding catalog_ok_def by blast

lemma catalog_ok_artifact:
  "catalog_ok c \<Longrightarrow> map_of (ct_artifacts c) f = Some a \<Longrightarrow>
   rc_FileID (ar_Receipt a) = f \<and> ar_OperationID a \<noteq> []"
  unfolding catalog_ok_def by blast

lemma same_key:
  "catalog_ok c \<Longrightarrow> table c i = Some r \<Longrightarrow> table c j = Some s \<Longrightarrow>
   or_IdempotencyKey r = or_IdempotencyKey s \<Longrightarrow> i = j"
  by (metis catalog_okD(4) option.inject)


section \<open>The operations against a single table\<close>

text \<open>
  The contract of \<open>Create\<close>, stated on the table alone: the index is an implementation detail.
\<close>

definition record_fields :: "operation_record \<Rightarrow> bool" where
  "record_fields r \<longleftrightarrow> or_ID r \<noteq> [] \<and> or_FileID r \<noteq> [] \<and> or_IdempotencyKey r \<noteq> []"

fun create_spec :: "operation_record \<Rightarrow> (string \<Rightarrow> operation_record option)
    \<Rightarrow> catalog_error + operation_record \<times> bool \<Rightarrow> (string \<Rightarrow> operation_record option) \<Rightarrow> bool" where
  "create_spec new T (Inr (r, True)) T' \<longleftrightarrow>
     record_fields new \<and> (\<forall>s\<in>ran T. or_IdempotencyKey s \<noteq> or_IdempotencyKey new)
     \<and> T (or_ID new) = None \<and> r = new\<lparr>or_Revision := 1\<rparr> \<and> T' = T(or_ID new \<mapsto> r)"
| "create_spec new T (Inr (r, False)) T' \<longleftrightarrow>
     record_fields new \<and> r \<in> ran T \<and> or_IdempotencyKey r = or_IdempotencyKey new
     \<and> or_FileID r = or_FileID new \<and> T' = T"
| "create_spec new T (Inl e) T' \<longleftrightarrow>
     T' = T
     \<and> (if \<not> record_fields new then e = CatalogFields
        else if \<exists>s\<in>ran T. or_IdempotencyKey s = or_IdempotencyKey new
        then \<exists>s\<in>ran T. or_IdempotencyKey s = or_IdempotencyKey new \<and> or_FileID s \<noteq> or_FileID new
               \<and> e = KeyBelongsTo (or_FileID s)
        else T (or_ID new) \<noteq> None \<and> e = OperationExists (or_ID new))"

lemma Create_known_key:
  assumes "catalog_ok c" "record_fields new" "table c i = Some s" "or_IdempotencyKey s = or_IdempotencyKey new"
  shows "Create new c =
    (if or_FileID s \<noteq> or_FileID new then (Inl (KeyBelongsTo (or_FileID s)), c) else (Inr (s, False), c))"
proof -
  have "map_of (ct_idempotency c) (or_IdempotencyKey new) = Some i"
    using catalog_okD(4) [OF assms(1)] assms(3,4) by blast
  with assms(2,3) show ?thesis by (simp add: Create_def record_fields_def table_def Let_def)
qed

lemma Create_fresh_key:
  assumes "catalog_ok c" "record_fields new" "\<forall>s\<in>ran (table c). or_IdempotencyKey s \<noteq> or_IdempotencyKey new"
  shows "Create new c =
    (if table c (or_ID new) \<noteq> None then (Inl (OperationExists (or_ID new)), c)
     else (Inr (new\<lparr>or_Revision := 1\<rparr>, True),
       c\<lparr>ct_operations := AList.update (or_ID new) (new\<lparr>or_Revision := 1\<rparr>) (ct_operations c),
         ct_idempotency := AList.update (or_IdempotencyKey new) (or_ID new) (ct_idempotency c)\<rparr>))"
proof -
  have "map_of (ct_idempotency c) (or_IdempotencyKey new) = None"
    using catalog_okD(4) [OF assms(1)] assms(3) by (metis not_None_eq ranI)
  with assms(2) show ?thesis by (simp add: Create_def record_fields_def table_def Let_def)
qed

lemma Create_spec:
  assumes "catalog_ok c"
  shows "create_spec new (table c) (fst (Create new c)) (table (snd (Create new c)))"
proof (cases "record_fields new")
  case False
  then have "Create new c = (Inl CatalogFields, c)" by (auto simp: Create_def record_fields_def)
  with False show ?thesis by simp
next
  case True
  show ?thesis
  proof (cases "\<exists>s\<in>ran (table c). or_IdempotencyKey s = or_IdempotencyKey new")
    case known: True
    then obtain i s where s: "table c i = Some s" "or_IdempotencyKey s = or_IdempotencyKey new"
      by (auto simp: ran_def)
    with True known show ?thesis
      by (auto simp: Create_known_key [OF assms True s] intro: ranI)
  next
    case False
    then have fresh: "\<forall>s\<in>ran (table c). or_IdempotencyKey s \<noteq> or_IdempotencyKey new" by blast
    with True False show ?thesis
      unfolding Create_fresh_key [OF assms True fresh]
      by (auto simp: table_def update_conv')
  qed
qed

lemma Update_table:
  "Update r e c = (res, c') \<Longrightarrow>
   (case table c (or_ID r) of
      None \<Rightarrow> res = Inl ErrOperationNotFound \<and> c' = c
    | Some s \<Rightarrow>
        if or_Revision s \<noteq> e then res = Inl (ErrRevisionConflict e (or_Revision s)) \<and> c' = c
        else if or_FileID s \<noteq> or_FileID r \<or> or_IdempotencyKey s \<noteq> or_IdempotencyKey r
        then res = Inl IdentityChanged \<and> c' = c
        else res = Inr (r\<lparr>or_Revision := e + 1\<rparr>)
          \<and> table c' = (table c)(or_ID r \<mapsto> r\<lparr>or_Revision := e + 1\<rparr>)
          \<and> ct_idempotency c' = ct_idempotency c \<and> ct_artifacts c' = ct_artifacts c
          \<and> ct_operations c' = AList.update (or_ID r) (r\<lparr>or_Revision := e + 1\<rparr>) (ct_operations c))"
  by (auto simp: Update_def table_def Let_def update_conv' split: option.splits if_splits)

lemma Update_cases:
  assumes "Update r e c = (res, c')"
  obtains (refused) err where "res = Inl err" "c' = c"
  | (updated) s where "table c (or_ID r) = Some s" "or_Revision s = e" "or_FileID s = or_FileID r"
      "or_IdempotencyKey s = or_IdempotencyKey r" "res = Inr (r\<lparr>or_Revision := e + 1\<rparr>)"
      "c' = c\<lparr>ct_operations := AList.update (or_ID r) (r\<lparr>or_Revision := e + 1\<rparr>) (ct_operations c)\<rparr>"
      "table c' = (table c)(or_ID r \<mapsto> r\<lparr>or_Revision := e + 1\<rparr>)"
  using assms
  by (auto simp: Update_def table_def Let_def update_conv' split: option.splits if_splits)

lemma Create_cases:
  assumes "catalog_ok c" "Create r c = (res, c')"
  obtains (refused) err where "res = Inl err" "c' = c"
  | (known) s where "res = Inr (s, False)" "c' = c" "table c (or_ID s) = Some s"
      "or_IdempotencyKey s = or_IdempotencyKey r" "or_FileID s = or_FileID r" "record_fields r"
  | (created) "record_fields r" "table c (or_ID r) = None"
      "\<forall>s\<in>ran (table c). or_IdempotencyKey s \<noteq> or_IdempotencyKey r"
      "res = Inr (r\<lparr>or_Revision := 1\<rparr>, True)"
      "c' = c\<lparr>ct_operations := AList.update (or_ID r) (r\<lparr>or_Revision := 1\<rparr>) (ct_operations c),
         ct_idempotency := AList.update (or_IdempotencyKey r) (or_ID r) (ct_idempotency c)\<rparr>"
      "table c' = (table c)(or_ID r \<mapsto> r\<lparr>or_Revision := 1\<rparr>)"
proof (cases "record_fields r")
  case False
  then have "Create r c = (Inl CatalogFields, c)" by (auto simp: Create_def record_fields_def)
  with assms(2) show ?thesis by (intro refused [of CatalogFields]) simp_all
next
  case True
  show ?thesis
  proof (cases "\<exists>s\<in>ran (table c). or_IdempotencyKey s = or_IdempotencyKey r")
    case kn: True
    then obtain i s where s: "table c i = Some s" "or_IdempotencyKey s = or_IdempotencyKey r"
      by (auto simp: ran_def)
    with catalog_okD(2) [OF assms(1)] have "or_ID s = i" by blast
    with True s assms(2) refused known show ?thesis
      by (auto simp: Create_known_key [OF assms(1) True s] split: if_splits)
  next
    case False
    then have fresh: "\<forall>s\<in>ran (table c). or_IdempotencyKey s \<noteq> or_IdempotencyKey r" by blast
    with assms(2) True refused created show ?thesis
      unfolding Create_fresh_key [OF assms(1) True fresh]
      by (auto simp: table_def update_conv' split: if_splits)
  qed
qed

lemma PutArtifact_cases:
  assumes "PutArtifact a c = (res, c')"
  obtains (refused) err where "res = Some err" "c' = c"
  | (same) b where "res = None" "c' = c" "map_of (ct_artifacts c) (rc_FileID (ar_Receipt a)) = Some b"
      "rc_Version (ar_Receipt b) = rc_Version (ar_Receipt a)" "rc_Digest (ar_Receipt b) = rc_Digest (ar_Receipt a)"
      "rc_FileID (ar_Receipt a) \<noteq> []" "ar_OperationID a \<noteq> []"
  | (put) "res = None" "map_of (ct_artifacts c) (rc_FileID (ar_Receipt a)) = None"
      "rc_FileID (ar_Receipt a) \<noteq> []" "ar_OperationID a \<noteq> []"
      "c' = c\<lparr>ct_artifacts := AList.update (rc_FileID (ar_Receipt a)) a (ct_artifacts c)\<rparr>"
  using assms by (auto simp: PutArtifact_def split: option.splits if_splits)


section \<open>Every operation keeps the invariant\<close>

datatype catalog_op =
    OpCreate operation_record
  | OpUpdate operation_record u64
  | OpPut artifact_record

fun catalog_step :: "catalog_op \<Rightarrow> catalog \<Rightarrow> catalog" where
  "catalog_step (OpCreate r) c = snd (Create r c)"
| "catalog_step (OpUpdate r e) c = snd (Update r e c)"
| "catalog_step (OpPut a) c = snd (PutArtifact a c)"

lemma catalog_ok_Create:
  assumes ok: "catalog_ok c" and "Create r c = (res, c')"
  shows "catalog_ok c'"
  using assms
proof (cases rule: Create_cases)
  case created
  let ?r = "r\<lparr>or_Revision := 1\<rparr>"
  have idx: "map_of (ct_idempotency c') k = Some i \<longleftrightarrow> (\<exists>s. table c' i = Some s \<and> or_IdempotencyKey s = k)" for k i
  proof (cases "k = or_IdempotencyKey r")
    case True
    with created show ?thesis by (auto simp: update_conv' ran_def)
  next
    case False
    with created(1,2,5,6) catalog_okD(4) [OF ok, of k i] show ?thesis by (auto simp: update_conv')
  qed
  have rec: "or_ID s = i \<and> i \<noteq> [] \<and> or_FileID s \<noteq> [] \<and> or_IdempotencyKey s \<noteq> []"
    if "table c' i = Some s" for i s
    using that created(1,6) ok by (auto simp: catalog_ok_def record_fields_def split: if_splits)
  show ?thesis
  proof (rule catalog_okI [OF _ rec idx])
    show "distinct (map fst (ct_operations c'))"
      using catalog_okD(1) [OF ok] by (simp add: created(5) distinct_update)
    show "rc_FileID (ar_Receipt a) = f \<and> ar_OperationID a \<noteq> []"
      if "map_of (ct_artifacts c') f = Some a" for f a
      using that catalog_ok_artifact [OF ok] by (simp add: created(5))
  qed
qed (use ok in simp_all)

lemma catalog_ok_Update:
  assumes ok: "catalog_ok c" and "Update r e c = (res, c')"
  shows "catalog_ok c'"
  using assms(2)
proof (cases rule: Update_cases)
  case (updated s)
  have id: "or_ID s = or_ID r" "or_ID r \<noteq> []" "or_FileID r \<noteq> []" "or_IdempotencyKey r \<noteq> []"
    using updated(1,3,4) ok by (auto simp: catalog_ok_def)
  have idx: "map_of (ct_idempotency c') k = Some i \<longleftrightarrow> (\<exists>s. table c' i = Some s \<and> or_IdempotencyKey s = k)" for k i
    using catalog_okD(4) [OF ok, of k i] updated(1,4,6,7) by auto
  have rec: "or_ID s = i \<and> i \<noteq> [] \<and> or_FileID s \<noteq> [] \<and> or_IdempotencyKey s \<noteq> []"
    if "table c' i = Some s" for i s
    using that updated(7) id ok by (auto simp: catalog_ok_def split: if_splits)
  show ?thesis
  proof (rule catalog_okI [OF _ rec idx])
    show "distinct (map fst (ct_operations c'))"
      using catalog_okD(1) [OF ok] by (simp add: updated(6) distinct_update)
    show "rc_FileID (ar_Receipt a) = f \<and> ar_OperationID a \<noteq> []"
      if "map_of (ct_artifacts c') f = Some a" for f a
      using that catalog_ok_artifact [OF ok] by (simp add: updated(6))
  qed
qed (use ok in simp)

lemma catalog_ok_PutArtifact:
  assumes ok: "catalog_ok c" and "PutArtifact a c = (res, c')"
  shows "catalog_ok c'"
  using assms(2)
proof (cases rule: PutArtifact_cases)
  case put
  with ok show ?thesis by (auto simp: catalog_ok_def table_def update_conv' split: if_splits)
qed (use ok in simp_all)

lemma catalog_ok_step: "catalog_ok c \<Longrightarrow> catalog_ok (catalog_step op c)"
  by (cases op) (auto intro: catalog_ok_Create catalog_ok_Update catalog_ok_PutArtifact prod.collapse [symmetric])



section \<open>The history of a record\<close>

text \<open>
  What a client of optimistic revisions relies on: an operation keeps the identity of a record and
  either leaves it alone or moves its revision on by one. From it: a revision once passed does not
  come back within \<open>2 ^ 64\<close> operations.
\<close>

locale revisions =
  fixes step :: "'op \<Rightarrow> 's \<Rightarrow> 's"
    and ok :: "'s \<Rightarrow> bool"
    and get :: "'s \<Rightarrow> 'k \<Rightarrow> 'r option"
    and rev_of :: "'r \<Rightarrow> u64"
    and ident :: "'r \<Rightarrow> 'i"
  assumes ok_step: "ok s \<Longrightarrow> ok (step op s)"
    and get_step: "ok s \<Longrightarrow> get s k = Some r \<Longrightarrow>
      \<exists>r'. get (step op s) k = Some r' \<and> ident r' = ident r \<and> (r' = r \<or> rev_of r' = rev_of r + 1)"
begin

lemma ok_steps: "ok s \<Longrightarrow> ok (fold step ops s)"
  by (induction ops arbitrary: s) (auto intro: ok_step)

lemma history:
  "ok s \<Longrightarrow> get s k = Some r \<Longrightarrow>
   \<exists>r' j. get (fold step ops s) k = Some r' \<and> ident r' = ident r \<and> j \<le> length ops
     \<and> rev_of r' = rev_of r + of_nat j \<and> (j = 0 \<longrightarrow> r' = r)"
proof (induction ops arbitrary: s r)
  case (Cons op ops)
  obtain r1 where r1: "get (step op s) k = Some r1" "ident r1 = ident r" "r1 = r \<or> rev_of r1 = rev_of r + 1"
    using get_step [OF Cons.prems, of op] by blast
  obtain r' j where r': "get (fold step ops (step op s)) k = Some r'" "ident r' = ident r1" "j \<le> length ops"
    "rev_of r' = rev_of r1 + of_nat j" "j = 0 \<longrightarrow> r' = r1"
    using Cons.IH [OF ok_step [OF Cons.prems(1)] r1(1)] by blast
  from r1(3) show ?case
  proof
    assume "r1 = r"
    with r' show ?thesis by (intro exI [of _ r'] exI [of _ j]) auto
  next
    assume "rev_of r1 = rev_of r + 1"
    with r' r1(2) show ?thesis by (intro exI [of _ r'] exI [of _ "Suc j"]) auto
  qed
qed auto

lemma revision_passed:
  assumes "ok s" "get s k = Some r" "length ops < 2 ^ 64 - 1" "get (fold step ops s) k = Some r'"
  shows "rev_of r' \<noteq> rev_of r - 1"
proof
  assume eq: "rev_of r' = rev_of r - 1"
  obtain j where j: "j \<le> length ops" "rev_of r' = rev_of r + of_nat j"
    using history [OF assms(1,2), of ops] assms(4) by auto
  then have "of_nat (Suc j) = (0 :: u64)" using eq by (simp add: algebra_simps)
  moreover have "unat (of_nat (Suc j) :: u64) = Suc j"
    using j(1) assms(3) unfolding unat_of_nat by (intro mod_less) simp
  ultimately show False by simp
qed

end

text \<open>What no operation changes in a record: its identifier, its file and its key.\<close>

definition identity :: "operation_record \<Rightarrow> string \<times> string \<times> string" where
  "identity r = (or_ID r, or_FileID r, or_IdempotencyKey r)"

lemma catalog_get_step:
  assumes ok: "catalog_ok c" and i: "table c i = Some r"
  shows "\<exists>r'. table (catalog_step op c) i = Some r' \<and> identity r' = identity r
    \<and> (r' = r \<or> or_Revision r' = or_Revision r + 1)"
proof (cases op)
  case (OpCreate new)
  obtain res c' where cr: "Create new c = (res, c')" by fastforce
  have "table c' i = Some r"
    using ok cr by (cases rule: Create_cases) (use i in auto)
  with OpCreate cr show ?thesis by simp
next
  case (OpUpdate new e)
  obtain res c' where up: "Update new e c = (res, c')" by fastforce
  then have "\<exists>r'. table c' i = Some r' \<and> identity r' = identity r \<and> (r' = r \<or> or_Revision r' = or_Revision r + 1)"
    by (cases rule: Update_cases) (use i catalog_okD(2) [OF ok] in \<open>auto simp: identity_def\<close>)
  with OpUpdate up show ?thesis by simp
next
  case (OpPut a)
  obtain res c' where put: "PutArtifact a c = (res, c')" by fastforce
  then have "table c' i = Some r" by (cases rule: PutArtifact_cases) (use i in \<open>auto simp: table_def\<close>)
  with OpPut put show ?thesis by simp
qed

interpretation records: revisions catalog_step catalog_ok table or_Revision identity
  by unfold_locales (auto intro: catalog_ok_step catalog_get_step)


section \<open>Properties\<close>

text \<open>
  C36: \<open>Create\<close> implements a single table of records in which the idempotency keys are unique.
  Without a required field it fails; with a known key it returns the record that has the key,
  or fails where that one is of another file; with a fresh key it stores the record with revision 1,
  unless the identifier is taken. On every failure the table is as it was.
\<close>
theorem Create_refines_table:
  assumes "catalog_ok c"
  shows "create_spec new (table c) (fst (Create new c)) (table (snd (Create new c)))
    \<and> catalog_ok (snd (Create new c))"
  using Create_spec [OF assms, of new] catalog_ok_Create [OF assms, of new] by (metis prod.collapse)

definition sample :: "string \<Rightarrow> string \<Rightarrow> operation_record" where
  "sample i k = zero_record\<lparr>or_ID := i, or_FileID := ''file'', or_IdempotencyKey := k, or_State := ''accepted''\<rparr>"

theorem Create_refines_table_witness:
  "create_spec (sample ''m1'' ''k'') (table New) (fst (Create (sample ''m1'' ''k'') New))
     (table (snd (Create (sample ''m1'' ''k'') New)))
   \<and> table (snd (Create (sample ''m1'' ''k'') New)) ''m1'' \<noteq> None"
proof
  show "create_spec (sample ''m1'' ''k'') (table New) (fst (Create (sample ''m1'' ''k'') New))
     (table (snd (Create (sample ''m1'' ''k'') New)))"
    using Create_refines_table [OF catalog_ok_New, of "sample ''m1'' ''k''"] by (rule conjunct1)
  show "table (snd (Create (sample ''m1'' ''k'') New)) ''m1'' \<noteq> None"
    by (simp add: Create_def sample_def zero_record_def New_def table_def Let_def)
qed

text \<open>
  A repeated submission finds the first one. Once a record was created or found for a key,
  then after any operations whatsoever every \<open>Create\<close> with this key leaves the catalog alone, and
  returns the record with the same identifier, not created, where the file is the same, and
  names the file of the record otherwise.
\<close>
theorem Create_idempotent:
  assumes "catalog_ok c" "Create r c = (Inr (r1, created), c1)" "c2 = fold catalog_step ops c1"
    "record_fields r'" "or_IdempotencyKey r' = or_IdempotencyKey r"
  shows "if or_FileID r' = or_FileID r
    then \<exists>r2. Create r' c2 = (Inr (r2, False), c2) \<and> or_ID r2 = or_ID r1
    else Create r' c2 = (Inl (KeyBelongsTo (or_FileID r)), c2)"
proof -
  have ok1: "catalog_ok c1" using assms(1,2) by (rule catalog_ok_Create)
  have r1: "table c1 (or_ID r1) = Some r1" "or_IdempotencyKey r1 = or_IdempotencyKey r" "or_FileID r1 = or_FileID r"
    using assms(1,2) by (cases rule: Create_cases; auto)+
  obtain r2 where r2: "table c2 (or_ID r1) = Some r2" "identity r2 = identity r1"
    using records.history [OF ok1 r1(1), of ops] assms(3) by blast
  have ok2: "catalog_ok c2" using records.ok_steps [OF ok1] assms(3) by simp
  have "or_IdempotencyKey r2 = or_IdempotencyKey r'" using r2 r1 assms(5) by (simp add: identity_def)
  from Create_known_key [OF ok2 assms(4) r2(1) this] r1 r2 show ?thesis
    by (auto simp: identity_def)
qed

theorem Create_idempotent_witness:
  "\<exists>r2. Create (sample ''m2'' ''k'') (snd (Create (sample ''m1'' ''k'') New))
     = (Inr (r2, False), snd (Create (sample ''m1'' ''k'') New)) \<and> or_ID r2 = ''m1''"
proof -
  obtain r1 c1 where c1: "Create (sample ''m1'' ''k'') New = (Inr (r1, True), c1)" "or_ID r1 = ''m1''"
    by (simp add: Create_def sample_def zero_record_def New_def Let_def)
  have "record_fields (sample ''m2'' ''k'')"
    "or_IdempotencyKey (sample ''m2'' ''k'') = or_IdempotencyKey (sample ''m1'' ''k'')"
    "or_FileID (sample ''m2'' ''k'') = or_FileID (sample ''m1'' ''k'')"
    by (simp_all add: record_fields_def sample_def)
  then show ?thesis
    using Create_idempotent [OF catalog_ok_New c1(1), of "fold catalog_step [] c1" "[]" "sample ''m2'' ''k''"]
      c1 by simp
qed

text \<open>
  C37: No update is lost. Of two writers that read the same revision of a record at most one
  succeeds: after a successful \<open>Update\<close>, and any operations after it (fewer than \<open>2 ^ 64 - 1\<close>),
  an \<open>Update\<close> of the record with the same expected revision is refused with a conflict and
  changes nothing.
\<close>
theorem Update_no_lost_update:
  assumes "catalog_ok c" "Update a e c = (Inr a', c1)" "c2 = fold catalog_step ops c1"
    "length ops < 2 ^ 64 - 1" "or_ID b = or_ID a"
  shows "\<exists>r. r \<noteq> e \<and> Update b e c2 = (Inl (ErrRevisionConflict e r), c2)"
proof -
  have ok1: "catalog_ok c1" using assms(1,2) by (rule catalog_ok_Update)
  have a': "table c1 (or_ID a) = Some a'" "or_Revision a' = e + 1"
    using assms(2) by (cases rule: Update_cases; auto)+
  obtain r where r: "table c2 (or_ID a) = Some r"
    using records.history [OF ok1 a'(1), of ops] assms(3) by blast
  then have "or_Revision r \<noteq> e"
    using records.revision_passed [OF ok1 a'(1) assms(4)] assms(3) a'(2) by simp
  with r assms(5) show ?thesis by (simp add: Update_def table_def)
qed

definition two_samples :: catalog where
  "two_samples = fold catalog_step [OpCreate (sample ''m1'' ''k''), OpCreate (sample ''m2'' ''l'')] New"

lemma two_samples_ok: "catalog_ok two_samples"
  unfolding two_samples_def by (rule records.ok_steps [OF catalog_ok_New])

lemma two_samples_table: "table two_samples ''m1'' = Some (sample ''m1'' ''k''\<lparr>or_Revision := 1\<rparr>)"
  "map snd (ct_operations two_samples)
     = [sample ''m1'' ''k''\<lparr>or_Revision := 1\<rparr>, sample ''m2'' ''l''\<lparr>or_Revision := 1\<rparr>]"
  by (simp_all add: two_samples_def Create_def sample_def zero_record_def New_def table_def Let_def)

theorem Update_no_lost_update_witness:
  "\<exists>a' c1 r. Update (sample ''m1'' ''k'') 1 two_samples = (Inr a', c1)
     \<and> Update (sample ''m1'' ''k'') 1 c1 = (Inl (ErrRevisionConflict 1 r), c1)"
proof -
  obtain a' c1 where up: "Update (sample ''m1'' ''k'') 1 two_samples = (Inr a', c1)"
    using two_samples_table(1) by (simp add: Update_def table_def sample_def Let_def)
  then show ?thesis
    using Update_no_lost_update [OF two_samples_ok up, of c1 "[]" "sample ''m1'' ''k''"] by auto
qed

text \<open>
  Artifacts are written once. After a successful \<open>PutArtifact\<close> the file has an artifact of
  that version and digest; after any operations it is still the very same record, and another
  \<open>PutArtifact\<close> of the file changes nothing, and succeeds exactly for the same version and digest.
\<close>
theorem artifact_write_once:
  assumes "catalog_ok c" "PutArtifact a c = (None, c1)" "c2 = fold catalog_step ops c1"
    "rc_FileID (ar_Receipt b) = rc_FileID (ar_Receipt a)" "ar_OperationID b \<noteq> []"
  shows "\<exists>a'. GetArtifact (rc_FileID (ar_Receipt a)) c1 = Inr a' \<and> GetArtifact (rc_FileID (ar_Receipt a)) c2 = Inr a'
    \<and> rc_Version (ar_Receipt a') = rc_Version (ar_Receipt a) \<and> rc_Digest (ar_Receipt a') = rc_Digest (ar_Receipt a)
    \<and> PutArtifact b c2 =
        (if rc_Version (ar_Receipt b) = rc_Version (ar_Receipt a) \<and> rc_Digest (ar_Receipt b) = rc_Digest (ar_Receipt a)
         then None else Some (ArtifactConflicts (rc_FileID (ar_Receipt a))), c2)"
proof -
  let ?f = "rc_FileID (ar_Receipt a)"
  obtain a' where a': "map_of (ct_artifacts c1) ?f = Some a'" "?f \<noteq> []"
    "rc_Version (ar_Receipt a') = rc_Version (ar_Receipt a)" "rc_Digest (ar_Receipt a') = rc_Digest (ar_Receipt a)"
    using assms(2) by (cases rule: PutArtifact_cases) (auto simp: update_conv')
  have "map_of (ct_artifacts (fold catalog_step ops d)) ?f = Some a'"
    if "catalog_ok d" "map_of (ct_artifacts d) ?f = Some a'" for d
    using that
  proof (induction ops arbitrary: d)
    case (Cons op ops)
    have "map_of (ct_artifacts (catalog_step op d)) ?f = Some a'"
    proof (cases op)
      case (OpCreate r)
      with Cons.prems(2) show ?thesis by (auto simp: Create_def Let_def split: option.splits)
    next
      case (OpUpdate r e)
      with Cons.prems(2) show ?thesis by (auto simp: Update_def Let_def split: option.splits)
    next
      case (OpPut b)
      with Cons.prems(2) show ?thesis by (auto simp: PutArtifact_def update_conv' split: option.splits)
    qed
    with Cons show ?case by (simp add: catalog_ok_step)
  qed simp
  then have "map_of (ct_artifacts c2) ?f = Some a'"
    using a'(1) catalog_ok_PutArtifact [OF assms(1,2)] assms(3) by simp
  with a' assms(4,5) show ?thesis by (auto simp: GetArtifact_def PutArtifact_def)
qed

definition sample_artifact :: "string \<Rightarrow> artifact_record" where
  "sample_artifact v =
     \<lparr>ar_Receipt = \<lparr>rc_FileID = ''file'', rc_Version = v, rc_Size = 1, rc_Digest = ''00''\<rparr>,
      ar_OperationID = ''m1'', ar_CommittedAt = 0\<rparr>"

theorem artifact_write_once_witness:
  "\<exists>c1. PutArtifact (sample_artifact ''v1'') New = (None, c1)
     \<and> PutArtifact (sample_artifact ''v2'') c1 = (Some (ArtifactConflicts ''file''), c1)"
proof -
  obtain c1 where put: "PutArtifact (sample_artifact ''v1'') New = (None, c1)"
    by (simp add: PutArtifact_def sample_artifact_def New_def)
  then show ?thesis
    using artifact_write_once [OF catalog_ok_New put, of c1 "[]" "sample_artifact ''v2''"]
    by (auto simp: sample_artifact_def)
qed


section \<open>Listing and counting\<close>

interpretation newest: weak_order newer
  by unfold_locales (auto simp: newer_def split: if_splits)

definition matches :: "string \<Rightarrow> operation_record \<Rightarrow> bool" where
  "matches state r \<longleftrightarrow> state = [] \<or> or_State r = state"

lemma records_of_table:
  assumes "catalog_ok c"
  shows "set (map snd (ct_operations c)) = ran (table c)" "distinct (map snd (ct_operations c))"
    "r \<in> ran (table c) \<Longrightarrow> s \<in> ran (table c) \<Longrightarrow> or_ID r = or_ID s \<Longrightarrow> r = s"
proof -
  have dist: "distinct (map fst (ct_operations c))" using assms by (rule catalog_okD)
  have mem: "table c i = Some r \<longleftrightarrow> (i, r) \<in> set (ct_operations c)" for i r
    using dist by (simp add: table_def map_of_eq_Some_iff)
  show "set (map snd (ct_operations c)) = ran (table c)"
    by (force simp: ran_def mem)
  show id: "r = s" if "r \<in> ran (table c)" "s \<in> ran (table c)" "or_ID r = or_ID s" for r s
    using that catalog_okD(2) [OF assms] by (force simp: ran_def)
  have "map fst (ct_operations c) = map (\<lambda>p. or_ID (snd p)) (ct_operations c)"
    using catalog_okD(2) [OF assms] by (auto simp: mem)
  with dist have "distinct (map or_ID (map snd (ct_operations c)))" by (simp add: comp_def)
  then show "distinct (map snd (ct_operations c))" by (simp only: distinct_map)
qed

lemma newer_separates:
  assumes "catalog_ok c" "r \<in> ran (table c)" "s \<in> ran (table c)" "r \<noteq> s"
  shows "newer r s \<or> newer s r"
proof -
  have "or_ID r \<noteq> or_ID s" using records_of_table(3) [OF assms(1-3)] assms(4) by blast
  then have "or_ID r < or_ID s \<or> or_ID s < or_ID r" by (simp add: neq_iff)
  then show ?thesis by (auto simp: newer_def)
qed

lemma sorted_newer:
  assumes "sorted_wrt (\<lambda>x y. \<not> newer y x) xs" "distinct xs"
    "\<And>x y. x \<in> set xs \<Longrightarrow> y \<in> set xs \<Longrightarrow> x \<noteq> y \<Longrightarrow> newer x y \<or> newer y x"
  shows "sorted_wrt newer xs"
  using assms by (induction xs) fastforce+

lemma count_records:
  assumes "catalog_ok c"
  shows "length (filter P (map snd (ct_operations c))) = card {r \<in> ran (table c). P r}"
proof -
  have "distinct (filter P (map snd (ct_operations c)))"
    using records_of_table(2) [OF assms] by (rule distinct_filter)
  then have "length (filter P (map snd (ct_operations c))) = card (set (filter P (map snd (ct_operations c))))"
    by (simp only: distinct_card)
  also have "set (filter P (map snd (ct_operations c))) = {r \<in> ran (table c). P r}"
    using records_of_table(1) [OF assms] by auto
  finally show ?thesis .
qed

lemma ListOperations_spec:
  assumes "catalog_ok c" "slice_sorter newer sorter" "mset ops = mset (ct_operations c)"
  shows "list_with sorter state limit (c\<lparr>ct_operations := ops\<rparr>) = ListOperations state limit c
    \<and> set (ListOperations state limit c) \<subseteq> {r \<in> ran (table c). matches state r}
    \<and> distinct (ListOperations state limit c) \<and> sorted_wrt newer (ListOperations state limit c)
    \<and> length (ListOperations state limit c)
        = min (card {r \<in> ran (table c). matches state r}) (nat (list_limit limit))
    \<and> (\<forall>r\<in>{r \<in> ran (table c). matches state r} - set (ListOperations state limit c).
         \<forall>s\<in>set (ListOperations state limit c). newer s r)"
proof -
  let ?all = "filter (matches state) (map snd (ct_operations c))" and ?n = "nat (list_limit limit)"
  let ?S = "sort_slice newer ?all"
  have set_all: "set ?all = {r \<in> ran (table c). matches state r}"
    using records_of_table(1) [OF assms(1)] by auto
  have sep: "newer x y \<or> newer y x" if "x \<in> set ?all" "y \<in> set ?all" "x \<noteq> y" for x y
    using newer_separates [OF assms(1)] that unfolding set_all by blast
  have lim: "0 < list_limit limit" by (simp add: list_limit_def)
  have list: "list_with g state limit d = take ?n (g (filter (matches state) (map snd (ct_operations d))))" for g d
  proof -
    have "(\<lambda>r. state = [] \<or> or_State r = state) = matches state" by (simp add: fun_eq_iff matches_def)
    then show ?thesis using lim by (simp add: list_with_def Let_def)
  qed
  have LO: "ListOperations state limit c = take ?n ?S" by (simp add: ListOperations_def list)
  have "mset (filter (matches state) (map snd ops)) = mset ?all" using assms(3) by simp
  then have "sorter (filter (matches state) (map snd ops)) = sorter ?all"
    using slice_sorter.sorter_perm [OF assms(2)] sep by (metis mset_eq_setD)
  also have "\<dots> = ?S"
    using slice_sorter.sorted_unique [OF assms(2), of "sorter ?all" ?S] sep
      slice_sorter.mset_sorter [OF assms(2)] slice_sorter.sorted_sorter [OF assms(2)]
      slice_sorter.set_sorter [OF assms(2)] newest.sorted_sort_slice by simp
  finally have any: "list_with sorter state limit (c\<lparr>ct_operations := ops\<rparr>) = ListOperations state limit c"
    by (simp add: list LO)
  have set_S: "set ?S = set ?all" and len_S: "length ?S = length ?all"
    by (rule newest.ins.set_sorter, rule newest.ins.length_sorter)
  have "distinct ?all" using records_of_table(2) [OF assms(1)] by (rule distinct_filter)
  then have card: "card (set ?all) = length ?all" by (rule distinct_card)
  then have dist: "distinct ?S" using set_S len_S by (intro card_distinct) simp
  have "sorted_wrt newer ?S"
    using sep unfolding set_S [symmetric] by (intro sorted_newer newest.sorted_sort_slice dist) auto
  then have "sorted_wrt newer (take ?n ?S @ drop ?n ?S)" by simp
  then have sorted: "sorted_wrt newer (take ?n ?S)"
    and before: "\<And>r s. s \<in> set (take ?n ?S) \<Longrightarrow> r \<in> set (drop ?n ?S) \<Longrightarrow> newer s r"
    unfolding sorted_wrt_append by blast+
  have "set ?S = set (take ?n ?S) \<union> set (drop ?n ?S)" by (metis append_take_drop_id set_append)
  then have rest: "r \<in> set (drop ?n ?S)" if "r \<in> set ?all - set (take ?n ?S)" for r
    using that set_S by blast
  have "length (take ?n ?S) = min (card (set ?all)) ?n" using card len_S by simp
  moreover have "set (take ?n ?S) \<subseteq> set ?all" using set_take_subset [of ?n ?S] set_S by simp
  ultimately show ?thesis
    unfolding any LO set_all [symmetric]
    using sorted before rest distinct_take [OF dist] by blast
qed

text \<open>
  \<open>ListOperations\<close> returns, newest first, the newest records in the given state, or in any
  state for the empty one: as many as there are, up to the limit, which is 100 where the given one
  is not between 1 and 1000. The result is the same whatever the order in which Go goes through
  the map and whichever sorting algorithm is used.
\<close>
theorem ListOperations_newest:
  assumes "catalog_ok c" "slice_sorter newer sorter" "mset ops = mset (ct_operations c)"
  shows "list_with sorter state limit (c\<lparr>ct_operations := ops\<rparr>) = ListOperations state limit c
    \<and> set (ListOperations state limit c) \<subseteq> {r \<in> ran (table c). matches state r}
    \<and> distinct (ListOperations state limit c) \<and> sorted_wrt newer (ListOperations state limit c)
    \<and> length (ListOperations state limit c)
        = min (card {r \<in> ran (table c). matches state r}) (nat (list_limit limit))
    \<and> (\<forall>r\<in>{r \<in> ran (table c). matches state r} - set (ListOperations state limit c).
         \<forall>s\<in>set (ListOperations state limit c). newer s r)"
  using assms by (rule ListOperations_spec)

theorem ListOperations_newest_witness:
  "list_with (sort_slice newer) [] 1 (two_samples\<lparr>ct_operations := rev (ct_operations two_samples)\<rparr>)
     = ListOperations [] 1 two_samples
   \<and> length (ListOperations [] 1 two_samples) = 1"
proof -
  have "slice_sorter newer (sort_slice newer)" by (rule newest.ins.slice_sorter_axioms)
  moreover have "card {r \<in> ran (table two_samples). matches [] r} = 2"
    using count_records [OF two_samples_ok, of "matches []"] by (simp add: two_samples_table(2) matches_def)
  ultimately show ?thesis
    using ListOperations_newest [OF two_samples_ok, of "sort_slice newer" "rev (ct_operations two_samples)" "[]" 1]
    by (simp add: list_limit_def)
qed

lemma count_at_bump: "count_at (bump k counts) k' = count_at counts k' + (if k = k' then 1 else 0)"
  by (simp add: count_at_def bump_def update_conv' split: option.split)

lemma count_at_fold:
  "count_at (fold (\<lambda>r. bump (f r)) rs counts) k = count_at counts k + int (length (filter (\<lambda>r. f r = k) rs))"
  by (induction rs arbitrary: counts) (auto simp: count_at_bump)

text \<open>
  \<open>Counts\<close> counts: the number of records, the number of artifacts, and for every state the
  number of records in it (zero where the map has no entry).
\<close>
theorem Counts_exact:
  assumes "catalog_ok c"
  shows "count_at (Counts c) ''operations'' = int (card (ran (table c)))
    \<and> count_at (Counts c) ''artifacts'' = int (length (ct_artifacts c))
    \<and> count_at (Counts c) (''state.'' @ s) = int (card {r \<in> ran (table c). or_State r = s})"
  using count_records [OF assms, of "\<lambda>r. or_State r = s"] count_records [OF assms, of "\<lambda>r. True"]
  by (simp add: Counts_def count_at_fold) (simp add: count_at_def)

theorem Counts_exact_witness:
  "count_at (Counts two_samples) (''state.'' @ ''accepted'') = 2"
proof -
  have "card {r \<in> ran (table two_samples). or_State r = ''accepted''} = 2"
    using count_records [OF two_samples_ok, of "\<lambda>r. or_State r = ''accepted''"]
    by (simp add: two_samples_table(2) sample_def)
  then show ?thesis using Counts_exact [OF two_samples_ok, of "''accepted''"] by simp
qed

end
