(* ===== verification/Journal.thy ===== *)
theory Journal
  imports Sha256
begin

text \<open>
  \<open>journal/model.go\<close>, \<open>journal/store.go\<close> and \<open>journal/file.go\<close>: an append-only log of
  events, one line for each, numbered from 1 and with the SHA-256 of the event.

  \<open>encoding/json\<close> is the parameter \<open>json\<close>: what \<open>Marshal\<close> makes of an event, an envelope
  and a payload (\<open>None\<close> for an error) and what \<open>Unmarshal\<close> reads from a line. \<open>codec_ok\<close>
  says what the package documents of them: \<open>Marshal\<close> compacts a \<open>RawMessage\<close> (\<open>js_compact\<close>), and what it
  writes is read back where the strings are valid UTF-8; of other strings, whose invalid bytes JSON
  replaces, nothing is assumed. Times are in UTC throughout, so \<open>UTC()\<close> is the identity.

  The scanner of the standard library is written out: lines end with a newline, the last one
  may lack it, one carriage return at the end of a line is dropped, and a line of 4 MiB or more
  is an error (the buffer, with the newline, holds no more).

  The file of a \<open>FileStore\<close> is the sequence of its bytes. What an append does to it is the
  argument \<open>io\<close>: everything is written, or an error occurs after some of the bytes, or when
  synchronising. Opening, seeking and closing do not fail.
\<close>

section \<open>Events and envelopes\<close>

definition journal_kinds :: "string list" where
  "journal_kinds =
     [''accepted'', ''started'', ''progress'', ''retrying'', ''completed'', ''failed'', ''cancelled'']"

definition validKind :: "string \<Rightarrow> bool" where
  "validKind kind \<longleftrightarrow> kind \<in> set journal_kinds"

record event =
  ev_OperationID :: string
  ev_Kind :: string
  ev_At :: time
  ev_Attempt :: int
  ev_Fence :: u64
  ev_Payload :: bytes

definition zero_event :: event where
  "zero_event =
     \<lparr>ev_OperationID = [], ev_Kind = [], ev_At = 0, ev_Attempt = 0, ev_Fence = 0, ev_Payload = []\<rparr>"

record envelope =
  en_Sequence :: u64
  en_Checksum :: string
  en_Event :: event

record replay =
  rp_Events :: "envelope list"
  rp_LastSequence :: u64
  rp_Truncated :: bool

datatype journal_error =
    JournalCtx ctx_error
  | EventID
  | EventKind string
  | MarshalError
  | InvalidEvent
  | ReplayID
  | CorruptLine u64
  | CorruptChecksum u64
  | CorruptEvent u64
  | ErrSequenceGap u64 u64
  | TokenTooLong
  | JournalClosed
  | PathRequired
  | WriteError

text \<open>The errors that wrap \<open>ErrCorruptRecord\<close>.\<close>

fun corrupt_record :: "journal_error \<Rightarrow> bool" where
  "corrupt_record (CorruptLine n) = True"
| "corrupt_record (CorruptChecksum n) = True"
| "corrupt_record (CorruptEvent n) = True"
| "corrupt_record _ = False"

record json =
  js_event :: "event \<Rightarrow> bytes option"
  js_envelope :: "envelope \<Rightarrow> bytes option"
  js_decode :: "bytes \<Rightarrow> envelope option"
  js_compact :: "bytes \<Rightarrow> bytes"

text \<open>\<open>encoded\<close> is what \<open>json.Marshal\<close> returned for the payload.\<close>

definition json_null :: bytes where
  "json_null = [110, 117, 108, 108]"

definition NewEvent ::
  "string \<Rightarrow> string \<Rightarrow> time \<Rightarrow> bytes option \<Rightarrow> journal_error + event" where
  "NewEvent operationID kind at encoded =
     (if operationID = [] then Inl EventID
      else if \<not> validKind kind then Inl (EventKind kind)
      else
        (case encoded of
           None \<Rightarrow> Inl MarshalError
         | Some b \<Rightarrow>
             Inr \<lparr>ev_OperationID = operationID, ev_Kind = kind, ev_At = at, ev_Attempt = 0,
                  ev_Fence = 0, ev_Payload = (if b = json_null then [] else b)\<rparr>))"

definition event_sum :: "bytes \<Rightarrow> string" where
  "event_sum b = hex_encode (Sum256 b)"

definition encodeEnvelope ::
  "json \<Rightarrow> u64 \<Rightarrow> event \<Rightarrow> journal_error + envelope \<times> bytes" where
  "encodeEnvelope js sequence event =
     (case js_event js event of
        None \<Rightarrow> Inl MarshalError
      | Some eventBytes \<Rightarrow>
          (let envelope = \<lparr>en_Sequence = sequence, en_Checksum = event_sum eventBytes, en_Event = event\<rparr>
           in case js_envelope js envelope of
                None \<Rightarrow> Inl MarshalError
              | Some encoded \<Rightarrow> Inr (envelope, encoded)))"

definition verifyEnvelope :: "json \<Rightarrow> envelope \<Rightarrow> journal_error option" where
  "verifyEnvelope js envelope =
     (case js_event js (en_Event envelope) of
        None \<Rightarrow> Some MarshalError
      | Some encoded \<Rightarrow>
          if en_Checksum envelope \<noteq> event_sum encoded
          then Some (CorruptChecksum (en_Sequence envelope))
          else if ev_OperationID (en_Event envelope) = [] \<or> \<not> validKind (ev_Kind (en_Event envelope))
          then Some (CorruptEvent (en_Sequence envelope))
          else None)"


section \<open>Reading the lines\<close>

definition max_token :: nat where
  "max_token = 4 * 1024 * 1024"

definition dropCR :: "bytes \<Rightarrow> bytes" where
  "dropCR line = (if line \<noteq> [] \<and> last line = 13 then butlast line else line)"

text \<open>The raw lines, without their newlines; the flag says whether the last one had none.\<close>

fun split_lines :: "bytes \<Rightarrow> bytes \<Rightarrow> bytes list" where
  "split_lines acc [] = (if acc = [] then [] else [rev acc])"
| "split_lines acc (b # bs) = (if b = 10 then rev acc # split_lines [] bs else split_lines (b # acc) bs)"

text \<open>
  The loop of \<open>decodeStream\<close>, from the sequence number expected next; \<open>cx\<close> is the context as
  it is when that line is read.
\<close>

fun decode_lines ::
  "json \<Rightarrow> (u64 \<Rightarrow> ctx_error option) \<Rightarrow> string \<Rightarrow> u64 \<Rightarrow> replay \<Rightarrow> bytes list \<Rightarrow> journal_error + replay"
  where
  "decode_lines js cx operationID expected result [] = Inr result"
| "decode_lines js cx operationID expected result (raw # lines) =
     (if length raw \<ge> max_token then Inl TokenTooLong
      else
        (case cx expected of
           Some e \<Rightarrow> Inl (JournalCtx e)
         | None \<Rightarrow>
             (case js_decode js (dropCR raw) of
                None \<Rightarrow> Inl (CorruptLine expected)
              | Some envelope \<Rightarrow>
                  if en_Sequence envelope \<noteq> expected
                  then Inl (ErrSequenceGap expected (en_Sequence envelope))
                  else
                    (case verifyEnvelope js envelope of
                       Some e \<Rightarrow> Inl e
                     | None \<Rightarrow>
                         decode_lines js cx operationID (expected + 1)
                           (result\<lparr>rp_LastSequence := en_Sequence envelope,
                              rp_Events :=
                                (if operationID = [] \<or> ev_OperationID (en_Event envelope) = operationID
                                 then rp_Events result @ [envelope] else rp_Events result)\<rparr>)
                           lines))))"

definition empty_replay :: replay where
  "empty_replay = \<lparr>rp_Events = [], rp_LastSequence = 0, rp_Truncated = False\<rparr>"

definition decodeStream ::
  "json \<Rightarrow> (u64 \<Rightarrow> ctx_error option) \<Rightarrow> bytes \<Rightarrow> string \<Rightarrow> journal_error + replay" where
  "decodeStream js cx data operationID =
     decode_lines js cx operationID 1 empty_replay (split_lines [] data)"


section \<open>The store in memory\<close>

record memory_store =
  ms_lines :: "bytes list"
  ms_next :: u64

definition NewMemoryStore :: memory_store where
  "NewMemoryStore = \<lparr>ms_lines = [], ms_next = 0\<rparr>"

definition Memory_Append ::
  "json \<Rightarrow> ctx_error option \<Rightarrow> event \<Rightarrow> memory_store \<Rightarrow> (journal_error + envelope) \<times> memory_store" where
  "Memory_Append js cx event s =
     (case cx of
        Some e \<Rightarrow> (Inl (JournalCtx e), s)
      | None \<Rightarrow>
          if ev_OperationID event = [] \<or> \<not> validKind (ev_Kind event) then (Inl InvalidEvent, s)
          else
            (case encodeEnvelope js (ms_next s + 1) event of
               Inl e \<Rightarrow> (Inl e, s)
             | Inr (envelope, encoded) \<Rightarrow>
                 (Inr envelope, s\<lparr>ms_next := ms_next s + 1, ms_lines := ms_lines s @ [encoded]\<rparr>)))"

definition joinLines :: "bytes list \<Rightarrow> bytes" where
  "joinLines lines = concat (map (\<lambda>line. line @ [10]) lines)"

definition Memory_Replay ::
  "json \<Rightarrow> (u64 \<Rightarrow> ctx_error option) \<Rightarrow> string \<Rightarrow> memory_store \<Rightarrow> journal_error + replay" where
  "Memory_Replay js cx operationID s =
     (if operationID = [] then Inl ReplayID else decodeStream js cx (joinLines (ms_lines s)) operationID)"

definition Memory_All ::
  "json \<Rightarrow> (u64 \<Rightarrow> ctx_error option) \<Rightarrow> memory_store \<Rightarrow> journal_error + replay" where
  "Memory_All js cx s = decodeStream js cx (joinLines (ms_lines s)) []"


section \<open>The store in a file\<close>

record file_store =
  fs_data :: bytes
  fs_next :: u64
  fs_closed :: bool

datatype io_result = IoDone | IoWriteError nat | IoSyncError

definition OpenFileStore :: "json \<Rightarrow> string \<Rightarrow> bytes \<Rightarrow> journal_error + file_store" where
  "OpenFileStore js path data =
     (if path = [] then Inl PathRequired
      else
        (case decodeStream js (\<lambda>_. None) data [] of
           Inl e \<Rightarrow> Inl e
         | Inr replay \<Rightarrow> Inr \<lparr>fs_data = data, fs_next = rp_LastSequence replay, fs_closed = False\<rparr>))"

definition File_Append ::
  "json \<Rightarrow> io_result \<Rightarrow> ctx_error option \<Rightarrow> event \<Rightarrow> file_store \<Rightarrow> (journal_error + envelope) \<times> file_store"
  where
  "File_Append js io cx event s =
     (case cx of
        Some e \<Rightarrow> (Inl (JournalCtx e), s)
      | None \<Rightarrow>
          if fs_closed s then (Inl JournalClosed, s)
          else
            (case encodeEnvelope js (fs_next s + 1) event of
               Inl e \<Rightarrow> (Inl e, s)
             | Inr (envelope, encoded) \<Rightarrow>
                 (case io of
                    IoWriteError n \<Rightarrow>
                      (Inl WriteError, s\<lparr>fs_data := fs_data s @ take n (encoded @ [10])\<rparr>)
                  | IoSyncError \<Rightarrow> (Inl WriteError, s\<lparr>fs_data := fs_data s @ encoded @ [10]\<rparr>)
                  | IoDone \<Rightarrow>
                      (Inr envelope,
                       s\<lparr>fs_data := fs_data s @ encoded @ [10], fs_next := fs_next s + 1\<rparr>))))"

definition File_read ::
  "json \<Rightarrow> (u64 \<Rightarrow> ctx_error option) \<Rightarrow> string \<Rightarrow> file_store \<Rightarrow> journal_error + replay" where
  "File_read js cx operationID s =
     (if fs_closed s then Inl JournalClosed else decodeStream js cx (fs_data s) operationID)"

definition File_Replay ::
  "json \<Rightarrow> (u64 \<Rightarrow> ctx_error option) \<Rightarrow> string \<Rightarrow> file_store \<Rightarrow> journal_error + replay" where
  "File_Replay js cx operationID s =
     (if operationID = [] then Inl ReplayID else File_read js cx operationID s)"

definition File_All ::
  "json \<Rightarrow> (u64 \<Rightarrow> ctx_error option) \<Rightarrow> file_store \<Rightarrow> journal_error + replay" where
  "File_All js cx s = File_read js cx [] s"

definition File_Close :: "file_store \<Rightarrow> file_store" where
  "File_Close s = s\<lparr>fs_closed := True\<rparr>"


section \<open>What the code relies on\<close>

text \<open>
  A string is valid UTF-8: \<open>k\<close> bytes of the present character are still to come, the next one
  between \<open>lo\<close> and \<open>hi\<close>.
\<close>

fun utf8_from :: "nat \<Rightarrow> nat \<Rightarrow> nat \<Rightarrow> string \<Rightarrow> bool" where
  "utf8_from k lo hi [] = (k = 0)"
| "utf8_from k lo hi (c # cs) =
     (let b = of_char c
      in if 0 < k then lo \<le> b \<and> b \<le> hi \<and> utf8_from (k - 1) 128 191 cs
         else if b < 128 then utf8_from 0 128 191 cs
         else if 194 \<le> b \<and> b \<le> 223 then utf8_from 1 128 191 cs
         else if b = 224 then utf8_from 2 160 191 cs
         else if b = 237 then utf8_from 2 128 159 cs
         else if 225 \<le> b \<and> b \<le> 239 then utf8_from 2 128 191 cs
         else if b = 240 then utf8_from 3 144 191 cs
         else if 241 \<le> b \<and> b \<le> 243 then utf8_from 3 128 191 cs
         else if b = 244 then utf8_from 3 128 143 cs
         else False)"

definition valid_utf8 :: "string \<Rightarrow> bool" where
  "valid_utf8 s = utf8_from 0 128 191 s"

definition event_text :: "event \<Rightarrow> bool" where
  "event_text ev \<longleftrightarrow> valid_utf8 (ev_OperationID ev) \<and> valid_utf8 (ev_Kind ev)"

definition envelope_text :: "envelope \<Rightarrow> bool" where
  "envelope_text e \<longleftrightarrow> valid_utf8 (en_Checksum e) \<and> event_text (en_Event e)"

definition event_ok :: "event \<Rightarrow> bool" where
  "event_ok ev \<longleftrightarrow> ev_OperationID ev \<noteq> [] \<and> validKind (ev_Kind ev)"

definition compacted :: "json \<Rightarrow> event \<Rightarrow> event" where
  "compacted js ev = ev\<lparr>ev_Payload := js_compact js (ev_Payload ev)\<rparr>"

text \<open>
  \<open>Marshal\<close> writes no line breaks and is not empty; \<open>Unmarshal\<close> of what it wrote gives the envelope
  back, every field of it, with the payload compacted, where the strings are valid UTF-8; and an event
  whose payload is compacted already is written in the same way, since \<open>Marshal\<close> compacts it.
\<close>

definition codec_ok :: "json \<Rightarrow> bool" where
  "codec_ok js \<longleftrightarrow>
     (\<forall>e b. js_envelope js e = Some b \<longrightarrow> b \<noteq> [] \<and> 10 \<notin> set b \<and> 13 \<notin> set b)
     \<and> (\<forall>e b. js_envelope js e = Some b \<and> envelope_text e \<longrightarrow>
          js_decode js b = Some (e\<lparr>en_Event := compacted js (en_Event e)\<rparr>))
     \<and> (\<forall>ev b. js_event js ev = Some b \<longrightarrow> js_event js (compacted js ev) = Some b)"

text \<open>No proper prefix of an encoded envelope is JSON.\<close>

definition codec_prefix_free :: "json \<Rightarrow> bool" where
  "codec_prefix_free js \<longleftrightarrow>
     (\<forall>e b n. js_envelope js e = Some b \<and> n < length b \<longrightarrow> js_decode js (take n b) = None)"

lemma codec_okD:
  assumes "codec_ok js" "js_envelope js e = Some b"
  shows "b \<noteq> []" "10 \<notin> set b" "13 \<notin> set b"
    "envelope_text e \<Longrightarrow> js_decode js b = Some (e\<lparr>en_Event := compacted js (en_Event e)\<rparr>)"
  using assms unfolding codec_ok_def by blast+

lemma codec_compacted: "codec_ok js \<Longrightarrow> js_event js ev = Some b \<Longrightarrow> js_event js (compacted js ev) = Some b"
  unfolding codec_ok_def by blast

lemma compacted_simps [simp]:
  "ev_OperationID (compacted js ev) = ev_OperationID ev" "ev_Kind (compacted js ev) = ev_Kind ev"
  "event_ok (compacted js ev) = event_ok ev"
  by (simp_all add: compacted_def event_ok_def)

text \<open>ASCII is valid UTF-8.\<close>

definition ascii :: "string \<Rightarrow> bool" where
  "ascii s \<longleftrightarrow> (\<forall>c\<in>set s. of_char c < (128 :: nat))"

lemma ascii_simps [simp]:
  "ascii []" "ascii (c # s) \<longleftrightarrow> of_char c < (128 :: nat) \<and> ascii s" "ascii (s @ s') \<longleftrightarrow> ascii s \<and> ascii s'"
  by (auto simp: ascii_def)

lemma ascii_valid: "ascii s \<Longrightarrow> valid_utf8 s"
proof -
  have "ascii s \<Longrightarrow> utf8_from 0 128 191 s" by (induction s) (simp_all add: Let_def)
  then show "ascii s \<Longrightarrow> valid_utf8 s" by (simp add: valid_utf8_def)
qed

lemma hex_char_ascii [simp]: "n < 16 \<Longrightarrow> of_char (hex_char n) < (128 :: nat)"
  by (auto simp: hex_char_def)

lemma dec_ascii [simp]: "ascii (dec n)"
proof (induction n rule: dec.induct)
  case (1 n)
  then show ?case by (subst dec.simps) auto
qed

lemma event_sum_ascii: "ascii (event_sum b)"
proof -
  have "ascii (hex_encode bs)" for bs
  proof (induction bs)
    case (Cons b bs)
    have "unat b div 16 < 16" using unsigned_less [of b] by (intro less_mult_imp_div_less) simp
    with Cons show ?case by simp
  qed simp
  then show ?thesis by (simp add: event_sum_def)
qed

lemma kind_ascii: "validKind k \<Longrightarrow> ascii k"
  by (auto simp: validKind_def journal_kinds_def)


section \<open>Lines\<close>

lemma split_lines_line: "10 \<notin> set l \<Longrightarrow> split_lines acc (l @ 10 # bs) = (rev acc @ l) # split_lines [] bs"
  by (induction l arbitrary: acc) auto

lemma split_lines_rest: "10 \<notin> set l \<Longrightarrow> split_lines acc l = (if acc = [] \<and> l = [] then [] else [rev acc @ l])"
  by (induction l arbitrary: acc) auto

lemma split_lines_join:
  "\<forall>l\<in>set ls. 10 \<notin> set l \<Longrightarrow> split_lines [] (joinLines ls @ bs) = ls @ split_lines [] bs"
  by (induction ls) (auto simp: joinLines_def split_lines_line)

lemma joinLines_simps [simp]:
  "joinLines [] = []" "joinLines (ls @ ls') = joinLines ls @ joinLines ls'" "joinLines [l] = l @ [10]"
  by (simp_all add: joinLines_def)

lemma dropCR_id [simp]: "13 \<notin> set l \<Longrightarrow> dropCR l = l"
  by (metis dropCR_def last_in_set)


section \<open>A log of events\<close>

text \<open>The envelope \<open>Append\<close> returns, and the one read back later.\<close>

definition sealed :: "json \<Rightarrow> u64 \<Rightarrow> event \<Rightarrow> envelope" where
  "sealed js n ev =
     \<lparr>en_Sequence = n, en_Checksum = event_sum (the (js_event js ev)), en_Event = ev\<rparr>"

definition recorded :: "json \<Rightarrow> u64 \<Rightarrow> event \<Rightarrow> envelope" where
  "recorded js n ev = (sealed js n ev)\<lparr>en_Event := compacted js ev\<rparr>"

definition line_of :: "json \<Rightarrow> u64 \<Rightarrow> event \<Rightarrow> bytes option" where
  "line_of js n ev = (if js_event js ev = None then None else js_envelope js (sealed js n ev))"

lemma encodeEnvelope_line:
  "encodeEnvelope js n ev =
     (case line_of js n ev of None \<Rightarrow> Inl MarshalError | Some b \<Rightarrow> Inr (sealed js n ev, b))"
  by (auto simp: encodeEnvelope_def line_of_def sealed_def Let_def split: option.split)

text \<open>
  An event that is valid and whose strings are, that can be encoded and makes a line the scanner can
  read.
\<close>

definition fits :: "json \<Rightarrow> u64 \<Rightarrow> event \<Rightarrow> bool" where
  "fits js n ev \<longleftrightarrow> event_ok ev \<and> event_text ev \<and> (\<exists>b. line_of js n ev = Some b \<and> length b < max_token)"

fun logged :: "json \<Rightarrow> u64 \<Rightarrow> event list \<Rightarrow> bytes list \<Rightarrow> bool" where
  "logged js n [] ls = (ls = [])"
| "logged js n (ev # evs) ls =
     (\<exists>l ls'. ls = l # ls' \<and> event_ok ev \<and> event_text ev \<and> line_of js n ev = Some l \<and> length l < max_token
        \<and> logged js (n + 1) evs ls')"

fun numbered :: "(u64 \<Rightarrow> 'a \<Rightarrow> 'b) \<Rightarrow> u64 \<Rightarrow> 'a list \<Rightarrow> 'b list" where
  "numbered f n [] = []"
| "numbered f n (x # xs) = f n x # numbered f (n + 1) xs"

abbreviation records :: "json \<Rightarrow> u64 \<Rightarrow> event list \<Rightarrow> envelope list" where
  "records js \<equiv> numbered (recorded js)"

definition selects :: "string \<Rightarrow> envelope \<Rightarrow> bool" where
  "selects operationID e \<longleftrightarrow> operationID = [] \<or> ev_OperationID (en_Event e) = operationID"

lemma logged_snoc:
  "logged js n (evs @ [ev]) ls \<longleftrightarrow>
     (\<exists>l ls'. ls = ls' @ [l] \<and> logged js n evs ls' \<and> event_ok ev \<and> event_text ev
        \<and> line_of js (n + of_nat (length evs)) ev = Some l \<and> length l < max_token)"
proof (induction evs arbitrary: n ls)
  case (Cons e evs)
  show ?case
    by (simp add: Cons) (auto simp: algebra_simps; metis append_Cons)
qed auto

lemma length_numbered [simp]: "length (numbered f n xs) = length xs"
  by (induction xs arbitrary: n) auto

lemma sealed_text: "event_text ev \<Longrightarrow> envelope_text (sealed js n ev)"
  by (simp add: envelope_text_def sealed_def ascii_valid [OF event_sum_ascii])

lemma line_of_clean:
  assumes "codec_ok js" "line_of js n ev = Some b"
  shows "b \<noteq> []" "10 \<notin> set b" "13 \<notin> set b" "event_text ev \<Longrightarrow> js_decode js b = Some (recorded js n ev)"
proof -
  have "js_envelope js (sealed js n ev) = Some b" using assms(2) by (auto simp: line_of_def split: if_splits)
  from codec_okD [OF assms(1) this] sealed_text [of ev js n]
  show "b \<noteq> []" "10 \<notin> set b" "13 \<notin> set b" "event_text ev \<Longrightarrow> js_decode js b = Some (recorded js n ev)"
    by (simp_all add: recorded_def) (simp add: sealed_def)
qed

lemma line_of_decode:
  assumes "codec_ok js" "event_ok ev" "event_text ev" "line_of js n ev = Some l"
  shows "js_decode js (dropCR l) = Some (recorded js n ev)" "verifyEnvelope js (recorded js n ev) = None"
    "en_Sequence (recorded js n ev) = n" "10 \<notin> set l" "l \<noteq> []" "13 \<notin> set l"
proof -
  note l = line_of_clean [OF assms(1,4)]
  from l assms(3) show "10 \<notin> set l" "l \<noteq> []" "13 \<notin> set l" "js_decode js (dropCR l) = Some (recorded js n ev)"
    by simp_all
  show "en_Sequence (recorded js n ev) = n" by (simp add: recorded_def sealed_def)
  obtain b where b: "js_event js ev = Some b" using assms(4) by (auto simp: line_of_def split: if_splits)
  show "verifyEnvelope js (recorded js n ev) = None"
    using codec_compacted [OF assms(1) b] b assms(2)
    by (auto simp: verifyEnvelope_def recorded_def sealed_def event_ok_def)
qed

lemma logged_lines:
  "codec_ok js \<Longrightarrow> logged js n evs ls \<Longrightarrow> \<forall>l\<in>set ls. 10 \<notin> set l"
  by (induction evs arbitrary: n ls) (auto dest: line_of_decode(4))

lemma decode_logged:
  assumes "codec_ok js" "\<And>k. cx k = None" "logged js n evs ls"
  shows "decode_lines js cx op n res (ls @ rest) =
    decode_lines js cx op (n + of_nat (length evs))
      (res\<lparr>rp_Events := rp_Events res @ filter (selects op) (records js n evs),
         rp_LastSequence := (if evs = [] then rp_LastSequence res else n + of_nat (length evs) - 1)\<rparr>) rest"
  using assms(3)
proof (induction evs arbitrary: n ls res)
  case (Cons ev evs)
  then obtain l ls' where l: "ls = l # ls'" "event_ok ev" "event_text ev" "line_of js n ev = Some l"
    "length l < max_token" "logged js (n + 1) evs ls'" by auto
  note d = line_of_decode [OF assms(1) l(2-4)]
  show ?case
    using l(5) Cons.IH [OF l(6)] d(1,2,3)
    by (simp add: l(1) assms(2) selects_def algebra_simps)
qed simp

lemma decodeStream_logged:
  assumes "codec_ok js" "\<And>k. cx k = None" "logged js 1 evs ls"
  shows "decodeStream js cx (joinLines ls @ bs) op =
    decode_lines js cx op (1 + of_nat (length evs))
      \<lparr>rp_Events = filter (selects op) (records js 1 evs), rp_LastSequence = of_nat (length evs),
       rp_Truncated = False\<rparr> (split_lines [] bs)"
  using decode_logged [OF assms, where op = op and res = empty_replay and rest = "split_lines [] bs"]
  by (cases "evs = []")
    (simp_all add: decodeStream_def split_lines_join [OF logged_lines [OF assms(1,3)]] empty_replay_def)



section \<open>The interface of a journal\<close>

fun all_fit :: "(u64 \<Rightarrow> event \<Rightarrow> bool) \<Rightarrow> u64 \<Rightarrow> event list \<Rightarrow> bool" where
  "all_fit P n [] = True"
| "all_fit P n (e # es) = (P n e \<and> all_fit P (n + 1) es)"

definition appended :: "(event \<Rightarrow> 's \<Rightarrow> 'r \<times> 's) \<Rightarrow> event list \<Rightarrow> 's \<Rightarrow> 's" where
  "appended f es s = fold (\<lambda>e s. snd (f e s)) es s"

lemma all_fit_append: "all_fit P n (es @ es') \<longleftrightarrow> all_fit P n es \<and> all_fit P (n + of_nat (length es)) es'"
  by (induction es arbitrary: n) (auto simp: algebra_simps)

text \<open>
  What the clients of a journal rely on: a fitting event is appended under the next number, and
  reading gives the events recorded, all of them or those of one operation, in order.
\<close>

locale event_log =
  fixes append_to :: "event \<Rightarrow> 's \<Rightarrow> (journal_error + envelope) \<times> 's"
    and replay_of :: "string \<Rightarrow> 's \<Rightarrow> journal_error + replay"
    and holds :: "event list \<Rightarrow> 's \<Rightarrow> bool"
    and accepts :: "u64 \<Rightarrow> event \<Rightarrow> bool"
    and seal :: "u64 \<Rightarrow> event \<Rightarrow> envelope"
    and entry :: "u64 \<Rightarrow> event \<Rightarrow> envelope"
  assumes append_ok: "holds log s \<Longrightarrow> accepts (of_nat (length log) + 1) e \<Longrightarrow>
      fst (append_to e s) = Inr (seal (of_nat (length log) + 1) e) \<and> holds (log @ [e]) (snd (append_to e s))"
    and replay_ok: "holds log s \<Longrightarrow>
      replay_of i s = Inr \<lparr>rp_Events = filter (selects i) (numbered entry 1 log),
        rp_LastSequence = of_nat (length log), rp_Truncated = False\<rparr>"
begin

lemma append_all:
  "holds log s \<Longrightarrow> all_fit accepts (of_nat (length log) + 1) es \<Longrightarrow> holds (log @ es) (appended append_to es s)"
proof (induction es arbitrary: log s)
  case (Cons e es)
  then have "holds (log @ [e]) (snd (append_to e s))" using append_ok by simp
  then show ?case using Cons.IH [of "log @ [e]"] Cons.prems(2) by (simp add: algebra_simps appended_def)
qed (simp add: appended_def)

lemma replay_after:
  "holds log s \<Longrightarrow> all_fit accepts (of_nat (length log) + 1) es \<Longrightarrow>
   replay_of i (appended append_to es s)
     = Inr \<lparr>rp_Events = filter (selects i) (numbered entry 1 (log @ es)),
         rp_LastSequence = of_nat (length log + length es), rp_Truncated = False\<rparr>"
  using append_all [of log s es] replay_ok by simp

end

definition memory_holds :: "json \<Rightarrow> event list \<Rightarrow> memory_store \<Rightarrow> bool" where
  "memory_holds js log s \<longleftrightarrow>
     codec_ok js \<and> ms_next s = of_nat (length log) \<and> logged js 1 log (ms_lines s)"

definition file_holds :: "json \<Rightarrow> event list \<Rightarrow> file_store \<Rightarrow> bool" where
  "file_holds js log s \<longleftrightarrow>
     codec_ok js \<and> fs_next s = of_nat (length log) \<and> \<not> fs_closed s
     \<and> (\<exists>ls. logged js 1 log ls \<and> fs_data s = joinLines ls)"

lemma decodeStream_log:
  assumes "codec_ok js" "logged js 1 log ls"
  shows "decodeStream js (\<lambda>_. None) (joinLines ls) i =
    Inr \<lparr>rp_Events = filter (selects i) (records js 1 log),
      rp_LastSequence = of_nat (length log), rp_Truncated = False\<rparr>"
  using decodeStream_logged [OF assms(1) _ assms(2), of "\<lambda>_. None" "[]" i]
  by simp

interpretation mem: event_log "Memory_Append js None" "\<lambda>i s. decodeStream js (\<lambda>_. None) (joinLines (ms_lines s)) i"
    "memory_holds js" "fits js" "sealed js" "recorded js" for js
proof
  fix log s e i
  show "fst (Memory_Append js None e s) = Inr (sealed js (of_nat (length log) + 1) e)
      \<and> memory_holds js (log @ [e]) (snd (Memory_Append js None e s))"
    if "memory_holds js log s" "fits js (of_nat (length log) + 1) e"
    using that
    by (auto simp: memory_holds_def fits_def event_ok_def Memory_Append_def encodeEnvelope_line
        logged_snoc add.commute)
  show "decodeStream js (\<lambda>_. None) (joinLines (ms_lines s)) i
      = Inr \<lparr>rp_Events = filter (selects i) (records js 1 log),
          rp_LastSequence = of_nat (length log), rp_Truncated = False\<rparr>"
    if "memory_holds js log s"
    using that by (intro decodeStream_log) (auto simp: memory_holds_def)
qed

interpretation fil: event_log "File_Append js IoDone None" "\<lambda>i s. File_read js (\<lambda>_. None) i s"
    "file_holds js" "fits js" "sealed js" "recorded js" for js
proof
  fix log s e i
  show "fst (File_Append js IoDone None e s) = Inr (sealed js (of_nat (length log) + 1) e)
      \<and> file_holds js (log @ [e]) (snd (File_Append js IoDone None e s))"
    if holds: "file_holds js log s" and fits: "fits js (of_nat (length log) + 1) e"
  proof -
    obtain ls where ls: "logged js 1 log ls" "fs_data s = joinLines ls"
      using holds by (auto simp: file_holds_def)
    obtain b where b: "line_of js (of_nat (length log) + 1) e = Some b" "length b < max_token" "event_ok e"
        "event_text e" using fits by (auto simp: fits_def)
    then have "logged js 1 (log @ [e]) (ls @ [b])" using ls(1) by (simp add: logged_snoc add.commute)
    moreover have "fs_data (snd (File_Append js IoDone None e s)) = joinLines (ls @ [b])"
      using holds b(1) ls(2) by (simp add: file_holds_def File_Append_def encodeEnvelope_line)
    ultimately show ?thesis
      using holds b(1) by (auto simp: file_holds_def File_Append_def encodeEnvelope_line)
  qed
  show "File_read js (\<lambda>_. None) i s
      = Inr \<lparr>rp_Events = filter (selects i) (records js 1 log),
          rp_LastSequence = of_nat (length log), rp_Truncated = False\<rparr>"
    if "file_holds js log s"
    using that decodeStream_log [of js log _ i] by (auto simp: file_holds_def File_read_def)
qed

lemma OpenFileStore_holds:
  assumes "codec_ok js" "logged js 1 log ls" "path \<noteq> []"
  shows "\<exists>s. OpenFileStore js path (joinLines ls) = Inr s \<and> file_holds js log s \<and> fs_data s = joinLines ls"
  using assms decodeStream_log [OF assms(1,2), of "[]"]
  by (auto simp: OpenFileStore_def file_holds_def)

end
