(* ===== verification/JournalDemo.thy ===== *)
theory JournalDemo
  imports Journal
begin

text \<open>
  A line format that satisfies everything the journal asks of JSON, so that its theorems can be
  applied: each field of an envelope in two bytes for a character, with a terminator, and a mark
  at the end of the line. It is not the format of the program.
\<close>

section \<open>Fields\<close>

definition enc_char :: "char \<Rightarrow> bytes" where
  "enc_char c = [word_of_nat (64 + of_char c div 16), word_of_nat (64 + of_char c mod 16)]"

definition enc_field :: "string \<Rightarrow> bytes" where
  "enc_field s = concat (map enc_char s) @ [44]"

definition enc_fields :: "string list \<Rightarrow> bytes" where
  "enc_fields ss = concat (map enc_field ss) @ [59]"

fun dec_field :: "bytes \<Rightarrow> (string \<times> bytes) option" where
  "dec_field [] = None"
| "dec_field [b] = (if b = 44 then Some ([], []) else None)"
| "dec_field (b # c # bs) =
     (if b = 44 then Some ([], c # bs)
      else map_option (\<lambda>(s, r). (char_of ((unat b - 64) * 16 + (unat c - 64)) # s, r)) (dec_field bs))"

fun dec_fields :: "nat \<Rightarrow> bytes \<Rightarrow> string list option" where
  "dec_fields 0 bs = (if bs = [59] then Some [] else None)"
| "dec_fields (Suc n) bs =
     (case dec_field bs of None \<Rightarrow> None | Some (s, r) \<Rightarrow> map_option ((#) s) (dec_fields n r))"

lemma unat_nibble: "k < 16 \<Longrightarrow> unat (word_of_nat (64 + k) :: byte) = 64 + k"
  unfolding unat_of_nat by (rule mod_less) simp

lemma enc_char_bytes:
  "enc_char c = [b1, b2] \<Longrightarrow>
     unat b1 = 64 + of_char c div 16 \<and> unat b2 = 64 + of_char c mod 16"
proof -
  have "of_char c div 16 < (16 :: nat)" by (simp add: less_mult_imp_div_less)
  then show "enc_char c = [b1, b2] \<Longrightarrow> unat b1 = 64 + of_char c div 16 \<and> unat b2 = 64 + of_char c mod 16"
    by (auto simp: enc_char_def unat_nibble simp del: of_nat_add)
qed

lemma enc_char_two: "\<exists>b1 b2. enc_char c = [b1, b2]"
  by (simp add: enc_char_def)

lemma dec_field_char: "dec_field (enc_char c @ bs) = map_option (\<lambda>(s, r). (c # s, r)) (dec_field bs)"
proof -
  obtain b1 b2 where b: "enc_char c = [b1, b2]" using enc_char_two by blast
  note u = enc_char_bytes [OF b]
  have "b1 \<noteq> 44" using u by auto
  moreover have "char_of ((unat b1 - 64) * 16 + (unat b2 - 64)) = c" using u by simp
  ultimately show ?thesis by (simp add: b)
qed

lemma dec_field_enc: "dec_field (enc_field s @ r) = Some (s, r)"
proof (induction s)
  case Nil
  show ?case by (cases r) (simp_all add: enc_field_def)
next
  case (Cons c s)
  then show ?case by (simp add: enc_field_def dec_field_char)
qed

lemma dec_fields_enc: "dec_fields (length ss) (enc_fields ss) = Some ss"
  by (induction ss) (simp_all add: enc_fields_def dec_field_enc)

lemma enc_char_set: "b \<in> set (enc_char c) \<Longrightarrow> 64 \<le> unat b \<and> unat b < 80"
proof -
  obtain b1 b2 where b: "enc_char c = [b1, b2]" using enc_char_two by blast
  have "of_char c div 16 < (16 :: nat)" by (simp add: less_mult_imp_div_less)
  with enc_char_bytes [OF b] b show "b \<in> set (enc_char c) \<Longrightarrow> 64 \<le> unat b \<and> unat b < 80" by auto
qed

lemma enc_body_set: "b \<in> set (concat (map enc_field ss)) \<Longrightarrow> b = 44 \<or> 64 \<le> unat b \<and> unat b < 80"
  by (auto simp: enc_field_def dest: enc_char_set split: if_splits)

lemma enc_fields_set: "b \<in> set (enc_fields ss) \<Longrightarrow> b = 44 \<or> b = 59 \<or> 64 \<le> unat b \<and> unat b < 80"
  using enc_body_set [of b ss] by (auto simp: enc_fields_def)

lemma dec_field_suffix: "dec_field bs = Some (s, r) \<Longrightarrow> \<exists>p. bs = p @ r"
proof (induction bs arbitrary: s r rule: dec_field.induct)
  case (3 b c bs)
  then show ?case by (auto split: if_splits)
qed (auto split: if_splits)

lemma dec_fields_end: "dec_fields n bs = Some ss \<Longrightarrow> \<exists>p. bs = p @ [59]"
proof (induction n arbitrary: bs ss)
  case (Suc n)
  then obtain s r ss' where r: "dec_field bs = Some (s, r)" "dec_fields n r = Some ss'"
    by (auto split: option.splits)
  then obtain p where "r = p @ [59]" using Suc.IH by blast
  moreover obtain q where "bs = q @ r" using dec_field_suffix [OF r(1)] by blast
  ultimately show ?case by simp
qed (simp split: if_splits)

lemma dec_fields_prefix:
  assumes "n < length (enc_fields ss)"
  shows "dec_fields k (take n (enc_fields ss)) = None"
proof (rule ccontr)
  assume "dec_fields k (take n (enc_fields ss)) \<noteq> None"
  then obtain p where "take n (enc_fields ss) = p @ [59]" using dec_fields_end by blast
  moreover have "take n (enc_fields ss) = take n (concat (map enc_field ss))"
    using assms by (simp add: enc_fields_def)
  ultimately have "59 \<in> set (take n (concat (map enc_field ss)))"
    by (metis append_is_Nil_conv in_set_conv_decomp)
  then have "(59 :: byte) \<in> set (concat (map enc_field ss))" by (rule in_set_takeD)
  from enc_body_set [OF this] show False by simp
qed

lemma length_enc_field [simp]: "length (enc_field s) = 2 * length s + 1"
  by (induction s) (simp_all add: enc_field_def enc_char_def)


section \<open>The codec\<close>

definition enc_int :: "int \<Rightarrow> string" where
  "enc_int i = (if i < 0 then CHR ''-'' else CHR ''+'') # dec (nat \<bar>i\<bar>)"

definition dec_int :: "string \<Rightarrow> int" where
  "dec_int s = (if hd s = CHR ''-'' then - int (undec (tl s)) else int (undec (tl s)))"

lemma dec_int_enc [simp]: "dec_int (enc_int i) = i"
  by (simp add: dec_int_def enc_int_def)

definition event_fields :: "event \<Rightarrow> string list" where
  "event_fields ev =
     [ev_OperationID ev, ev_Kind ev, enc_int (ev_At ev), enc_int (ev_Attempt ev),
      dec (unat (ev_Fence ev)), map (\<lambda>b. char_of (unat b)) (ev_Payload ev)]"

definition envelope_fields :: "envelope \<Rightarrow> string list" where
  "envelope_fields e = dec (unat (en_Sequence e)) # en_Checksum e # event_fields (en_Event e)"

fun read_envelope :: "string list \<Rightarrow> envelope option" where
  "read_envelope [q, c, i, k, at, n, f, p] =
     Some \<lparr>en_Sequence = word_of_nat (undec q), en_Checksum = c,
       en_Event = \<lparr>ev_OperationID = i, ev_Kind = k, ev_At = dec_int at, ev_Attempt = dec_int n,
         ev_Fence = word_of_nat (undec f), ev_Payload = map (\<lambda>c. word_of_nat (of_char c)) p\<rparr>\<rparr>"
| "read_envelope _ = None"

definition plain_json :: json where
  "plain_json =
     \<lparr>js_event = (\<lambda>ev. Some (enc_fields (event_fields ev))),
      js_envelope = (\<lambda>e. Some (enc_fields (envelope_fields e))),
      js_decode = (\<lambda>b. case dec_fields 8 b of None \<Rightarrow> None | Some ss \<Rightarrow> read_envelope ss),
      js_compact = (\<lambda>b. b)\<rparr>"

lemma read_envelope_fields: "read_envelope (envelope_fields e) = Some e"
proof -
  have "map (\<lambda>c. word_of_nat (of_char c)) (map (\<lambda>b. char_of (unat b)) p) = p" for p :: bytes
    by (simp add: comp_def map_idI)
  then show ?thesis by (simp add: envelope_fields_def event_fields_def)
qed

lemma length_envelope_fields: "length (envelope_fields e) = 8"
  by (simp add: envelope_fields_def event_fields_def)

lemma plain_json_ok: "codec_ok plain_json"
proof -
  have "dec_fields 8 (enc_fields (envelope_fields e)) = Some (envelope_fields e)" for e
    using dec_fields_enc [of "envelope_fields e"] by (simp only: length_envelope_fields)
  moreover have "10 \<notin> set (enc_fields ss)" "13 \<notin> set (enc_fields ss)" for ss
    using enc_fields_set [of _ ss] by fastforce+
  ultimately show ?thesis
    by (simp add: codec_ok_def plain_json_def read_envelope_fields compacted_def) (simp add: enc_fields_def)
qed

lemma plain_json_prefix_free: "codec_prefix_free plain_json"
  by (simp add: codec_prefix_free_def plain_json_def dec_fields_prefix)

lemma plain_line:
  "line_of plain_json n ev = Some (enc_fields (envelope_fields (sealed plain_json n ev)))"
  by (simp add: line_of_def plain_json_def)

lemma length_event_sum [simp]: "length (event_sum b) = 64"
  by (simp add: event_sum_def)

definition demo_event :: "string \<Rightarrow> string \<Rightarrow> event" where
  "demo_event i k =
     \<lparr>ev_OperationID = i, ev_Kind = k, ev_At = 0, ev_Attempt = 1, ev_Fence = 1, ev_Payload = []\<rparr>"

text \<open>The length of a line, from below and above.\<close>

lemma plain_line_length:
  "length (enc_fields (envelope_fields (sealed plain_json n ev))) =
     137 + 2 * (length (dec (unat n)) + length (ev_OperationID ev) + length (ev_Kind ev)
       + length (enc_int (ev_At ev)) + length (enc_int (ev_Attempt ev)) + length (dec (unat (ev_Fence ev)))
       + length (ev_Payload ev))"
  by (simp add: enc_fields_def envelope_fields_def event_fields_def sealed_def)

end
