(* ===== verification/Journals.thy ===== *)
theory Journals
  imports JournalDemo
begin

text \<open>
  The properties of the journal: what is appended is read back, by both stores in the same way
  and after reopening a file; what is read is what \<open>decodeStream\<close> should accept; and the
  appends after which a journal cannot be read any more.
\<close>

lemma OpenFileStore_empty:
  "codec_ok js \<Longrightarrow> path \<noteq> [] \<Longrightarrow> \<exists>s. OpenFileStore js path [] = Inr s \<and> file_holds js [] s"
  using OpenFileStore_holds [of js "[]" "[]" path] by auto

text \<open>
  C38: A file journal keeps what is appended. After appending to a new file events that are valid,
  whose strings are valid UTF-8 and whose lines are shorter than 4 MiB, closing it, opening it again
  and appending more of them, reading gives exactly the events appended, in order and numbered from 1, each
  with the checksum of its encoding and its payload compacted, every other field as it was: all
  of them for \<open>All\<close>, those of one operation for \<open>Replay\<close>.
\<close>
theorem journal_roundtrip:
  assumes "codec_ok js" "path \<noteq> []" "all_fit (fits js) 1 (es @ es')"
  shows "\<exists>s s'. OpenFileStore js path [] = Inr s
    \<and> OpenFileStore js path (fs_data (appended (File_Append js IoDone None) es s)) = Inr s'
    \<and> File_read js (\<lambda>_. None) i (appended (File_Append js IoDone None) es' s')
      = Inr \<lparr>rp_Events = filter (selects i) (records js 1 (es @ es')),
          rp_LastSequence = of_nat (length (es @ es')), rp_Truncated = False\<rparr>"
proof -
  obtain s where s: "OpenFileStore js path [] = Inr s" "file_holds js [] s"
    using OpenFileStore_empty [OF assms(1,2)] by blast
  let ?s1 = "appended (File_Append js IoDone None) es s"
  have fit: "all_fit (fits js) 1 es" "all_fit (fits js) (of_nat (length es) + 1) es'"
    using assms(3) by (simp_all add: all_fit_append add.commute)
  have "file_holds js es ?s1" using fil.append_all [OF s(2)] fit(1) by simp
  then obtain ls where ls: "logged js 1 es ls" "fs_data ?s1 = joinLines ls" by (auto simp: file_holds_def)
  obtain s' where s': "OpenFileStore js path (fs_data ?s1) = Inr s'" "file_holds js es s'"
    using OpenFileStore_holds [OF assms(1) ls(1) assms(2)] ls(2) by auto
  have "File_read js (\<lambda>_. None) i (appended (File_Append js IoDone None) es' s')
      = Inr \<lparr>rp_Events = filter (selects i) (records js 1 (es @ es')),
          rp_LastSequence = of_nat (length (es @ es')), rp_Truncated = False\<rparr>"
    using fil.replay_after [OF s'(2) fit(2)] by simp
  with s(1) s'(1) show ?thesis by blast
qed

lemma demo_fits:
  "k \<in> set journal_kinds \<Longrightarrow> fits plain_json 1 (demo_event ''m1'' k) \<and> fits plain_json 2 (demo_event ''m1'' k)"
  by (auto simp: fits_def event_ok_def event_text_def ascii_valid validKind_def demo_event_def plain_line plain_line_length
      max_token_def journal_kinds_def enc_int_def dec.simps)

theorem journal_roundtrip_witness:
  "\<exists>s s' r. OpenFileStore plain_json ''j'' [] = Inr s
     \<and> OpenFileStore plain_json ''j''
         (fs_data (appended (File_Append plain_json IoDone None) [demo_event ''m1'' ''accepted''] s)) = Inr s'
     \<and> File_read plain_json (\<lambda>_. None) ''m1''
         (appended (File_Append plain_json IoDone None) [demo_event ''m1'' ''started''] s') = Inr r
     \<and> map en_Sequence (rp_Events r) = [1, 2]"
proof -
  have fit: "all_fit (fits plain_json) 1 ([demo_event ''m1'' ''accepted''] @ [demo_event ''m1'' ''started''])"
    using demo_fits by (simp add: journal_kinds_def)
  have "map en_Sequence (filter (selects ''m1'')
      (records plain_json 1 ([demo_event ''m1'' ''accepted''] @ [demo_event ''m1'' ''started'']))) = [1, 2]"
    by (simp add: selects_def recorded_def sealed_def compacted_def demo_event_def)
  then show ?thesis
    using journal_roundtrip [OF plain_json_ok _ fit, of "''j''" "''m1''"] by auto
qed

definition same_journal :: "memory_store \<Rightarrow> file_store \<Rightarrow> bool" where
  "same_journal m f \<longleftrightarrow>
     fs_data f = joinLines (ms_lines m) \<and> fs_next f = ms_next m \<and> \<not> fs_closed f"

text \<open>
  C39: The file store implements the store in memory. Where the file holds the lines of the
  memory store, appending a valid event without an I/O error has the same result on both and
  keeps them alike, and both give the same answer to every \<open>Replay\<close> and to \<open>All\<close>, whatever the
  lines are and whatever the context does.
\<close>
theorem file_refines_memory:
  assumes "same_journal m f" "event_ok e"
  shows "fst (File_Append js IoDone cx e f) = fst (Memory_Append js cx e m)
    \<and> same_journal (snd (Memory_Append js cx e m)) (snd (File_Append js IoDone cx e f))
    \<and> File_Replay js cxs i f = Memory_Replay js cxs i m \<and> File_All js cxs f = Memory_All js cxs m"
proof -
  have e: "\<not> (ev_OperationID e = [] \<or> \<not> validKind (ev_Kind e))" using assms(2) by (simp add: event_ok_def)
  have "fst (File_Append js IoDone cx e f) = fst (Memory_Append js cx e m)
    \<and> same_journal (snd (Memory_Append js cx e m)) (snd (File_Append js IoDone cx e f))"
    using assms(1) e
    by (cases cx; cases "line_of js (ms_next m + 1) e")
      (simp_all add: same_journal_def File_Append_def Memory_Append_def encodeEnvelope_line)
  moreover have "File_Replay js cxs i f = Memory_Replay js cxs i m" "File_All js cxs f = Memory_All js cxs m"
    using assms(1)
    by (simp_all add: same_journal_def File_Replay_def Memory_Replay_def File_All_def Memory_All_def File_read_def)
  ultimately show ?thesis by blast
qed

definition empty_file :: file_store where
  "empty_file = \<lparr>fs_data = [], fs_next = 0, fs_closed = False\<rparr>"

theorem file_refines_memory_witness:
  "File_All plain_json (\<lambda>_. None) empty_file = Memory_All plain_json (\<lambda>_. None) NewMemoryStore
   \<and> fst (File_Append plain_json IoDone None (demo_event ''m1'' ''started'') empty_file)
     = fst (Memory_Append plain_json None (demo_event ''m1'' ''started'') NewMemoryStore)"
proof -
  have "same_journal NewMemoryStore empty_file"
    by (simp add: same_journal_def NewMemoryStore_def empty_file_def)
  moreover have "event_ok (demo_event ''m1'' ''started'')"
    by (simp add: event_ok_def demo_event_def validKind_def journal_kinds_def)
  ultimately show ?thesis
    using file_refines_memory [of NewMemoryStore empty_file "demo_event ''m1'' ''started''" plain_json None]
    by blast
qed


section \<open>What is read\<close>

text \<open>A line holds an envelope that passes every check.\<close>

definition good_line :: "json \<Rightarrow> bytes \<Rightarrow> envelope \<Rightarrow> bool" where
  "good_line js raw e \<longleftrightarrow>
     length raw < 4194304 \<and> js_decode js (dropCR raw) = Some e
     \<and> (\<exists>b. js_event js (en_Event e) = Some b \<and> en_Checksum e = hex_encode (Sum256 b))
     \<and> ev_OperationID (en_Event e) \<noteq> []
     \<and> ev_Kind (en_Event e) \<in> {''accepted'', ''started'', ''progress'', ''retrying'', ''completed'',
          ''failed'', ''cancelled''}"

text \<open>These are the checks of the code.\<close>

lemma good_line_checks:
  "good_line js raw e \<longleftrightarrow>
     length raw < max_token \<and> js_decode js (dropCR raw) = Some e \<and> verifyEnvelope js e = None"
  by (auto simp: good_line_def verifyEnvelope_def event_sum_def validKind_def journal_kinds_def max_token_def
      split: option.splits if_splits)

lemma ex_head:
  "(\<And>xs. A xs \<longleftrightarrow> (\<exists>ys. xs = x # ys \<and> B ys)) \<Longrightarrow> (\<exists>xs. A xs \<and> P xs) \<longleftrightarrow> (\<exists>ys. B ys \<and> P (x # ys))"
  by auto

lemma decode_lines_iff:
  assumes "\<And>k. cx k = None"
  shows "decode_lines js cx op n res lines = Inr r \<longleftrightarrow>
    (\<exists>es. list_all2 (good_line js) lines es \<and> map en_Sequence es = numbered (\<lambda>k _. k) n es
       \<and> r = res\<lparr>rp_Events := rp_Events res @ filter (selects op) es,
            rp_LastSequence := (if es = [] then rp_LastSequence res else n + of_nat (length es) - 1)\<rparr>)"
proof (induction lines arbitrary: n res)
  case (Cons raw lines)
  show ?case
  proof (cases "\<exists>e. good_line js raw e \<and> en_Sequence e = n")
    case False
    have "decode_lines js cx op n res (raw # lines) \<noteq> Inr r"
      using False by (auto simp: good_line_checks assms split: option.split)
    with False show ?thesis by (auto simp: list_all2_Cons1)
  next
    case True
    then obtain e where e: "good_line js raw e" "en_Sequence e = n" by blast
    then have uniq: "good_line js raw e' \<longleftrightarrow> e' = e" for e' by (auto simp: good_line_checks)
    let ?res = "res\<lparr>rp_LastSequence := n,
        rp_Events := (if selects op e then rp_Events res @ [e] else rp_Events res)\<rparr>"
    have step: "decode_lines js cx op n res (raw # lines) = decode_lines js cx op (n + 1) ?res lines"
      using e by (simp add: good_line_checks assms selects_def)
    have upd: "?res\<lparr>rp_Events := rp_Events ?res @ filter (selects op) es,
        rp_LastSequence := (if es = [] then rp_LastSequence ?res else n + 1 + of_nat (length es) - 1)\<rparr>
      = res\<lparr>rp_Events := rp_Events res @ filter (selects op) (e # es),
          rp_LastSequence := (if e # es = [] then rp_LastSequence res
             else n + of_nat (length (e # es)) - 1)\<rparr>" for es
      by simp
    have seq: "map en_Sequence (e # es) = numbered (\<lambda>k _. k) n (e # es)
        \<longleftrightarrow> map en_Sequence es = numbered (\<lambda>k _. k) (n + 1) es" for es
      by (simp add: e(2))
    have rest: "decode_lines js cx op (n + 1) ?res lines = Inr r \<longleftrightarrow>
        (\<exists>es. list_all2 (good_line js) lines es \<and> map en_Sequence (e # es) = numbered (\<lambda>k _. k) n (e # es)
           \<and> r = res\<lparr>rp_Events := rp_Events res @ filter (selects op) (e # es),
                rp_LastSequence := (if e # es = [] then rp_LastSequence res
                  else n + of_nat (length (e # es)) - 1)\<rparr>)"
      unfolding Cons upd seq by (rule refl)
    have "list_all2 (good_line js) (raw # lines) es
        \<longleftrightarrow> (\<exists>ys. es = e # ys \<and> list_all2 (good_line js) lines ys)" for es
      using uniq by (auto simp: list_all2_Cons1)
    from ex_head [OF this] show ?thesis unfolding step rest by (rule sym)
  qed
qed auto

text \<open>
  C40: \<open>decodeStream\<close> accepts exactly the well-formed journals. It returns a result, with a context
  that is not cancelled, if and only if every line is shorter than 4 MiB and decodes to an envelope whose
  checksum is the hexadecimal SHA-256 of the encoding of its event and whose event names an operation and
  one of the seven kinds, and the envelopes are numbered 1, 2, 3, and so on without gap or repetition;
  the result then holds the envelopes of the operation asked for, in order, and the last number.
\<close>
theorem replay_exact:
  assumes "\<And>k. cx k = None"
  shows "decodeStream js cx data i = Inr r \<longleftrightarrow>
    (\<exists>es. list_all2 (good_line js) (split_lines [] data) es
       \<and> map en_Sequence es = map (\<lambda>k. of_nat (Suc k)) [0..<length es]
       \<and> r = \<lparr>rp_Events = filter (selects i) es, rp_LastSequence = of_nat (length es), rp_Truncated = False\<rparr>)"
proof -
  have num: "numbered (\<lambda>k _. k) (of_nat (Suc j)) es = map (\<lambda>k. of_nat (Suc k) :: u64) [j..<j + length es]"
    for es :: "envelope list" and j
  proof (induction es arbitrary: j)
    case (Cons e es)
    have "[j..<j + length (e # es)] = j # [Suc j..<Suc j + length es]" by (simp add: upt_conv_Cons del: upt_Suc)
    then show ?case using Cons [of "Suc j"] by (simp add: add.commute del: upt_Suc)
  qed simp
  show ?thesis
    unfolding decodeStream_def decode_lines_iff [OF assms] using num [of 0]
    by (intro ex_cong) (auto simp: empty_replay_def)
qed

theorem replay_exact_witness:
  "\<not> (\<exists>r. decodeStream plain_json (\<lambda>_. None) (joinLines [[59]]) [] = Inr r)"
proof -
  have "\<not> good_line plain_json [59] e" for e
    by (simp add: good_line_checks plain_json_def dropCR_def eval_nat_numeral)
  then show ?thesis
    using replay_exact [of "\<lambda>_. None" plain_json "joinLines [[59]]" "[]"]
    by (auto simp: joinLines_def list_all2_Cons1)
qed


section \<open>Appends that spoil a journal\<close>

text \<open>A log, then one more line, then anything.\<close>

lemma decodeStream_then:
  assumes "codec_ok js" "logged js 1 log ls" "10 \<notin> set b"
  shows "decodeStream js (\<lambda>_. None) (joinLines ls @ b @ 10 # bs) i =
    decode_lines js (\<lambda>_. None) i (of_nat (length log) + 1)
      \<lparr>rp_Events = filter (selects i) (records js 1 log), rp_LastSequence = of_nat (length log),
       rp_Truncated = False\<rparr> (b # split_lines [] bs)"
  using decodeStream_logged [OF assms(1) _ assms(2), of "\<lambda>_. None" "b @ 10 # bs" i] assms(3)
  by (simp add: split_lines_line add.commute)

text \<open>
  A write that fails half-way makes the file journal unreadable. When an append writes
  only the first bytes of its line, it reports an error, and from then on every \<open>Replay\<close> and
  \<open>All\<close> fails with a corrupt record, and so does opening the file again: the torn tail is not
  cut off, and the events before it cannot be read either.
\<close>
theorem torn_append_fatal:
  assumes "codec_ok js" "codec_prefix_free js" "file_holds js log s"
    "line_of js (of_nat (length log) + 1) e = Some b" "length b < max_token" "0 < k" "k < length b"
    "path \<noteq> []"
  shows "fst (File_Append js (IoWriteError k) None e s) = Inl WriteError
    \<and> File_read js (\<lambda>_. None) i (snd (File_Append js (IoWriteError k) None e s))
        = Inl (CorruptLine (of_nat (length log) + 1))
    \<and> OpenFileStore js path (fs_data (snd (File_Append js (IoWriteError k) None e s)))
        = Inl (CorruptLine (of_nat (length log) + 1))"
proof -
  let ?n = "of_nat (length log) + 1 :: u64"
  obtain ls where ls: "logged js 1 log ls" "fs_data s = joinLines ls" "fs_next s + 1 = ?n" "\<not> fs_closed s"
    using assms(3) by (auto simp: file_holds_def)
  note b = line_of_clean [OF assms(1,4)]
  have clean: "10 \<notin> set (take k b)" "13 \<notin> set (take k b)" "take k b \<noteq> []"
    using b(1-3) assms(6) by (auto dest: in_set_takeD)
  have "js_decode js (take k b) = None"
    using assms(2,4,7) unfolding codec_prefix_free_def line_of_def by (auto split: if_splits)
  then have bad: "decodeStream js (\<lambda>_. None) (joinLines ls @ take k b) j = Inl (CorruptLine ?n)" for j
    using decodeStream_logged [OF assms(1) _ ls(1), of "\<lambda>_. None" "take k b" j] clean assms(5,7)
    by (simp add: split_lines_rest add.commute)
  have "File_Append js (IoWriteError k) None e s = (Inl WriteError, s\<lparr>fs_data := joinLines ls @ take k b\<rparr>)"
    using ls(2,3,4) assms(4,7) by (simp add: File_Append_def encodeEnvelope_line)
  with bad ls(4) assms(8) show ?thesis by (simp add: File_read_def OpenFileStore_def)
qed

lemma empty_file_holds: "file_holds plain_json [] empty_file"
  by (simp add: file_holds_def plain_json_ok empty_file_def)

theorem torn_append_fatal_witness:
  "\<exists>s. File_Append plain_json (IoWriteError 1) None (demo_event ''m1'' ''started'') empty_file = (Inl WriteError, s)
     \<and> OpenFileStore plain_json ''j'' (fs_data s) = Inl (CorruptLine 1)"
proof -
  let ?b = "enc_fields (envelope_fields (sealed plain_json 1 (demo_event ''m1'' ''started'')))"
  have line: "line_of plain_json (of_nat (length ([] :: event list)) + 1) (demo_event ''m1'' ''started'') = Some ?b"
    by (simp add: plain_line)
  have len: "length ?b < max_token" "1 < length ?b"
    by (simp_all only: plain_line_length) (simp_all add: demo_event_def max_token_def enc_int_def dec.simps)
  have path: "''j'' \<noteq> []" by simp
  have
    "fst (File_Append plain_json (IoWriteError 1) None (demo_event ''m1'' ''started'') empty_file) = Inl WriteError
     \<and> OpenFileStore plain_json ''j''
         (fs_data (snd (File_Append plain_json (IoWriteError 1) None (demo_event ''m1'' ''started'') empty_file)))
       = Inl (CorruptLine (of_nat (length ([] :: event list)) + 1))"
    using torn_append_fatal [OF plain_json_ok plain_json_prefix_free empty_file_holds line len(1)
        zero_less_one len(2) path] by blast
  then show ?thesis
    by (intro exI [of _ "snd (File_Append plain_json (IoWriteError 1) None (demo_event ''m1'' ''started'') empty_file)"])
      (simp add: prod_eq_iff)
qed

text \<open>
  A failed \<open>fsync\<close> makes the file journal unreadable at the next append. The line is in
  the file, but the number is not used up: the next append succeeds with the same number, and
  then every reading fails with a sequence gap, and so does opening the file again.
\<close>
theorem failed_sync_fatal:
  assumes "codec_ok js" "file_holds js log s" "fits js (of_nat (length log) + 1) e"
    "fits js (of_nat (length log) + 1) e'" "s' = snd (File_Append js IoSyncError None e s)" "path \<noteq> []"
  shows "fst (File_Append js IoSyncError None e s) = Inl WriteError
    \<and> fst (File_Append js IoDone None e' s') = Inr (sealed js (of_nat (length log) + 1) e')
    \<and> File_read js (\<lambda>_. None) i (snd (File_Append js IoDone None e' s'))
        = Inl (ErrSequenceGap (of_nat (length log) + 2) (of_nat (length log) + 1))
    \<and> OpenFileStore js path (fs_data (snd (File_Append js IoDone None e' s')))
        = Inl (ErrSequenceGap (of_nat (length log) + 2) (of_nat (length log) + 1))"
proof -
  let ?n = "of_nat (length log) + 1 :: u64"
  obtain ls where ls: "logged js 1 log ls" "fs_data s = joinLines ls" "fs_next s + 1 = ?n" "\<not> fs_closed s"
    using assms(2) by (auto simp: file_holds_def)
  obtain b b' where b: "line_of js ?n e = Some b" "length b < max_token" "event_ok e" "event_text e"
    and b': "line_of js ?n e' = Some b'" "length b' < max_token" "event_ok e'" "event_text e'"
    using assms(3,4) by (auto simp: fits_def)
  note d' = line_of_clean [OF assms(1) b'(1)]
  have log: "logged js 1 (log @ [e]) (ls @ [b])"
    using ls(1) b by (simp add: logged_snoc add.commute)
  have "en_Sequence (recorded js ?n e') = ?n" by (simp add: recorded_def sealed_def)
  then have bad: "decodeStream js (\<lambda>_. None) (joinLines (ls @ [b, b'])) j
      = Inl (ErrSequenceGap (of_nat (length log) + 2) ?n)" for j
    using decodeStream_then [OF assms(1) log d'(2), of "[]" j] d'(3) d'(4) [OF b'(4)] b'(2)
    by (simp add: algebra_simps joinLines_def)
  have app: "File_Append js IoSyncError None e s = (Inl WriteError, s\<lparr>fs_data := joinLines (ls @ [b])\<rparr>)"
    using ls(2,3,4) b(1) by (simp add: File_Append_def encodeEnvelope_line)
  then have "File_Append js IoDone None e' s' =
      (Inr (sealed js ?n e'), s\<lparr>fs_data := joinLines (ls @ [b, b']), fs_next := ?n\<rparr>)"
    using ls(3,4) b'(1) assms(5) by (simp add: File_Append_def encodeEnvelope_line joinLines_def)
  with app bad ls(4) assms(6) show ?thesis by (simp add: File_read_def OpenFileStore_def)
qed

theorem failed_sync_fatal_witness:
  "\<exists>s. OpenFileStore plain_json ''j'' (fs_data s) = Inl (ErrSequenceGap 2 1)
     \<and> s = snd (File_Append plain_json IoDone None (demo_event ''m1'' ''started'')
         (snd (File_Append plain_json IoSyncError None (demo_event ''m1'' ''started'') empty_file)))"
proof -
  have "fits plain_json (of_nat (length ([] :: event list)) + 1) (demo_event ''m1'' ''started'')"
    using demo_fits [of "''started''"] by (simp add: journal_kinds_def)
  then show ?thesis
    using failed_sync_fatal [OF plain_json_ok empty_file_holds _ _ refl, where path = "''j''"] by fastforce
qed

text \<open>
  One event with a long line makes a journal unreadable, in memory or in a file. Both
  stores append an event whose line has 4 MiB or more without an error, and from then on, whatever
  is appended after it, every \<open>Replay\<close> and \<open>All\<close> fails because the token is too long, and so does
  opening the file again.
\<close>
theorem long_line_fatal:
  assumes "codec_ok js" "same_journal m f" "memory_holds js log m" "event_ok e"
    "line_of js (of_nat (length log) + 1) e = Some b" "max_token \<le> length b" "path \<noteq> []"
  shows "fst (Memory_Append js None e m) = Inr (sealed js (of_nat (length log) + 1) e)
    \<and> fst (File_Append js IoDone None e f) = Inr (sealed js (of_nat (length log) + 1) e)
    \<and> decodeStream js (\<lambda>_. None) (joinLines (ms_lines (snd (Memory_Append js None e m))) @ bs) i = Inl TokenTooLong
    \<and> Memory_All js (\<lambda>_. None) (snd (Memory_Append js None e m)) = Inl TokenTooLong
    \<and> File_read js (\<lambda>_. None) i (snd (File_Append js IoDone None e f)) = Inl TokenTooLong
    \<and> OpenFileStore js path (fs_data (snd (File_Append js IoDone None e f)) @ bs) = Inl TokenTooLong"
proof -
  let ?n = "of_nat (length log) + 1 :: u64"
  have m: "ms_next m + 1 = ?n" "logged js 1 log (ms_lines m)"
    using assms(3) by (simp_all add: memory_holds_def)
  have f: "fs_data f = joinLines (ms_lines m)" "fs_next f + 1 = ?n" "\<not> fs_closed f"
    using assms(2) m by (simp_all add: same_journal_def)
  note b = line_of_clean [OF assms(1,5)]
  have bad: "decodeStream js (\<lambda>_. None) (joinLines (ms_lines m) @ b @ 10 # bs) j = Inl TokenTooLong" for bs j
    using decodeStream_then [OF assms(1) m(2) b(2)] assms(6) by simp
  have "Memory_Append js None e m = (Inr (sealed js ?n e), m\<lparr>ms_next := ?n, ms_lines := ms_lines m @ [b]\<rparr>)"
    using m(1) assms(4,5) by (simp add: Memory_Append_def encodeEnvelope_line event_ok_def)
  moreover have "File_Append js IoDone None e f
      = (Inr (sealed js ?n e), f\<lparr>fs_data := joinLines (ms_lines m) @ b @ [10], fs_next := ?n\<rparr>)"
    using f assms(5) by (simp add: File_Append_def encodeEnvelope_line)
  ultimately show ?thesis
    using bad [of bs] bad [of "[]"] f(3) assms(7)
    by (simp add: Memory_All_def File_read_def OpenFileStore_def)
qed

definition long_event :: event where
  "long_event = demo_event (replicate (4 * 1024 * 1024) CHR ''a'') ''accepted''"

theorem long_line_fatal_witness:
  "fst (Memory_Append plain_json None long_event NewMemoryStore) = Inr (sealed plain_json 1 long_event)
   \<and> Memory_All plain_json (\<lambda>_. None) (snd (Memory_Append plain_json None long_event NewMemoryStore))
       = Inl TokenTooLong"
proof -
  let ?b = "enc_fields (envelope_fields (sealed plain_json 1 long_event))"
  have "same_journal NewMemoryStore empty_file" "memory_holds plain_json [] NewMemoryStore"
    by (simp_all add: same_journal_def NewMemoryStore_def empty_file_def memory_holds_def plain_json_ok)
  moreover have "replicate (4 * 1024 * 1024) CHR ''a'' \<noteq> []" by simp
  then have "event_ok long_event"
    by (simp add: event_ok_def long_event_def demo_event_def validKind_def journal_kinds_def)
  moreover have "line_of plain_json (of_nat (length ([] :: event list)) + 1) long_event = Some ?b"
    by (simp add: plain_line)
  moreover have "max_token \<le> length ?b"
    unfolding plain_line_length by (simp add: long_event_def demo_event_def max_token_def)
  ultimately show ?thesis
    using long_line_fatal [OF plain_json_ok, of NewMemoryStore empty_file "[]" long_event ?b "''j''"] by simp
qed

text \<open>
  The stores differ on an invalid event. The one in memory refuses an event without an
  operation or of an unknown kind; the file store writes it, and from then on every reading fails
  with a corrupt record.
\<close>
theorem invalid_event_fatal:
  assumes "codec_ok js" "same_journal m f" "memory_holds js log m" "\<not> event_ok e" "event_text e"
    "line_of js (of_nat (length log) + 1) e = Some b" "length b < max_token"
  shows "Memory_Append js None e m = (Inl InvalidEvent, m)
    \<and> fst (File_Append js IoDone None e f) = Inr (sealed js (of_nat (length log) + 1) e)
    \<and> File_read js (\<lambda>_. None) i (snd (File_Append js IoDone None e f))
        = Inl (CorruptEvent (of_nat (length log) + 1))"
proof -
  let ?n = "of_nat (length log) + 1 :: u64"
  have m: "ms_next m + 1 = ?n" "logged js 1 log (ms_lines m)"
    using assms(3) by (simp_all add: memory_holds_def)
  have f: "fs_data f = joinLines (ms_lines m)" "fs_next f + 1 = ?n" "\<not> fs_closed f"
    using assms(2) m by (simp_all add: same_journal_def)
  note b = line_of_clean(1-3) [OF assms(1,6)] line_of_clean(4) [OF assms(1,6,5)]
  obtain x where x: "js_event js e = Some x" using assms(6) by (auto simp: line_of_def split: if_splits)
  have "verifyEnvelope js (recorded js ?n e) = Some (CorruptEvent ?n)"
    using codec_compacted [OF assms(1) x] x assms(4)
    by (auto simp: verifyEnvelope_def recorded_def sealed_def event_ok_def)
  moreover have "en_Sequence (recorded js ?n e) = ?n" by (simp add: recorded_def sealed_def)
  ultimately have "decodeStream js (\<lambda>_. None) (joinLines (ms_lines m) @ b @ [10]) i = Inl (CorruptEvent ?n)"
    using decodeStream_then [OF assms(1) m(2) b(2), of "[]" i] b(3,4) assms(7) by simp
  moreover have "File_Append js IoDone None e f
      = (Inr (sealed js ?n e), f\<lparr>fs_data := joinLines (ms_lines m) @ b @ [10], fs_next := ?n\<rparr>)"
    using f assms(6) by (simp add: File_Append_def encodeEnvelope_line)
  moreover have "Memory_Append js None e m = (Inl InvalidEvent, m)"
    using assms(4) by (auto simp: Memory_Append_def event_ok_def)
  ultimately show ?thesis using f(3) by (simp add: File_read_def)
qed

theorem invalid_event_fatal_witness:
  "Memory_Append plain_json None zero_event NewMemoryStore = (Inl InvalidEvent, NewMemoryStore)
   \<and> File_read plain_json (\<lambda>_. None) [] (snd (File_Append plain_json IoDone None zero_event empty_file))
       = Inl (CorruptEvent 1)"
proof -
  let ?b = "enc_fields (envelope_fields (sealed plain_json 1 zero_event))"
  have "same_journal NewMemoryStore empty_file" "memory_holds plain_json [] NewMemoryStore"
    by (simp_all add: same_journal_def NewMemoryStore_def empty_file_def memory_holds_def plain_json_ok)
  moreover have "\<not> event_ok zero_event" "event_text zero_event"
    by (simp_all add: event_ok_def zero_event_def event_text_def ascii_valid)
  moreover have "line_of plain_json (of_nat (length ([] :: event list)) + 1) zero_event = Some ?b"
    by (simp add: plain_line)
  moreover have "length ?b < max_token"
    unfolding plain_line_length by (simp add: zero_event_def max_token_def enc_int_def dec.simps)
  ultimately show ?thesis
    using invalid_event_fatal [OF plain_json_ok, of NewMemoryStore empty_file "[]" zero_event ?b "[]"] by simp
qed

end
