(* ===== verification/XXHash.thy ===== *)
theory XXHash
  imports Prelude
begin

unbundle bit_operations_syntax

text \<open>
  The portable XXH64 of the vendored package \<open>github.com/cespare/xxhash/v2\<close>
  (\<open>xxhash.go\<close>, \<open>xxhash_other.go\<close>): the one-shot \<open>Sum64\<close> that maps an idempotency key to a
  partition. The assembly versions of other platforms compute the same function.
\<close>

section \<open>Rounds\<close>

definition prime1 :: u64 where "prime1 = 11400714785074694791"
definition prime2 :: u64 where "prime2 = 14029467366897019727"
definition prime3 :: u64 where "prime3 = 1609587929392839161"
definition prime4 :: u64 where "prime4 = 9650029242287828579"
definition prime5 :: u64 where "prime5 = 2870177450012600261"

definition rol :: "nat \<Rightarrow> u64 \<Rightarrow> u64" where
  "rol k x = push_bit k x OR drop_bit (64 - k) x"

definition xx_round :: "u64 \<Rightarrow> u64 \<Rightarrow> u64" where
  "xx_round acc input = rol 31 (acc + input * prime2) * prime1"

definition mergeRound :: "u64 \<Rightarrow> u64 \<Rightarrow> u64" where
  "mergeRound acc val = (acc XOR xx_round 0 val) * prime1 + prime4"

text \<open>A little-endian integer.\<close>

fun le_word :: "bytes \<Rightarrow> u64" where
  "le_word [] = 0"
| "le_word (b # bs) = ucast b + 256 * le_word bs"

record xx_state =
  xx_v1 :: u64
  xx_v2 :: u64
  xx_v3 :: u64
  xx_v4 :: u64

definition xx_block :: "bytes \<Rightarrow> xx_state \<Rightarrow> xx_state" where
  "xx_block b v =
     \<lparr>xx_v1 = xx_round (xx_v1 v) (le_word (take 8 b)),
      xx_v2 = xx_round (xx_v2 v) (le_word (take 8 (drop 8 b))),
      xx_v3 = xx_round (xx_v3 v) (le_word (take 8 (drop 16 b))),
      xx_v4 = xx_round (xx_v4 v) (le_word (take 8 (drop 24 b)))\<rparr>"

function xx_blocks :: "bytes \<Rightarrow> xx_state \<Rightarrow> xx_state \<times> bytes" where
  "xx_blocks b v = (if length b \<ge> 32 then xx_blocks (drop 32 b) (xx_block b v) else (v, b))"
  by pat_completeness auto
termination by (relation "measure (\<lambda>(b, v). length b)") auto

declare xx_blocks.simps [simp del]

definition xx_init :: xx_state where
  "xx_init = \<lparr>xx_v1 = prime1 + prime2, xx_v2 = prime2, xx_v3 = 0, xx_v4 = - prime1\<rparr>"

definition xx_merge :: "xx_state \<Rightarrow> u64" where
  "xx_merge v =
     mergeRound (mergeRound (mergeRound (mergeRound
       (rol 1 (xx_v1 v) + rol 7 (xx_v2 v) + rol 12 (xx_v3 v) + rol 18 (xx_v4 v))
       (xx_v1 v)) (xx_v2 v)) (xx_v3 v)) (xx_v4 v)"


section \<open>The tail\<close>

function xx_words :: "bytes \<Rightarrow> u64 \<Rightarrow> u64 \<times> bytes" where
  "xx_words b h =
     (if length b \<ge> 8
      then xx_words (drop 8 b) (rol 27 (h XOR xx_round 0 (le_word (take 8 b))) * prime1 + prime4)
      else (h, b))"
  by pat_completeness auto
termination by (relation "measure (\<lambda>(b, h). length b)") auto

declare xx_words.simps [simp del]

definition xx_half :: "bytes \<Rightarrow> u64 \<Rightarrow> u64 \<times> bytes" where
  "xx_half b h =
     (if length b \<ge> 4
      then (rol 23 (h XOR le_word (take 4 b) * prime1) * prime2 + prime3, drop 4 b)
      else (h, b))"

fun xx_bytes :: "bytes \<Rightarrow> u64 \<Rightarrow> u64" where
  "xx_bytes [] h = h"
| "xx_bytes (b # bs) h = xx_bytes bs (rol 11 (h XOR ucast b * prime5) * prime1)"

definition xx_tail :: "bytes \<Rightarrow> u64 \<Rightarrow> u64" where
  "xx_tail b h = (let (h, b) = xx_words b h; (h, b) = xx_half b h in xx_bytes b h)"

definition xx_avalanche :: "u64 \<Rightarrow> u64" where
  "xx_avalanche h =
     (let h = h XOR drop_bit 33 h; h = h * prime2; h = h XOR drop_bit 29 h; h = h * prime3
      in h XOR drop_bit 32 h)"

definition Sum64 :: "bytes \<Rightarrow> u64" where
  "Sum64 b =
     (let (h, rest) =
        (if length b \<ge> 32
         then (let (v, rest) = xx_blocks b xx_init in (xx_merge v, rest))
         else (prime5, b))
      in xx_avalanche (xx_tail rest (h + of_nat (length b))))"

text \<open>The test vectors of XXH64 with seed zero: no bytes, and the letter a.\<close>

lemma Sum64_vectors:
  "Sum64 [] = 0xEF46DB3751D8E999"
  "Sum64 [97] = 0xD24EC4F1A98C6E5B"
  by code_simp+

end
