(* ===== verification/Operation.thy ===== *)
theory Operation
  imports Manifest Catalog Lease Policy Journal XXHash
begin

text \<open>
  \<open>operation/model.go\<close> and the functions of \<open>operation/service.go\<close> and
  \<open>operation/runner.go\<close> that touch no shared state: requests and their validation, operations
  and their state machine, the translation to and from catalog records, the choice of the
  partition and the identifier, and the class of a failure.

  The Go type \<open>State\<close> is a string and stays one, because the catalog stores it as such. An error
  keeps what it wraps; \<open>op_is\<close> finds the sentinels the callers ask for with \<open>errors.Is\<close>.
\<close>

section \<open>States\<close>

definition StateAccepted :: string where "StateAccepted = ''accepted''"
definition StateRunning :: string where "StateRunning = ''running''"
definition StateRetrying :: string where "StateRetrying = ''retrying''"
definition StateCompleted :: string where "StateCompleted = ''completed''"
definition StateFailed :: string where "StateFailed = ''failed''"
definition StateCancelled :: string where "StateCancelled = ''cancelled''"

lemmas state_defs = StateAccepted_def StateRunning_def StateRetrying_def StateCompleted_def
  StateFailed_def StateCancelled_def


section \<open>Errors\<close>

datatype op_error =
    KeyRequired
  | PayloadMissing string
  | PayloadSize string
  | ErrNotFound
  | PayloadUnavailable
  | ErrTerminal
  | ErrInvalidTransition string string
  | CannotStart string
  | NotScheduled
  | ErrRejected string
  | CtxFailed ctx_error
  | MergeFailed sm_error
  | CatalogFailed catalog_error
  | LeaseFailed lease_error
  | JournalFailed journal_error

datatype op_sentinel = Is_NotFound | Is_Terminal | Is_InvalidTransition | Is_ArtifactNotFound

fun op_is :: "op_error \<Rightarrow> op_sentinel \<Rightarrow> bool" where
  "op_is ErrNotFound t = (t = Is_NotFound)"
| "op_is PayloadUnavailable t = (t = Is_NotFound)"
| "op_is ErrTerminal t = (t = Is_Terminal)"
| "op_is (ErrInvalidTransition _ _) t = (t = Is_InvalidTransition)"
| "op_is (CannotStart _) t = (t = Is_InvalidTransition)"
| "op_is (CatalogFailed e) t = (t = Is_ArtifactNotFound \<and> e = ErrArtifactNotFound)"
| "op_is _ t = False"

section \<open>Requests\<close>

record request =
  rq_Manifest :: manifest
  rq_Segments :: "string \<rightharpoonup> bytes"
  rq_IdempotencyKey :: string

definition zero_manifest :: manifest where
  "zero_manifest = \<lparr>mf_FileID = [], mf_Version = [], mf_TotalSize = 0, mf_Segments = []\<rparr>"

definition zero_request :: request where
  "zero_request = \<lparr>rq_Manifest = zero_manifest, rq_Segments = Map.empty, rq_IdempotencyKey = []\<rparr>"

fun check_payloads :: "(string \<rightharpoonup> bytes) \<Rightarrow> segment list \<Rightarrow> op_error option" where
  "check_payloads payloads [] = None"
| "check_payloads payloads (s # ss) =
     (case payloads (seg_ID s) of
        None \<Rightarrow> Some (PayloadMissing (seg_ID s))
      | Some data \<Rightarrow>
          if int (length data) \<noteq> sint (seg_StoredSize s) then Some (PayloadSize (seg_ID s))
          else check_payloads payloads ss)"

definition Validate :: "request \<Rightarrow> op_error option" where
  "Validate r =
     (if rq_IdempotencyKey r = [] then Some KeyRequired
      else
        (case CompileManifest (rq_Manifest r) of
           Inl e \<Rightarrow> Some (MergeFailed e)
         | Inr compiled \<Rightarrow> check_payloads (rq_Segments r) (mf_Segments compiled)))"

lemma check_payloads_None:
  "check_payloads payloads ss = None \<longleftrightarrow>
     (\<forall>s\<in>set ss. \<exists>data. payloads (seg_ID s) = Some data \<and> int (length data) = sint (seg_StoredSize s))"
  by (induction ss) (auto split: option.splits)

lemma Validate_None:
  "Validate r = None \<longleftrightarrow>
     rq_IdempotencyKey r \<noteq> []
     \<and> (\<exists>c. CompileManifest (rq_Manifest r) = Inr c
          \<and> (\<forall>s\<in>set (mf_Segments c). \<exists>data. rq_Segments r (seg_ID s) = Some data
               \<and> int (length data) = sint (seg_StoredSize s)))"
  by (auto simp: Validate_def check_payloads_None split: sum.splits)


section \<open>Operations\<close>

record progress =
  pg_CompletedSegments :: int
  pg_TotalSegments :: int
  pg_LastSegmentID :: string
  pg_UpdatedAt :: time

record operation =
  op_ID :: string
  op_Partition :: u32
  op_IdempotencyKey :: string
  op_Manifest :: manifest
  op_State :: string
  op_Attempt :: int
  op_Fence :: u64
  op_Owner :: string
  op_Progress :: progress
  op_Result :: "merge_result option"
  op_LastError :: string
  op_CreatedAt :: time
  op_UpdatedAt :: time
  op_RetryAt :: "time option"
  op_Metadata :: "string \<rightharpoonup> bytes"

definition terminal_state :: "string \<Rightarrow> bool" where
  "terminal_state s \<longleftrightarrow> s = StateCompleted \<or> s = StateFailed \<or> s = StateCancelled"

definition startable :: "string \<Rightarrow> bool" where
  "startable s \<longleftrightarrow> s = StateAccepted \<or> s = StateRetrying"

definition Terminal :: "operation \<Rightarrow> bool" where
  "Terminal op \<longleftrightarrow> terminal_state (op_State op)"

definition CanStart :: "operation \<Rightarrow> bool" where
  "CanStart op \<longleftrightarrow> startable (op_State op)"

definition allowed :: "string \<Rightarrow> string \<Rightarrow> bool" where
  "allowed state nxt =
     (if state = StateAccepted
      then nxt = StateRunning \<or> nxt = StateCancelled \<or> nxt = StateFailed
      else if state = StateRunning
      then nxt = StateCompleted \<or> nxt = StateRetrying \<or> nxt = StateFailed \<or> nxt = StateCancelled
      else if state = StateRetrying
      then nxt = StateRunning \<or> nxt = StateCancelled \<or> nxt = StateFailed
      else False)"

definition transition :: "operation \<Rightarrow> string \<Rightarrow> time \<Rightarrow> op_error + operation" where
  "transition op nxt now =
     (if \<not> allowed (op_State op) nxt then Inl (ErrInvalidTransition (op_State op) nxt)
      else Inr (op\<lparr>op_State := nxt, op_UpdatedAt := now\<rparr>))"

record snapshot =
  sn_Operation :: operation
  sn_Revision :: u64
  sn_LeaseTTL :: string


section \<open>Records\<close>

definition toRecord :: "operation \<Rightarrow> operation_record" where
  "toRecord op =
     \<lparr>or_ID = op_ID op, or_Partition = op_Partition op, or_FileID = mf_FileID (op_Manifest op),
      or_IdempotencyKey = op_IdempotencyKey op, or_State = op_State op, or_Revision = 0,
      or_Attempt = op_Attempt op, or_Fence = op_Fence op, or_Owner = op_Owner op,
      or_Completed = pg_CompletedSegments (op_Progress op), or_Total = pg_TotalSegments (op_Progress op),
      or_LastError = op_LastError op, or_RetryAt = op_RetryAt op, or_Result = op_Result op,
      or_CreatedAt = op_CreatedAt op, or_UpdatedAt = op_UpdatedAt op\<rparr>"

definition fromRecord :: "operation_record \<Rightarrow> manifest \<Rightarrow> operation" where
  "fromRecord r m =
     \<lparr>op_ID = or_ID r, op_Partition = or_Partition r, op_IdempotencyKey = or_IdempotencyKey r,
      op_Manifest = m, op_State = or_State r, op_Attempt = or_Attempt r, op_Fence = or_Fence r,
      op_Owner = or_Owner r,
      op_Progress = \<lparr>pg_CompletedSegments = or_Completed r, pg_TotalSegments = or_Total r,
         pg_LastSegmentID = [], pg_UpdatedAt = or_UpdatedAt r\<rparr>,
      op_Result = or_Result r, op_LastError = or_LastError r, op_CreatedAt = or_CreatedAt r,
      op_UpdatedAt = or_UpdatedAt r, op_RetryAt = or_RetryAt r, op_Metadata = Map.empty\<rparr>"

text \<open>
  What the two translations keep: a record comes back as it was, with revision 0, when the
  manifest is the one of its file; an operation loses the last segment, the time of its progress and
  its metadata.
\<close>

lemma toRecord_fields [simp]:
  "or_ID (toRecord op) = op_ID op" "or_State (toRecord op) = op_State op"
  "or_FileID (toRecord op) = mf_FileID (op_Manifest op)"
  "or_IdempotencyKey (toRecord op) = op_IdempotencyKey op" "or_Revision (toRecord op) = 0"
  "or_Attempt (toRecord op) = op_Attempt op" "or_Fence (toRecord op) = op_Fence op"
  "or_Owner (toRecord op) = op_Owner op" "or_Result (toRecord op) = op_Result op"
  "or_Completed (toRecord op) = pg_CompletedSegments (op_Progress op)"
  "or_Total (toRecord op) = pg_TotalSegments (op_Progress op)"
  "or_RetryAt (toRecord op) = op_RetryAt op" "or_LastError (toRecord op) = op_LastError op"
  "or_Partition (toRecord op) = op_Partition op"
  by (simp_all add: toRecord_def)

lemma fromRecord_fields [simp]:
  "op_ID (fromRecord r m) = or_ID r" "op_State (fromRecord r m) = or_State r"
  "op_Manifest (fromRecord r m) = m" "op_IdempotencyKey (fromRecord r m) = or_IdempotencyKey r"
  "op_Attempt (fromRecord r m) = or_Attempt r" "op_Fence (fromRecord r m) = or_Fence r"
  "op_Owner (fromRecord r m) = or_Owner r" "op_Result (fromRecord r m) = or_Result r"
  "op_RetryAt (fromRecord r m) = or_RetryAt r" "op_Partition (fromRecord r m) = or_Partition r"
  "pg_TotalSegments (op_Progress (fromRecord r m)) = or_Total r"
  "pg_CompletedSegments (op_Progress (fromRecord r m)) = or_Completed r"
  by (simp_all add: fromRecord_def)


section \<open>Identifiers and partitions\<close>

text \<open>\<open>%02d\<close> and \<open>%016x\<close>.\<close>

definition pad :: "nat \<Rightarrow> string \<Rightarrow> string" where
  "pad width s = replicate (width - length s) (CHR ''0'') @ s"

fun hex_digits :: "nat \<Rightarrow> nat \<Rightarrow> string" where
  "hex_digits 0 n = []"
| "hex_digits (Suc k) n = hex_digits k (n div 16) @ [hex_char (n mod 16)]"

definition operation_id :: "u32 \<Rightarrow> u64 \<Rightarrow> string" where
  "operation_id part seq =
     ''merge-'' @ pad 2 (dec (unat part)) @ ''-'' @ hex_digits 16 (unat seq)"

definition partition_of :: "u32 \<Rightarrow> string \<Rightarrow> u32" where
  "partition_of cnt key =
     ucast (Sum64 (map (\<lambda>c. word_of_nat (of_char c)) key) mod (ucast cnt :: u64))"

lemma length_hex_digits [simp]: "length (hex_digits k n) = k"
  by (induction k arbitrary: n) auto

lemma hex_char_inj: "a < 16 \<Longrightarrow> b < 16 \<Longrightarrow> hex_char a = hex_char b \<Longrightarrow> a = b"
  by (metis hex_val_hex_char option.inject)

lemma hex_digits_inj:
  "m < 16 ^ k \<Longrightarrow> n < 16 ^ k \<Longrightarrow> hex_digits k m = hex_digits k n \<Longrightarrow> m = n"
proof (induction k arbitrary: m n)
  case (Suc k)
  then have "m div 16 = n div 16" "hex_char (m mod 16) = hex_char (n mod 16)"
    by (auto intro!: Suc.IH simp: less_mult_imp_div_less)
  moreover have "m mod 16 = n mod 16"
    using hex_char_inj [of "m mod 16" "n mod 16"] calculation(2) by simp
  ultimately show ?case by (metis div_mult_mod_eq)
qed simp

text \<open>Different sequence numbers give different identifiers, whatever the partitions.\<close>

lemma operation_id_inj:
  assumes "operation_id p m = operation_id q n"
  shows "m = n"
proof -
  have "(''merge-'' @ pad 2 (dec (unat p)) @ ''-'') @ hex_digits 16 (unat m) =
      (''merge-'' @ pad 2 (dec (unat q)) @ ''-'') @ hex_digits 16 (unat n)"
    using assms unfolding operation_id_def append_assoc .
  then have "hex_digits 16 (unat m) = hex_digits 16 (unat n)"
    by (subst (asm) append_eq_append_conv) simp_all
  then have "unat m = unat n"
    using unsigned_less [of m] unsigned_less [of n] by (intro hex_digits_inj [of _ 16]) simp_all
  then show ?thesis by (rule unsigned_word_eqI)
qed

lemma operation_id_nonempty [simp]: "operation_id p m \<noteq> []"
  by (simp add: operation_id_def)


section \<open>Classes of failures\<close>

definition classifyFailure :: "sm_error \<Rightarrow> failure_class" where
  "classifyFailure e =
     (if errors_is e S_Canceled \<or> errors_is e S_DeadlineExceeded then FailureCancelled
      else if errors_is e S_InvalidManifest \<or> errors_is e S_SegmentIntegrity then FailurePermanent
      else FailureTransient)"

end
