(* ===== verification/Stores.thy ===== *)
theory Stores
  imports Model
begin

text \<open>
  The small stores around a merge: \<open>segmentmerge/source.go\<close>, \<open>segmentmerge/checkpoint.go\<close>
  and \<open>segmentmerge/index.go\<close>. Every operation begins with \<open>ctx.Err()\<close>: the argument
  \<open>cx\<close> is what that call returned. The checkpoint store is an interface of the code; its
  contract is the locale \<open>checkpoint_store\<close>, which \<open>MemoryCheckpoints\<close> fulfils.
\<close>

section \<open>Sources\<close>

text \<open>
  What a reader does when it is read to its end (\<open>io.ReadAll\<close>) and closed. A source is any
  function from the context and a segment name to such a reader.
\<close>

record reader =
  rd_ReadAll :: "sm_error + bytes"
  rd_Close :: "sm_error option"

type_synonym source = "ctx_error option \<Rightarrow> string \<Rightarrow> sm_error + reader"

definition NewMemorySource :: "(string \<rightharpoonup> bytes) \<Rightarrow> (string \<rightharpoonup> bytes)" where
  "NewMemorySource values = values"

definition MemorySource_Open :: "(string \<rightharpoonup> bytes) \<Rightarrow> source" where
  "MemorySource_Open data cx i =
     (case cx of
        Some e \<Rightarrow> Inl (CtxErr e)
      | None \<Rightarrow>
          (case data i of
             None \<Rightarrow> Inl (ErrSegmentNotFound i)
           | Some d \<Rightarrow> Inr \<lparr>rd_ReadAll = Inr d, rd_Close = None\<rparr>))"


section \<open>Checkpoints\<close>

type_synonym checkpoints = "string \<rightharpoonup> checkpoint"

definition NewMemoryCheckpoints :: checkpoints where
  "NewMemoryCheckpoints = Map.empty"

definition Checkpoints_Load ::
  "ctx_error option \<Rightarrow> string \<Rightarrow> checkpoints \<Rightarrow> sm_error + checkpoint option" where
  "Checkpoints_Load cx fileID items =
     (case cx of Some e \<Rightarrow> Inl (CtxErr e) | None \<Rightarrow> Inr (items fileID))"

definition Checkpoints_Save ::
  "ctx_error option \<Rightarrow> checkpoint \<Rightarrow> checkpoints \<Rightarrow> sm_error option \<times> checkpoints" where
  "Checkpoints_Save cx cp items =
     (case cx of Some e \<Rightarrow> (Some (CtxErr e), items)
      | None \<Rightarrow> (None, items(cp_FileID cp \<mapsto> cp)))"

definition Checkpoints_Clear ::
  "ctx_error option \<Rightarrow> string \<Rightarrow> checkpoints \<Rightarrow> sm_error option \<times> checkpoints" where
  "Checkpoints_Clear cx fileID items =
     (case cx of Some e \<Rightarrow> (Some (CtxErr e), items)
      | None \<Rightarrow> (None, items(fileID := None)))"

text \<open>
  What the merger relies on: with a live context a save is what the next load of that file
  returns, a clear makes the next load return nothing, other files are left alone, and a call
  that fails changes nothing.
\<close>

locale checkpoint_store =
  fixes load :: "ctx_error option \<Rightarrow> string \<Rightarrow> 's \<Rightarrow> sm_error + checkpoint option"
    and save :: "ctx_error option \<Rightarrow> checkpoint \<Rightarrow> 's \<Rightarrow> sm_error option \<times> 's"
    and clear :: "ctx_error option \<Rightarrow> string \<Rightarrow> 's \<Rightarrow> sm_error option \<times> 's"
  assumes load_live: "\<exists>r. load None f s = Inr r"
    and save_live: "fst (save None cp s) = None"
    and load_save: "load None f (snd (save None cp s)) =
           (if f = cp_FileID cp then Inr (Some cp) else load None f s)"
    and clear_live: "fst (clear None g s) = None"
    and load_clear: "load None f (snd (clear None g s)) =
           (if f = g then Inr None else load None f s)"
    and save_dead: "save (Some e) cp s = (Some (CtxErr e), s)"
    and clear_dead: "clear (Some e) g s = (Some (CtxErr e), s)"
begin

text \<open>Of several saves for a file the last one counts, and a clear undoes them all.\<close>

definition save_all :: "checkpoint list \<Rightarrow> 's \<Rightarrow> 's" where
  "save_all cps s = fold (\<lambda>cp s. snd (save None cp s)) cps s"

lemma load_save_all:
  assumes "\<forall>cp\<in>set cps. cp_FileID cp = f" "cps \<noteq> []"
  shows "load None f (save_all cps s) = Inr (Some (last cps))"
  using assms by (induction cps arbitrary: s rule: rev_induct) (auto simp: save_all_def load_save)

lemma load_save_other:
  assumes "\<forall>cp\<in>set cps. cp_FileID cp = f" "g \<noteq> f"
  shows "load None g (save_all cps s) = load None g s"
  using assms by (induction cps arbitrary: s) (auto simp: save_all_def load_save)

lemma clear_save_all:
  assumes "\<forall>cp\<in>set cps. cp_FileID cp = f"
  shows "load None g (snd (clear None f (save_all cps s))) = load None g (snd (clear None f s))"
  using assms load_save_other [of cps f g s] by (simp add: load_clear)

end

interpretation mem: checkpoint_store Checkpoints_Load Checkpoints_Save Checkpoints_Clear
  by unfold_locales
    (auto simp: Checkpoints_Load_def Checkpoints_Save_def Checkpoints_Clear_def)


section \<open>The index\<close>

type_synonym memory_index = "string \<rightharpoonup> commit_receipt"

definition NewMemoryIndex :: memory_index where
  "NewMemoryIndex = Map.empty"

definition Index_Put ::
  "ctx_error option \<Rightarrow> commit_receipt \<Rightarrow> memory_index \<Rightarrow> sm_error option \<times> memory_index" where
  "Index_Put cx r records =
     (case cx of Some e \<Rightarrow> (Some (CtxErr e), records)
      | None \<Rightarrow>
          (case validateReceipt r of
             Some e \<Rightarrow> (Some e, records)
           | None \<Rightarrow> (None, records(rc_FileID r \<mapsto> r))))"

definition Index_Get :: "string \<Rightarrow> memory_index \<Rightarrow> commit_receipt option" where
  "Index_Get fileID records = records fileID"

lemma Index_Put_cases:
  assumes "Index_Put cx r x = (e, x')"
  shows "(e = None \<and> cx = None \<and> validateReceipt r = None \<and> x' = x(rc_FileID r \<mapsto> r))
    \<or> (e \<noteq> None \<and> x' = x)"
  using assms by (auto simp: Index_Put_def split: option.splits)

end
