(* ===== verification/Loader.thy ===== *)
theory Loader
  imports Planner Budget Stores
begin

text \<open>
  \<open>segmentmerge/worker.go\<close>: how a worker turns a plan entry into verified bytes. \<open>gunzip\<close>
  stands for \<open>compress/gzip\<close>: any function from the stored bytes to the decoded ones or to
  the stage that failed; nothing is assumed of it. \<open>Load\<close> takes its budget lease first
  (\<open>Budget.Acquire\<close>, which may block and so is a step of its own in \<open>Merger\<close>) and runs
  \<open>Load_held\<close> with it: every path that returns an error gives the lease back, as the
  deferred function of the code does.
\<close>

type_synonym gunzip = "bytes \<Rightarrow> gzip_fault + bytes"

definition decode_stored :: "gunzip \<Rightarrow> segment \<Rightarrow> bytes \<Rightarrow> sm_error + bytes" where
  "decode_stored gunzip s stored =
     (if seg_Encoding s = EncodingGzip
      then (case gunzip stored of
              Inl f \<Rightarrow> Inl (DecodeSegment (seg_ID s) f)
            | Inr logical \<Rightarrow> Inr logical)
      else Inr stored)"

definition load_data :: "gunzip \<Rightarrow> source \<Rightarrow> ctx_error option \<Rightarrow> segment \<Rightarrow> sm_error + bytes" where
  "load_data gunzip src cx s =
     (case src cx (seg_ID s) of
        Inl e \<Rightarrow> Inl (OpenSegment (seg_ID s) e)
      | Inr rd \<Rightarrow>
          (case rd_ReadAll rd of
             Inl e \<Rightarrow> Inl (ReadSegment (seg_ID s) e)
           | Inr stored \<Rightarrow>
               (case rd_Close rd of
                  Some e \<Rightarrow> Inl (CloseSegment (seg_ID s) e)
                | None \<Rightarrow>
                    if int (length stored) \<noteq> sint (seg_StoredSize s)
                    then Inl (ErrSegmentIntegrity
                           (StoredSizeMismatch (seg_ID s) (length stored) (seg_StoredSize s)))
                    else
                      (case decode_stored gunzip s stored of
                         Inl e \<Rightarrow> Inl e
                       | Inr logical \<Rightarrow>
                           (case verifyLogicalSegment s logical of
                              Some e \<Rightarrow> Inl e
                            | None \<Rightarrow> Inr logical)))))"

definition Load_held ::
  "gunzip \<Rightarrow> source \<Rightarrow> ctx_error option \<Rightarrow> plan_entry \<Rightarrow> nat \<Rightarrow> byte_budget
     \<Rightarrow> (sm_error + loaded_segment) \<times> byte_budget" where
  "Load_held gunzip src cx entry lease b =
     (case load_data gunzip src cx (pe_Segment entry) of
        Inl e \<Rightarrow> (Inl e, snd (Release lease b))
      | Inr logical \<Rightarrow>
          (case MarkResident lease (int (length logical)) b of
             (Some e, b') \<Rightarrow> (Inl e, snd (Release lease b'))
           | (None, b') \<Rightarrow>
               (Inr \<lparr>ls_Entry = entry, ls_Data = logical, ls_lease = Some lease\<rparr>, b')))"

text \<open>\<open>LoadedSegment.release\<close>: on a nil lease it does nothing.\<close>

definition release_loaded :: "loaded_segment \<Rightarrow> byte_budget \<Rightarrow> byte_budget" where
  "release_loaded ld b = (case ls_lease ld of None \<Rightarrow> b | Some l \<Rightarrow> snd (Release l b))"

text \<open>
  The reader the gzip decoder reads from: \<open>Read\<close> fills a buffer of \<open>n\<close> bytes from the
  current offset, \<open>None\<close> is \<open>io.EOF\<close>.
\<close>

record byte_reader =
  br_data :: bytes
  br_offset :: nat

definition bytesReader :: "bytes \<Rightarrow> byte_reader" where
  "bytesReader d = \<lparr>br_data = d, br_offset = 0\<rparr>"

definition byteReader_Read :: "nat \<Rightarrow> byte_reader \<Rightarrow> bytes option \<times> byte_reader" where
  "byteReader_Read n r =
     (if br_offset r \<ge> length (br_data r) then (None, r)
      else let got = take n (drop (br_offset r) (br_data r))
           in (Some got, r\<lparr>br_offset := br_offset r + length got\<rparr>))"

fun read_chunks :: "nat list \<Rightarrow> byte_reader \<Rightarrow> bytes \<times> byte_reader" where
  "read_chunks [] r = ([], r)"
| "read_chunks (n # ns) r =
     (case byteReader_Read n r of
        (None, r') \<Rightarrow> ([], r')
      | (Some got, r') \<Rightarrow> let (rest, r'') = read_chunks ns r' in (got @ rest, r''))"

lemma read_chunks_prefix:
  assumes "br_offset r \<le> length (br_data r)"
  shows "fst (read_chunks ns r) = take (sum_list ns) (drop (br_offset r) (br_data r))"
  using assms
proof (induction ns arbitrary: r)
  case (Cons n ns)
  let ?got = "take n (drop (br_offset r) (br_data r))"
  let ?r = "r\<lparr>br_offset := br_offset r + length ?got\<rparr>"
  show ?case
  proof (cases "br_offset r \<ge> length (br_data r)")
    case True
    then show ?thesis by (simp add: byteReader_Read_def)
  next
    case False
    then have "fst (read_chunks ns ?r) = take (sum_list ns) (drop (br_offset ?r) (br_data ?r))"
      by (intro Cons.IH) auto
    moreover have "drop (br_offset ?r) (br_data ?r) = drop n (drop (br_offset r) (br_data r))"
      by (cases "n \<le> length (br_data r) - br_offset r") (auto simp: add.commute)
    moreover have "fst (read_chunks (n # ns) r) = ?got @ fst (read_chunks ns ?r)"
      using False by (simp add: byteReader_Read_def Let_def split: prod.splits)
    ultimately show ?thesis by (simp only: take_add sum_list.Cons)
  qed
qed simp

text \<open>Reading in buffers of any size until the end yields the data.\<close>

lemma read_chunks_all:
  "length d \<le> sum_list ns \<Longrightarrow> fst (read_chunks ns (bytesReader d)) = d"
  by (subst read_chunks_prefix) (simp_all add: bytesReader_def)


section \<open>The bytes a segment can load to\<close>

definition loads :: "gunzip \<Rightarrow> source \<Rightarrow> segment \<Rightarrow> bytes \<Rightarrow> bool" where
  "loads gunzip src s d \<longleftrightarrow> (\<exists>cx. load_data gunzip src cx s = Inr d)"

lemma load_data_verified:
  assumes "load_data gunzip src cx s = Inr d"
  shows "int (length d) = sint (seg_LogicalSize s)" "Digest d = seg_Digest s"
  using assms
  by (auto simp: load_data_def verifyLogicalSegment_None split: sum.splits option.splits if_splits)

lemma loads_verified:
  assumes "loads gunzip src s d"
  shows "int (length d) = sint (seg_LogicalSize s)" "Digest d = seg_Digest s"
  using assms load_data_verified by (auto simp: loads_def)

text \<open>With a memory source a raw segment loads to its stored bytes and to nothing else.\<close>

lemma loads_memory:
  assumes "loads gunzip (MemorySource_Open data) s d"
  shows "load_data gunzip (MemorySource_Open data) None s = Inr d"
  using assms
  by (auto simp: loads_def load_data_def MemorySource_Open_def split: option.splits)


section \<open>The leases that are out\<close>

definition live :: "byte_budget \<Rightarrow> nat set" where
  "live b = {l. l < length (bb_leases b) \<and> \<not> bl_released (bb_leases b ! l)}"

lemma finite_live [simp]: "finite (live b)"
  by (simp add: live_def)

lemma live_lt: "l \<in> live b \<Longrightarrow> l < length (bb_leases b)"
  by (simp add: live_def)

lemma live_Release: "l \<in> live b \<Longrightarrow> live (snd (Release l b)) = live b - {l}"
  by (auto simp: live_def Release_def Let_def nth_list_update)

lemma live_MarkResident: "l < length (bb_leases b) \<Longrightarrow> live (snd (MarkResident l n b)) = live b"
  by (auto simp: live_def MarkResident_def Let_def nth_list_update)

lemma Acquire_loop_cases:
  assumes "Acquire_loop w b = (r, b')"
  obtains "r = AcqLease (length (bb_leases b))" "live b' = insert (length (bb_leases b)) (live b)"
      "length (bb_leases b) \<notin> live b" "markable b' (length (bb_leases b))"
      "bl_weight (bb_leases b' ! length (bb_leases b)) = w"
      "\<And>l. l < length (bb_leases b) \<Longrightarrow> bb_leases b' ! l = bb_leases b ! l"
      "bb_limit b' = bb_limit b" "length (bb_leases b') = Suc (length (bb_leases b))"
      "bb_changed b' = bb_changed b" "bb_peak b' = bb_peak b"
  | "r = AcqWait (bb_changed b)" "b' = b"
proof (cases "sint (bb_reserved b) \<le> sint (bb_limit b - w)")
  case True
  with assms show ?thesis
    by (intro that(1))
      (auto simp: Acquire_loop_def live_def markable_def nth_append less_Suc_eq)
next
  case False
  with assms show ?thesis by (intro that(2)) (auto simp: Acquire_loop_def)
qed

lemma Load_held_cases:
  assumes "budget_ok b" "markable b l" "Load_held g src cx e l b = (r, b')"
  obtains (failed) err where "r = Inl err" "live b' = live b - {l}" "budget_ok b'"
  | (loaded) d where "r = Inr \<lparr>ls_Entry = e, ls_Data = d, ls_lease = Some l\<rparr>"
      "load_data g src cx (pe_Segment e) = Inr d" "live b' = live b" "budget_ok b'"
proof -
  have l: "l \<in> live b" "l < length (bb_leases b)"
    using assms(2) by (auto simp: markable_def live_def)
  show ?thesis
  proof (cases "load_data g src cx (pe_Segment e)")
    case (Inl err)
    with assms(3) have r: "r = Inl err" "b' = snd (Release l b)" by (auto simp: Load_held_def)
    from l have "live b' = live b - {l}" by (simp add: r live_Release)
    moreover have "budget_ok b'"
      using budget_ok_Release [OF assms(1) l(2), of "fst (Release l b)" b'] r by simp
    ultimately show ?thesis using r(1) failed by blast
  next
    case (Inr d)
    obtain x b1 where m: "MarkResident l (int (length d)) b = (x, b1)" by fastforce
    have b1: "budget_ok b1" "live b1 = live b" "l < length (bb_leases b1)"
      using budget_ok_MarkResident [OF assms(1,2) m] live_MarkResident [OF l(2), of "int (length d)"] m l
      by (auto simp: live_def)
    show ?thesis
    proof (cases x)
      case None
      with assms(3) Inr m b1 show ?thesis by (intro loaded [of d]) (auto simp: Load_held_def)
    next
      case (Some err)
      with assms(3) Inr m have r: "r = Inl err" "b' = snd (Release l b1)"
        by (auto simp: Load_held_def)
      from b1 l have "live b' = live b - {l}" by (simp add: r live_Release)
      moreover have "budget_ok b'"
        using budget_ok_Release [OF b1(1,3), of "fst (Release l b1)" b'] r by simp
      ultimately show ?thesis using r(1) failed by blast
    qed
  qed
qed

lemma Load_held_others:
  assumes "Load_held g src cx e l b = (r, b')"
  shows "length (bb_leases b') = length (bb_leases b)" "bb_limit b' = bb_limit b"
    "\<And>k. k \<noteq> l \<Longrightarrow> bb_leases b' ! k = bb_leases b ! k"
  using assms
  by (auto simp: Load_held_def MarkResident_def Release_def Let_def split: sum.splits option.splits prod.splits if_splits)


section \<open>Properties\<close>

text \<open>
  A load that succeeds returns bytes of the declared logical length with the declared
  SHA-256, keeps its lease and counts exactly those bytes as resident; a load that fails has
  given the lease back, whatever the reason: the budget holds no lease for it any more.
\<close>
theorem Load_held_lease:
  assumes "budget_ok b" "markable b l"
  shows "case Load_held gunzip src cx e l b of
      (Inr ld, b') \<Rightarrow> ls_Entry ld = e \<and> ls_lease ld = Some l
        \<and> int (length (ls_Data ld)) = sint (seg_LogicalSize (pe_Segment e))
        \<and> Digest (ls_Data ld) = seg_Digest (pe_Segment e)
        \<and> live b' = live b \<and> bb_reserved b' = bb_reserved b
        \<and> sint (bb_resident b') = sint (bb_resident b) + int (length (ls_Data ld))
    | (Inl err, b') \<Rightarrow> live b' = live b - {l}
        \<and> sint (bb_reserved b') = sint (bb_reserved b) - sint (bl_weight (bb_leases b ! l))
        \<and> bb_resident b' = bb_resident b"
proof -
  obtain r b' where load: "Load_held gunzip src cx e l b = (r, b')" by fastforce
  have l: "l < length (bb_leases b)" "\<not> bl_released (bb_leases b ! l)"
    "bl_resident (bb_leases b ! l) = 0"
    using assms(2) by (auto simp: markable_def)
  from assms load show ?thesis
  proof (cases rule: Load_held_cases)
    case (failed err)
    have "bb_leases b' = (bb_leases b)[l := (bb_leases b ! l)\<lparr>bl_released := True\<rparr>]"
      "bb_resident b' = bb_resident b"
      using load failed(1) l
      by (auto simp: Load_held_def Release_def MarkResident_def Let_def split: sum.splits if_splits)
    with failed load l assms(1) show ?thesis
      by (auto simp: budget_ok_def sum_list_update_int held_weight_def)
  next
    case (loaded d)
    let ?lease = "(bb_leases b ! l)\<lparr>bl_resident := word_of_int (int (length d))\<rparr>"
    have n: "int (length d) \<le> sint (bl_weight (bb_leases b ! l))"
      and b': "bb_leases b' = (bb_leases b)[l := ?lease]" "bb_reserved b' = bb_reserved b"
      using load loaded(1,2) by (auto simp: Load_held_def MarkResident_def Let_def split: if_splits)
    have "sint (word_of_int (int (length d)) :: i64) = int (length d)"
      using n i64_range [of "bl_weight (bb_leases b ! l)"] by (intro sint_i64_of_int) auto
    then have "sint (bb_resident b') = sint (bb_resident b) + int (length d)"
      using loaded(4) assms(1) l by (simp add: budget_ok_def b' sum_list_update_int held_resident_def)
    with loaded load b' load_data_verified [OF loaded(2)] show ?thesis by simp
  qed
qed

definition demo_source :: source where
  "demo_source = MemorySource_Open (NewMemorySource
     [''part-1'' \<mapsto> demo_first, ''part-2'' \<mapsto> demo_second])"

definition no_gunzip :: gunzip where
  "no_gunzip stored = Inl GzipHeader"

theorem Load_held_lease_witness:
  "\<exists>ld b'. Load_held no_gunzip demo_source None
       (plan_entry_at (mf_Segments demo_manifest) 0) 0 budget_after_six = (Inr ld, b')
     \<and> Digest (ls_Data ld) = Digest demo_first \<and> sint (bb_resident b') = 6"
proof -
  let ?e = "plan_entry_at (mf_Segments demo_manifest) 0"
  have ok: "budget_ok budget_after_six" using budget_ok_Acquire [OF budget_ok_new Acquire_six] .
  have mark: "markable budget_after_six 0" by (simp add: markable_def budget_after_six_def)
  have "load_data no_gunzip demo_source None (pe_Segment ?e) = Inr demo_first"
    by (simp add: load_data_def demo_source_def MemorySource_Open_def NewMemorySource_def
        plan_entry_at_def decode_stored_def verifyLogicalSegment_def EncodingRaw_def
        EncodingGzip_def demo_defs)
  then have "\<exists>ld b'. Load_held no_gunzip demo_source None ?e 0 budget_after_six = (Inr ld, b')
      \<and> ls_Data ld = demo_first"
    by (simp add: Load_held_def MarkResident_def budget_after_six_def demo_first_def)
  then show ?thesis
    using Load_held_lease [OF ok mark, where gunzip = no_gunzip and src = demo_source
        and cx = None and e = ?e]
    by (auto simp: demo_first_def budget_after_six_def)
qed

end
