(* ===== verification/Merger.thy ===== *)
theory Merger
  imports Loader Writer
begin

text \<open>
  \<open>segmentmerge/service.go\<close>: \<open>Merger.Merge\<close> with its workers, as a transition system.

  The goroutines are the main one, the dispatcher and the workers of \<open>loadAll\<close>, and the
  environment may cancel the caller's context at any time. A label says who moves:
  \<open>merge_step env l s\<close> is the next state, or \<open>None\<close> where that goroutine is blocked. The
  steps are the sections the code runs without waiting: one section under the budget's lock,
  one load with its lease in hand, one send, one receive, and of a turn of the inner loop of
  \<open>Merge\<close> the append with the release, and the save. A schedule is a list of labels.

  The unbuffered channel \<open>jobs\<close> is the list of entries not handed out; it is closed when
  the list is empty. \<open>results\<close> is a buffered channel with room for every entry, so a send
  never blocks; it is closed once every worker has returned. \<open>pending\<close> is an association
  list. The worker context is cancelled when the caller's is, or by \<open>cancelWorkers\<close>.
\<close>

section \<open>State\<close>

record merge_env =
  en_gunzip :: gunzip
  en_source :: source

type_synonym load_result = "sm_error + loaded_segment"

text \<open>
  A worker waits for a job, is about to ask the budget, waits in \<open>Acquire\<close> for a generation
  to pass, holds its lease, is about to send, or has returned.
\<close>

datatype worker =
    W_Idle
  | W_Enter plan_entry
  | W_Wait plan_entry nat
  | W_Hold plan_entry nat
  | W_Send load_result
  | W_Exit

text \<open>
  The main goroutine receives results, runs the inner loop on the pending segments (with a
  segment written it is about to save the checkpoint), drains the results after an error, or is
  past the loop: commit, index, clear, returned.
\<close>

datatype main_pc =
    M_Recv
  | M_Flush
  | M_Save loaded_segment
  | M_Drain sm_error
  | M_Commit
  | M_Index commit_receipt
  | M_Clear commit_receipt
  | M_Return "sm_error + merge_result"

record merge_state =
  g_compiled :: manifest
  g_plan :: merge_plan
  g_found :: bool
  g_ctx :: "ctx_error option"
  g_wctx :: "ctx_error option"
  g_jobs :: "plan_entry list"
  g_workers :: "worker list"
  g_results :: "load_result list"
  g_budget :: byte_budget
  g_writer :: memory_writer
  g_session :: memory_session
  g_checkpoints :: checkpoints
  g_index :: memory_index
  g_pending :: "(int \<times> loaded_segment) list"
  g_next :: int
  g_pc :: main_pc

datatype merge_label =
    L_Cancel ctx_error
  | L_Dispatch nat
  | L_Enter nat
  | L_Wake nat
  | L_GiveUp nat
  | L_Load nat
  | L_Send nat
  | L_Exit nat
  | L_Main

text \<open>\<open>NewMergerWithBudget\<close>: at least one worker, a fresh budget.\<close>

definition NewMerger_concurrency :: "int \<Rightarrow> nat" where
  "NewMerger_concurrency concurrency = (if concurrency < 1 then 1 else nat concurrency)"


section \<open>The workers\<close>

definition set_worker :: "nat \<Rightarrow> worker \<Rightarrow> merge_state \<Rightarrow> merge_state" where
  "set_worker i w s = s\<lparr>g_workers := (g_workers s)[i := w]\<rparr>"

definition after_acquire :: "plan_entry \<Rightarrow> acquired \<Rightarrow> worker" where
  "after_acquire e r =
     (case r of
        AcqLease l \<Rightarrow> W_Hold e l
      | AcqError err \<Rightarrow> W_Send (Inl err)
      | AcqWait g \<Rightarrow> W_Wait e g)"

text \<open>The worker \<open>i\<close> moves; \<open>None\<close> where the label does not fit what it is doing.\<close>

definition worker_step :: "merge_env \<Rightarrow> merge_label \<Rightarrow> nat \<Rightarrow> merge_state \<Rightarrow> merge_state option" where
  "worker_step env l i s =
     (if i < length (g_workers s) then
        (case (l, g_workers s ! i) of
           (L_Dispatch _, W_Idle) \<Rightarrow>
             (case g_jobs s of
                [] \<Rightarrow> None
              | e # es \<Rightarrow> Some (set_worker i (W_Enter e) (s\<lparr>g_jobs := es\<rparr>)))
         | (L_Exit _, W_Idle) \<Rightarrow>
             (if g_jobs s = [] then Some (set_worker i W_Exit s) else None)
         | (L_Enter _, W_Enter e) \<Rightarrow>
             (let (r, b) = Acquire (pe_MemoryWeight e) (g_budget s)
              in Some (set_worker i (after_acquire e r) (s\<lparr>g_budget := b\<rparr>)))
         | (L_Wake _, W_Wait e g) \<Rightarrow>
             (case Acquire_wake g (pe_MemoryWeight e) (g_budget s) of
                None \<Rightarrow> None
              | Some (r, b) \<Rightarrow> Some (set_worker i (after_acquire e r) (s\<lparr>g_budget := b\<rparr>)))
         | (L_GiveUp _, W_Wait e g) \<Rightarrow>
             (case Acquire_cancelled (g_wctx s) of
                None \<Rightarrow> None
              | Some err \<Rightarrow> Some (set_worker i (W_Send (Inl err)) s))
         | (L_Load _, W_Hold e lease) \<Rightarrow>
             (let (r, b) = Load_held (en_gunzip env) (en_source env) (g_wctx s) e lease (g_budget s)
              in Some (set_worker i (W_Send r) (s\<lparr>g_budget := b\<rparr>)))
         | (L_Send _, W_Send r) \<Rightarrow>
             Some (set_worker i W_Idle (s\<lparr>g_results := g_results s @ [r]\<rparr>))
         | _ \<Rightarrow> None)
      else None)"


section \<open>The main goroutine\<close>

definition results_closed :: "merge_state \<Rightarrow> bool" where
  "results_closed s \<longleftrightarrow> g_jobs s = [] \<and> list_all (\<lambda>w. w = W_Exit) (g_workers s)"

definition cancel_workers :: "merge_state \<Rightarrow> merge_state" where
  "cancel_workers s =
     s\<lparr>g_wctx := (case g_wctx s of None \<Rightarrow> Some Canceled | Some e \<Rightarrow> Some e)\<rparr>"

definition releasePending :: "merge_state \<Rightarrow> merge_state" where
  "releasePending s =
     s\<lparr>g_budget := fold (\<lambda>(o', ld). release_loaded ld) (g_pending s) (g_budget s),
       g_pending := []\<rparr>"

text \<open>An error in the loop: cancel, give the pending segments back, go on to drain.\<close>

definition fail_with :: "sm_error \<Rightarrow> merge_state \<Rightarrow> merge_state" where
  "fail_with e s = (releasePending (cancel_workers s))\<lparr>g_pc := M_Drain e\<rparr>"

text \<open>
  The end of an error path: abort and clear with a background context, ignoring what they
  return, and return the error.
\<close>

definition abort_return :: "sm_error \<Rightarrow> merge_state \<Rightarrow> merge_state" where
  "abort_return e s =
     (case Abort None (g_session s) (g_writer s) of
        (_, ss, w) \<Rightarrow>
          s\<lparr>g_session := ss, g_writer := w,
            g_checkpoints := snd (Checkpoints_Clear None (mf_FileID (g_compiled s)) (g_checkpoints s)),
            g_pc := M_Return (Inl e)\<rparr>)"

definition recv_step :: "merge_state \<Rightarrow> merge_state option" where
  "recv_step s =
     (case g_results s of
        Inl e # rs \<Rightarrow> Some (fail_with e (s\<lparr>g_results := rs\<rparr>))
      | Inr ld # rs \<Rightarrow>
          Some (s\<lparr>g_results := rs,
                  g_pending := AList.update (pe_Ordinal (ls_Entry ld)) ld (g_pending s),
                  g_pc := M_Flush\<rparr>)
      | [] \<Rightarrow>
          if \<not> results_closed s then None
          else if g_next s \<noteq> int (length (mf_Segments (g_compiled s)))
          then Some (abort_return (ErrWriterState IncompleteResults) (releasePending s))
          else Some (s\<lparr>g_pc := M_Commit\<rparr>))"

definition save_point :: "merge_state \<Rightarrow> loaded_segment \<Rightarrow> checkpoint" where
  "save_point s ld =
     \<lparr>cp_FileID = mf_FileID (g_compiled s), cp_Version = mf_Version (g_compiled s),
      cp_SessionID = ss_id (g_session s), cp_NextOrdinal = g_next s,
      cp_OutputSize = seg_Offset (pe_Segment (ls_Entry ld)) + word_of_int (int (length (ls_Data ld)))\<rparr>"

text \<open>
  A turn of the inner loop on the pending segment \<open>next\<close>, if it is there: it is appended and
  its lease released; then the checkpoint is saved, with the context as it is by then, and the
  segment leaves \<open>pending\<close>. Where that fails \<open>releasePending\<close> meets the segment again.
\<close>

definition flush_step :: "merge_state \<Rightarrow> merge_state" where
  "flush_step s =
     (case map_of (g_pending s) (g_next s) of
        None \<Rightarrow> s\<lparr>g_pc := M_Recv\<rparr>
      | Some ld \<Rightarrow>
          (case AppendAt (g_ctx s) (g_session s) (seg_Offset (pe_Segment (ls_Entry ld)))
                  (ls_Data ld) (g_writer s) of
             (Some e, w) \<Rightarrow>
               fail_with (WriteSegment (seg_ID (pe_Segment (ls_Entry ld))) e)
                 (s\<lparr>g_writer := w, g_budget := release_loaded ld (g_budget s)\<rparr>)
           | (None, w) \<Rightarrow>
               s\<lparr>g_writer := w, g_next := g_next s + 1,
                 g_budget := release_loaded ld (g_budget s), g_pc := M_Save ld\<rparr>))"

definition save_step :: "loaded_segment \<Rightarrow> merge_state \<Rightarrow> merge_state" where
  "save_step ld s =
     (case Checkpoints_Save (g_ctx s) (save_point s ld) (g_checkpoints s) of
        (Some e, cps) \<Rightarrow> fail_with e (s\<lparr>g_checkpoints := cps\<rparr>)
      | (None, cps) \<Rightarrow>
          s\<lparr>g_checkpoints := cps, g_pending := AList.delete (pe_Ordinal (ls_Entry ld)) (g_pending s),
            g_pc := M_Flush\<rparr>)"

text \<open>\<open>drainLoadResults\<close>, one result at a time.\<close>

definition drain_step :: "sm_error \<Rightarrow> merge_state \<Rightarrow> merge_state option" where
  "drain_step e s =
     (case g_results s of
        Inl _ # rs \<Rightarrow> Some (s\<lparr>g_results := rs\<rparr>)
      | Inr ld # rs \<Rightarrow> Some (s\<lparr>g_results := rs, g_budget := release_loaded ld (g_budget s)\<rparr>)
      | [] \<Rightarrow> if results_closed s then Some (abort_return e s) else None)"

definition commit_step :: "merge_state \<Rightarrow> merge_state" where
  "commit_step s =
     (case Commit (g_ctx s) (g_session s) (g_writer s) of
        (Inl e, ss, w) \<Rightarrow> s\<lparr>g_session := ss, g_writer := w, g_pc := M_Return (Inl e)\<rparr>
      | (Inr r, ss, w) \<Rightarrow>
          s\<lparr>g_session := ss, g_writer := w,
            g_pc := (case validateReceipt r of Some e \<Rightarrow> M_Return (Inl e) | None \<Rightarrow> M_Index r)\<rparr>)"

definition index_step :: "commit_receipt \<Rightarrow> merge_state \<Rightarrow> merge_state" where
  "index_step r s =
     (case Index_Put (g_ctx s) r (g_index s) of
        (Some e, x) \<Rightarrow> s\<lparr>g_index := x, g_pc := M_Return (Inl e)\<rparr>
      | (None, x) \<Rightarrow> s\<lparr>g_index := x, g_pc := M_Clear r\<rparr>)"

definition result_of :: "commit_receipt \<Rightarrow> merge_state \<Rightarrow> merge_result" where
  "result_of r s =
     \<lparr>mr_FileID = rc_FileID r, mr_Version = rc_Version r, mr_Size = rc_Size r,
      mr_Digest = rc_Digest r, mr_SegmentCount = int (length (mf_Segments (g_compiled s))),
      mr_Resumed = g_found s, mr_BudgetLimit = Limit (g_budget s),
      mr_PeakResidentBytes = PeakResident (g_budget s)\<rparr>"

definition clear_step :: "commit_receipt \<Rightarrow> merge_state \<Rightarrow> merge_state" where
  "clear_step r s =
     (case Checkpoints_Clear (g_ctx s) (mf_FileID (g_compiled s)) (g_checkpoints s) of
        (Some e, cps) \<Rightarrow> s\<lparr>g_checkpoints := cps, g_pc := M_Return (Inl e)\<rparr>
      | (None, cps) \<Rightarrow> s\<lparr>g_checkpoints := cps, g_pc := M_Return (Inr (result_of r s))\<rparr>)"

definition main_step :: "merge_state \<Rightarrow> merge_state option" where
  "main_step s =
     (case g_pc s of
        M_Recv \<Rightarrow> recv_step s
      | M_Flush \<Rightarrow> Some (flush_step s)
      | M_Save ld \<Rightarrow> Some (save_step ld s)
      | M_Drain e \<Rightarrow> drain_step e s
      | M_Commit \<Rightarrow> Some (commit_step s)
      | M_Index r \<Rightarrow> Some (index_step r s)
      | M_Clear r \<Rightarrow> Some (clear_step r s)
      | M_Return _ \<Rightarrow> None)"


section \<open>The system\<close>

text \<open>A context keeps the first reason it was cancelled for.\<close>

definition cancel_ctx :: "ctx_error \<Rightarrow> merge_state \<Rightarrow> merge_state" where
  "cancel_ctx e s =
     s\<lparr>g_ctx := (case g_ctx s of None \<Rightarrow> Some e | Some e' \<Rightarrow> Some e'),
       g_wctx := (case g_wctx s of None \<Rightarrow> Some e | Some e' \<Rightarrow> Some e')\<rparr>"

fun merge_step :: "merge_env \<Rightarrow> merge_label \<Rightarrow> merge_state \<Rightarrow> merge_state option" where
  "merge_step env (L_Cancel e) s = Some (cancel_ctx e s)"
| "merge_step env L_Main s = main_step s"
| "merge_step env (L_Dispatch i) s = worker_step env (L_Dispatch i) i s"
| "merge_step env (L_Enter i) s = worker_step env (L_Enter i) i s"
| "merge_step env (L_Wake i) s = worker_step env (L_Wake i) i s"
| "merge_step env (L_GiveUp i) s = worker_step env (L_GiveUp i) i s"
| "merge_step env (L_Load i) s = worker_step env (L_Load i) i s"
| "merge_step env (L_Send i) s = worker_step env (L_Send i) i s"
| "merge_step env (L_Exit i) s = worker_step env (L_Exit i) i s"

fun merge_run :: "merge_env \<Rightarrow> merge_label list \<Rightarrow> merge_state \<Rightarrow> merge_state option" where
  "merge_run env [] s = Some s"
| "merge_run env (l # ls) s =
     (case merge_step env l s of None \<Rightarrow> None | Some s' \<Rightarrow> merge_run env ls s')"

text \<open>
  \<open>Merge\<close> up to the call of \<open>loadAll\<close>: \<open>cx1\<close> and \<open>cx2\<close> are the context as
  \<open>checkpoints.Load\<close> and \<open>writer.Begin\<close> saw it. An error returns before a worker starts;
  the writer is returned as \<open>Begin\<close> left it.
\<close>

definition loadAll_workers :: "nat \<Rightarrow> plan_entry list \<Rightarrow> worker list" where
  "loadAll_workers concurrency entries =
     replicate (if concurrency > length entries then length entries else concurrency) W_Idle"

definition Merge_start ::
  "nat \<Rightarrow> ctx_error option \<Rightarrow> ctx_error option \<Rightarrow> manifest \<Rightarrow> byte_budget \<Rightarrow> memory_writer
     \<Rightarrow> checkpoints \<Rightarrow> memory_index \<Rightarrow> (sm_error \<times> memory_writer) + merge_state" where
  "Merge_start concurrency cx1 cx2 m b w cps ix =
     (case CompileManifest m of
        Inl e \<Rightarrow> Inl (e, w)
      | Inr c \<Rightarrow>
          (case Checkpoints_Load cx1 (mf_FileID c) cps of
             Inl e \<Rightarrow> Inl (e, w)
           | Inr resume \<Rightarrow>
               (case BuildPlan c resume of
                  Inl e \<Rightarrow> Inl (e, w)
                | Inr plan \<Rightarrow>
                    (case Begin cx2 plan w of
                       (Inl e, w') \<Rightarrow> Inl (e, w')
                     | (Inr session, w') \<Rightarrow>
                         Inr \<lparr>g_compiled = c, g_plan = plan, g_found = (resume \<noteq> None),
                              g_ctx = cx2, g_wctx = cx2, g_jobs = pl_Entries plan,
                              g_workers = loadAll_workers concurrency (pl_Entries plan),
                              g_results = [], g_budget = b, g_writer = w', g_session = session,
                              g_checkpoints = cps, g_index = ix, g_pending = [],
                              g_next = pl_StartOrdinal plan, g_pc = M_Recv\<rparr>))))"

lemmas merge_defs =
  worker_step_def set_worker_def after_acquire_def recv_step_def flush_step_def save_step_def drain_step_def
  commit_step_def index_step_def clear_step_def main_step_def fail_with_def releasePending_def
  cancel_workers_def abort_return_def results_closed_def save_point_def result_of_def cancel_ctx_def

lemma merge_run_append:
  "merge_run env (ls @ ls') s =
     (case merge_run env ls s of None \<Rightarrow> None | Some s' \<Rightarrow> merge_run env ls' s')"
  by (induction ls arbitrary: s) (auto split: option.splits)


definition is_cancel :: "merge_label \<Rightarrow> bool" where
  "is_cancel l \<longleftrightarrow> (\<exists>e. l = L_Cancel e)"

lemma in_set_worker: "w' \<in> set (g_workers (set_worker i w s)) \<Longrightarrow> w' = w \<or> w' \<in> set (g_workers s)"
  using set_update_subset_insert [of "g_workers s" i w] by (auto simp: set_worker_def)

lemma set_worker_simps [simp]:
  "g_budget (set_worker i w s) = g_budget s" "g_pending (set_worker i w s) = g_pending s"
  "g_results (set_worker i w s) = g_results s" "g_jobs (set_worker i w s) = g_jobs s"
  "g_workers (set_worker i w s) = (g_workers s)[i := w]" "g_pc (set_worker i w s) = g_pc s"
  "g_next (set_worker i w s) = g_next s" "g_plan (set_worker i w s) = g_plan s"
  "g_compiled (set_worker i w s) = g_compiled s" "g_writer (set_worker i w s) = g_writer s"
  "g_session (set_worker i w s) = g_session s" "g_checkpoints (set_worker i w s) = g_checkpoints s"
  "g_index (set_worker i w s) = g_index s" "g_ctx (set_worker i w s) = g_ctx s"
  "g_wctx (set_worker i w s) = g_wctx s" "g_found (set_worker i w s) = g_found s"
  by (simp_all add: set_worker_def)

lemma fail_with_simps [simp]:
  "g_workers (fail_with e s) = g_workers s" "g_results (fail_with e s) = g_results s"
  "g_pending (fail_with e s) = []" "g_jobs (fail_with e s) = g_jobs s"
  "g_next (fail_with e s) = g_next s" "g_plan (fail_with e s) = g_plan s"
  "g_compiled (fail_with e s) = g_compiled s" "g_writer (fail_with e s) = g_writer s"
  "g_session (fail_with e s) = g_session s" "g_checkpoints (fail_with e s) = g_checkpoints s"
  "g_index (fail_with e s) = g_index s" "g_pc (fail_with e s) = M_Drain e"
  "g_ctx (fail_with e s) = g_ctx s" "g_wctx (fail_with e s) \<noteq> None"
  "g_found (fail_with e s) = g_found s"
  by (simp_all add: fail_with_def releasePending_def cancel_workers_def split: option.split)

lemma releasePending_simps [simp]:
  "g_workers (releasePending s) = g_workers s" "g_results (releasePending s) = g_results s"
  "g_pending (releasePending s) = []" "g_jobs (releasePending s) = g_jobs s"
  "g_next (releasePending s) = g_next s" "g_plan (releasePending s) = g_plan s"
  "g_compiled (releasePending s) = g_compiled s" "g_writer (releasePending s) = g_writer s"
  "g_session (releasePending s) = g_session s" "g_checkpoints (releasePending s) = g_checkpoints s"
  "g_index (releasePending s) = g_index s" "g_pc (releasePending s) = g_pc s"
  "g_found (releasePending s) = g_found s"
  by (simp_all add: releasePending_def)

lemma cancel_ctx_simps [simp]:
  "g_workers (cancel_ctx e s) = g_workers s" "g_results (cancel_ctx e s) = g_results s"
  "g_pending (cancel_ctx e s) = g_pending s" "g_jobs (cancel_ctx e s) = g_jobs s"
  "g_next (cancel_ctx e s) = g_next s" "g_plan (cancel_ctx e s) = g_plan s"
  "g_compiled (cancel_ctx e s) = g_compiled s" "g_writer (cancel_ctx e s) = g_writer s"
  "g_session (cancel_ctx e s) = g_session s" "g_checkpoints (cancel_ctx e s) = g_checkpoints s"
  "g_index (cancel_ctx e s) = g_index s" "g_pc (cancel_ctx e s) = g_pc s"
  "g_budget (cancel_ctx e s) = g_budget s" "g_found (cancel_ctx e s) = g_found s"
  by (simp_all add: cancel_ctx_def)

lemma abort_return_simps [simp]:
  "g_workers (abort_return e s) = g_workers s" "g_results (abort_return e s) = g_results s"
  "g_pending (abort_return e s) = g_pending s" "g_jobs (abort_return e s) = g_jobs s"
  "g_next (abort_return e s) = g_next s" "g_plan (abort_return e s) = g_plan s"
  "g_compiled (abort_return e s) = g_compiled s" "g_budget (abort_return e s) = g_budget s"
  "g_index (abort_return e s) = g_index s" "g_pc (abort_return e s) = M_Return (Inl e)"
  "g_found (abort_return e s) = g_found s"
  by (simp_all add: abort_return_def split: prod.split)

lemma commit_step_simps [simp]:
  "g_workers (commit_step s) = g_workers s" "g_results (commit_step s) = g_results s"
  "g_pending (commit_step s) = g_pending s" "g_jobs (commit_step s) = g_jobs s"
  "g_next (commit_step s) = g_next s" "g_plan (commit_step s) = g_plan s"
  "g_compiled (commit_step s) = g_compiled s" "g_budget (commit_step s) = g_budget s"
  "g_index (commit_step s) = g_index s" "g_checkpoints (commit_step s) = g_checkpoints s"
  "g_found (commit_step s) = g_found s"
  by (simp_all add: commit_step_def split: prod.split sum.split)

lemma index_step_simps [simp]:
  "g_workers (index_step r s) = g_workers s" "g_results (index_step r s) = g_results s"
  "g_pending (index_step r s) = g_pending s" "g_jobs (index_step r s) = g_jobs s"
  "g_next (index_step r s) = g_next s" "g_plan (index_step r s) = g_plan s"
  "g_compiled (index_step r s) = g_compiled s" "g_budget (index_step r s) = g_budget s"
  "g_writer (index_step r s) = g_writer s" "g_session (index_step r s) = g_session s"
  "g_checkpoints (index_step r s) = g_checkpoints s" "g_found (index_step r s) = g_found s"
  by (simp_all add: index_step_def split: prod.split option.split)

lemma clear_step_simps [simp]:
  "g_workers (clear_step r s) = g_workers s" "g_results (clear_step r s) = g_results s"
  "g_pending (clear_step r s) = g_pending s" "g_jobs (clear_step r s) = g_jobs s"
  "g_next (clear_step r s) = g_next s" "g_plan (clear_step r s) = g_plan s"
  "g_compiled (clear_step r s) = g_compiled s" "g_budget (clear_step r s) = g_budget s"
  "g_writer (clear_step r s) = g_writer s" "g_session (clear_step r s) = g_session s"
  "g_index (clear_step r s) = g_index s" "g_found (clear_step r s) = g_found s"
  by (simp_all add: clear_step_def split: prod.split option.split)

end
