(* ===== verification/MergerTurns.thy ===== *)
theory MergerTurns
  imports Merger
begin

text \<open>
  A coarser view of the merge, in which the main goroutine appends a segment and saves its
  checkpoint in one move: \<open>merge_move\<close>, one rule per move, for rule induction. The state between
  the append and the save is seen as the state after the save (\<open>settled\<close>); where the save then
  fails the merge is abandoned from there. The lemma \<open>turn\<close> says that every step of the code is a
  move of this view or ends such a state, so what every move keeps holds of the settled states of
  every run.
\<close>

section \<open>The moves\<close>

text \<open>The flag marks the moves of the environment.\<close>

inductive merge_move :: "merge_env \<Rightarrow> bool \<Rightarrow> merge_state \<Rightarrow> merge_state \<Rightarrow> bool" for env where
  cancel: "merge_move env True s (cancel_ctx e s)"
| dispatch: "i < length (g_workers s) \<Longrightarrow> g_workers s ! i = W_Idle \<Longrightarrow> g_jobs s = e # es \<Longrightarrow>
    merge_move env False s (set_worker i (W_Enter e) (s\<lparr>g_jobs := es\<rparr>))"
| exit: "i < length (g_workers s) \<Longrightarrow> g_workers s ! i = W_Idle \<Longrightarrow> g_jobs s = [] \<Longrightarrow>
    merge_move env False s (set_worker i W_Exit s)"
| enter: "i < length (g_workers s) \<Longrightarrow> g_workers s ! i = W_Enter e \<Longrightarrow>
    Acquire (pe_MemoryWeight e) (g_budget s) = (r, b) \<Longrightarrow>
    merge_move env False s (set_worker i (after_acquire e r) (s\<lparr>g_budget := b\<rparr>))"
| wake: "i < length (g_workers s) \<Longrightarrow> g_workers s ! i = W_Wait e g \<Longrightarrow> bb_changed (g_budget s) \<noteq> g \<Longrightarrow>
    Acquire_loop (pe_MemoryWeight e) (g_budget s) = (r, b) \<Longrightarrow>
    merge_move env False s (set_worker i (after_acquire e r) (s\<lparr>g_budget := b\<rparr>))"
| give_up: "i < length (g_workers s) \<Longrightarrow> g_workers s ! i = W_Wait e g \<Longrightarrow> g_wctx s = Some err \<Longrightarrow>
    merge_move env False s (set_worker i (W_Send (Inl (CtxErr err))) s)"
| load: "i < length (g_workers s) \<Longrightarrow> g_workers s ! i = W_Hold e l \<Longrightarrow>
    Load_held (en_gunzip env) (en_source env) (g_wctx s) e l (g_budget s) = (r, b) \<Longrightarrow>
    merge_move env False s (set_worker i (W_Send r) (s\<lparr>g_budget := b\<rparr>))"
| send: "i < length (g_workers s) \<Longrightarrow> g_workers s ! i = W_Send r \<Longrightarrow>
    merge_move env False s (set_worker i W_Idle (s\<lparr>g_results := g_results s @ [r]\<rparr>))"
| recv_error: "g_pc s = M_Recv \<Longrightarrow> g_results s = Inl e # rs \<Longrightarrow>
    merge_move env False s (fail_with e (s\<lparr>g_results := rs\<rparr>))"
| recv_loaded: "g_pc s = M_Recv \<Longrightarrow> g_results s = Inr ld # rs \<Longrightarrow>
    merge_move env False s (s\<lparr>g_results := rs,
      g_pending := AList.update (pe_Ordinal (ls_Entry ld)) ld (g_pending s), g_pc := M_Flush\<rparr>)"
| recv_incomplete: "g_pc s = M_Recv \<Longrightarrow> g_results s = [] \<Longrightarrow> results_closed s \<Longrightarrow>
    g_next s \<noteq> int (length (mf_Segments (g_compiled s))) \<Longrightarrow>
    merge_move env False s (abort_return (ErrWriterState IncompleteResults) (releasePending s))"
| recv_complete: "g_pc s = M_Recv \<Longrightarrow> g_results s = [] \<Longrightarrow> results_closed s \<Longrightarrow>
    g_next s = int (length (mf_Segments (g_compiled s))) \<Longrightarrow>
    merge_move env False s (s\<lparr>g_pc := M_Commit\<rparr>)"
| flush_none: "g_pc s = M_Flush \<Longrightarrow> map_of (g_pending s) (g_next s) = None \<Longrightarrow>
    merge_move env False s (s\<lparr>g_pc := M_Recv\<rparr>)"
| flush_write_error: "g_pc s = M_Flush \<Longrightarrow> map_of (g_pending s) (g_next s) = Some ld \<Longrightarrow>
    AppendAt (g_ctx s) (g_session s) (seg_Offset (pe_Segment (ls_Entry ld))) (ls_Data ld) (g_writer s)
      = (Some e, w) \<Longrightarrow>
    merge_move env False s (fail_with (WriteSegment (seg_ID (pe_Segment (ls_Entry ld))) e)
      (s\<lparr>g_writer := w, g_budget := release_loaded ld (g_budget s)\<rparr>))"
| flush_abandoned: "g_pc s = M_Flush \<Longrightarrow> g_ctx s = Some e \<Longrightarrow>
    merge_move env False s (fail_with (CtxErr e)
      (s\<lparr>g_checkpoints := (g_checkpoints s)(mf_FileID (g_compiled s) := k)\<rparr>))"
| flush_saved: "g_pc s = M_Flush \<Longrightarrow> map_of (g_pending s) (g_next s) = Some ld \<Longrightarrow>
    AppendAt (g_ctx s) (g_session s) (seg_Offset (pe_Segment (ls_Entry ld))) (ls_Data ld) (g_writer s)
      = (None, w) \<Longrightarrow>
    s1 = s\<lparr>g_writer := w, g_next := g_next s + 1, g_budget := release_loaded ld (g_budget s)\<rparr> \<Longrightarrow>
    Checkpoints_Save (g_ctx s) (save_point s1 ld) (g_checkpoints s) = (None, cps) \<Longrightarrow>
    merge_move env False s (s1\<lparr>g_checkpoints := cps,
      g_pending := AList.delete (pe_Ordinal (ls_Entry ld)) (g_pending s)\<rparr>)"
| drain_error: "g_pc s = M_Drain e \<Longrightarrow> g_results s = Inl e' # rs \<Longrightarrow>
    merge_move env False s (s\<lparr>g_results := rs\<rparr>)"
| drain_loaded: "g_pc s = M_Drain e \<Longrightarrow> g_results s = Inr ld # rs \<Longrightarrow>
    merge_move env False s (s\<lparr>g_results := rs, g_budget := release_loaded ld (g_budget s)\<rparr>)"
| drain_end: "g_pc s = M_Drain e \<Longrightarrow> g_results s = [] \<Longrightarrow> results_closed s \<Longrightarrow>
    merge_move env False s (abort_return e s)"
| commit: "g_pc s = M_Commit \<Longrightarrow> merge_move env False s (commit_step s)"
| index: "g_pc s = M_Index r \<Longrightarrow> merge_move env False s (index_step r s)"
| clear: "g_pc s = M_Clear r \<Longrightarrow> merge_move env False s (clear_step r s)"

lemma worker_step_move:
  assumes "worker_step env l i s = Some s'"
  shows "merge_move env False s s'"
proof -
  have i: "i < length (g_workers s)" using assms by (auto simp: worker_step_def split: if_splits)
  show ?thesis
  proof (cases "g_workers s ! i")
    case W_Idle
    with assms i show ?thesis
      by (auto simp: worker_step_def intro: merge_move.dispatch merge_move.exit
          split: merge_label.splits list.splits if_splits)
  next
    case (W_Enter e)
    with assms i show ?thesis
      by (auto simp: worker_step_def intro: merge_move.enter
          split: merge_label.splits prod.splits)
  next
    case (W_Wait e g)
    with assms i show ?thesis
      by (auto simp: worker_step_def Acquire_wake_def Acquire_cancelled_def
          intro: merge_move.wake merge_move.give_up
          split: merge_label.splits prod.splits option.splits if_splits)
  next
    case (W_Hold e l)
    with assms i show ?thesis
      by (auto simp: worker_step_def intro: merge_move.load split: merge_label.splits prod.splits)
  next
    case (W_Send r)
    with assms i show ?thesis
      by (auto simp: worker_step_def intro: merge_move.send split: merge_label.splits)
  next
    case W_Exit
    with assms i show ?thesis by (auto simp: worker_step_def split: merge_label.splits)
  qed
qed


section \<open>Leases in hand\<close>

text \<open>\<open>lasting\<close>: leases are only added, and what is released stays so.\<close>

definition lasting :: "byte_budget \<Rightarrow> byte_budget \<Rightarrow> bool" where
  "lasting b b' \<longleftrightarrow>
     length (bb_leases b) \<le> length (bb_leases b')
     \<and> (\<forall>l<length (bb_leases b). bl_released (bb_leases b ! l) \<longrightarrow> bl_released (bb_leases b' ! l))"

lemma lasting_refl [simp]: "lasting b b"
  by (simp add: lasting_def)

lemma lasting_trans: "lasting a b \<Longrightarrow> lasting b c \<Longrightarrow> lasting a c"
  by (auto simp: lasting_def)

lemma lasting_Release: "lasting b (snd (Release l b))"
  by (cases "l < length (bb_leases b)") (auto simp: lasting_def Release_def Let_def nth_list_update)

lemma lasting_release_loaded: "lasting b (release_loaded ld b)"
  by (simp add: release_loaded_def lasting_Release split: option.split)

lemma lasting_release_all: "lasting b (fold (\<lambda>(o', ld). release_loaded ld) ps b)"
  by (induction ps arbitrary: b) (auto intro: lasting_trans lasting_release_loaded)

lemma lasting_Acquire_loop: "Acquire_loop w b = (r, b') \<Longrightarrow> lasting b b'"
  by (erule Acquire_loop_cases) (auto simp: lasting_def)

lemma lasting_Acquire: "Acquire w b = (r, b') \<Longrightarrow> lasting b b'"
  by (auto simp: Acquire_def lasting_Acquire_loop split: if_splits)

lemma lasting_MarkResident: "lasting b (snd (MarkResident l n b))"
  by (cases "l < length (bb_leases b)") (auto simp: lasting_def MarkResident_def Let_def nth_list_update)

lemma lasting_Load_held:
  assumes "Load_held g src cx e l b = (r, b')"
  shows "lasting b b'"
proof (cases "load_data g src cx (pe_Segment e)")
  case (Inl err)
  with assms show ?thesis by (auto simp: Load_held_def lasting_Release)
next
  case (Inr d)
  obtain x b1 where m: "MarkResident l (int (length d)) b = (x, b1)" by fastforce
  then have "lasting b b1" using lasting_MarkResident [of b l "int (length d)"] by simp
  moreover have "b' = b1 \<or> b' = snd (Release l b1)"
    using assms Inr m by (auto simp: Load_held_def split: option.splits)
  ultimately show ?thesis using lasting_Release lasting_trans by blast
qed

text \<open>A segment whose lease is one of the budget, and one whose lease has been given back.\<close>

definition lease_known :: "byte_budget \<Rightarrow> loaded_segment \<Rightarrow> bool" where
  "lease_known b ld = (case ls_lease ld of None \<Rightarrow> True | Some l \<Rightarrow> l < length (bb_leases b))"

definition given_back :: "byte_budget \<Rightarrow> loaded_segment \<Rightarrow> bool" where
  "given_back b ld =
     (case ls_lease ld of None \<Rightarrow> True
      | Some l \<Rightarrow> l < length (bb_leases b) \<and> bl_released (bb_leases b ! l))"

lemma given_back_lasting: "lasting b b' \<Longrightarrow> given_back b ld \<Longrightarrow> given_back b' ld"
  by (auto simp: given_back_def lasting_def split: option.splits)

lemma given_back_release: "lease_known b ld \<Longrightarrow> given_back (release_loaded ld b) ld"
  by (auto simp: lease_known_def given_back_def release_loaded_def Release_def Let_def split: option.splits)

lemma release_given_back: "given_back b ld \<Longrightarrow> release_loaded ld b = b"
  by (auto simp: given_back_def release_loaded_def Release_def Let_def split: option.splits)

lemma release_all_given_back:
  assumes "given_back b ld" "distinct (map fst ps)" "map_of ps k = Some ld"
  shows "fold (\<lambda>(o', ld). release_loaded ld) ps b = fold (\<lambda>(o', ld). release_loaded ld) (AList.delete k ps) b"
  using assms
proof (induction ps arbitrary: b)
  case (Cons p ps)
  obtain j x where p: "p = (j, x)" by fastforce
  show ?case
  proof (cases "j = k")
    case True
    with Cons.prems p have "x = ld" "AList.delete k ps = ps" by (auto simp: delete_absent)
    with True p release_given_back [OF Cons.prems(1)] show ?thesis by (simp add: AList.delete_eq)
  next
    case False
    have "given_back (release_loaded x b) ld"
      using given_back_lasting [OF lasting_release_loaded Cons.prems(1)] .
    with False p Cons show ?thesis by (simp add: AList.delete_eq)
  qed
qed simp

fun result_known :: "byte_budget \<Rightarrow> load_result \<Rightarrow> bool" where
  "result_known b (Inl e) = True"
| "result_known b (Inr ld) = lease_known b ld"

fun worker_known :: "byte_budget \<Rightarrow> worker \<Rightarrow> bool" where
  "worker_known b (W_Hold e l) = (l < length (bb_leases b))"
| "worker_known b (W_Send r) = result_known b r"
| "worker_known b _ = True"

definition leases_known :: "merge_state \<Rightarrow> bool" where
  "leases_known s \<longleftrightarrow>
     (\<forall>w\<in>set (g_workers s). worker_known (g_budget s) w) \<and> (\<forall>r\<in>set (g_results s). result_known (g_budget s) r)
     \<and> (\<forall>p\<in>set (g_pending s). lease_known (g_budget s) (snd p))"

lemma known_lasting:
  assumes "lasting b b'"
  shows "lease_known b ld \<Longrightarrow> lease_known b' ld" "result_known b r \<Longrightarrow> result_known b' r"
    "worker_known b w \<Longrightarrow> worker_known b' w"
proof -
  show *: "lease_known b ld \<Longrightarrow> lease_known b' ld" for ld
    using assms by (auto simp: lease_known_def lasting_def split: option.splits)
  show r: "result_known b r \<Longrightarrow> result_known b' r" for r using * by (cases r) auto
  show "worker_known b w \<Longrightarrow> worker_known b' w" using assms r by (cases w) (auto simp: lasting_def)
qed

lemma leases_known_worker:
  assumes "leases_known s" "lasting (g_budget s) (g_budget s')" "g_workers s' = (g_workers s)[i := w]"
    "worker_known (g_budget s') w" "g_results s' = g_results s" "g_pending s' = g_pending s"
  shows "leases_known s'"
proof -
  have "worker_known (g_budget s') v" if "v \<in> set (g_workers s')" for v
    using that assms(1,3,4) known_lasting(3) [OF assms(2)] set_update_subset_insert [of "g_workers s" i w]
    by (auto simp: leases_known_def)
  with assms(1,5,6) known_lasting(1,2) [OF assms(2)] show ?thesis by (auto simp: leases_known_def)
qed

lemma leases_known_main:
  assumes "leases_known s" "lasting (g_budget s) (g_budget s')" "g_workers s' = g_workers s"
    "set (g_results s') \<subseteq> set (g_results s)" "set (g_pending s') \<subseteq> set (g_pending s)"
  shows "leases_known s'"
  unfolding leases_known_def assms(3)
  using assms(1,4,5) known_lasting [OF assms(2)] unfolding leases_known_def by blast


section \<open>A merge about to save\<close>

text \<open>The state after the save, were it done now.\<close>

definition settle :: "loaded_segment \<Rightarrow> merge_state \<Rightarrow> merge_state" where
  "settle ld s =
     s\<lparr>g_checkpoints := snd (Checkpoints_Save None (save_point s ld) (g_checkpoints s)),
       g_pending := AList.delete (pe_Ordinal (ls_Entry ld)) (g_pending s), g_pc := M_Flush\<rparr>"

definition settled :: "merge_state \<Rightarrow> merge_state" where
  "settled s = (case g_pc s of M_Save ld \<Rightarrow> settle ld s | _ \<Rightarrow> s)"

definition saving :: "merge_state \<Rightarrow> bool" where
  "saving s \<longleftrightarrow> (\<exists>ld. g_pc s = M_Save ld)"

lemma settled_simps [simp]:
  "g_pc s = M_Save ld \<Longrightarrow> settled s = settle ld s" "\<not> saving s \<Longrightarrow> settled s = s"
  by (auto simp: settled_def saving_def split: main_pc.splits)

lemma settle_fields [simp]:
  "g_workers (settle ld s) = g_workers s" "g_results (settle ld s) = g_results s"
  "g_jobs (settle ld s) = g_jobs s" "g_next (settle ld s) = g_next s" "g_plan (settle ld s) = g_plan s"
  "g_compiled (settle ld s) = g_compiled s" "g_writer (settle ld s) = g_writer s"
  "g_session (settle ld s) = g_session s" "g_index (settle ld s) = g_index s"
  "g_pc (settle ld s) = M_Flush" "g_ctx (settle ld s) = g_ctx s" "g_wctx (settle ld s) = g_wctx s"
  "g_budget (settle ld s) = g_budget s" "g_found (settle ld s) = g_found s"
  by (simp_all add: settle_def)

lemma settled_fields [simp]:
  "g_workers (settled s) = g_workers s" "g_results (settled s) = g_results s"
  "g_jobs (settled s) = g_jobs s" "g_next (settled s) = g_next s" "g_plan (settled s) = g_plan s"
  "g_compiled (settled s) = g_compiled s" "g_writer (settled s) = g_writer s"
  "g_session (settled s) = g_session s" "g_index (settled s) = g_index s"
  "g_ctx (settled s) = g_ctx s" "g_wctx (settled s) = g_wctx s" "g_budget (settled s) = g_budget s"
  "g_found (settled s) = g_found s"
  by (auto simp: settled_def split: main_pc.split)

lemma not_saving_settled [simp]: "\<not> saving (settled s)"
  by (auto simp: saving_def settled_def split: main_pc.splits)

lemma settled_settled [simp]: "settled (settled s) = settled s"
  by simp

lemma saving_pc: "g_pc s = M_Save ld \<Longrightarrow> saving s"
  by (simp add: saving_def)

lemma not_saving [intro]:
  "g_pc s = M_Recv \<Longrightarrow> \<not> saving s" "g_pc s = M_Flush \<Longrightarrow> \<not> saving s" "g_pc s = M_Drain e \<Longrightarrow> \<not> saving s"
  "g_pc s = M_Commit \<Longrightarrow> \<not> saving s" "g_pc s = M_Index r \<Longrightarrow> \<not> saving s" "g_pc s = M_Clear r \<Longrightarrow> \<not> saving s"
  "g_pc s = M_Return x \<Longrightarrow> \<not> saving s"
  by (simp_all add: saving_def)

lemma saving_cases:
  obtains "\<not> saving s" "settled s = s" | ld where "saving s" "g_pc s = M_Save ld" "settled s = settle ld s"
  by (cases "saving s") (auto simp: saving_def)

text \<open>
  The segment being saved is still in \<open>pending\<close>, and has given its lease back, so that releasing it
  again with the others changes nothing.
\<close>

definition turn_ok :: "merge_state \<Rightarrow> bool" where
  "turn_ok s \<longleftrightarrow>
     leases_known s \<and> distinct (map fst (g_pending s))
     \<and> (\<forall>p\<in>set (g_pending s). fst p = pe_Ordinal (ls_Entry (snd p)))
     \<and> (\<forall>ld. g_pc s = M_Save ld \<longrightarrow>
          map_of (g_pending s) (pe_Ordinal (ls_Entry ld)) = Some ld \<and> given_back (g_budget s) ld)"


section \<open>The steps of the workers\<close>

lemma settle_set_worker: "settle ld (set_worker i w s) = set_worker i w (settle ld s)"
  by (simp add: settle_def set_worker_def save_point_def)

lemma worker_step_settle:
  "worker_step env l i (settle ld s) = map_option (settle ld) (worker_step env l i s)"
  by (simp add: worker_step_def settle_def set_worker_def save_point_def
      split: merge_label.split worker.split list.split option.split prod.split)

lemma worker_step_pc: "worker_step env l i s = Some s' \<Longrightarrow> g_pc s' = g_pc s"
  by (auto simp: worker_step_def Let_def split: if_splits merge_label.splits worker.splits list.splits
      option.splits prod.splits)

lemma worker_step_turn:
  assumes "worker_step env l i s = Some s'"
  shows "merge_move env False (settled s) (settled s')"
proof (cases rule: saving_cases [of s])
  case 1
  with worker_step_pc [OF assms] have "settled s' = s'" by (simp add: saving_def)
  with 1 worker_step_move [OF assms] show ?thesis by simp
next
  case (2 ld)
  with worker_step_pc [OF assms] have "settled s' = settle ld s'" by simp
  with 2 assms show ?thesis by (auto intro!: worker_step_move simp: worker_step_settle)
qed

lemma worker_known_after_acquire:
  "Acquire_loop w b = (r, b') \<Longrightarrow> worker_known b' (after_acquire e r)"
  by (erule Acquire_loop_cases) (auto simp: after_acquire_def)

lemma worker_known_after_Acquire:
  "Acquire w b = (r, b') \<Longrightarrow> worker_known b' (after_acquire e r)"
  using worker_known_after_acquire [of w b r b'] by (auto simp: Acquire_def split: if_splits) (simp_all add: after_acquire_def)

lemma Load_held_known:
  assumes "Load_held g src cx e l b = (r, b')" "l < length (bb_leases b)"
  shows "result_known b' r"
proof (cases r)
  case (Inr ld)
  with assms(1) have "ls_lease ld = Some l" by (auto simp: Load_held_def split: sum.splits prod.splits option.splits)
  with Inr assms lasting_Load_held [OF assms(1)] show ?thesis by (simp add: lease_known_def lasting_def)
qed simp

lemma worker_at_known: "leases_known s \<Longrightarrow> i < length (g_workers s) \<Longrightarrow> worker_known (g_budget s) (g_workers s ! i)"
  by (simp add: leases_known_def)

lemma worker_step_known:
  assumes step: "worker_step env l i s = Some s'" and known: "leases_known s"
  shows "leases_known s' \<and> lasting (g_budget s) (g_budget s') \<and> g_pending s' = g_pending s"
proof -
  have i: "i < length (g_workers s)" using step by (auto simp: worker_step_def split: if_splits)
  note w = worker_at_known [OF known i]
  have new: "leases_known (set_worker i v (s\<lparr>g_budget := b\<rparr>))"
    if "lasting (g_budget s) b" "worker_known b v" for v b
    using that by (intro leases_known_worker [OF known]) simp_all
  show ?thesis
  proof (cases "g_workers s ! i")
    case W_Idle
    with step i have "\<exists>v js. s' = set_worker i v (s\<lparr>g_jobs := js\<rparr>) \<and> worker_known (g_budget s) v"
      by (auto simp: worker_step_def set_worker_def split: merge_label.splits list.splits if_splits)
        (metis merge_state.surjective merge_state.update_convs(6) worker_known.simps(6))
    then show ?thesis by (auto intro!: leases_known_worker [OF known])
  next
    case (W_Enter e)
    with step i obtain r b where "Acquire (pe_MemoryWeight e) (g_budget s) = (r, b)"
      "s' = set_worker i (after_acquire e r) (s\<lparr>g_budget := b\<rparr>)"
      by (auto simp: worker_step_def split: merge_label.splits prod.splits)
    with new [of b] show ?thesis by (simp add: lasting_Acquire worker_known_after_Acquire)
  next
    case (W_Wait e g)
    with step i consider r b where "Acquire_loop (pe_MemoryWeight e) (g_budget s) = (r, b)"
        "s' = set_worker i (after_acquire e r) (s\<lparr>g_budget := b\<rparr>)"
      | err where "s' = set_worker i (W_Send (Inl err)) s"
      by (auto simp: worker_step_def Acquire_wake_def Acquire_cancelled_def
          split: merge_label.splits prod.splits option.splits if_splits)
    then show ?thesis
    proof cases
      case 1
      with new [of b] show ?thesis by (simp add: lasting_Acquire_loop worker_known_after_acquire)
    next
      case 2
      with new [of "g_budget s" "W_Send (Inl err)"] show ?thesis by simp
    qed
  next
    case (W_Hold e k)
    with step i obtain r b where "Load_held (en_gunzip env) (en_source env) (g_wctx s) e k (g_budget s) = (r, b)"
      "s' = set_worker i (W_Send r) (s\<lparr>g_budget := b\<rparr>)"
      by (auto simp: worker_step_def split: merge_label.splits prod.splits)
    with new [of b "W_Send r"] w W_Hold show ?thesis by (simp add: lasting_Load_held Load_held_known)
  next
    case (W_Send r)
    with step i have s': "s' = set_worker i W_Idle (s\<lparr>g_results := g_results s @ [r]\<rparr>)"
      by (auto simp: worker_step_def split: merge_label.splits)
    have "leases_known (s\<lparr>g_results := g_results s @ [r]\<rparr>)"
      using known w W_Send by (auto simp: leases_known_def)
    with s' show ?thesis by (auto intro!: leases_known_worker [of "s\<lparr>g_results := g_results s @ [r]\<rparr>"])
  next
    case W_Exit
    with step i show ?thesis by (auto simp: worker_step_def split: merge_label.splits)
  qed
qed

lemma worker_step_ok:
  assumes "worker_step env l i s = Some s'" "turn_ok s"
  shows "turn_ok s'"
  using worker_step_known [OF assms(1)] worker_step_pc [OF assms(1)] assms(2)
  by (auto simp: turn_ok_def intro: given_back_lasting)


section \<open>The steps of the main goroutine\<close>

lemma set_delete_subset: "set (AList.delete k al) \<subseteq> set al"
  by (auto simp: AList.delete_eq)

lemma in_set_update: "p \<in> set (AList.update k v al) \<Longrightarrow> p = (k, v) \<or> p \<in> set al"
  by (induction al) (auto split: if_splits)

lemma turn_ok_fewer:
  assumes "turn_ok s" "lasting (g_budget s) (g_budget s')" "g_workers s' = g_workers s"
    "set (g_results s') \<subseteq> set (g_results s)" "g_pending s' = g_pending s \<or> g_pending s' = []" "\<not> saving s'"
  shows "turn_ok s'"
  using assms leases_known_main [OF _ assms(2-4)]
  by (auto simp: turn_ok_def saving_def)

lemma lasting_fail_with: "lasting (g_budget s) (g_budget (fail_with e s))"
  by (simp add: fail_with_def releasePending_def cancel_workers_def lasting_release_all)

lemma lasting_releasePending: "lasting (g_budget s) (g_budget (releasePending s))"
  by (simp add: releasePending_def lasting_release_all)

lemma pc_not_saving [simp]:
  "\<not> saving (fail_with e s)" "\<not> saving (abort_return e s)" "\<not> saving (commit_step s)"
  "\<not> saving (index_step r s)" "\<not> saving (clear_step r s)"
  by (simp_all add: saving_def commit_step_def index_step_def clear_step_def
      split: prod.split sum.split option.split)

lemma turn_ok_fail: "turn_ok s \<Longrightarrow> turn_ok (fail_with e s)"
  by (erule turn_ok_fewer) (simp_all add: lasting_fail_with)

lemma flush_step_turn:
  assumes pc: "g_pc s = M_Flush" and ok: "turn_ok s"
  shows "turn_ok (flush_step s) \<and> merge_move env False s (settled (flush_step s))"
proof (cases "map_of (g_pending s) (g_next s)")
  case None
  then have "flush_step s = s\<lparr>g_pc := M_Recv\<rparr>" by (simp add: flush_step_def)
  with None pc ok show ?thesis
    by (auto simp: saving_def intro: merge_move.flush_none turn_ok_fewer [OF ok])
next
  case (Some ld)
  let ?app = "AppendAt (g_ctx s) (g_session s) (seg_Offset (pe_Segment (ls_Entry ld))) (ls_Data ld) (g_writer s)"
  have mem: "(g_next s, ld) \<in> set (g_pending s)" using Some by (rule map_of_SomeD)
  with ok have ord: "pe_Ordinal (ls_Entry ld) = g_next s" and known: "lease_known (g_budget s) ld"
    by (auto simp: turn_ok_def leases_known_def)
  show ?thesis
  proof (cases "fst ?app")
    case (Some e)
    then obtain w where app: "?app = (Some e, w)" by (metis prod.collapse)
    let ?s = "s\<lparr>g_writer := w, g_budget := release_loaded ld (g_budget s)\<rparr>"
    have "flush_step s = fail_with (WriteSegment (seg_ID (pe_Segment (ls_Entry ld))) e) ?s"
      using \<open>map_of _ _ = Some ld\<close> app by (simp add: flush_step_def)
    moreover have "turn_ok ?s"
      using pc by (intro turn_ok_fewer [OF ok]) (auto simp: lasting_release_loaded saving_def)
    ultimately show ?thesis
      using merge_move.flush_write_error [OF pc \<open>map_of _ _ = Some ld\<close> app] turn_ok_fail by simp
  next
    case None
    then obtain w where app: "?app = (None, w)" by (metis prod.collapse)
    then have live: "g_ctx s = None" by (auto simp: AppendAt_def split: option.splits)
    define s1 where "s1 = s\<lparr>g_writer := w, g_next := g_next s + 1, g_budget := release_loaded ld (g_budget s)\<rparr>"
    have step: "flush_step s = s1\<lparr>g_pc := M_Save ld\<rparr>"
      using \<open>map_of _ _ = Some ld\<close> app by (simp add: flush_step_def s1_def)
    have "turn_ok s1"
      using pc by (intro turn_ok_fewer [OF ok]) (auto simp: lasting_release_loaded saving_def s1_def)
    moreover have "given_back (g_budget s1) ld" using known by (simp add: s1_def given_back_release)
    ultimately have "turn_ok (flush_step s)"
      using \<open>map_of _ _ = Some ld\<close> ord unfolding step
      by (auto simp: turn_ok_def leases_known_def s1_def)
    moreover have "settled (flush_step s) = s1\<lparr>g_checkpoints := snd (Checkpoints_Save (g_ctx s) (save_point s1 ld)
        (g_checkpoints s)), g_pending := AList.delete (pe_Ordinal (ls_Entry ld)) (g_pending s)\<rparr>"
      using pc live unfolding step by (simp add: settle_def save_point_def s1_def)
    ultimately show ?thesis
      using merge_move.flush_saved [OF pc \<open>map_of _ _ = Some ld\<close> app s1_def] live
      by (simp add: Checkpoints_Save_def)
  qed
qed

lemma save_step_turn:
  assumes "g_pc s = M_Save ld" "turn_ok s"
  shows "turn_ok (save_step ld s)"
    "settled (save_step ld s) = settled s \<or> merge_move env False (settled s) (settled (save_step ld s))"
    "\<not> saving (save_step ld s)"
proof -
  let ?f = "mf_FileID (g_compiled s)" and ?o = "pe_Ordinal (ls_Entry ld)"
  show ns: "\<not> saving (save_step ld s)"
    by (simp add: save_step_def saving_def split: prod.split option.split)
  show "turn_ok (save_step ld s)"
  proof (cases "g_ctx s")
    case None
    then have "save_step ld s = settle ld s"
      by (simp add: save_step_def settle_def Checkpoints_Save_def)
    with assms show ?thesis
      using AList.distinct_delete [of "g_pending s" ?o] set_delete_subset [of ?o "g_pending s"]
      by (auto simp: turn_ok_def leases_known_def settle_def)
  next
    case (Some e)
    then have "save_step ld s = fail_with (CtxErr e) s"
      by (simp add: save_step_def Checkpoints_Save_def)
    with assms show ?thesis by (simp add: turn_ok_fail)
  qed
  show "settled (save_step ld s) = settled s \<or> merge_move env False (settled s) (settled (save_step ld s))"
  proof (cases "g_ctx s")
    case None
    then have "save_step ld s = settle ld s"
      by (simp add: save_step_def settle_def Checkpoints_Save_def)
    with assms show ?thesis by (simp add: saving_def)
  next
    case (Some e)
    have b: "fold (\<lambda>(o', ld). release_loaded ld) (g_pending s) (g_budget s)
        = fold (\<lambda>(o', ld). release_loaded ld) (AList.delete ?o (g_pending s)) (g_budget s)"
      using assms by (intro release_all_given_back) (auto simp: turn_ok_def)
    have "save_step ld s = fail_with (CtxErr e) s"
      using Some by (simp add: save_step_def Checkpoints_Save_def)
    also have "\<dots> = fail_with (CtxErr e) ((settle ld s)
        \<lparr>g_checkpoints := (g_checkpoints (settle ld s))(?f := g_checkpoints s ?f)\<rparr>)"
      using b by (simp add: fail_with_def releasePending_def cancel_workers_def settle_def
          Checkpoints_Save_def save_point_def)
    finally have "merge_move env False (settle ld s) (save_step ld s)"
      using merge_move.flush_abandoned [of "settle ld s" e env "g_checkpoints s ?f"] Some by simp
    with assms ns show ?thesis by simp
  qed
qed

lemma main_step_turn:
  assumes step: "main_step s = Some s'" and pc: "\<not> saving s" "g_pc s \<noteq> M_Flush" and ok: "turn_ok s"
  shows "turn_ok s' \<and> \<not> saving s' \<and> merge_move env False s s'"
proof (cases "g_pc s")
  case M_Recv
  show ?thesis
  proof (cases "g_results s")
    case Nil
    with M_Recv step have "results_closed s" "s' = abort_return (ErrWriterState IncompleteResults) (releasePending s)
        \<and> g_next s \<noteq> int (length (mf_Segments (g_compiled s)))
      \<or> s' = s\<lparr>g_pc := M_Commit\<rparr> \<and> g_next s = int (length (mf_Segments (g_compiled s)))"
      by (auto simp: main_step_def recv_step_def split: if_splits)
    with M_Recv Nil show ?thesis
      by (auto simp: saving_def lasting_releasePending intro!: turn_ok_fewer [OF ok]
          intro: merge_move.recv_incomplete merge_move.recv_complete)
  next
    case (Cons r rs)
    have rs: "turn_ok (s\<lparr>g_results := rs\<rparr>)"
      using Cons pc by (intro turn_ok_fewer [OF ok]) (auto simp: saving_def)
    show ?thesis
    proof (cases r)
      case (Inl e)
      with step Cons M_Recv have "s' = fail_with e (s\<lparr>g_results := rs\<rparr>)"
        by (simp add: main_step_def recv_step_def)
      with Inl Cons M_Recv rs show ?thesis by (simp add: turn_ok_fail merge_move.recv_error)
    next
      case (Inr ld)
      with step Cons M_Recv have s': "s' = s\<lparr>g_results := rs,
          g_pending := AList.update (pe_Ordinal (ls_Entry ld)) ld (g_pending s), g_pc := M_Flush\<rparr>"
        by (simp add: main_step_def recv_step_def)
      have "lease_known (g_budget s) ld" using ok Cons Inr by (auto simp: turn_ok_def leases_known_def)
      then have "turn_ok s'"
        using ok Cons unfolding s'
        by (auto simp: turn_ok_def leases_known_def distinct_update update_keys
            dest!: in_set_update)
      with Inr Cons M_Recv show ?thesis by (auto simp: s' saving_def intro: merge_move.recv_loaded)
    qed
  qed
next
  case (M_Drain e)
  show ?thesis
  proof (cases "g_results s")
    case Nil
    with M_Drain step have "results_closed s" "s' = abort_return e s"
      by (auto simp: main_step_def drain_step_def split: if_splits)
    with M_Drain Nil show ?thesis by (auto intro!: turn_ok_fewer [OF ok] intro: merge_move.drain_end)
  next
    case (Cons r rs)
    with M_Drain step have "s' = s\<lparr>g_results := rs\<rparr> \<and> (\<exists>e. r = Inl e)
      \<or> (\<exists>ld. s' = s\<lparr>g_results := rs, g_budget := release_loaded ld (g_budget s)\<rparr> \<and> r = Inr ld)"
      by (cases r) (auto simp: main_step_def drain_step_def)
    with M_Drain Cons show ?thesis
      by (auto simp: saving_def lasting_release_loaded intro!: turn_ok_fewer [OF ok]
          intro: merge_move.drain_error merge_move.drain_loaded)
  qed
qed (use assms in \<open>auto simp: main_step_def dest: saving_pc intro: merge_move.commit merge_move.index merge_move.clear
      intro!: turn_ok_fewer [OF ok]\<close>)


section \<open>Every step\<close>

text \<open>A step of the code is a move of the coarser view, or ends the save.\<close>

lemma main_turn:
  assumes "main_step s = Some s'" "turn_ok s"
  shows "turn_ok s' \<and> (saving s \<and> \<not> saving s' \<and> settled s' = settled s
     \<or> merge_move env False (settled s) (settled s'))"
proof (cases rule: saving_cases [of s])
  case 1
  show ?thesis
  proof (cases "g_pc s = M_Flush")
    case True
    with assms 1 flush_step_turn [OF True assms(2)] show ?thesis by (simp add: main_step_def)
  next
    case False
    with 1 main_step_turn [OF assms(1) _ False assms(2)] show ?thesis by simp
  qed
next
  case (2 ld)
  with assms(1) have "s' = save_step ld s" by (simp add: main_step_def)
  with 2 save_step_turn [OF 2(2) assms(2)] show ?thesis by blast
qed

lemma settled_cancel: "settled (cancel_ctx e s) = cancel_ctx e (settled s)"
  by (cases rule: saving_cases [of s]) (simp_all add: settle_def cancel_ctx_def save_point_def saving_def)

lemma cancel_turn:
  assumes "turn_ok s"
  shows "turn_ok (cancel_ctx e s)" "merge_move env True (settled s) (settled (cancel_ctx e s))"
  using assms by (simp_all add: turn_ok_def leases_known_def settled_cancel merge_move.cancel)

lemma turn:
  assumes "merge_step env l s = Some s'" "turn_ok s"
  shows "turn_ok s' \<and> (saving s \<and> \<not> saving s' \<and> \<not> is_cancel l \<and> settled s' = settled s
     \<or> merge_move env (is_cancel l) (settled s) (settled s'))"
  using assms cancel_turn main_turn worker_step_turn worker_step_ok
  by (cases l) (auto simp: is_cancel_def)

text \<open>
  What \<open>Merge\<close> would resume from, if it stopped now: the checkpoint saved last names the segment
  \<open>saved_next s\<close>, which is the one just written while its save is still to come.
\<close>

definition saved_next :: "merge_state \<Rightarrow> int" where
  "saved_next s = (case g_pc s of M_Save _ \<Rightarrow> g_next s - 1 | _ \<Rightarrow> g_next s)"

lemma saved_next_simps:
  "saving s \<Longrightarrow> saved_next s = g_next s - 1" "\<not> saving s \<Longrightarrow> saved_next s = g_next s"
  by (auto simp: saved_next_def saving_def split: main_pc.split)

lemma worker_step_same:
  "worker_step env l i s = Some s' \<Longrightarrow> g_checkpoints s' = g_checkpoints s \<and> g_next s' = g_next s
     \<and> g_session s' = g_session s \<and> g_compiled s' = g_compiled s \<and> g_plan s' = g_plan s"
  by (auto simp: worker_step_def Let_def split: if_splits merge_label.splits worker.splits list.splits
      option.splits prod.splits)

lemma main_step_saving:
  assumes "main_step s = Some s'" "saving s'"
  shows "g_pc s = M_Flush \<and> g_checkpoints s' = g_checkpoints s \<and> g_next s' = g_next s + 1
     \<and> g_session s' = g_session s \<and> g_compiled s' = g_compiled s \<and> g_plan s' = g_plan s"
  using assms by (cases "g_pc s")
    (auto simp: main_step_def recv_step_def flush_step_def save_step_def drain_step_def saving_def
      commit_step_def index_step_def clear_step_def
      split: list.splits sum.splits option.splits prod.splits if_splits)

lemma saving_step:
  assumes "merge_step env l s = Some s'" "saving s'"
  shows "(saving s \<or> g_pc s = M_Flush) \<and> g_checkpoints s' = g_checkpoints s \<and> saved_next s' = saved_next s
     \<and> g_session s' = g_session s \<and> g_compiled s' = g_compiled s \<and> g_plan s' = g_plan s"
proof (cases "l = L_Main")
  case True
  with assms main_step_saving [of s s'] show ?thesis
    by (simp add: saved_next_simps(1)) (simp add: saved_next_def)
next
  case False
  with assms(1) have "g_pc s' = g_pc s \<and> g_checkpoints s' = g_checkpoints s \<and> g_next s' = g_next s
     \<and> g_session s' = g_session s \<and> g_compiled s' = g_compiled s \<and> g_plan s' = g_plan s"
    using worker_step_same worker_step_pc by (cases l) auto
  with assms(2) show ?thesis by (auto simp: saving_def saved_next_def)
qed

lemma turns_run:
  assumes move: "\<And>s s' k. P s \<Longrightarrow> merge_move env k s s' \<Longrightarrow> P s'"
  shows "merge_run env ls s = Some s' \<Longrightarrow> turn_ok s \<Longrightarrow> P (settled s) \<Longrightarrow> turn_ok s' \<and> P (settled s')"
proof (induction ls arbitrary: s)
  case (Cons l ls)
  then obtain t where t: "merge_step env l s = Some t" "merge_run env ls t = Some s'"
    by (auto split: option.splits)
  with turn [OF t(1)] Cons.prems have "turn_ok t" "P (settled t)" by (auto intro: move)
  with Cons.IH t show ?case by blast
qed simp

lemma turns_run_uncancelled:
  assumes move: "\<And>s s'. P s \<Longrightarrow> merge_move env False s s' \<Longrightarrow> P s'"
  shows "merge_run env ls s = Some s' \<Longrightarrow> list_all (\<lambda>l. \<not> is_cancel l) ls \<Longrightarrow> turn_ok s \<Longrightarrow> P (settled s)
    \<Longrightarrow> turn_ok s' \<and> P (settled s')"
proof (induction ls arbitrary: s)
  case (Cons l ls)
  then obtain t where t: "merge_step env l s = Some t" "merge_run env ls t = Some s'"
    by (auto split: option.splits)
  with turn [OF t(1)] Cons.prems have "turn_ok t" "P (settled t)" by (auto intro: move)
  with Cons t show ?case by simp
qed simp

end
