(* ===== verification/MergerEntries.thy ===== *)
theory MergerEntries
  imports MergerTurns
begin

text \<open>
  The plan entries of a merge. Until an error is received, every entry that is not written
  yet is in one place (not handed out, with a worker, in a result, pending) or was lost to a
  load error that is still on its way to the main goroutine. So the main goroutine can only
  run out of results when everything is written, and writes the segments in order.
\<close>

fun result_entries :: "load_result \<Rightarrow> plan_entry multiset" where
  "result_entries (Inl _) = {#}"
| "result_entries (Inr ld) = {#ls_Entry ld#}"

fun worker_entries :: "worker \<Rightarrow> plan_entry multiset" where
  "worker_entries (W_Enter e) = {#e#}"
| "worker_entries (W_Wait e g) = {#e#}"
| "worker_entries (W_Hold e l) = {#e#}"
| "worker_entries (W_Send r) = result_entries r"
| "worker_entries _ = {#}"

definition pending_entry :: "int \<times> loaded_segment \<Rightarrow> plan_entry multiset" where
  "pending_entry p = {#ls_Entry (snd p)#}"

definition outstanding :: "merge_state \<Rightarrow> plan_entry multiset" where
  "outstanding s =
     mset (g_jobs s) + (\<Sum>w\<leftarrow>g_workers s. worker_entries w)
     + (\<Sum>r\<leftarrow>g_results s. result_entries r) + (\<Sum>p\<leftarrow>g_pending s. pending_entry p)"

text \<open>Load errors on their way; a unit token for each.\<close>

fun result_error :: "load_result \<Rightarrow> unit multiset" where
  "result_error (Inl _) = {#()#}"
| "result_error (Inr _) = {#}"

fun worker_error :: "worker \<Rightarrow> unit multiset" where
  "worker_error (W_Send r) = result_error r"
| "worker_error _ = {#}"

definition errors_out :: "merge_state \<Rightarrow> unit multiset" where
  "errors_out s = (\<Sum>w\<leftarrow>g_workers s. worker_error w) + (\<Sum>r\<leftarrow>g_results s. result_error r)"

text \<open>The entries still to be written, as a list in order.\<close>

definition to_write :: "merge_state \<Rightarrow> plan_entry list" where
  "to_write s = drop (nat (g_next s - pl_StartOrdinal (g_plan s))) (pl_Entries (g_plan s))"

definition running :: "merge_state \<Rightarrow> bool" where
  "running s \<longleftrightarrow> g_pc s = M_Recv \<or> g_pc s = M_Flush"

definition accounted :: "merge_state \<Rightarrow> bool" where
  "accounted s \<longleftrightarrow>
     (\<exists>lost. outstanding s + lost = mset (to_write s) \<and> size lost = size (errors_out s))"

definition pending_ok :: "merge_state \<Rightarrow> bool" where
  "pending_ok s \<longleftrightarrow>
     distinct (map fst (g_pending s)) \<and> (\<forall>p\<in>set (g_pending s). fst p = pe_Ordinal (ls_Entry (snd p)))"

text \<open>The plan is one that \<open>BuildPlan\<close> makes for a compiled manifest.\<close>

definition plan_ok :: "merge_state \<Rightarrow> bool" where
  "plan_ok s \<longleftrightarrow>
     CompileManifest (g_compiled s) = Inr (g_compiled s)
     \<and> (\<exists>sid. g_plan s = plan_from (g_compiled s) (pl_StartOrdinal (g_plan s)) sid)
     \<and> 0 \<le> pl_StartOrdinal (g_plan s) \<and> pl_StartOrdinal (g_plan s) \<le> g_next s
     \<and> g_next s \<le> int (length (mf_Segments (g_compiled s)))"

definition inv_entries :: "merge_state \<Rightarrow> bool" where
  "inv_entries s \<longleftrightarrow>
     plan_ok s \<and> pending_ok s
     \<and> (running s \<longrightarrow> accounted s)
     \<and> (g_pc s = M_Recv \<longrightarrow> map_of (g_pending s) (g_next s) = None)"


section \<open>The entries of a plan\<close>

lemma plan_ok_entries:
  assumes "plan_ok s"
  shows "pl_Entries (g_plan s) =
    map (plan_entry_at (mf_Segments (g_compiled s)))
      [nat (pl_StartOrdinal (g_plan s))..<length (mf_Segments (g_compiled s))]"
  using assms by (auto simp: plan_ok_def plan_from_def dest!: arg_cong [of _ _ pl_Entries])

lemma to_write_eq:
  assumes "plan_ok s"
  shows "to_write s = map (plan_entry_at (mf_Segments (g_compiled s)))
    [nat (g_next s)..<length (mf_Segments (g_compiled s))]"
proof -
  have "nat (pl_StartOrdinal (g_plan s)) + nat (g_next s - pl_StartOrdinal (g_plan s)) = nat (g_next s)"
    using assms by (auto simp: plan_ok_def)
  then show ?thesis
    unfolding to_write_def plan_ok_entries [OF assms] by (simp add: drop_map)
qed

lemma plan_entry_at_simps [simp]:
  "pe_Ordinal (plan_entry_at ss i) = int i" "pe_Segment (plan_entry_at ss i) = ss ! i"
  "pe_MemoryWeight (plan_entry_at ss i) = seg_LogicalSize (ss ! i)"
  by (simp_all add: plan_entry_at_def)

lemma distinct_to_write: "plan_ok s \<Longrightarrow> distinct (map pe_Ordinal (to_write s))"
  by (simp add: to_write_eq comp_def distinct_map)

lemma outstanding_sub: "accounted s \<Longrightarrow> outstanding s \<subseteq># mset (to_write s)"
  by (metis accounted_def mset_subset_eq_add_left)

text \<open>Two outstanding entries have different ordinals, and no entry is out twice.\<close>

lemma outstanding_ordinal:
  assumes "plan_ok s" "accounted s" "{#e, e'#} \<subseteq># outstanding s"
  shows "pe_Ordinal e \<noteq> pe_Ordinal e'"
proof -
  have "{#pe_Ordinal e, pe_Ordinal e'#} \<subseteq># image_mset pe_Ordinal (mset (to_write s))"
    using image_mset_subseteq_mono [OF subset_mset.order_trans [OF assms(3) outstanding_sub [OF assms(2)]],
        of pe_Ordinal] by simp
  then have "{#pe_Ordinal e, pe_Ordinal e'#} \<subseteq># mset (map pe_Ordinal (to_write s))"
    by simp
  moreover have "count (mset (map pe_Ordinal (to_write s))) (pe_Ordinal e) \<le> 1"
    using distinct_to_write [OF assms(1)] by (simp add: distinct_count_atmost_1 count_mset)
  ultimately show ?thesis
    by (auto dest!: mset_subset_eq_count [where a = "pe_Ordinal e"])
qed

lemma outstanding_next:
  assumes "plan_ok s" "accounted s" "e \<in># outstanding s" "pe_Ordinal e = g_next s"
  shows "g_next s < int (length (mf_Segments (g_compiled s)))"
    "e = plan_entry_at (mf_Segments (g_compiled s)) (nat (g_next s))"
    "to_write s = e # drop 1 (to_write s)"
proof -
  have "e \<in> set (to_write s)"
    using mset_subset_eqD [OF outstanding_sub [OF assms(2)] assms(3)] by simp
  then obtain i where i: "nat (g_next s) \<le> i" "i < length (mf_Segments (g_compiled s))"
    "e = plan_entry_at (mf_Segments (g_compiled s)) i"
    unfolding to_write_eq [OF assms(1)] by auto
  moreover from this assms(1,4) have "i = nat (g_next s)" by (auto simp: plan_ok_def)
  ultimately show "g_next s < int (length (mf_Segments (g_compiled s)))"
    "e = plan_entry_at (mf_Segments (g_compiled s)) (nat (g_next s))"
    "to_write s = e # drop 1 (to_write s)"
    using assms(1,4) by (auto simp: to_write_eq upt_conv_Cons plan_ok_def)
qed


section \<open>Every move keeps the invariant\<close>

lemma outstanding_set_worker:
  assumes "i < length (g_workers s)"
  shows "outstanding (set_worker i w s) + worker_entries (g_workers s ! i)
      = outstanding s + worker_entries w"
    and "errors_out (set_worker i w s) + worker_error (g_workers s ! i)
      = errors_out s + worker_error w"
  using sum_list_update_token [OF assms, of worker_entries w]
    sum_list_update_token [OF assms, of worker_error w]
  by (simp_all add: outstanding_def errors_out_def ac_simps)

lemma plan_ok_cong:
  "g_compiled s' = g_compiled s \<Longrightarrow> g_plan s' = g_plan s \<Longrightarrow> g_next s' = g_next s \<Longrightarrow>
   plan_ok s' \<longleftrightarrow> plan_ok s"
  by (simp add: plan_ok_def)

lemma to_write_cong:
  "g_plan s' = g_plan s \<Longrightarrow> g_next s' = g_next s \<Longrightarrow> to_write s' = to_write s"
  by (simp add: to_write_def)

lemma plan_ok_updates [simp]:
  "plan_ok (s\<lparr>g_results := rs\<rparr>) = plan_ok s" "plan_ok (s\<lparr>g_budget := b\<rparr>) = plan_ok s"
  "plan_ok (s\<lparr>g_writer := w\<rparr>) = plan_ok s" "plan_ok (s\<lparr>g_checkpoints := cps\<rparr>) = plan_ok s"
  "plan_ok (s\<lparr>g_pending := ps\<rparr>) = plan_ok s" "plan_ok (s\<lparr>g_pc := pc\<rparr>) = plan_ok s"
  by (simp_all add: plan_ok_def)

text \<open>
  A state with the same plan position and the same pending segments, whose tokens are those of
  \<open>s\<close> up to entries that turned into errors.
\<close>

lemma inv_entries_step:
  assumes "inv_entries s" "g_compiled s' = g_compiled s" "g_plan s' = g_plan s"
    "g_next s' = g_next s" "g_pending s' = g_pending s" "g_pc s' = g_pc s"
    "\<exists>new. outstanding s' + new = outstanding s \<and> size (errors_out s') = size (errors_out s) + size new"
  shows "inv_entries s'"
proof -
  have "accounted s'" if "accounted s"
  proof -
    from that obtain lost where "outstanding s + lost = mset (to_write s)" "size lost = size (errors_out s)"
      by (auto simp: accounted_def)
    moreover from assms(7) obtain new where
      "outstanding s' + new = outstanding s" "size (errors_out s') = size (errors_out s) + size new"
      by blast
    ultimately show ?thesis
      unfolding accounted_def to_write_cong [OF assms(3,4)]
      by (intro exI [of _ "lost + new"]) (metis add.assoc add.commute size_union)
  qed
  with assms show ?thesis
    by (simp add: inv_entries_def running_def pending_ok_def plan_ok_cong [OF assms(2,3,4)])
qed

lemma inv_entries_worker:
  assumes "inv_entries s" "i < length (g_workers s)"
    "worker_entries w = worker_entries (g_workers s ! i)" "worker_error (g_workers s ! i) = {#}"
    "worker_error w = {#}"
  shows "inv_entries (set_worker i w s)"
  using outstanding_set_worker [OF assms(2), of w] assms(3-5)
  by (intro inv_entries_step [OF assms(1)]) (auto intro!: exI [of _ "{#}"])

lemma inv_entries_lost:
  assumes "inv_entries s" "i < length (g_workers s)"
    "worker_entries (g_workers s ! i) = {#e#}" "worker_error (g_workers s ! i) = {#}"
  shows "inv_entries (set_worker i (W_Send (Inl err)) s)"
  using outstanding_set_worker [OF assms(2), of "W_Send (Inl err)"] assms(3,4)
  by (intro inv_entries_step [OF assms(1)]) (auto intro!: exI [of _ "{#e#}"])

lemma inv_entries_after_acquire:
  assumes "inv_entries s" "i < length (g_workers s)"
    "worker_entries (g_workers s ! i) = {#e#}" "worker_error (g_workers s ! i) = {#}"
  shows "inv_entries (set_worker i (after_acquire e r) s)"
  using assms
  by (cases r) (auto simp: after_acquire_def intro: inv_entries_worker inv_entries_lost)

lemma inv_entries_budget: "inv_entries (s\<lparr>g_budget := b\<rparr>) \<longleftrightarrow> inv_entries s"
  by (simp add: inv_entries_def plan_ok_def pending_ok_def running_def accounted_def outstanding_def
      errors_out_def to_write_def)

text \<open>Once an error is on its way out the pending map is empty and nothing else is asked.\<close>

lemma inv_entries_stopped:
  assumes "plan_ok s'" "g_pending s' = []" "\<not> running s'"
  shows "inv_entries s'"
  using assms by (auto simp: inv_entries_def pending_ok_def running_def)

lemma plan_ok_fail [simp]:
  "plan_ok (fail_with e s) = plan_ok s" "\<not> running (fail_with e s)"
  "plan_ok (releasePending s) = plan_ok s"
  by (simp_all add: plan_ok_def running_def)

lemma plan_ok_abort [simp]:
  "plan_ok (abort_return e s) = plan_ok s" "\<not> running (abort_return e s)"
  by (simp_all add: plan_ok_def running_def)

lemma pending_out: "p \<in> set (g_pending s) \<Longrightarrow> ls_Entry (snd p) \<in># outstanding s"
  using token_subset [of p "g_pending s" pending_entry]
  by (auto simp: outstanding_def pending_entry_def dest: mset_subset_eqD)

lemma inv_entries_recv_loaded:
  assumes inv: "inv_entries s" and pc: "g_pc s = M_Recv" and rs: "g_results s = Inr ld # rs"
  shows "inv_entries (s\<lparr>g_results := rs,
      g_pending := AList.update (pe_Ordinal (ls_Entry ld)) ld (g_pending s), g_pc := M_Flush\<rparr>)"
    and "pe_Ordinal (ls_Entry ld) \<notin> fst ` set (g_pending s)"
proof -
  have acc: "accounted s" and plan: "plan_ok s" and pend: "pending_ok s"
    using inv pc by (auto simp: inv_entries_def running_def)
  show fresh: "pe_Ordinal (ls_Entry ld) \<notin> fst ` set (g_pending s)"
  proof
    assume "pe_Ordinal (ls_Entry ld) \<in> fst ` set (g_pending s)"
    then obtain p where p: "p \<in> set (g_pending s)" "pe_Ordinal (ls_Entry ld) = fst p" by auto
    have "pending_entry p \<subseteq># (\<Sum>p\<leftarrow>g_pending s. pending_entry p)" using p(1) by (rule token_subset)
    then have "{#ls_Entry ld, ls_Entry (snd p)#} \<subseteq># outstanding s"
      by (auto simp: outstanding_def rs pending_entry_def subset_mset.add_increasing)
    from outstanding_ordinal [OF plan acc this] p pend show False by (auto simp: pending_ok_def)
  qed
  let ?s = "s\<lparr>g_results := rs,
      g_pending := AList.update (pe_Ordinal (ls_Entry ld)) ld (g_pending s), g_pc := M_Flush\<rparr>"
  have "outstanding ?s = outstanding s" "errors_out ?s = errors_out s"
    using fresh by (simp_all add: outstanding_def errors_out_def update_fresh rs pending_entry_def ac_simps)
  then have "accounted ?s" using acc by (simp add: accounted_def to_write_def)
  moreover have "pending_ok ?s"
    using pend fresh by (auto simp: pending_ok_def update_fresh)
  ultimately show "inv_entries ?s" using plan by (simp add: inv_entries_def plan_ok_def)
qed

lemma flush_entry:
  assumes inv: "inv_entries s" and pc: "g_pc s = M_Flush"
    and ld: "map_of (g_pending s) (g_next s) = Some ld"
  shows "ls_Entry ld = plan_entry_at (mf_Segments (g_compiled s)) (nat (g_next s))"
    "g_next s < int (length (mf_Segments (g_compiled s)))" "0 \<le> g_next s"
    "pe_Ordinal (ls_Entry ld) = g_next s" "(g_next s, ld) \<in> set (g_pending s)"
    "to_write s = ls_Entry ld # drop 1 (to_write s)"
proof -
  show mem: "(g_next s, ld) \<in> set (g_pending s)" using ld by (rule map_of_SomeD)
  then show ord: "pe_Ordinal (ls_Entry ld) = g_next s"
    using inv by (auto simp: inv_entries_def pending_ok_def)
  have "plan_ok s" "accounted s" "ls_Entry ld \<in># outstanding s"
    using inv pc pending_out [OF mem] by (auto simp: inv_entries_def running_def)
  from outstanding_next [OF this ord]
  show "ls_Entry ld = plan_entry_at (mf_Segments (g_compiled s)) (nat (g_next s))"
    "g_next s < int (length (mf_Segments (g_compiled s)))"
    "to_write s = ls_Entry ld # drop 1 (to_write s)"
    by auto
  show "0 \<le> g_next s" using \<open>plan_ok s\<close> by (auto simp: plan_ok_def)
qed

lemma to_write_Suc:
  assumes "plan_ok s" "g_plan s' = g_plan s" "g_next s' = g_next s + 1"
  shows "to_write s' = drop 1 (to_write s)"
proof -
  have "nat (g_next s + 1 - pl_StartOrdinal (g_plan s)) = Suc (nat (g_next s - pl_StartOrdinal (g_plan s)))"
    using assms(1) by (auto simp: plan_ok_def)
  then show ?thesis unfolding to_write_def assms(2,3) by simp
qed

lemma inv_entries_flush_saved:
  assumes inv: "inv_entries s" and pc: "g_pc s = M_Flush"
    and ld: "map_of (g_pending s) (g_next s) = Some ld"
  shows "inv_entries (s\<lparr>g_writer := w, g_next := g_next s + 1, g_budget := b, g_checkpoints := cps,
      g_pending := AList.delete (pe_Ordinal (ls_Entry ld)) (g_pending s)\<rparr>)" (is "inv_entries ?s")
proof -
  note e = flush_entry [OF assms]
  have plan: "plan_ok s" and acc: "accounted s" and pend: "pending_ok s"
    using inv pc by (auto simp: inv_entries_def running_def)
  have "outstanding s = outstanding ?s + {#ls_Entry ld#}"
    using sum_delete_token [of "g_pending s" "g_next s" ld pending_entry] ld pend e(4)
    by (simp add: outstanding_def pending_ok_def pending_entry_def)
  moreover have "errors_out ?s = errors_out s" by (simp add: errors_out_def)
  moreover have "to_write ?s = drop 1 (to_write s)" using plan by (rule to_write_Suc) auto
  ultimately have "accounted ?s"
    using acc e(6) unfolding accounted_def
    by (metis (no_types, lifting) add_mset_add_single add_right_imp_eq mset.simps(2)
        union_mset_add_mset_left)
  moreover have "pending_ok ?s"
    using pend AList.distinct_delete [of "g_pending s" "pe_Ordinal (ls_Entry ld)"]
    by (auto simp: pending_ok_def dest: subsetD [OF set_delete_subset])
  moreover have "plan_ok ?s" using plan e(2) by (auto simp: plan_ok_def)
  ultimately show ?thesis using pc by (simp add: inv_entries_def)
qed

lemma inv_entries_move:
  assumes "merge_move env k s s'" "inv_entries s"
  shows "inv_entries s'"
  using assms
proof (induction rule: merge_move.induct)
  case (cancel s e)
  then show ?case
    by (intro inv_entries_step [OF cancel]) (auto simp: cancel_ctx_def outstanding_def errors_out_def intro!: exI [of _ "{#}"])
next
  case (dispatch i s e es)
  let ?s = "s\<lparr>g_jobs := es\<rparr>"
  have "outstanding s = outstanding ?s + {#e#}" "errors_out ?s = errors_out s"
    using dispatch by (simp_all add: outstanding_def errors_out_def)
  then show ?case
    using dispatch outstanding_set_worker [of i ?s "W_Enter e"]
    by (intro inv_entries_step [OF dispatch.prems]) (auto intro!: exI [of _ "{#}"])
next
  case (exit i s)
  then show ?case by (auto intro: inv_entries_worker)
next
  case (enter i s e r b)
  then show ?case
    by (intro inv_entries_after_acquire) (auto simp: inv_entries_budget)
next
  case (wake i s e g r b)
  then show ?case
    by (intro inv_entries_after_acquire) (auto simp: inv_entries_budget)
next
  case (give_up i s e g err)
  then show ?case by (intro inv_entries_lost) auto
next
  case (load i s e l r b)
  show ?case
  proof (cases r)
    case (Inl err)
    with load show ?thesis
      by (auto simp: inv_entries_budget intro: inv_entries_lost)
  next
    case (Inr ld)
    with load(3) have "ls_Entry ld = e"
      by (auto simp: Load_held_def split: sum.splits option.splits prod.splits)
    with load Inr show ?thesis
      by (intro inv_entries_worker) (auto simp: inv_entries_budget)
  qed
next
  case (send i s r)
  let ?s = "s\<lparr>g_results := g_results s @ [r]\<rparr>"
  have "outstanding ?s = outstanding s + result_entries r" "errors_out ?s = errors_out s + result_error r"
    by (simp_all add: outstanding_def errors_out_def ac_simps)
  then show ?case
    using send outstanding_set_worker [of i ?s W_Idle]
    by (intro inv_entries_step [OF send.prems]) (auto intro!: exI [of _ "{#}"])
next
  case (recv_error s e rs)
  then show ?case by (intro inv_entries_stopped) (simp_all add: inv_entries_def)
next
  case (recv_loaded s ld rs)
  then show ?case by (intro inv_entries_recv_loaded)
next
  case (recv_incomplete s)
  then show ?case by (intro inv_entries_stopped) (simp_all add: inv_entries_def)
next
  case (recv_complete s)
  then have "pending_ok s" "plan_ok s" by (auto simp: inv_entries_def)
  then show ?case by (simp add: inv_entries_def running_def pending_ok_def plan_ok_def)
next
  case (flush_none s)
  then show ?case
    by (auto simp: inv_entries_def running_def pending_ok_def plan_ok_def accounted_def outstanding_def
        errors_out_def to_write_def)
next
  case (flush_write_error s ld e w)
  then show ?case by (intro inv_entries_stopped) (simp_all add: inv_entries_def)
next
  case (flush_abandoned s e k)
  then show ?case by (intro inv_entries_stopped) (simp_all add: inv_entries_def)
next
  case (flush_saved s ld w s1 cps)
  then show ?case using inv_entries_flush_saved [of s ld] by simp
next
  case (drain_error s e e' rs)
  then show ?case by (auto simp: inv_entries_def running_def pending_ok_def plan_ok_def)
next
  case (drain_loaded s e ld rs)
  then show ?case by (auto simp: inv_entries_def running_def pending_ok_def plan_ok_def)
next
  case (drain_end s e)
  then show ?case by (simp add: inv_entries_def running_def pending_ok_def)
qed (auto simp: inv_entries_def running_def pending_ok_def plan_ok_def commit_step_def index_step_def
    clear_step_def split: prod.splits sum.splits option.splits)


section \<open>After the loop\<close>

text \<open>
  The results channel is only seen closed when everything is written: the branch that reports
  incomplete worker results is never taken.
\<close>

lemma recv_done:
  assumes inv: "inv_entries s" and pc: "g_pc s = M_Recv" and rs: "g_results s = []"
    and closed: "results_closed s"
  shows "g_next s = int (length (mf_Segments (g_compiled s)))" "g_pending s = []"
proof -
  have plan: "plan_ok s" and acc: "accounted s" and pend: "pending_ok s"
    and none: "map_of (g_pending s) (g_next s) = None"
    using inv pc by (auto simp: inv_entries_def running_def)
  have jobs: "g_jobs s = []" and ws: "\<forall>w\<in>set (g_workers s). w = W_Exit"
    using closed by (auto simp: results_closed_def list_all_iff)
  have "(\<Sum>w\<leftarrow>g_workers s. worker_entries w) = {#}" "(\<Sum>w\<leftarrow>g_workers s. worker_error w) = {#}"
    using ws by (auto intro!: sum_list_no_token)
  then have "outstanding s = (\<Sum>p\<leftarrow>g_pending s. pending_entry p)" "errors_out s = {#}"
    by (simp_all add: outstanding_def errors_out_def jobs rs)
  then have eq: "(\<Sum>p\<leftarrow>g_pending s. pending_entry p) = mset (to_write s)"
    using acc by (auto simp: accounted_def)
  show at_end: "g_next s = int (length (mf_Segments (g_compiled s)))"
  proof (rule ccontr)
    assume "g_next s \<noteq> int (length (mf_Segments (g_compiled s)))"
    then have "plan_entry_at (mf_Segments (g_compiled s)) (nat (g_next s)) \<in> set (to_write s)"
      using plan unfolding to_write_eq [OF plan] by (auto simp: plan_ok_def)
    then have "plan_entry_at (mf_Segments (g_compiled s)) (nat (g_next s))
        \<in># (\<Sum>p\<leftarrow>g_pending s. pending_entry p)"
      unfolding eq by simp
    then obtain p where p: "p \<in> set (g_pending s)"
      "ls_Entry (snd p) = plan_entry_at (mf_Segments (g_compiled s)) (nat (g_next s))"
      by (auto simp: in_sum_list_token pending_entry_def)
    then have "fst p = g_next s" using pend plan by (auto simp: pending_ok_def plan_ok_def)
    with p none show False by (metis image_eqI map_of_eq_None_iff)
  qed
  have "to_write s = []" unfolding to_write_eq [OF plan] by (simp add: at_end)
  with eq show "g_pending s = []" by (cases "g_pending s") (auto simp: pending_entry_def)
qed

definition past_loop :: "merge_state \<Rightarrow> bool" where
  "past_loop s \<longleftrightarrow> \<not> running s \<and> (\<forall>e. g_pc s \<noteq> M_Drain e)"

definition publishing :: "merge_state \<Rightarrow> bool" where
  "publishing s \<longleftrightarrow>
     (case g_pc s of M_Commit \<Rightarrow> True | M_Index _ \<Rightarrow> True | M_Clear _ \<Rightarrow> True
        | M_Return (Inr _) \<Rightarrow> True | _ \<Rightarrow> False)"

definition inv_phase :: "merge_state \<Rightarrow> bool" where
  "inv_phase s \<longleftrightarrow>
     (\<not> running s \<longrightarrow> g_pending s = [])
     \<and> (past_loop s \<longrightarrow> g_results s = [] \<and> results_closed s)
     \<and> (publishing s \<longrightarrow> g_next s = int (length (mf_Segments (g_compiled s))))"

lemmas phase_defs = inv_phase_def past_loop_def publishing_def running_def

lemma closed_worker:
  "results_closed s \<Longrightarrow> i < length (g_workers s) \<Longrightarrow> g_workers s ! i = W_Exit"
  by (simp add: results_closed_def list_all_length)

lemma results_closed_cong:
  "g_jobs s' = g_jobs s \<Longrightarrow> g_workers s' = g_workers s \<Longrightarrow> results_closed s' = results_closed s"
  by (simp add: results_closed_def)

lemma inv_phase_worker:
  assumes "inv_phase s" "i < length (g_workers s)" "g_workers s ! i \<noteq> W_Exit"
    "g_pc s' = g_pc s" "g_pending s' = g_pending s" "g_next s' = g_next s" "g_compiled s' = g_compiled s"
  shows "inv_phase s'"
  using assms closed_worker [of s i] by (auto simp: phase_defs)

lemma inv_phase_move:
  assumes "merge_move env k s s'" "inv_entries s" "inv_phase s"
  shows "inv_phase s'"
  using assms
proof (induction rule: merge_move.induct)
  case (recv_complete s)
  then show ?case using recv_done [of s] by (simp add: phase_defs results_closed_def)
next
  case (recv_incomplete s)
  then show ?case using recv_done [of s] by simp
next
  case (commit s)
  then show ?case
    by (auto simp: phase_defs results_closed_def commit_step_def
        split: prod.splits sum.splits option.splits)
next
  case (index s r)
  then show ?case
    by (auto simp: phase_defs results_closed_def index_step_def split: prod.splits option.splits)
next
  case (clear s r)
  then show ?case
    by (auto simp: phase_defs results_closed_def clear_step_def split: prod.splits option.splits)
next
  case (cancel s e)
  then show ?case by (simp add: phase_defs results_closed_def)
qed ((erule inv_phase_worker, assumption, (simp; fail)+) | (auto simp: phase_defs results_closed_def; fail))+

end
