(* ===== verification/MergerBudget.thy ===== *)
theory MergerBudget
  imports MergerEntries
begin

text \<open>
  The leases of a merge. Every budget lease that is out belongs to exactly one place: a worker
  that is loading, a result on its way, or a pending segment. So the budget's bounds hold
  throughout a merge, and a merge that has returned, in whatever way, holds nothing.
\<close>

section \<open>Who holds a lease\<close>

definition ld_leases :: "loaded_segment \<Rightarrow> nat multiset" where
  "ld_leases ld = (case ls_lease ld of None \<Rightarrow> {#} | Some l \<Rightarrow> {#l#})"

fun result_leases :: "load_result \<Rightarrow> nat multiset" where
  "result_leases (Inl _) = {#}"
| "result_leases (Inr ld) = ld_leases ld"

fun worker_leases :: "worker \<Rightarrow> nat multiset" where
  "worker_leases (W_Hold e l) = {#l#}"
| "worker_leases (W_Send r) = result_leases r"
| "worker_leases _ = {#}"

definition held :: "merge_state \<Rightarrow> nat multiset" where
  "held s = (\<Sum>w\<leftarrow>g_workers s. worker_leases w) + (\<Sum>r\<leftarrow>g_results s. result_leases r)
     + (\<Sum>p\<leftarrow>g_pending s. ld_leases (snd p))"

definition inv_budget :: "merge_state \<Rightarrow> bool" where
  "inv_budget s \<longleftrightarrow>
     budget_ok (g_budget s)
     \<and> held s = mset_set (live (g_budget s))
     \<and> (\<forall>e l. W_Hold e l \<in> set (g_workers s) \<longrightarrow>
          bl_resident (bb_leases (g_budget s) ! l) = 0
          \<and> bl_weight (bb_leases (g_budget s) ! l) = pe_MemoryWeight e)
     \<and> (\<forall>e g. W_Wait e g \<in> set (g_workers s) \<longrightarrow>
          1 \<le> sint (pe_MemoryWeight e) \<and> sint (pe_MemoryWeight e) \<le> sint (bb_limit (g_budget s)))"

text \<open>Releases leave the other data of the leases and the limit alone.\<close>

definition same_leases :: "byte_budget \<Rightarrow> byte_budget \<Rightarrow> bool" where
  "same_leases b b' \<longleftrightarrow>
     length (bb_leases b') = length (bb_leases b) \<and> bb_limit b' = bb_limit b
     \<and> bb_peak b' = bb_peak b
     \<and> (\<forall>l. bl_resident (bb_leases b' ! l) = bl_resident (bb_leases b ! l)
          \<and> bl_weight (bb_leases b' ! l) = bl_weight (bb_leases b ! l))"

lemma same_leases_refl [simp]: "same_leases b b"
  by (simp add: same_leases_def)

lemma same_leases_trans: "same_leases a b \<Longrightarrow> same_leases b c \<Longrightarrow> same_leases a c"
  by (simp add: same_leases_def)

lemma same_leases_Release: "same_leases b (snd (Release l b))"
  by (simp add: same_leases_def Release_def Let_def nth_update_same)

lemma release_loaded_ok:
  assumes "budget_ok b" "\<And>l. ls_lease ld = Some l \<Longrightarrow> l < length (bb_leases b)"
  shows "budget_ok (release_loaded ld b)"
    "live (release_loaded ld b) = live b - set_mset (ld_leases ld)"
    "same_leases b (release_loaded ld b)"
proof -
  show "budget_ok (release_loaded ld b)"
    using assms budget_ok_Release [of b] by (auto simp: release_loaded_def split: option.splits)
      (metis prod.collapse)
  show "live (release_loaded ld b) = live b - set_mset (ld_leases ld)"
    using assms(2)
    by (auto simp: release_loaded_def ld_leases_def live_def Release_def Let_def nth_list_update
        split: option.splits if_splits)
  show "same_leases b (release_loaded ld b)"
    by (auto simp: release_loaded_def same_leases_Release split: option.splits)
qed

lemma release_all_ok:
  assumes "budget_ok b" "\<And>p l. p \<in> set ps \<Longrightarrow> ls_lease (snd p) = Some l \<Longrightarrow> l < length (bb_leases b)"
  shows "budget_ok (fold (\<lambda>(o', ld). release_loaded ld) ps b)
    \<and> live (fold (\<lambda>(o', ld). release_loaded ld) ps b) = live b - set_mset (\<Sum>p\<leftarrow>ps. ld_leases (snd p))
    \<and> same_leases b (fold (\<lambda>(o', ld). release_loaded ld) ps b)"
  using assms
proof (induction ps arbitrary: b)
  case (Cons p ps)
  obtain k ld where p: "p = (k, ld)" by fastforce
  let ?b = "release_loaded ld b"
  have b: "budget_ok ?b" "live ?b = live b - set_mset (ld_leases ld)" "same_leases b ?b"
    using release_loaded_ok [of b ld] Cons.prems(1) Cons.prems(2) [of p] p by simp_all
  then have "length (bb_leases ?b) = length (bb_leases b)" by (simp add: same_leases_def)
  then have "budget_ok (fold (\<lambda>(o', ld). release_loaded ld) ps ?b)
    \<and> live (fold (\<lambda>(o', ld). release_loaded ld) ps ?b) = live ?b - set_mset (\<Sum>p\<leftarrow>ps. ld_leases (snd p))
    \<and> same_leases ?b (fold (\<lambda>(o', ld). release_loaded ld) ps ?b)"
    using Cons.prems b by (intro Cons.IH) auto
  with b p show ?case by (auto intro: same_leases_trans)
qed simp


lemma live_empty:
  assumes "budget_ok b" "live b = {}"
  shows "sint (bb_reserved b) = 0" "sint (bb_resident b) = 0"
proof -
  have "bl_released l" if "l \<in> set (bb_leases b)" for l
    using assms(2) that by (auto simp: live_def in_set_conv_nth)
  then have "map held_weight (bb_leases b) = map (\<lambda>_. 0) (bb_leases b)"
    "map held_resident (bb_leases b) = map (\<lambda>_. 0) (bb_leases b)"
    by (simp_all add: held_weight_def held_resident_def)
  with assms(1) show "sint (bb_reserved b) = 0" "sint (bb_resident b) = 0"
    unfolding budget_ok_def by (simp_all add: sum_list_triv)
qed


section \<open>Every move keeps the invariant\<close>

lemma held_live: "inv_budget s \<Longrightarrow> l \<in># held s \<Longrightarrow> l \<in> live (g_budget s)"
  by (simp add: inv_budget_def)

lemma held_lt: "inv_budget s \<Longrightarrow> l \<in># held s \<Longrightarrow> l < length (bb_leases (g_budget s))"
  by (blast dest: held_live live_lt)

lemma pending_held: "p \<in> set (g_pending s) \<Longrightarrow> ls_lease (snd p) = Some l \<Longrightarrow> l \<in># held s"
  using token_subset [of p "g_pending s" "\<lambda>p. ld_leases (snd p)"]
  by (auto simp: held_def ld_leases_def dest: mset_subset_eqD)

lemma held_set_worker:
  assumes "i < length (g_workers s)"
  shows "held (set_worker i w s) + worker_leases (g_workers s ! i) = held s + worker_leases w"
  using sum_list_update_token [OF assms, of worker_leases w]
  by (simp add: held_def ac_simps)

lemma held_worker:
  assumes "i < length (g_workers s)" "l \<in># worker_leases (g_workers s ! i)"
  shows "l \<in># held s"
  using token_subset [of "g_workers s ! i" "g_workers s" worker_leases] assms
  by (auto simp: held_def dest: mset_subset_eqD)

text \<open>
  A worker changes what it does, or a result moves on: the leases held are the same, and the
  workers that hold or wait were there before.
\<close>

lemma inv_budget_moved:
  assumes "inv_budget s" "g_budget s' = g_budget s" "held s' = held s"
    "\<And>e l. W_Hold e l \<in> set (g_workers s') \<Longrightarrow> W_Hold e l \<in> set (g_workers s)"
    "\<And>e g. W_Wait e g \<in> set (g_workers s') \<Longrightarrow> W_Wait e g \<in> set (g_workers s)"
  shows "inv_budget s'"
  unfolding inv_budget_def assms(2,3)
proof (intro conjI allI impI)
  fix e l assume "W_Hold e l \<in> set (g_workers s')"
  then have "W_Hold e l \<in> set (g_workers s)" by (rule assms(4))
  with assms(1) show "bl_resident (bb_leases (g_budget s) ! l) = 0"
    "bl_weight (bb_leases (g_budget s) ! l) = pe_MemoryWeight e"
    by (simp_all add: inv_budget_def)
next
  fix e g assume "W_Wait e g \<in> set (g_workers s')"
  then have "W_Wait e g \<in> set (g_workers s)" by (rule assms(5))
  with assms(1) show "1 \<le> sint (pe_MemoryWeight e)" "sint (pe_MemoryWeight e) \<le> sint (bb_limit (g_budget s))"
    by (auto simp: inv_budget_def)
qed (use assms(1) in \<open>simp_all add: inv_budget_def\<close>)

definition plain_worker :: "worker \<Rightarrow> bool" where
  "plain_worker w \<longleftrightarrow> (\<forall>e l. w \<noteq> W_Hold e l) \<and> (\<forall>e g. w \<noteq> W_Wait e g)"

lemma plain_worker_simps [simp]:
  "plain_worker W_Idle" "plain_worker (W_Enter e)" "plain_worker (W_Send r)" "plain_worker W_Exit"
  by (simp_all add: plain_worker_def)

lemma inv_budget_worker:
  assumes inv: "inv_budget s" and i: "i < length (g_workers s)"
    and b: "g_budget s' = g_budget s" and ws: "g_workers s' = (g_workers s)[i := w]"
    and "plain_worker w" "held s' = held s"
  shows "inv_budget s'"
proof (rule inv_budget_moved [OF inv])
  fix e l assume "W_Hold e l \<in> set (g_workers s')"
  with set_update_subset_insert [of "g_workers s" i w] ws assms(5)
  show "W_Hold e l \<in> set (g_workers s)" by (auto simp: plain_worker_def)
next
  fix e g assume "W_Wait e g \<in> set (g_workers s')"
  with set_update_subset_insert [of "g_workers s" i w] ws assms(5)
  show "W_Wait e g \<in> set (g_workers s)" by (auto simp: plain_worker_def)
qed (use assms in simp_all)

lemma inv_budget_cong:
  assumes "inv_budget s" "g_workers s' = g_workers s" "g_budget s' = g_budget s" "held s' = held s"
  shows "inv_budget s'"
  using assms by (intro inv_budget_moved [OF assms(1)]) simp_all

lemma inv_budget_acquire:
  assumes inv: "inv_budget s" and i: "i < length (g_workers s)"
    and no: "worker_leases (g_workers s ! i) = {#}"
    and w: "1 \<le> sint (pe_MemoryWeight e)" "sint (pe_MemoryWeight e) \<le> sint (bb_limit (g_budget s))"
    and acq: "Acquire_loop (pe_MemoryWeight e) (g_budget s) = (r, b)"
  shows "inv_budget (set_worker i (after_acquire e r) (s\<lparr>g_budget := b\<rparr>))"
proof -
  let ?b = "g_budget s" and ?s = "set_worker i (after_acquire e r) (s\<lparr>g_budget := b\<rparr>)"
  have ok: "budget_ok b"
    using inv budget_ok_Acquire_loop [OF _ w acq] by (simp add: inv_budget_def)
  have limit: "bb_limit b = bb_limit ?b"
    using acq by (auto simp: Acquire_loop_def split: if_splits)
  have new: "w' = after_acquire e r \<or> w' \<in> set (g_workers s)" if "w' \<in> set (g_workers ?s)" for w'
    using in_set_worker [OF that] by simp
  have held: "held ?s = held s + worker_leases (after_acquire e r)"
    using held_set_worker [of i "s\<lparr>g_budget := b\<rparr>" "after_acquire e r"] i no by (simp add: held_def)
  have old: "l < length (bb_leases ?b)" if "W_Hold e' l \<in> set (g_workers s)" for e' l
  proof -
    from that obtain j where "j < length (g_workers s)" "g_workers s ! j = W_Hold e' l"
      by (auto simp: in_set_conv_nth)
    with inv show ?thesis by (intro held_lt [OF inv] held_worker [of j]) auto
  qed
  from acq show ?thesis
  proof (cases rule: Acquire_loop_cases)
    case 1
    have "held ?s = mset_set (live b)"
      using held 1 inv by (simp add: after_acquire_def inv_budget_def)
    moreover have "bl_resident (bb_leases b ! l) = 0 \<and> bl_weight (bb_leases b ! l) = pe_MemoryWeight e'"
      if "W_Hold e' l \<in> set (g_workers ?s)" for e' l
      using new [OF that] 1 inv old
      by (auto simp: inv_budget_def markable_def after_acquire_def)
    moreover have "1 \<le> sint (pe_MemoryWeight e') \<and> sint (pe_MemoryWeight e') \<le> sint (bb_limit b)"
      if "W_Wait e' g \<in> set (g_workers ?s)" for e' g
      using new [OF that] 1 inv by (auto simp: inv_budget_def after_acquire_def)
    ultimately show ?thesis using ok inv by (simp add: inv_budget_def)
  next
    case 2
    have "held ?s = mset_set (live b)"
      using held 2 inv by (simp add: after_acquire_def inv_budget_def)
    moreover have "bl_resident (bb_leases b ! l) = 0 \<and> bl_weight (bb_leases b ! l) = pe_MemoryWeight e'"
      if "W_Hold e' l \<in> set (g_workers ?s)" for e' l
      using new [OF that] 2 inv by (auto simp: inv_budget_def after_acquire_def)
    moreover have "1 \<le> sint (pe_MemoryWeight e') \<and> sint (pe_MemoryWeight e') \<le> sint (bb_limit b)"
      if "W_Wait e' g \<in> set (g_workers ?s)" for e' g
      using new [OF that] 2 inv w by (auto simp: inv_budget_def after_acquire_def)
    ultimately show ?thesis using ok inv by (simp add: inv_budget_def)
  qed
qed

text \<open>Segments are given back: by the inner loop, after an error, while draining.\<close>

lemma inv_budget_release_all:
  assumes inv: "inv_budget s" and w: "g_workers s' = g_workers s"
    and b: "g_budget s' = fold (\<lambda>(o', ld). release_loaded ld) ps (g_budget s)"
    and M: "set_mset (\<Sum>p\<leftarrow>ps. ld_leases (snd p)) = set_mset M" and h: "held s = M + held s'"
  shows "inv_budget s'"
proof -
  have lt: "l < length (bb_leases (g_budget s))" if "p \<in> set ps" "ls_lease (snd p) = Some l" for p l
  proof -
    have "l \<in># (\<Sum>p\<leftarrow>ps. ld_leases (snd p))"
      using token_subset [of p ps "\<lambda>p. ld_leases (snd p)"] that
      by (auto simp: ld_leases_def dest: mset_subset_eqD)
    with M h show ?thesis by (intro held_lt [OF inv]) simp
  qed
  have ok: "budget_ok (g_budget s')" "live (g_budget s') = live (g_budget s) - set_mset M"
    "same_leases (g_budget s) (g_budget s')"
    using release_all_ok [of "g_budget s" ps] inv lt unfolding b M by (auto simp: inv_budget_def)
  have "M \<subseteq># mset_set (live (g_budget s))"
    using inv h by (metis inv_budget_def mset_subset_eq_add_left)
  then have "mset_set (live (g_budget s)) - M = mset_set (live (g_budget s'))"
    unfolding ok(2) by (intro mset_set_minus) simp_all
  then have "held s' = mset_set (live (g_budget s'))"
    using inv h by (metis add_diff_cancel_left' inv_budget_def)
  with inv ok show ?thesis by (simp add: inv_budget_def w same_leases_def)
qed

text \<open>
  A segment that could not be written or recorded is given back, and then again with the
  pending segments, where it still is: the second release does nothing.
\<close>

lemma inv_budget_flush_failed:
  assumes inv: "inv_budget s" and ld: "(k, ld) \<in> set (g_pending s)"
    and s': "g_workers s' = g_workers s" "g_results s' = g_results s" "g_pending s' = []"
    and b: "g_budget s' =
      fold (\<lambda>(o', ld). release_loaded ld) (g_pending s) (release_loaded ld (g_budget s))"
  shows "inv_budget s'"
proof (rule inv_budget_release_all [OF inv s'(1), of "(k, ld) # g_pending s"])
  show "held s = (\<Sum>p\<leftarrow>g_pending s. ld_leases (snd p)) + held s'"
    using s' by (simp add: held_def ac_simps)
  show "set_mset (\<Sum>p\<leftarrow>(k, ld) # g_pending s. ld_leases (snd p))
      = set_mset (\<Sum>p\<leftarrow>g_pending s. ld_leases (snd p))"
    using token_subset [OF ld, of "\<lambda>p. ld_leases (snd p)"] by (auto dest: mset_subset_eqD)
qed (simp add: b)

lemma inv_budget_release:
  assumes "inv_budget s" "g_workers s' = g_workers s" "g_budget s' = release_loaded ld (g_budget s)"
    "held s = ld_leases ld + held s'"
  shows "inv_budget s'"
  using assms by (intro inv_budget_release_all [of s s' "[(0, ld)]" "ld_leases ld"]) simp_all

lemma inv_budget_releasePending: "inv_budget s \<Longrightarrow> inv_budget (releasePending s)"
  by (rule inv_budget_release_all [where M = "\<Sum>p\<leftarrow>g_pending s. ld_leases (snd p)"])
    (auto simp: releasePending_def held_def ac_simps)

lemma inv_budget_abort: "inv_budget s \<Longrightarrow> inv_budget (abort_return e s)"
  by (rule inv_budget_cong [of s]) (simp_all add: abort_return_def held_def split: prod.split)

lemma inv_budget_fail: "inv_budget s \<Longrightarrow> inv_budget (fail_with e s)"
  by (rule inv_budget_cong [OF inv_budget_releasePending [of "cancel_workers s"]])
    (auto simp: fail_with_def cancel_workers_def inv_budget_def held_def)

lemma hold_distinct:
  assumes inv: "inv_budget s" and i: "i < length (g_workers s)" "g_workers s ! i = W_Hold e l"
    and j: "j < length (g_workers s)" "g_workers s ! j = W_Hold e' l'" "j \<noteq> i"
  shows "l' \<noteq> l"
proof
  assume "l' = l"
  have "worker_leases (g_workers s ! i) + worker_leases (g_workers s ! j)
      \<subseteq># (\<Sum>w\<leftarrow>g_workers s. worker_leases w)"
    using i j by (intro token_twice) auto
  then have "{#l, l#} \<subseteq># held s"
    using i j \<open>l' = l\<close> by (simp add: held_def subset_mset.add_increasing2)
  then have "{#l, l#} \<subseteq># mset_set (live (g_budget s))" using inv by (simp add: inv_budget_def)
  then show False
    by (auto dest!: mset_subset_eq_count [where a = l] simp: count_mset_set' split: if_splits)
qed

lemma set_update_other:
  assumes "x \<in> set (xs[i := y])" "x \<noteq> y"
  shows "\<exists>j<length xs. j \<noteq> i \<and> xs ! j = x"
proof -
  from assms(1) obtain j where j: "j < length xs" "xs[i := y] ! j = x" by (auto simp: in_set_conv_nth)
  with assms(2) have "j \<noteq> i" by auto
  with j show ?thesis by (intro exI [of _ j]) simp
qed

lemma inv_budget_load:
  assumes inv: "inv_budget s" and i: "i < length (g_workers s)" "g_workers s ! i = W_Hold e l"
    and load: "Load_held g src cx e l (g_budget s) = (r, b)"
  shows "inv_budget (set_worker i (W_Send r) (s\<lparr>g_budget := b\<rparr>))" (is "inv_budget ?s")
proof -
  note others = Load_held_others [OF load]
  have l: "l \<in># held s" using held_worker [of i s l] i by simp
  then have live: "l \<in> live (g_budget s)" by (rule held_live [OF inv])
  have hold: "W_Hold e l \<in> set (g_workers s)" using i by (metis nth_mem)
  then have mark: "markable (g_budget s) l"
    using live inv by (auto simp: markable_def live_def inv_budget_def)
  have ok: "budget_ok (g_budget s)" using inv by (simp add: inv_budget_def)
  have held: "held ?s + {#l#} = held s + result_leases r"
    using held_set_worker [of i "s\<lparr>g_budget := b\<rparr>" "W_Send r"] i by (simp add: held_def)
  from ok mark load have "budget_ok b \<and> held ?s = mset_set (live b)"
  proof (cases rule: Load_held_cases)
    case (failed err)
    have "mset_set (live b) = mset_set (live (g_budget s)) - {#l#}"
      using live failed(2) by (simp add: mset_set_Diff)
    with failed held inv show ?thesis
      by (simp add: inv_budget_def) (metis add_mset_remove_trivial)
  next
    case (loaded d)
    with held inv show ?thesis by (simp add: inv_budget_def ld_leases_def)
  qed
  moreover have "bl_resident (bb_leases b ! k) = 0 \<and> bl_weight (bb_leases b ! k) = pe_MemoryWeight e'"
    if "W_Hold e' k \<in> set (g_workers ?s)" for e' k
  proof -
    from that obtain j where j: "j < length (g_workers s)" "j \<noteq> i" "g_workers s ! j = W_Hold e' k"
      using set_update_other [of "W_Hold e' k" "g_workers s" i "W_Send r"] by auto
    then have "k \<noteq> l" using hold_distinct [OF inv i, of j] by simp
    moreover have "W_Hold e' k \<in> set (g_workers s)" using j by (metis nth_mem)
    ultimately show ?thesis using others(3) inv by (simp add: inv_budget_def)
  qed
  moreover have "1 \<le> sint (pe_MemoryWeight e') \<and> sint (pe_MemoryWeight e') \<le> sint (bb_limit b)"
    if "W_Wait e' g' \<in> set (g_workers ?s)" for e' g'
    using in_set_worker [OF that] inv others(2) by (auto simp: inv_budget_def)
  ultimately show ?thesis unfolding inv_budget_def by simp
qed

text \<open>Sending and receiving only move a lease from one place to the next.\<close>

lemma inv_budget_send:
  assumes "inv_budget s" "i < length (g_workers s)" "g_workers s ! i = W_Send r"
  shows "inv_budget (set_worker i W_Idle (s\<lparr>g_results := g_results s @ [r]\<rparr>))"
  using held_set_worker [of i "s\<lparr>g_results := g_results s @ [r]\<rparr>" W_Idle] assms
  by (intro inv_budget_worker [OF assms(1,2), where w = W_Idle]) (simp_all add: held_def ac_simps)

lemma inv_budget_job:
  assumes "inv_budget s" "i < length (g_workers s)" "worker_leases (g_workers s ! i) = {#}"
    "worker_leases w = {#}" "plain_worker w" "g_workers s' = (g_workers s)[i := w]"
    "g_budget s' = g_budget s" "g_results s' = g_results s" "g_pending s' = g_pending s"
  shows "inv_budget s'"
  using held_set_worker [of i s w] assms
  by (intro inv_budget_worker [OF assms(1,2), where w = w]) (simp_all add: held_def)

lemma inv_budget_recv:
  assumes "inv_budget s" "inv_entries s" "g_pc s = M_Recv" "g_results s = Inr ld # rs"
  shows "inv_budget (s\<lparr>g_results := rs,
      g_pending := AList.update (pe_Ordinal (ls_Entry ld)) ld (g_pending s), g_pc := M_Flush\<rparr>)"
  using inv_entries_recv_loaded(2) [OF assms(2-4)] assms
  by (intro inv_budget_cong [OF assms(1)]) (simp_all add: held_def update_fresh ac_simps)

lemma inv_budget_flush:
  assumes "inv_budget s" "inv_entries s" "g_pc s = M_Flush" "map_of (g_pending s) (g_next s) = Some ld"
  shows "inv_budget (s\<lparr>g_writer := w, g_next := g_next s + 1,
      g_budget := release_loaded ld (g_budget s), g_checkpoints := cps,
      g_pending := AList.delete (pe_Ordinal (ls_Entry ld)) (g_pending s)\<rparr>)"
  using assms flush_entry(4) [OF assms(2-4)]
    sum_delete_token [of "g_pending s" "g_next s" ld "\<lambda>p. ld_leases (snd p)", symmetric]
  by (intro inv_budget_release [OF assms(1)])
    (simp_all add: held_def inv_entries_def pending_ok_def)


lemma inv_budget_move:
  assumes "merge_move env k s s'" "inv_entries s" "inv_budget s"
  shows "inv_budget s'"
  using assms
proof (induction rule: merge_move.induct)
  case (cancel s e)
  then show ?case by (intro inv_budget_cong [OF cancel(2)]) (auto simp: cancel_ctx_def held_def)
next
  case (dispatch i s e es)
  then show ?case by - (rule inv_budget_job [of s i "W_Enter e"], simp_all)
next
  case (exit i s)
  then show ?case by - (rule inv_budget_job [of s i W_Exit], simp_all)
next
  case (enter i s e r b)
  show ?case
  proof (cases "sint (pe_MemoryWeight e) < 1 \<or> sint (pe_MemoryWeight e) > sint (bb_limit (g_budget s))")
    case True
    with enter show ?thesis
      by - (rule inv_budget_job [of s i "after_acquire e r"], auto simp: Acquire_def after_acquire_def)
  next
    case False
    with enter show ?thesis by (intro inv_budget_acquire) (auto simp: Acquire_def)
  qed
next
  case (wake i s e g r b)
  then have "W_Wait e g \<in> set (g_workers s)" by (metis nth_mem)
  with wake show ?case by (intro inv_budget_acquire) (auto simp: inv_budget_def)
next
  case (give_up i s e g err)
  then show ?case by - (rule inv_budget_job [of s i "W_Send (Inl (CtxErr err))"], simp_all)
next
  case (load i s e l r b)
  then show ?case by (intro inv_budget_load)
next
  case (send i s r)
  then show ?case by (intro inv_budget_send)
next
  case (recv_error s e rs)
  then show ?case
    by (intro inv_budget_fail inv_budget_cong [OF recv_error.prems(2)]) (simp_all add: held_def)
next
  case (recv_loaded s ld rs)
  then show ?case by (intro inv_budget_recv)
next
  case (recv_incomplete s)
  then show ?case by (intro inv_budget_abort inv_budget_releasePending)
next
  case (flush_write_error s ld e w)
  then show ?case
    using flush_entry(5) [of s ld]
    by - (rule inv_budget_flush_failed [of s "g_next s" ld],
      simp_all add: fail_with_def releasePending_def cancel_workers_def)
next
  case (flush_abandoned s e k)
  then show ?case
    by (intro inv_budget_fail inv_budget_cong [OF flush_abandoned.prems(2)]) (simp_all add: held_def)
next
  case (flush_saved s ld w s1 cps)
  then show ?case using inv_budget_flush [of s ld cps w] by simp
next
  case (drain_error s e e' rs)
  then show ?case by (intro inv_budget_cong [OF drain_error.prems(2)]) (simp_all add: held_def)
next
  case (drain_loaded s e ld rs)
  then show ?case
    by (intro inv_budget_release [OF drain_loaded.prems(2)]) (simp_all add: held_def ac_simps)
next
  case (drain_end s e)
  then show ?case by (intro inv_budget_abort)
qed (auto intro: inv_budget_cong simp: held_def commit_step_def index_step_def clear_step_def
    split: prod.splits sum.splits option.splits)

end
