(* ===== verification/MergerOutput.thy ===== *)
theory MergerOutput
  imports MergerEntries
begin

text \<open>
  What a merge writes. A merge may be stopped at any point of its loop and started again from
  the checkpoint and the draft it left; \<open>merge_history\<close> is any number of such runs. The
  invariant says which part of the file the draft holds at every moment, and what the draft,
  the outputs, the index and the checkpoint are once the merge has returned.
\<close>

section \<open>The file so far\<close>

text \<open>The bytes of a file that belong to a segment.\<close>

definition seg_slice :: "segment \<Rightarrow> bytes \<Rightarrow> bytes" where
  "seg_slice s d = take (nat (sint (seg_LogicalSize s))) (drop (nat (sint (seg_Offset s))) d)"

definition inside :: "segment \<Rightarrow> nat \<Rightarrow> bool" where
  "inside s p \<longleftrightarrow> seg_start s \<le> int p \<and> int p < seg_end s"

text \<open>
  The first \<open>k\<close> segments are there, each with verified bytes; the rest of the file is zero.
\<close>

definition written_ok :: "merge_env \<Rightarrow> manifest \<Rightarrow> nat \<Rightarrow> bytes \<Rightarrow> bool" where
  "written_ok env c k d \<longleftrightarrow>
     int (length d) = sint (mf_TotalSize c)
     \<and> (\<forall>i<k. loads (en_gunzip env) (en_source env) (mf_Segments c ! i) (seg_slice (mf_Segments c ! i) d))
     \<and> (\<forall>p<length d. (\<forall>i<k. \<not> inside (mf_Segments c ! i) p) \<longrightarrow> d ! p = 0)"

lemma written_ok_zero:
  "0 \<le> sint (mf_TotalSize c) \<Longrightarrow> written_ok env c 0 (replicate (nat (sint (mf_TotalSize c))) 0)"
  by (simp add: written_ok_def)

lemma seg_slice_nth:
  assumes "seg_ok tot s" "int (length d) = sint tot" "k < nat (sint (seg_LogicalSize s))"
  shows "seg_slice s d ! k = d ! (nat (sint (seg_Offset s)) + k)"
  using assms seg_ok_sizes [OF assms(1)] by (simp add: seg_slice_def)

lemma length_seg_slice:
  assumes "seg_ok tot s" "int (length d) = sint tot"
  shows "length (seg_slice s d) = nat (sint (seg_LogicalSize s))"
  using assms(2) seg_ok_sizes [OF assms(1)] by (simp add: seg_slice_def)

lemma seg_slice_eqI:
  assumes "seg_ok tot s" "int (length d) = sint tot" "int (length d') = sint tot"
    "\<And>p. p < length d \<Longrightarrow> inside s p \<Longrightarrow> d ! p = d' ! p"
  shows "seg_slice s d = seg_slice s d'"
proof (rule nth_equalityI)
  show "length (seg_slice s d) = length (seg_slice s d')" using assms by (simp add: length_seg_slice)
  fix k assume "k < length (seg_slice s d)"
  then have k: "k < nat (sint (seg_LogicalSize s))" using assms by (simp add: length_seg_slice)
  have "inside s (nat (sint (seg_Offset s)) + k)" "nat (sint (seg_Offset s)) + k < length d"
    using k seg_ok_sizes [OF assms(1)] assms(2) by (auto simp: inside_def seg_start_def seg_end_def)
  then show "seg_slice s d ! k = seg_slice s d' ! k"
    using assms k by (simp add: seg_slice_nth)
qed

lemma seg_slice_splice:
  assumes "seg_ok tot s" "int (length d) = sint tot" "int (length b) = sint (seg_LogicalSize s)"
  shows "seg_slice s (splice (nat (sint (seg_Offset s))) b d) = b"
proof -
  have "nat (sint (seg_LogicalSize s)) = length b" "nat (sint (seg_Offset s)) \<le> length d"
    using assms seg_ok_sizes [OF assms(1)] by linarith+
  then show ?thesis by (simp add: seg_slice_def splice_def)
qed

text \<open>Writing a segment into its range: the next one, or one that is there already, again.\<close>

lemma written_ok_write:
  assumes c: "CompileManifest c = Inr c" and k: "k < length (mf_Segments c)"
    and d: "written_ok env c j d" and j: "k \<le> j" "j \<le> length (mf_Segments c)"
    and b: "loads (en_gunzip env) (en_source env) (mf_Segments c ! k) b"
  shows "written_ok env c (max j (Suc k)) (splice (nat (sint (seg_Offset (mf_Segments c ! k)))) b d)"
proof -
  let ?s = "mf_Segments c ! k" and ?off = "nat (sint (seg_Offset (mf_Segments c ! k)))"
  let ?d = "splice ?off b d"
  have ok: "seg_ok (mf_TotalSize c) (mf_Segments c ! i)" if "i < length (mf_Segments c)" for i
    using compiled_layout(6) [OF c] that by (simp add: list_all_length)
  note sz = seg_ok_sizes [OF ok [OF k]]
  have len: "int (length d) = sint (mf_TotalSize c)" using d by (simp add: written_ok_def)
  have lb: "int (length b) = sint (seg_LogicalSize ?s)" using loads_verified(1) [OF b] .
  have fits: "?off + length b \<le> length d" using len lb sz by linarith
  have len': "int (length ?d) = sint (mf_TotalSize c)" using len fits by simp
  have in_b: "inside ?s p \<longleftrightarrow> ?off \<le> p \<and> p < ?off + length b" for p
    using lb sz by (auto simp: inside_def seg_start_def seg_end_def)
  have outside: "?d ! p = d ! p" if "p < length d" "\<not> inside ?s p" for p
    using that fits by (auto simp: splice_nth in_b)
  have apart: "\<not> inside ?s p" if "i \<noteq> k" "i < length (mf_Segments c)" "inside (mf_Segments c ! i) p" for i p
  proof -
    have "seg_end (mf_Segments c ! i) \<le> seg_start ?s \<or> seg_end ?s \<le> seg_start (mf_Segments c ! i)"
      using compiled_layout(2) [OF c] k that(1,2) by (auto simp: in_order_def sorted_wrt_iff_nth_less neq_iff)
    with that(3) show ?thesis by (auto simp: inside_def)
  qed
  have "loads (en_gunzip env) (en_source env) (mf_Segments c ! i) (seg_slice (mf_Segments c ! i) ?d)"
    if "i < max j (Suc k)" for i
  proof (cases "i = k")
    case True
    with b show ?thesis using seg_slice_splice [OF ok [OF k] len lb] by simp
  next
    case False
    with that j k have i: "i < j" "i < length (mf_Segments c)" by auto
    have "seg_slice (mf_Segments c ! i) ?d = seg_slice (mf_Segments c ! i) d"
      using apart [OF False i(2)] fits by (intro seg_slice_eqI [OF ok [OF i(2)] len' len] outside) auto
    with d i show ?thesis by (simp add: written_ok_def)
  qed
  moreover have "?d ! p = 0" if "p < length ?d" "\<forall>i<max j (Suc k). \<not> inside (mf_Segments c ! i) p" for p
    using that outside [of p] fits d by (auto simp: written_ok_def)
  ultimately show ?thesis using len' by (simp add: written_ok_def)
qed


section \<open>Results on their way\<close>

text \<open>
  The errors a merge can fail with. It never fails because of its own session: a write is
  refused only for a context that was cancelled.
\<close>

definition merge_error :: "sm_error \<Rightarrow> bool" where
  "merge_error e \<longleftrightarrow>
     (\<forall>f. e \<noteq> ErrWriterState f) \<and> (\<forall>i e'. e = WriteSegment i e' \<longrightarrow> (\<exists>cx. e' = CtxErr cx))"

definition result_ok :: "merge_env \<Rightarrow> load_result \<Rightarrow> bool" where
  "result_ok env r =
     (case r of
        Inl e \<Rightarrow> merge_error e
      | Inr ld \<Rightarrow> loads (en_gunzip env) (en_source env) (pe_Segment (ls_Entry ld)) (ls_Data ld))"

definition results_out :: "merge_state \<Rightarrow> load_result set" where
  "results_out s =
     {r. W_Send r \<in> set (g_workers s)} \<union> set (g_results s) \<union> Inr ` snd ` set (g_pending s)"

definition inv_data :: "merge_env \<Rightarrow> merge_state \<Rightarrow> bool" where
  "inv_data env s \<longleftrightarrow> (\<forall>r\<in>results_out s. result_ok env r)"

lemma merge_error_simps [simp]:
  "merge_error (CtxErr cx)" "merge_error (ErrBudgetExceeded b)" "merge_error (OpenSegment i e)"
  "merge_error (ReadSegment i e)" "merge_error (CloseSegment i e)" "merge_error (DecodeSegment i f)"
  "merge_error (ErrSegmentIntegrity g)" "merge_error (WriteSegment i (CtxErr cx))"
  by (simp_all add: merge_error_def)

lemma Load_held_result_ok:
  assumes "Load_held (en_gunzip env) (en_source env) cx e l b = (r, b')"
  shows "result_ok env r"
proof (cases "load_data (en_gunzip env) (en_source env) cx (pe_Segment e)")
  case (Inl err)
  then have "merge_error err"
    by (auto simp: load_data_def decode_stored_def verifyLogicalSegment_def
        split: sum.splits option.splits if_splits)
  with Inl assms show ?thesis by (auto simp: Load_held_def result_ok_def)
next
  case (Inr d)
  with assms show ?thesis
    by (auto simp: Load_held_def result_ok_def loads_def MarkResident_def Let_def
        split: option.splits if_splits)
qed

lemma Acquire_result_ok:
  "Acquire w b = (AcqError err, b') \<Longrightarrow> merge_error err"
  "Acquire_loop w b = (AcqError err, b') \<Longrightarrow> merge_error err"
  by (auto simp: Acquire_def Acquire_loop_def split: if_splits)

lemma inv_data_mono: "inv_data env s \<Longrightarrow> results_out s' \<subseteq> results_out s \<Longrightarrow> inv_data env s'"
  by (auto simp: inv_data_def)

lemma inv_data_add:
  "inv_data env s \<Longrightarrow> results_out s' \<subseteq> insert r (results_out s) \<Longrightarrow> result_ok env r \<Longrightarrow>
   inv_data env s'"
  by (auto simp: inv_data_def)

lemma results_out_worker: "results_out (set_worker i (W_Send r) s) \<subseteq> insert r (results_out s)"
  using in_set_worker [of _ i "W_Send r" s] by (auto simp: results_out_def)

lemma results_out_plain:
  assumes "\<And>r. w \<noteq> W_Send r" "g_workers s' = (g_workers s)[i := w]" "g_results s' = g_results s"
    "g_pending s' = g_pending s"
  shows "results_out s' \<subseteq> results_out s"
proof -
  have "W_Send r \<in> set (g_workers s)" if "W_Send r \<in> set (g_workers s')" for r
    using that assms(1,2) set_update_subset_insert [of "g_workers s" i w] by auto
  then show ?thesis using assms(3,4) by (auto simp: results_out_def)
qed

lemma inv_data_after_acquire:
  assumes "inv_data env s" "\<And>err. r = AcqError err \<Longrightarrow> merge_error err"
  shows "inv_data env (set_worker i (after_acquire e r) (s\<lparr>g_budget := b\<rparr>))"
proof (cases r)
  case (AcqError err)
  with assms show ?thesis
    using results_out_worker [of i "Inl err" "s\<lparr>g_budget := b\<rparr>"]
    by (intro inv_data_add [OF assms(1), of _ "Inl err"])
      (auto simp: after_acquire_def result_ok_def results_out_def)
next
  case (AcqLease l)
  then show ?thesis
    by (intro inv_data_mono [OF assms(1)] results_out_plain [of "W_Hold e l"]) (auto simp: after_acquire_def)
next
  case (AcqWait g)
  then show ?thesis
    by (intro inv_data_mono [OF assms(1)] results_out_plain [of "W_Wait e g"]) (auto simp: after_acquire_def)
qed

lemma inv_data_main:
  "inv_data env s \<Longrightarrow> g_workers s' = g_workers s \<Longrightarrow> set (g_results s') \<subseteq> set (g_results s) \<Longrightarrow>
   set (g_pending s') \<subseteq> set (g_pending s) \<Longrightarrow> inv_data env s'"
  by (rule inv_data_mono) (auto simp: results_out_def)

lemma set_alist_update: "set (AList.update k v al) \<subseteq> insert (k, v) (set al)"
  by (induction al) auto

lemma inv_data_move:
  assumes "merge_move env k s s'" "inv_data env s"
  shows "inv_data env s'"
  using assms
proof (induction rule: merge_move.induct)
  case (enter i s e r b)
  then show ?case by (intro inv_data_after_acquire) (auto dest: Acquire_result_ok)
next
  case (wake i s e g r b)
  then show ?case by (intro inv_data_after_acquire) (auto dest: Acquire_result_ok)
next
  case (give_up i s e g err)
  then show ?case by (intro inv_data_add [OF _ results_out_worker]) (auto simp: result_ok_def)
next
  case (load i s e l r b)
  have "inv_data env (s\<lparr>g_budget := b\<rparr>)" using load.prems by (simp add: inv_data_def results_out_def)
  with load(3) show ?case by (intro inv_data_add [OF _ results_out_worker] Load_held_result_ok)
next
  case (send i s r)
  then have "W_Send r \<in> set (g_workers s)" by (metis nth_mem)
  then have "results_out (set_worker i W_Idle (s\<lparr>g_results := g_results s @ [r]\<rparr>)) \<subseteq> results_out s"
    using in_set_worker [of _ i W_Idle "s\<lparr>g_results := g_results s @ [r]\<rparr>"]
    by (auto simp: results_out_def)
  then show ?case by (rule inv_data_mono [OF send.prems])
next
  case (recv_loaded s ld rs)
  then show ?case
    using set_alist_update [of "pe_Ordinal (ls_Entry ld)" ld "g_pending s"]
    by (intro inv_data_mono [OF recv_loaded.prems]) (force simp: results_out_def)
next
  case (flush_abandoned s e k)
  then show ?case by (intro inv_data_main [OF flush_abandoned.prems]) simp_all
next
  case (flush_saved s ld w s1 cps)
  then show ?case
    using set_delete_subset [of "pe_Ordinal (ls_Entry ld)" "g_pending s"]
    by (intro inv_data_main [OF flush_saved.prems]) auto
next
  case (dispatch i s e es)
  then show ?case
    by (intro inv_data_mono [OF dispatch.prems] results_out_plain [of "W_Enter e"]) auto
next
  case (exit i s)
  then show ?case
    by (intro inv_data_mono [OF exit.prems] results_out_plain [of W_Exit]) auto
qed (auto elim!: inv_data_main)


section \<open>The draft, the outputs, the index and the checkpoint\<close>

text \<open>
  While the loop runs: the session is open on a draft of this file, the first \<open>next\<close>
  segments are in it, and the checkpoint of the file says so. More segments are in it where an
  earlier run stopped between the append of a segment and the save of the checkpoint.
\<close>

definition draft_live :: "merge_env \<Rightarrow> merge_state \<Rightarrow> bool" where
  "draft_live env s \<longleftrightarrow>
     session_live (g_session s) (g_writer s)
     \<and> md_fileID (mw_heap (g_writer s) ! ss_draft (g_session s)) = mf_FileID (g_compiled s)
     \<and> md_version (mw_heap (g_writer s) ! ss_draft (g_session s)) = mf_Version (g_compiled s)
     \<and> (\<exists>j. nat (g_next s) \<le> j \<and> j \<le> length (mf_Segments (g_compiled s))
          \<and> written_ok env (g_compiled s) j (draft_data (g_session s) (g_writer s)))"

definition saved_point :: "merge_state \<Rightarrow> checkpoint option" where
  "saved_point s =
     (if g_next s = 0 then None
      else Some \<lparr>cp_FileID = mf_FileID (g_compiled s), cp_Version = mf_Version (g_compiled s),
                 cp_SessionID = ss_id (g_session s), cp_NextOrdinal = g_next s,
                 cp_OutputSize = (let e = mf_Segments (g_compiled s) ! nat (g_next s - 1)
                                  in seg_Offset e + seg_LogicalSize e)\<rparr>)"

definition saved :: "checkpoints \<Rightarrow> merge_state \<Rightarrow> bool" where
  "saved cps s \<longleftrightarrow> g_checkpoints s = cps(mf_FileID (g_compiled s) := saved_point s)"

definition untouched :: "memory_writer \<Rightarrow> merge_state \<Rightarrow> bool" where
  "untouched w s \<longleftrightarrow> mw_outputs (g_writer s) = mw_outputs w \<and> mw_data (g_writer s) = mw_data w"

text \<open>The file is out, complete, with the receipt \<open>r\<close>; its draft is gone.\<close>

definition published :: "merge_env \<Rightarrow> memory_writer \<Rightarrow> commit_receipt \<Rightarrow> merge_state \<Rightarrow> bool" where
  "published env w r s \<longleftrightarrow>
     (\<exists>d. written_ok env (g_compiled s) (length (mf_Segments (g_compiled s))) d
        \<and> r = \<lparr>rc_FileID = mf_FileID (g_compiled s), rc_Version = mf_Version (g_compiled s),
               rc_Size = mf_TotalSize (g_compiled s), rc_Digest = Digest d\<rparr>
        \<and> mw_outputs (g_writer s) = (mw_outputs w)(mf_FileID (g_compiled s) \<mapsto> r)
        \<and> mw_data (g_writer s) = (mw_data w)(mf_FileID (g_compiled s) \<mapsto> d))
     \<and> mw_drafts (g_writer s) (ss_id (g_session s)) = None \<and> ss_id (g_session s) \<noteq> []
     \<and> g_next s = int (length (mf_Segments (g_compiled s)))"

text \<open>The three ways in which a merge that ended with an error left the stores.\<close>

definition dropped :: "memory_writer \<Rightarrow> checkpoints \<Rightarrow> memory_index \<Rightarrow> merge_state \<Rightarrow> bool" where
  "dropped w cps x s \<longleftrightarrow>
     untouched w s \<and> g_index s = x \<and> mw_drafts (g_writer s) (ss_id (g_session s)) = None
     \<and> g_checkpoints s = cps(mf_FileID (g_compiled s) := None)"

definition paused :: "merge_env \<Rightarrow> memory_writer \<Rightarrow> checkpoints \<Rightarrow> memory_index \<Rightarrow> merge_state \<Rightarrow> bool" where
  "paused env w cps x s \<longleftrightarrow> draft_live env s \<and> untouched w s \<and> g_index s = x \<and> saved cps s"

definition abandoned :: "merge_env \<Rightarrow> memory_writer \<Rightarrow> checkpoints \<Rightarrow> memory_index \<Rightarrow> merge_state \<Rightarrow> bool" where
  "abandoned env w cps x s \<longleftrightarrow>
     paused env w cps x s \<and> g_next s = int (length (mf_Segments (g_compiled s)))"

definition stranded :: "merge_env \<Rightarrow> memory_writer \<Rightarrow> checkpoints \<Rightarrow> memory_index \<Rightarrow> merge_state \<Rightarrow> bool" where
  "stranded env w cps x s \<longleftrightarrow>
     (\<exists>r. published env w r s
        \<and> (g_index s = x \<or> g_index s = x(mf_FileID (g_compiled s) \<mapsto> r))) \<and> saved cps s"

definition reports :: "commit_receipt \<Rightarrow> merge_state \<Rightarrow> merge_result \<Rightarrow> bool" where
  "reports r s res \<longleftrightarrow>
     mr_FileID res = rc_FileID r \<and> mr_Version res = rc_Version r \<and> mr_Size res = rc_Size r
     \<and> mr_Digest res = rc_Digest r
     \<and> mr_SegmentCount res = int (length (mf_Segments (g_compiled s)))
     \<and> mr_Resumed res = g_found s"

definition inv_output ::
  "merge_env \<Rightarrow> memory_writer \<Rightarrow> checkpoints \<Rightarrow> memory_index \<Rightarrow> merge_state \<Rightarrow> bool" where
  "inv_output env w cps x s \<longleftrightarrow>
     writer_ok (g_writer s)
     \<and> (case g_pc s of
          M_Recv \<Rightarrow> paused env w cps x s
        | M_Flush \<Rightarrow> paused env w cps x s
        | M_Commit \<Rightarrow> paused env w cps x s
        | M_Drain e \<Rightarrow> merge_error e \<and> session_live (g_session s) (g_writer s) \<and> untouched w s
            \<and> g_index s = x \<and> (\<exists>k. g_checkpoints s = cps(mf_FileID (g_compiled s) := k))
        | M_Index r \<Rightarrow> published env w r s \<and> g_index s = x \<and> saved cps s
        | M_Clear r \<Rightarrow> published env w r s
            \<and> g_index s = x(mf_FileID (g_compiled s) \<mapsto> r) \<and> saved cps s
        | M_Return (Inr res) \<Rightarrow>
            (\<exists>r. published env w r s \<and> g_index s = x(mf_FileID (g_compiled s) \<mapsto> r)
               \<and> g_checkpoints s = cps(mf_FileID (g_compiled s) := None) \<and> reports r s res)
        | M_Return (Inl e) \<Rightarrow>
            merge_error e
            \<and> (dropped w cps x s \<or> ((\<exists>cx. e = CtxErr cx) \<and> (abandoned env w cps x s \<or> stranded env w cps x s))))"

lemmas output_defs =
  paused_def abandoned_def dropped_def stranded_def untouched_def saved_def draft_live_def published_def

text \<open>Steps that leave the stores alone.\<close>

definition same_stores :: "merge_state \<Rightarrow> merge_state \<Rightarrow> bool" where
  "same_stores s s' \<longleftrightarrow>
     g_writer s' = g_writer s \<and> g_session s' = g_session s \<and> g_checkpoints s' = g_checkpoints s
     \<and> g_index s' = g_index s \<and> g_next s' = g_next s \<and> g_compiled s' = g_compiled s
     \<and> g_found s' = g_found s"

lemma same_stores_cong:
  assumes "same_stores s s'"
  shows "paused env w cps x s' = paused env w cps x s" "dropped w cps x s' = dropped w cps x s"
    "stranded env w cps x s' = stranded env w cps x s" "published env w r s' = published env w r s"
    "untouched w s' = untouched w s" "saved cps s' = saved cps s" "reports r s' res = reports r s res"
    "abandoned env w cps x s' = abandoned env w cps x s"
  using assms by (simp_all add: same_stores_def output_defs saved_point_def reports_def)

lemma inv_output_same:
  assumes "inv_output env w cps x s" "same_stores s s'" "g_pc s' = g_pc s"
  shows "inv_output env w cps x s'"
  using assms(1) same_stores_cong [OF assms(2)] assms(2)
  unfolding inv_output_def assms(3)
  by (simp add: same_stores_def split: main_pc.splits sum.splits)

lemma inv_output_loop:
  assumes "inv_output env w cps x s" "same_stores s s'"
    "g_pc s \<in> {M_Recv, M_Flush, M_Commit}" "g_pc s' \<in> {M_Recv, M_Flush, M_Commit}"
  shows "inv_output env w cps x s'"
  using assms(1,3,4) same_stores_cong [OF assms(2)] assms(2)
  by (auto simp: inv_output_def same_stores_def)

lemma inv_output_drain:
  assumes "inv_output env w cps x s" "same_stores s s'" "running s" "g_pc s' = M_Drain e" "merge_error e"
  shows "inv_output env w cps x s'"
  using assms(1,3-) same_stores_cong [OF assms(2)] assms(2)
  by (auto simp: inv_output_def same_stores_def running_def paused_def draft_live_def saved_def)

lemma inv_output_abort:
  assumes inv: "inv_output env w cps x s" and pc: "g_pc s = M_Drain e"
  shows "inv_output env w cps x (abort_return e s)"
proof -
  obtain e' ss w' where ab: "Abort None (g_session s) (g_writer s) = (e', ss, w')"
    by (metis prod.exhaust)
  have live: "session_live (g_session s) (g_writer s)" using inv pc by (simp add: inv_output_def)
  then have "ss_id ss = ss_id (g_session s)" "mw_outputs w' = mw_outputs (g_writer s)"
    "mw_data w' = mw_data (g_writer s)" "mw_drafts w' (ss_id ss) = None"
    using ab by (auto simp: Abort_def session_live_def)
  moreover have "writer_ok w'"
    using inv writer_ok_Abort [OF _ ab] by (simp add: inv_output_def)
  ultimately show ?thesis
    using inv pc ab
    by (auto simp: inv_output_def abort_return_def dropped_def untouched_def Checkpoints_Clear_def)
qed


text \<open>One turn of the inner loop.\<close>

lemma AppendAt_written:
  assumes "session_live ss w" "AppendAt cx ss off d w = (None, w')"
  shows "session_live ss w'" "draft_data ss w' = splice (nat (sint off)) d (draft_data ss w)"
    "md_fileID (mw_heap w' ! ss_draft ss) = md_fileID (mw_heap w ! ss_draft ss)"
    "md_version (mw_heap w' ! ss_draft ss) = md_version (mw_heap w ! ss_draft ss)"
    "mw_outputs w' = mw_outputs w" "mw_data w' = mw_data w" "cx = None"
  using assms
  by (auto simp: AppendAt_def session_live_def draft_data_def Let_def split: option.splits if_splits)

lemma flush_loaded:
  assumes "inv_entries s" "inv_data env s" "g_pc s = M_Flush" "map_of (g_pending s) (g_next s) = Some ld"
  shows "loads (en_gunzip env) (en_source env) (mf_Segments (g_compiled s) ! nat (g_next s)) (ls_Data ld)"
    "pe_Segment (ls_Entry ld) = mf_Segments (g_compiled s) ! nat (g_next s)"
    "CompileManifest (g_compiled s) = Inr (g_compiled s)"
    "nat (g_next s) < length (mf_Segments (g_compiled s))" "0 \<le> g_next s"
proof -
  note e = flush_entry [OF assms(1,3,4)]
  show seg: "pe_Segment (ls_Entry ld) = mf_Segments (g_compiled s) ! nat (g_next s)" by (simp add: e(1))
  have "Inr ld \<in> results_out s" using e(5) by (force simp: results_out_def)
  then show "loads (en_gunzip env) (en_source env) (mf_Segments (g_compiled s) ! nat (g_next s)) (ls_Data ld)"
    using assms(2) seg by (auto simp: inv_data_def result_ok_def)
  show "CompileManifest (g_compiled s) = Inr (g_compiled s)"
    using assms(1) by (simp add: inv_entries_def plan_ok_def)
  show "nat (g_next s) < length (mf_Segments (g_compiled s))" "0 \<le> g_next s"
    using e by linarith+
qed

text \<open>The write is inside the draft, so it is refused only when the context is cancelled.\<close>

lemma flush_refused:
  assumes "inv_entries s" "inv_data env s" "g_pc s = M_Flush" "map_of (g_pending s) (g_next s) = Some ld"
    "draft_live env s"
    "AppendAt (g_ctx s) (g_session s) (seg_Offset (pe_Segment (ls_Entry ld))) (ls_Data ld) (g_writer s)
       = (Some e, w')"
  shows "w' = g_writer s" "\<exists>cx. e = CtxErr cx"
proof -
  note ld = flush_loaded [OF assms(1-4)]
  have "seg_ok (mf_TotalSize (g_compiled s)) (mf_Segments (g_compiled s) ! nat (g_next s))"
    using compiled_layout(6) [OF ld(3)] ld(4) by (simp add: list_all_length)
  then have "0 \<le> sint (seg_Offset (pe_Segment (ls_Entry ld)))"
    "sint (seg_Offset (pe_Segment (ls_Entry ld))) + int (length (ls_Data ld))
      \<le> int (length (draft_data (g_session s) (g_writer s)))"
    using seg_ok_sizes loads_verified(1) [OF ld(1)] assms(5) ld(2)
    by (auto simp: draft_live_def written_ok_def)
  moreover have "session_live (g_session s) (g_writer s)" using assms(5) by (simp add: draft_live_def)
  ultimately show "w' = g_writer s" "\<exists>cx. e = CtxErr cx"
    using assms(6)
    by (auto simp: AppendAt_def session_live_def draft_data_def Let_def split: option.splits if_splits)
qed

lemma inv_output_flushed:
  assumes entries: "inv_entries s" and data: "inv_data env s" and pc: "g_pc s = M_Flush"
    and ld: "map_of (g_pending s) (g_next s) = Some ld" and inv: "inv_output env w cps x s"
    and app: "AppendAt (g_ctx s) (g_session s) (seg_Offset (pe_Segment (ls_Entry ld))) (ls_Data ld)
        (g_writer s) = (None, w')"
    and s1: "s1 = s\<lparr>g_writer := w', g_next := g_next s + 1, g_budget := release_loaded ld (g_budget s)\<rparr>"
  shows "draft_live env s1" "writer_ok w'" "untouched w s1" "g_ctx s = None"
    "save_point s1 ld = the (saved_point s1)" "g_next s1 \<noteq> 0"
proof -
  note l = flush_loaded [OF entries data pc ld]
  have p: "draft_live env s" "untouched w s" "writer_ok (g_writer s)"
    using inv pc by (auto simp: inv_output_def paused_def)
  then have live: "session_live (g_session s) (g_writer s)" by (simp add: draft_live_def)
  note w' = AppendAt_written [OF live app]
  obtain j where j: "nat (g_next s) \<le> j" "j \<le> length (mf_Segments (g_compiled s))"
    "written_ok env (g_compiled s) j (draft_data (g_session s) (g_writer s))"
    using p(1) by (auto simp: draft_live_def)
  have "written_ok env (g_compiled s) (max j (Suc (nat (g_next s)))) (draft_data (g_session s) w')"
    unfolding w'(2) l(2) using j l by (intro written_ok_write)
  then show "draft_live env s1"
    using w' p(1) l(4,5) j(2)
    by (auto simp: draft_live_def s1 nat_add_distrib intro!: exI [of _ "max j (Suc (nat (g_next s)))"])
  show "writer_ok w'" using p(3) app by (rule writer_ok_AppendAt)
  show "untouched w s1" using p(2) w' by (simp add: untouched_def s1)
  show "g_ctx s = None" by (rule w'(7))
  have "word_of_int (int (length (ls_Data ld))) = seg_LogicalSize (mf_Segments (g_compiled s) ! nat (g_next s))"
    unfolding loads_verified(1) [OF l(1)] by simp
  then show "save_point s1 ld = the (saved_point s1)" "g_next s1 \<noteq> 0"
    using l(2,5) by (simp_all add: save_point_def saved_point_def s1 Let_def)
qed

lemma inv_output_flush_saved:
  assumes "inv_entries s" "inv_data env s" "g_pc s = M_Flush"
    "map_of (g_pending s) (g_next s) = Some ld" "inv_output env w cps x s"
    "AppendAt (g_ctx s) (g_session s) (seg_Offset (pe_Segment (ls_Entry ld))) (ls_Data ld)
        (g_writer s) = (None, w')"
    "s1 = s\<lparr>g_writer := w', g_next := g_next s + 1, g_budget := release_loaded ld (g_budget s)\<rparr>"
    "Checkpoints_Save (g_ctx s) (save_point s1 ld) (g_checkpoints s) = (None, k)"
  shows "inv_output env w cps x (s1\<lparr>g_checkpoints := k, g_pending := ps\<rparr>)"
proof -
  note f = inv_output_flushed [OF assms(1-7)]
  have old: "g_checkpoints s = cps(mf_FileID (g_compiled s) := saved_point s)" "g_index s = x"
    using assms(3,5) by (auto simp: inv_output_def paused_def saved_def)
  have "cp_FileID (save_point s1 ld) = mf_FileID (g_compiled s)"
    by (simp add: save_point_def assms(7))
  then have "k = (g_checkpoints s)(mf_FileID (g_compiled s) \<mapsto> the (saved_point s1))"
    using assms(8) f(4) by (simp add: Checkpoints_Save_def flip: f(5))
  moreover have "saved_point s1 = Some (the (saved_point s1))" using f(6) by (simp add: saved_point_def)
  ultimately have k: "k = cps(mf_FileID (g_compiled s) := saved_point s1)"
    using old by simp
  show ?thesis
    using f old k assms(3,7)
    by (simp add: inv_output_def paused_def draft_live_def untouched_def saved_def saved_point_def)
qed


text \<open>Publishing.\<close>

lemma inv_output_commit:
  assumes inv: "inv_output env w cps x s" and pc: "g_pc s = M_Commit" and phase: "inv_phase s"
    and entries: "inv_entries s"
  shows "inv_output env w cps x (commit_step s)"
proof (cases "g_ctx s")
  case (Some cx)
  then have "commit_step s = s\<lparr>g_pc := M_Return (Inl (CtxErr cx))\<rparr>"
    by (simp add: commit_step_def Commit_def)
  then show ?thesis
    using inv pc phase same_stores_cong(8) [of s "s\<lparr>g_pc := M_Return (Inl (CtxErr cx))\<rparr>" env w cps x]
    by (simp add: inv_output_def same_stores_def abandoned_def phase_defs)
next
  case None
  let ?d = "draft_data (g_session s) (g_writer s)" and ?c = "g_compiled s"
  have p: "draft_live env s" "untouched w s" "g_index s = x" "saved cps s" "writer_ok (g_writer s)"
    using inv pc by (auto simp: inv_output_def paused_def)
  have c: "CompileManifest ?c = Inr ?c" using entries by (simp add: inv_entries_def plan_ok_def)
  have "nat (g_next s) = length (mf_Segments ?c)" using phase pc by (simp add: phase_defs)
  with p(1) have d: "written_ok env ?c (length (mf_Segments ?c)) ?d" by (auto simp: draft_live_def)
  then have size: "word_of_int (int (length ?d)) = mf_TotalSize ?c" by (simp add: written_ok_def)
  define r where "r = \<lparr>rc_FileID = mf_FileID ?c, rc_Version = mf_Version ?c,
    rc_Size = mf_TotalSize ?c, rc_Digest = Digest ?d\<rparr>"
  obtain ss w' where commit: "Commit None (g_session s) (g_writer s) = (Inr r, ss, w')"
    "ss_id ss = ss_id (g_session s)" "mw_outputs w' = (mw_outputs (g_writer s))(mf_FileID ?c \<mapsto> r)"
    "mw_data w' = (mw_data (g_writer s))(mf_FileID ?c \<mapsto> ?d)"
    "mw_drafts w' = (mw_drafts (g_writer s))(ss_id (g_session s) := None)"
    using Commit_live [of "g_session s" "g_writer s"] p(1) size
    by (simp add: draft_live_def draft_data_def Let_def r_def)
  have "validateReceipt r = None"
    using compiled_layout(3-5) [OF c] by (simp add: validateReceipt_None r_def)
  then have step: "commit_step s = s\<lparr>g_session := ss, g_writer := w', g_pc := M_Index r\<rparr>"
    by (simp add: commit_step_def None commit)
  have "ss_id (g_session s) \<noteq> []"
    using p(1,5) by (metis draft_live_def session_id_nonempty session_live_def writer_ok_def)
  moreover have "writer_ok w'" using writer_ok_Commit [OF p(5) commit(1)] .
  moreover have "g_next s = int (length (mf_Segments ?c))" using phase pc by (simp add: phase_defs)
  ultimately show ?thesis
    using p d commit(2-5)
    by (auto simp: inv_output_def step published_def untouched_def saved_def saved_point_def r_def Let_def)
qed

lemma inv_output_index:
  assumes inv: "inv_output env w cps x s" and pc: "g_pc s = M_Index r" and entries: "inv_entries s"
  shows "inv_output env w cps x (index_step r s)"
proof -
  have p: "published env w r s" "g_index s = x" "saved cps s" "writer_ok (g_writer s)"
    using inv pc by (auto simp: inv_output_def)
  have c: "CompileManifest (g_compiled s) = Inr (g_compiled s)"
    using entries by (simp add: inv_entries_def plan_ok_def)
  have "validateReceipt r = None" "rc_FileID r = mf_FileID (g_compiled s)"
    using compiled_layout(3-5) [OF c] p(1) by (auto simp: validateReceipt_None published_def)
  note receipt = this
  have "stranded env w cps x s" using p(1-3) by (auto simp: stranded_def)
  then have "stranded env w cps x (s\<lparr>g_index := x, g_pc := q\<rparr>)" for q
    using p(2) by (subst same_stores_cong(3) [of s]) (simp_all add: same_stores_def)
  moreover have "published env w r (s\<lparr>g_index := y, g_pc := q\<rparr>) = published env w r s"
    "saved cps (s\<lparr>g_index := y, g_pc := q\<rparr>) = saved cps s" for y q
    by (simp_all add: published_def saved_def saved_point_def)
  ultimately show ?thesis
    using p receipt
    by (cases "g_ctx s") (simp_all add: inv_output_def index_step_def Index_Put_def)
qed

lemma inv_output_clear:
  assumes inv: "inv_output env w cps x s" and pc: "g_pc s = M_Clear r"
  shows "inv_output env w cps x (clear_step r s)"
proof -
  have p: "published env w r s" "g_index s = x(mf_FileID (g_compiled s) \<mapsto> r)" "saved cps s"
    "writer_ok (g_writer s)"
    using inv pc by (auto simp: inv_output_def)
  have "stranded env w cps x s" using p(1-3) by (auto simp: stranded_def)
  then have "stranded env w cps x (s\<lparr>g_checkpoints := g_checkpoints s, g_pc := q\<rparr>)" for q
    by (subst same_stores_cong(3) [of s]) (simp_all add: same_stores_def)
  moreover have "published env w r (s\<lparr>g_checkpoints := y, g_pc := q\<rparr>) = published env w r s"
    "reports r (s\<lparr>g_checkpoints := y, g_pc := q\<rparr>) res = reports r s res" for y q res
    by (simp_all add: published_def reports_def)
  moreover have "(g_checkpoints s)(mf_FileID (g_compiled s) := None) = cps(mf_FileID (g_compiled s) := None)"
    using p(3) by (simp add: saved_def)
  ultimately show ?thesis
    using p
    by (cases "g_ctx s")
      (simp_all add: inv_output_def clear_step_def Checkpoints_Clear_def reports_def result_of_def,
        blast)
qed

lemma inv_output_move:
  assumes "merge_move env k s s'" "inv_entries s" "inv_phase s" "inv_data env s" "inv_output env w cps x s"
  shows "inv_output env w cps x s'"
  using assms
proof (induction rule: merge_move.induct)
  case (recv_error s e rs)
  then have "merge_error e" by (auto simp: inv_data_def results_out_def result_ok_def)
  with recv_error show ?case
    by (intro inv_output_drain [OF recv_error.prems(4)]) (auto simp: same_stores_def running_def)
next
  case (recv_incomplete s)
  then show ?case using recv_done [of s] by simp
next
  case (flush_write_error s ld e w')
  then have p: "draft_live env s" by (simp add: inv_output_def paused_def)
  note ref = flush_refused [OF flush_write_error.prems(1,3) flush_write_error.hyps(1,2) p
      flush_write_error.hyps(3)]
  then show ?case
    using flush_write_error
    by (intro inv_output_drain [OF flush_write_error.prems(4)]) (auto simp: same_stores_def running_def)
next
  case (flush_abandoned s e k)
  then have "paused env w cps x s" "writer_ok (g_writer s)" by (simp_all add: inv_output_def)
  then show ?case by (auto simp: inv_output_def paused_def draft_live_def untouched_def saved_def)
next
  case (flush_saved s ld w' s1 k)
  then show ?case using inv_output_flush_saved [of s env ld w cps x w' s1 k] by blast
next
  case (drain_end s e)
  then show ?case by (intro inv_output_abort)
next
  case (commit s)
  then show ?case by (intro inv_output_commit)
next
  case (index s r)
  then show ?case by (intro inv_output_index)
next
  case (clear s r)
  then show ?case by (intro inv_output_clear)
next
  case (recv_loaded s ld rs)
  then show ?case by (intro inv_output_loop [OF recv_loaded.prems(4)]) (auto simp: same_stores_def)
next
  case (recv_complete s)
  then show ?case by (intro inv_output_loop [OF recv_complete.prems(4)]) (auto simp: same_stores_def)
next
  case (flush_none s)
  then show ?case by (intro inv_output_loop [OF flush_none.prems(4)]) (auto simp: same_stores_def)
qed (erule inv_output_same; simp add: same_stores_def)+

end
