(* ===== verification/MergerDemo.thy ===== *)
theory MergerDemo
  imports Merger
begin

text \<open>
  The merger on the data of \<open>cmd/merge-demo/main.go\<close>: the states and runs the witnesses of
  the merger's properties use, evaluated step by step.
\<close>

definition demo_env :: merge_env where
  "demo_env = \<lparr>en_gunzip = no_gunzip, en_source = demo_source\<rparr>"

definition demo_job :: "nat \<Rightarrow> plan_entry" where
  "demo_job i = plan_entry_at (mf_Segments demo_manifest) i"

text \<open>The state after \<open>loadAll\<close> with \<open>n\<close> workers and a budget of \<open>limit\<close> bytes.\<close>

definition demo_state :: "nat \<Rightarrow> i64 \<Rightarrow> merge_state" where
  "demo_state n limit =
     \<lparr>g_compiled = demo_manifest, g_plan = demo_plan, g_found = False, g_ctx = None, g_wctx = None,
      g_jobs = [demo_job 0, demo_job 1], g_workers = replicate n W_Idle, g_results = [],
      g_budget = \<lparr>bb_limit = limit, bb_reserved = 0, bb_resident = 0, bb_peak = 0, bb_changed = 0,
        bb_leases = []\<rparr>,
      g_writer = \<lparr>mw_next = 1, mw_drafts = [session_id 1 \<mapsto> 0],
        mw_heap = [\<lparr>md_fileID = ''demo'', md_version = ''v1'', md_data = replicate 11 0\<rparr>],
        mw_outputs = Map.empty, mw_data = Map.empty\<rparr>,
      g_session = \<lparr>ss_id = session_id 1, ss_draft = 0, ss_closed = False\<rparr>,
      g_checkpoints = Map.empty, g_index = Map.empty, g_pending = [], g_next = 0, g_pc = M_Recv\<rparr>"

lemma demo_start:
  assumes "n = 1 \<or> n = 2" "1 \<le> sint limit"
  shows "Merge_start n None None demo_manifest (NewByteBudget limit) NewMemoryWriter
      NewMemoryCheckpoints NewMemoryIndex = Inr (demo_state n limit)"
proof -
  have b: "BuildPlan demo_manifest None = Inr demo_plan"
    by (simp add: BuildPlan_compiled(1) [OF demo_compiled] demo_plan_def)
  have e: "pl_Entries demo_plan = [demo_job 0, demo_job 1]"
    by (simp add: demo_plan_def plan_from_def demo_job_def upt_rec) (simp add: demo_manifest_def)
  have "Begin None demo_plan NewMemoryWriter =
      (Inr (g_session (demo_state n limit)), g_writer (demo_state n limit))"
    by (simp add: Begin_def demo_plan_def Let_def demo_state_def NewMemoryWriter_def)
      (simp add: demo_defs)
  with assms show ?thesis
    by (auto simp: Merge_start_def demo_compiled Checkpoints_Load_def NewMemoryCheckpoints_def b e
        loadAll_workers_def NewByteBudget_def NewMemoryIndex_def demo_state_def)
      (auto simp: demo_plan_def)
qed

lemma demo_job_simps [simp]:
  "pe_Ordinal (demo_job i) = int i"
  "pe_MemoryWeight (demo_job 0) = 6" "pe_MemoryWeight (demo_job (Suc 0)) = 5"
  "seg_Offset (pe_Segment (demo_job 0)) = 0" "seg_Offset (pe_Segment (demo_job (Suc 0))) = 6"
  by (simp_all add: demo_job_def plan_entry_at_def demo_defs)

lemma demo_load [simp]:
  "load_data no_gunzip demo_source None (pe_Segment (demo_job 0)) = Inr demo_first"
  "load_data no_gunzip demo_source None (pe_Segment (demo_job (Suc 0))) = Inr demo_second"
  by (simp_all add: load_data_def demo_source_def MemorySource_Open_def NewMemorySource_def
      demo_job_def plan_entry_at_def decode_stored_def verifyLogicalSegment_def EncodingGzip_def
      EncodingRaw_def demo_defs)

lemma demo_load_cancelled [simp]:
  "load_data no_gunzip demo_source (Some cx) sg = Inl (OpenSegment (seg_ID sg) (CtxErr cx))"
  by (simp add: load_data_def demo_source_def MemorySource_Open_def)

lemma demo_length [simp]: "length demo_first = 6" "length demo_second = 5"
  by (simp_all add: demo_defs)

lemma demo_manifest_simps [simp]:
  "mf_FileID demo_manifest = ''demo''" "mf_Version demo_manifest = ''v1''"
  "length (mf_Segments demo_manifest) = 2"
  by (simp_all add: demo_manifest_def)

lemma demo_receipt [simp]:
  "validateReceipt \<lparr>rc_FileID = ''demo'', rc_Version = ''v1'', rc_Size = 11, rc_Digest = Digest d\<rparr> = None"
  by (simp add: validateReceipt_None)

lemmas demo_run_defs =
  demo_state_def demo_env_def worker_step_def set_worker_def Acquire_def Acquire_loop_def
  after_acquire_def Let_def Load_held_def MarkResident_def main_step_def recv_step_def
  flush_step_def save_step_def AppendAt_def splice_def Checkpoints_Save_def save_point_def release_loaded_def
  Release_def results_closed_def commit_step_def Commit_def index_step_def Index_Put_def
  clear_step_def Checkpoints_Clear_def result_of_def fail_with_def cancel_workers_def
  releasePending_def drain_step_def abort_return_def Abort_def cancel_ctx_def

text \<open>One worker loads and the main goroutine writes one segment; then everything is published.\<close>

definition one_segment :: "merge_label list" where
  "one_segment = [L_Dispatch 0, L_Enter 0, L_Load 0, L_Send 0, L_Main, L_Main, L_Main, L_Main]"

definition publish :: "merge_label list" where
  "publish = [L_Exit 0, L_Main, L_Main, L_Main, L_Main]"

lemma demo_one_segment:
  "\<exists>s. merge_run demo_env one_segment (demo_state 1 64) = Some s \<and> g_pc s = M_Recv \<and> g_next s = 1"
  by (simp add: one_segment_def demo_run_defs)

lemma demo_publishes:
  "\<exists>s res. merge_run demo_env (one_segment @ one_segment @ publish) (demo_state 1 64) = Some s
     \<and> g_pc s = M_Return (Inr res)"
  by (simp add: one_segment_def publish_def demo_run_defs)

text \<open>The context is cancelled between the commit and the index: the merge fails.\<close>

definition cancelled_late :: "merge_label list" where
  "cancelled_late =
     one_segment @ one_segment @ [L_Exit 0, L_Main, L_Main, L_Cancel Canceled, L_Main]"

lemma demo_cancelled_late:
  "\<exists>s. merge_run demo_env cancelled_late (demo_state 1 64) = Some s
     \<and> g_pc s = M_Return (Inl (CtxErr Canceled)) \<and> Output ''demo'' (g_writer s) \<noteq> None"
  by (simp add: cancelled_late_def one_segment_def demo_run_defs Output_def)

text \<open>A budget smaller than the first segment: the merge fails and drops its draft.\<close>

definition too_big :: "merge_label list" where
  "too_big = [L_Dispatch 0, L_Enter 0, L_Send 0, L_Main, L_Dispatch 0, L_Enter 0, L_Load 0,
     L_Send 0, L_Exit 0, L_Main, L_Main]"

lemma demo_too_big:
  "\<exists>s. merge_run demo_env too_big (demo_state 1 5) = Some s
     \<and> g_pc s = M_Return (Inl (ErrBudgetExceeded (WeightExceeds 6 5)))"
  by (simp add: too_big_def demo_run_defs)


text \<open>
  The context is cancelled after the first segment is appended and before its checkpoint is saved:
  the save is refused, and the merge fails and drops its draft.
\<close>

definition save_refused :: "merge_label list" where
  "save_refused = [L_Dispatch 0, L_Enter 0, L_Load 0, L_Send 0, L_Main, L_Main, L_Cancel Canceled, L_Main,
     L_Dispatch 0, L_Enter 0, L_Load 0, L_Send 0, L_Exit 0, L_Main, L_Main]"

lemma demo_save_refused:
  "\<exists>s. merge_run demo_env save_refused (demo_state 1 64) = Some s
     \<and> g_pc s = M_Return (Inl (CtxErr Canceled)) \<and> g_next s = 1"
  by (simp add: save_refused_def demo_run_defs)

text \<open>Two workers, and the second segment arrives first.\<close>

definition out_of_order :: "merge_label list" where
  "out_of_order =
     [L_Dispatch 0, L_Dispatch 1, L_Enter 1, L_Load 1, L_Send 1, L_Main, L_Main, L_Enter 0,
      L_Load 0, L_Send 0, L_Main, L_Main, L_Main, L_Main, L_Main, L_Main, L_Exit 1, L_Exit 0, L_Main,
      L_Main, L_Main, L_Main]"

lemma demo_out_of_order:
  "\<exists>s res. merge_run demo_env out_of_order (demo_state 2 64) = Some s
     \<and> g_pc s = M_Return (Inr res)"
  by (simp add: out_of_order_def demo_run_defs numeral_2_eq_2)

text \<open>
  The same start with a budget of six bytes, enough for either segment: the second one takes its
  lease first and waits in \<open>pending\<close> for the first, whose worker waits for the budget.
\<close>

definition starve :: "merge_label list" where
  "starve = [L_Dispatch 0, L_Dispatch 1, L_Enter 1, L_Load 1, L_Send 1, L_Enter 0, L_Main, L_Main,
     L_Exit 1]"

lemma demo_starve:
  "\<exists>s. merge_run demo_env starve (demo_state 2 6) = Some s \<and> g_pc s = M_Recv
     \<and> g_workers s = [W_Wait (demo_job 0) 0, W_Exit] \<and> g_results s = [] \<and> g_jobs s = []
     \<and> bb_changed (g_budget s) = 0 \<and> g_wctx s = None \<and> g_ctx s = None"
  by (simp add: starve_def demo_run_defs numeral_2_eq_2)

end
