(* ===== verification/Merges.thy ===== *)
theory Merges
  imports MergerBudget MergerOutput MergerDemo
begin

text \<open>
  Whole merges: what holds from the call of \<open>Merge\<close> to its return, whatever the schedule of
  its goroutines, whenever the context is cancelled, and when a merge that stopped in the middle
  is started again from what it left.
\<close>

section \<open>Histories\<close>

text \<open>
  A history is a first call, with no checkpoint for the file, followed by any steps; at any
  point of its loop (between the append of a segment and the save of its checkpoint too), or when
  it is about to commit, the merge may stop (the process that runs
  it goes away) and \<open>Merge\<close> be called again on the writer, the checkpoints and the index as
  it left them, with another number of workers and another budget.
\<close>

inductive merge_history ::
  "merge_env \<Rightarrow> manifest \<Rightarrow> memory_writer \<Rightarrow> checkpoints \<Rightarrow> memory_index \<Rightarrow> merge_state \<Rightarrow> bool"
  for env m w cps x where
  first: "cps (trim_space (mf_FileID m)) = None \<Longrightarrow> Merge_start n cx1 cx2 m b w cps x = Inr s \<Longrightarrow>
    merge_history env m w cps x s"
| steps: "merge_history env m w cps x s \<Longrightarrow> merge_run env ls s = Some s' \<Longrightarrow>
    merge_history env m w cps x s'"
| again: "merge_history env m w cps x s \<Longrightarrow> running s \<or> saving s \<or> g_pc s = M_Commit \<Longrightarrow>
    Merge_start n cx1 cx2 m b (g_writer s) (g_checkpoints s) (g_index s) = Inr s' \<Longrightarrow>
    merge_history env m w cps x s'"

text \<open>A merge that is stopped, as the next call finds it.\<close>

definition at_save :: "merge_state \<Rightarrow> merge_state" where
  "at_save s = s\<lparr>g_next := saved_next s\<rparr>"

definition merge_inv ::
  "merge_env \<Rightarrow> manifest \<Rightarrow> memory_writer \<Rightarrow> checkpoints \<Rightarrow> memory_index \<Rightarrow> merge_state \<Rightarrow> bool" where
  "merge_inv env m w cps x s \<longleftrightarrow>
     CompileManifest m = Inr (g_compiled s) \<and> inv_entries s \<and> inv_phase s \<and> inv_data env s
     \<and> inv_output env w cps x s"

lemma merge_move_compiled: "merge_move env k s s' \<Longrightarrow> g_compiled s' = g_compiled s"
  by (induction rule: merge_move.induct) auto

lemma merge_inv_move: "merge_inv env m w cps x s \<Longrightarrow> merge_move env k s s' \<Longrightarrow> merge_inv env m w cps x s'"
  unfolding merge_inv_def
  using inv_entries_move inv_phase_move inv_data_move inv_output_move merge_move_compiled by metis

text \<open>
  What a merge keeps in every state: the invariant of its settled state, and while a save is still
  to come, what the last checkpoint says.
\<close>

definition merge_ok ::
  "merge_env \<Rightarrow> manifest \<Rightarrow> memory_writer \<Rightarrow> checkpoints \<Rightarrow> memory_index \<Rightarrow> merge_state \<Rightarrow> bool" where
  "merge_ok env m w cps x s \<longleftrightarrow>
     turn_ok s \<and> merge_inv env m w cps x (settled s)
     \<and> (saving s \<longrightarrow> plan_ok (at_save s) \<and> saved cps (at_save s))"

lemma merge_okD:
  assumes "merge_ok env m w cps x s"
  shows "turn_ok s" "CompileManifest m = Inr (g_compiled s)" "\<not> saving s \<Longrightarrow> merge_inv env m w cps x s"
  using assms by (auto simp: merge_ok_def merge_inv_def)

lemma merge_ok_step:
  assumes ok: "merge_ok env m w cps x s" and step: "merge_step env l s = Some s'"
  shows "merge_ok env m w cps x s'"
proof -
  have inv: "turn_ok s" "merge_inv env m w cps x (settled s)" using ok by (simp_all add: merge_ok_def)
  have t: "turn_ok s'" "merge_inv env m w cps x (settled s')"
    using turn [OF step inv(1)] inv(2) by (auto intro: merge_inv_move)
  have "plan_ok (at_save s') \<and> saved cps (at_save s')" if "saving s'"
  proof -
    note same = saving_step [OF step that]
    have "plan_ok (at_save s) \<and> saved cps (at_save s)"
    proof (cases "saving s")
      case True
      with ok show ?thesis by (simp add: merge_ok_def)
    next
      case False
      with same inv(2) have "inv_entries s" "inv_output env w cps x s" "g_pc s = M_Flush" "at_save s = s"
        by (simp_all add: merge_inv_def at_save_def saved_next_simps)
      then show ?thesis by (simp add: inv_entries_def inv_output_def paused_def)
    qed
    with same show ?thesis by (simp add: at_save_def plan_ok_def saved_def saved_point_def)
  qed
  with t show ?thesis by (simp add: merge_ok_def)
qed

lemma merge_ok_run:
  "merge_run env ls s = Some s' \<Longrightarrow> merge_ok env m w cps x s \<Longrightarrow> merge_ok env m w cps x s'"
  by (induction ls arbitrary: s) (auto split: option.splits dest: merge_ok_step simp del: merge_step.simps)

text \<open>A merge that may stop has left its draft and its checkpoint.\<close>

lemma merge_ok_stopped:
  assumes ok: "merge_ok env m w cps x s" and pc: "running s \<or> saving s \<or> g_pc s = M_Commit"
  shows "paused env w cps x (at_save s)" "writer_ok (g_writer s)" "plan_ok (at_save s)"
proof -
  have inv: "merge_inv env m w cps x (settled s)" using ok by (simp add: merge_ok_def)
  have pc': "running (settled s) \<or> g_pc (settled s) = M_Commit"
    using pc by (auto simp: running_def settled_def saving_def)
  have p: "paused env w cps x (settled s)" "writer_ok (g_writer s)" "plan_ok (settled s)"
    using inv pc' by (auto simp: merge_inv_def inv_output_def inv_entries_def running_def)
  show "writer_ok (g_writer s)" by (rule p)
  show "paused env w cps x (at_save s)"
  proof (cases "saving s")
    case True
    with ok have "saved cps (at_save s)" by (simp add: merge_ok_def)
    moreover have "draft_live env (at_save s)"
    proof -
      have "nat (saved_next s) \<le> nat (g_next s)" using True by (simp add: saved_next_simps)
      moreover obtain j where "nat (g_next s) \<le> j" "j \<le> length (mf_Segments (g_compiled s))"
        "written_ok env (g_compiled s) j (draft_data (g_session s) (g_writer s))"
        using p(1) by (auto simp: paused_def draft_live_def)
      ultimately show ?thesis
        using p(1) by (auto simp: paused_def draft_live_def at_save_def intro!: exI [of _ j])
    qed
    ultimately show ?thesis using p(1) by (simp add: paused_def untouched_def at_save_def)
  next
    case False
    with p(1) show ?thesis by (simp add: at_save_def saved_next_simps)
  qed
  show "plan_ok (at_save s)"
    using ok p(3) by (cases "saving s") (simp_all add: merge_ok_def at_save_def saved_next_simps)
qed


section \<open>The first state\<close>

lemma Merge_start_cases:
  assumes "Merge_start n cx1 cx2 m b w cps x = Inr s"
  obtains c resume plan session w' where
    "CompileManifest m = Inr c" "cx1 = None" "cx2 = None" "resume = cps (mf_FileID c)"
    "BuildPlan c resume = Inr plan" "Begin None plan w = (Inr session, w')"
    "s = \<lparr>g_compiled = c, g_plan = plan, g_found = (resume \<noteq> None), g_ctx = None, g_wctx = None,
          g_jobs = pl_Entries plan, g_workers = loadAll_workers n (pl_Entries plan),
          g_results = [], g_budget = b, g_writer = w', g_session = session, g_checkpoints = cps,
          g_index = x, g_pending = [], g_next = pl_StartOrdinal plan, g_pc = M_Recv\<rparr>"
proof -
  obtain c where c: "CompileManifest m = Inr c"
    using assms by (auto simp: Merge_start_def split: sum.splits)
  have cx1: "cx1 = None"
    using assms c by (cases cx1) (auto simp: Merge_start_def Checkpoints_Load_def)
  have cx2: "cx2 = None"
    using assms c by (cases cx2)
      (auto simp: Merge_start_def Begin_def split: sum.splits)
  from assms c cx1 cx2 that show ?thesis
    by (auto simp: Merge_start_def Checkpoints_Load_def split: sum.splits prod.splits)
qed

lemma loadAll_workers_idle: "w \<in> set (loadAll_workers n es) \<Longrightarrow> w = W_Idle"
  by (auto simp: loadAll_workers_def split: if_splits)

lemma Merge_start_inv:
  assumes start: "Merge_start n cx1 cx2 m b w cps x = Inr s"
  shows "CompileManifest m = Inr (g_compiled s)" "inv_entries s" "inv_phase s" "inv_data env s"
    "budget_ok b \<Longrightarrow> live b = {} \<Longrightarrow> inv_budget s"
    "g_pc s = M_Recv" "g_checkpoints s = cps" "g_index s = x"
proof -
  from Merge_start_cases [OF start] obtain c resume plan session w' where 1:
    "CompileManifest m = Inr c" "resume = cps (mf_FileID c)" "BuildPlan c resume = Inr plan"
    "s = \<lparr>g_compiled = c, g_plan = plan, g_found = (resume \<noteq> None), g_ctx = None, g_wctx = None,
          g_jobs = pl_Entries plan, g_workers = loadAll_workers n (pl_Entries plan),
          g_results = [], g_budget = b, g_writer = w', g_session = session, g_checkpoints = cps,
          g_index = x, g_pending = [], g_next = pl_StartOrdinal plan, g_pc = M_Recv\<rparr>"
    by metis
  have comp: "CompileManifest c = Inr c" using 1(1) by (rule compiled_again)
  from comp 1(3) have plan: "plan_ok s"
    by (cases rule: BuildPlan_Inr) (use 1 comp in \<open>auto simp: plan_ok_def resumable_def\<close>)
  have ws: "(\<Sum>w\<leftarrow>g_workers s. worker_entries w) = {#}" "(\<Sum>w\<leftarrow>g_workers s. worker_error w) = {#}"
    "(\<Sum>w\<leftarrow>g_workers s. worker_leases w) = {#}"
    using 1 by (auto intro!: sum_list_no_token dest: loadAll_workers_idle)
  have "outstanding s = mset (to_write s)"
    using 1 ws by (simp add: outstanding_def to_write_def)
  with ws plan 1 show "inv_entries s"
    by (simp add: inv_entries_def running_def pending_ok_def accounted_def errors_out_def)
  show "CompileManifest m = Inr (g_compiled s)" "inv_phase s" "inv_data env s" "g_pc s = M_Recv"
    "g_checkpoints s = cps" "g_index s = x"
    using 1 by (auto simp: phase_defs inv_data_def results_out_def dest: loadAll_workers_idle)
  show "inv_budget s" if "budget_ok b" "live b = {}"
    using 1 ws that by (auto simp: inv_budget_def held_def dest: loadAll_workers_idle)
qed

lemma Merge_start_turn_ok: "Merge_start n cx1 cx2 m b w cps x = Inr s \<Longrightarrow> turn_ok s"
  by (erule Merge_start_cases) (auto simp: turn_ok_def leases_known_def dest: loadAll_workers_idle)

lemma Merge_start_not_saving: "Merge_start n cx1 cx2 m b w cps x = Inr s \<Longrightarrow> \<not> saving s"
  by (erule Merge_start_cases) (simp add: saving_def)

lemma Merge_start_settled: "Merge_start n cx1 cx2 m b w cps x = Inr s \<Longrightarrow> settled s = s"
  by (simp add: Merge_start_not_saving)

text \<open>Without a checkpoint the draft is new and all zeros.\<close>

lemma Merge_start_fresh:
  assumes start: "Merge_start n cx1 cx2 m b w' cps' x' = Inr s"
    and none: "cps' (mf_FileID (g_compiled s)) = None"
    and w: "writer_ok w'" "mw_outputs w' = mw_outputs w" "mw_data w' = mw_data w"
    and cps: "cps' = cps(mf_FileID (g_compiled s) := None)"
  shows "inv_output env w cps x' s"
  using start
proof (cases rule: Merge_start_cases)
  case (1 c resume plan session w'')
  have comp: "CompileManifest c = Inr c" using 1(1) by (rule compiled_again)
  have plan: "plan = plan_from c 0 []"
    using 1 none BuildPlan_compiled(1) [OF comp] by simp
  have tot: "0 \<le> sint (mf_TotalSize c)" using compiled_layout(3) [OF comp] .
  have ok: "writer_ok w''" "session_live session w''" using writer_ok_Begin [OF w(1) 1(6)] by auto
  have w'': "mw_outputs w'' = mw_outputs w" "mw_data w'' = mw_data w"
    "mw_heap w'' ! ss_draft session = \<lparr>md_fileID = mf_FileID c, md_version = mf_Version c,
      md_data = replicate (nat (sint (mf_TotalSize c))) 0\<rparr>"
    using 1(6) plan tot w by (auto simp: Begin_def Let_def)
  have s: "g_compiled s = c" "g_writer s = w''" "g_session s = session" "g_pc s = M_Recv"
    "g_next s = 0" "g_checkpoints s = cps'" "g_index s = x'"
    using 1 plan by simp_all
  have "draft_live env s"
    using ok w'' written_ok_zero [OF tot] by (auto simp: draft_live_def draft_data_def s)
  moreover have "untouched w s" "saved cps s"
    using w'' cps by (simp_all add: untouched_def saved_def saved_point_def s)
  ultimately show ?thesis using ok by (simp add: inv_output_def paused_def s)
qed

text \<open>With the checkpoint of a merge that stopped the draft is the one it left.\<close>

lemma Merge_start_again:
  assumes start: "Merge_start n cx1 cx2 m b (g_writer t) (g_checkpoints t) (g_index t) = Inr s"
    and t: "paused env w cps x t" "writer_ok (g_writer t)" "g_next t \<noteq> 0"
    and c: "g_compiled s = g_compiled t"
  shows "inv_output env w cps x s" "g_next s = g_next t" "g_found s" "g_writer s = g_writer t"
    "draft_data (g_session s) (g_writer s) = draft_data (g_session t) (g_writer t)"
proof -
  from Merge_start_cases [OF start] obtain c resume plan session w'' where 1:
    "CompileManifest m = Inr c" "resume = g_checkpoints t (mf_FileID c)"
    "BuildPlan c resume = Inr plan" "Begin None plan (g_writer t) = (Inr session, w'')"
    "s = \<lparr>g_compiled = c, g_plan = plan, g_found = (resume \<noteq> None), g_ctx = None, g_wctx = None,
          g_jobs = pl_Entries plan, g_workers = loadAll_workers n (pl_Entries plan),
          g_results = [], g_budget = b, g_writer = w'', g_session = session,
          g_checkpoints = g_checkpoints t, g_index = g_index t, g_pending = [],
          g_next = pl_StartOrdinal plan, g_pc = M_Recv\<rparr>"
    by metis
  have c: "g_compiled t = c" using 1 c by simp
  have comp: "CompileManifest c = Inr c" using 1(1) by (rule compiled_again)
  have live: "session_live (g_session t) (g_writer t)" using t by (simp add: paused_def draft_live_def)
  have "mw_drafts (g_writer t) (ss_id (g_session t)) = Some (ss_draft (g_session t))"
    using live by (simp add: session_live_def)
  with t(2) have id: "ss_id (g_session t) \<noteq> []" by (metis session_id_nonempty writer_ok_def)
  have "resume = saved_point t"
    using 1(2) t(1) c by (simp add: paused_def saved_def)
  with t(3) c have plan: "plan = plan_from c (g_next t) (ss_id (g_session t))"
    using 1(3) BuildPlan_compiled(2) [OF comp] by (auto simp: saved_point_def Let_def split: if_splits)
  have sess: "w'' = g_writer t" "session = \<lparr>ss_id = ss_id (g_session t),
      ss_draft = ss_draft (g_session t), ss_closed = False\<rparr>"
    using 1(4) plan id live by (auto simp: Begin_def Let_def session_live_def split: if_splits)
  with live have same: "session = g_session t" by (simp add: session_live_def)
  have "resume \<noteq> None" using \<open>resume = saved_point t\<close> t(3) by (simp add: saved_point_def)
  then have s: "g_compiled s = g_compiled t" "g_writer s = g_writer t" "g_session s = g_session t"
    "g_pc s = M_Recv" "g_next s = g_next t" "g_checkpoints s = g_checkpoints t" "g_index s = g_index t"
    "g_found s"
    unfolding 1(5) using plan c sess(1) same by simp_all
  have "paused env w cps x s"
    using t(1) by (simp add: output_defs saved_point_def s)
  then show "inv_output env w cps x s" using t(2) s by (simp add: inv_output_def)
  show "g_next s = g_next t" "g_found s" "g_writer s = g_writer t"
    "draft_data (g_session s) (g_writer s) = draft_data (g_session t) (g_writer t)"
    by (simp_all add: s)
qed

lemma merge_ok_start:
  assumes "Merge_start n cx1 cx2 m b w' cps' x' = Inr s" "inv_output env w cps x s"
  shows "merge_ok env m w cps x s"
  using Merge_start_inv [OF assms(1)] Merge_start_turn_ok [OF assms(1)] Merge_start_not_saving [OF assms(1)]
    assms(2) by (simp add: merge_ok_def merge_inv_def)

lemma history_inv:
  assumes "merge_history env m w cps x s" "writer_ok w"
  shows "merge_ok env m w cps x s"
  using assms(1)
proof (induction rule: merge_history.induct)
  case (first n cx1 cx2 b s)
  have c: "CompileManifest m = Inr (g_compiled s)" using Merge_start_inv(1) [OF first(2)] .
  then have none: "cps (mf_FileID (g_compiled s)) = None"
    using first(1) by (auto simp: CompileManifest_Inr normalise_def)
  then have "inv_output env w cps x s"
    using assms(2) by (intro Merge_start_fresh [OF first(2)]) auto
  with first(2) show ?case by (rule merge_ok_start)
next
  case (steps s ls s')
  then show ?case by (blast intro: merge_ok_run)
next
  case (again s n cx1 cx2 b s')
  let ?t = "at_save s"
  have c: "CompileManifest m = Inr (g_compiled s')" using Merge_start_inv(1) [OF again(3)] .
  with merge_okD(2) [OF again.IH] have same: "g_compiled s' = g_compiled s" by simp
  note p = merge_ok_stopped [OF again.IH again(2)]
  have start: "Merge_start n cx1 cx2 m b (g_writer ?t) (g_checkpoints ?t) (g_index ?t) = Inr s'"
    using again(3) by (simp add: at_save_def)
  have "inv_output env w cps x s'"
  proof (cases "g_next ?t = 0")
    case True
    with p have "g_checkpoints s = cps(mf_FileID (g_compiled s') := None)" "untouched w s"
      "g_index s = x"
      by (simp_all add: paused_def saved_def saved_point_def same at_save_def untouched_def)
    with p(2) show ?thesis
      using Merge_start_fresh [OF again(3), of w cps env] by (simp add: untouched_def)
  next
    case False
    with p show ?thesis using Merge_start_again(1) [OF start p(1) _ False] same by (simp add: at_save_def)
  qed
  with again(3) show ?case by (rule merge_ok_start)
qed

lemma history_returned:
  assumes "merge_history env m w cps x s" "writer_ok w" "g_pc s = M_Return r"
  shows "merge_inv env m w cps x s"
  using merge_okD(3) [OF history_inv [OF assms(1,2)]] assms(3) by (simp add: saving_def)


section \<open>Properties\<close>

lemma written_ok_all:
  assumes "written_ok env c (length (mf_Segments c)) d"
  shows "int (length d) = sint (mf_TotalSize c)"
    "\<forall>sg\<in>set (mf_Segments c). loads (en_gunzip env) (en_source env) sg (seg_slice sg d)"
    "\<forall>p<length d. (\<forall>sg\<in>set (mf_Segments c). \<not> inside sg p) \<longrightarrow> d ! p = 0"
  using assms by (force simp: written_ok_def in_set_conv_nth)+

lemma published_Output:
  assumes "published env w r s"
  obtains d where "Output (mf_FileID (g_compiled s)) (g_writer s) = Some (d, r)"
    "written_ok env (g_compiled s) (length (mf_Segments (g_compiled s))) d"
    "rc_Digest r = Digest d" "rc_Size r = mf_TotalSize (g_compiled s)"
    "rc_FileID r = mf_FileID (g_compiled s)"
  using assms by (auto simp: published_def Output_def)

lemma Output_cong:
  "mw_data w' f = mw_data w f \<Longrightarrow> mw_outputs w' f = mw_outputs w f \<Longrightarrow> Output f w' = Output f w"
  by (simp add: Output_def)

lemma published_other:
  "published env w r s \<Longrightarrow> f \<noteq> mf_FileID (g_compiled s) \<Longrightarrow> Output f (g_writer s) = Output f w"
  by (rule Output_cong) (auto simp: published_def)

lemma others_kept:
  assumes "dropped w cps x s \<or> abandoned env w cps x s \<or> stranded env w cps x s"
    "f \<noteq> mf_FileID (g_compiled s)"
  shows "Output f (g_writer s) = Output f w \<and> g_index s f = x f \<and> g_checkpoints s f = cps f"
  using assms published_other [of env w _ s f] Output_cong [of "g_writer s" f w]
  by (auto simp: dropped_def abandoned_def paused_def stranded_def untouched_def saved_def)

text \<open>
  C1: When \<open>Merge\<close> returns a result, for any number of workers, any schedule of the
  goroutines, and any number of earlier runs that were stopped in the middle and resumed, the
  output of the file has exactly the declared size, each segment's range holds bytes that the
  source delivered for it and that passed its SHA-256, every byte outside the segments is zero,
  the digest returned is the SHA-256 of those bytes, the index holds the receipt, the
  checkpoint is gone, and nothing of another file has changed.
\<close>
theorem merge_publishes:
  assumes "merge_history env m w cps x s" "writer_ok w" "g_pc s = M_Return (Inr res)"
  shows "\<exists>c d r. CompileManifest m = Inr c
    \<and> Output (mf_FileID c) (g_writer s) = Some (d, r)
    \<and> int (length d) = sint (mf_TotalSize c)
    \<and> (\<forall>sg\<in>set (mf_Segments c). loads (en_gunzip env) (en_source env) sg (seg_slice sg d)
         \<and> Digest (seg_slice sg d) = seg_Digest sg)
    \<and> (\<forall>p<length d. (\<forall>sg\<in>set (mf_Segments c). \<not> inside sg p) \<longrightarrow> d ! p = 0)
    \<and> mr_Digest res = Digest d \<and> mr_Size res = mf_TotalSize c
    \<and> mr_SegmentCount res = int (length (mf_Segments c))
    \<and> Index_Get (mf_FileID c) (g_index s) = Some r
    \<and> g_checkpoints s (mf_FileID c) = None
    \<and> (\<forall>f. f \<noteq> mf_FileID c \<longrightarrow> Output f (g_writer s) = Output f w
         \<and> Index_Get f (g_index s) = Index_Get f x \<and> g_checkpoints s f = cps f)"
proof -
  let ?c = "g_compiled s"
  have inv: "merge_inv env m w cps x s" using assms(1-3) by (rule history_returned)
  then obtain r where r: "published env w r s" "g_index s = x(mf_FileID ?c \<mapsto> r)"
    "g_checkpoints s = cps(mf_FileID ?c := None)" "reports r s res"
    using assms(3) by (auto simp: merge_inv_def inv_output_def)
  from r(1) obtain d where d: "Output (mf_FileID ?c) (g_writer s) = Some (d, r)"
    "written_ok env ?c (length (mf_Segments ?c)) d" "rc_Digest r = Digest d"
    "rc_Size r = mf_TotalSize ?c"
    by (rule published_Output) blast
  have "CompileManifest m = Inr ?c" using inv by (simp add: merge_inv_def)
  then show ?thesis
    using d r(2-4) written_ok_all [OF d(2)] loads_verified(2) published_other [OF r(1)]
    by (intro exI [of _ ?c] exI [of _ d] exI [of _ r]) (auto simp: Index_Get_def reports_def)
qed

lemma demo_history: "merge_history demo_env demo_manifest NewMemoryWriter NewMemoryCheckpoints
    NewMemoryIndex (demo_state 1 64)"
  by (rule merge_history.first [of _ _ 1 None None "NewByteBudget 64"])
    (simp add: NewMemoryCheckpoints_def, rule demo_start, simp_all)

theorem merge_publishes_witness:
  "\<exists>s res d r. merge_run demo_env (one_segment @ one_segment @ publish) (demo_state 1 64) = Some s
     \<and> g_pc s = M_Return (Inr res) \<and> Output ''demo'' (g_writer s) = Some (d, r)
     \<and> length d = 11 \<and> mr_Digest res = Digest d"
proof -
  obtain s res where s: "merge_run demo_env (one_segment @ one_segment @ publish) (demo_state 1 64) = Some s"
    "g_pc s = M_Return (Inr res)" using demo_publishes by blast
  have tot: "sint (mf_TotalSize demo_manifest) = 11" by (simp add: demo_defs)
  show ?thesis
    using merge_publishes [OF merge_history.steps [OF demo_history s(1)] writer_ok_new s(2)] s tot
    by (auto simp: demo_compiled)
qed

text \<open>
  C3: When \<open>Merge\<close> returns an error after its session was opened (an error of \<open>Load\<close>,
  \<open>BuildPlan\<close> or \<open>Begin\<close> returns before that), no output, index entry or checkpoint of another
  file has changed, the error is never one about the merger's own session or results
  (\<open>ErrWriterState\<close>; a refused write wraps the context's error), and the file is in one of three
  states: the draft is dropped, the checkpoint cleared and nothing published; or the context was
  cancelled before the commit, and the draft with every segment in it and its checkpoint are still
  there; or it was cancelled after the commit, and the file is published while the checkpoint remains.
\<close>
theorem merge_failure:
  assumes "merge_history env m w cps x s" "writer_ok w" "g_pc s = M_Return (Inl e)"
  shows "merge_error e
    \<and> (dropped w cps x s
       \<or> (\<exists>cx. e = CtxErr cx) \<and> abandoned env w cps x s
       \<or> (\<exists>cx. e = CtxErr cx) \<and> stranded env w cps x s)
    \<and> (\<forall>f. f \<noteq> mf_FileID (g_compiled s) \<longrightarrow> Output f (g_writer s) = Output f w \<and> g_index s f = x f
         \<and> g_checkpoints s f = cps f)"
proof -
  have "merge_inv env m w cps x s" using assms(1-3) by (rule history_returned)
  then have *: "merge_error e" "dropped w cps x s
       \<or> ((\<exists>cx. e = CtxErr cx) \<and> (abandoned env w cps x s \<or> stranded env w cps x s))"
    using assms(3) by (auto simp: merge_inv_def inv_output_def)
  then show ?thesis using others_kept [of w cps x s env] by blast
qed

theorem merge_failure_witness:
  "\<exists>s. merge_run demo_env save_refused (demo_state 1 64) = Some s
     \<and> g_pc s = M_Return (Inl (CtxErr Canceled))
     \<and> dropped NewMemoryWriter NewMemoryCheckpoints NewMemoryIndex s"
proof -
  obtain s where s: "merge_run demo_env save_refused (demo_state 1 64) = Some s"
    "g_pc s = M_Return (Inl (CtxErr Canceled))" "g_next s = 1" using demo_save_refused by blast
  note hist = merge_history.steps [OF demo_history s(1)]
  have "g_compiled s = demo_manifest"
    using history_returned [OF hist writer_ok_new s(2)] demo_compiled by (simp add: merge_inv_def)
  with s(3) have "\<not> abandoned e w cps x s" "\<not> stranded e w cps x s" for e w cps x
    by (auto simp: abandoned_def stranded_def published_def)
  with merge_failure [OF hist writer_ok_new s(2)] s show ?thesis by blast
qed

lemma merge_run_budget:
  assumes "Merge_start n cx1 cx2 m b w cps x = Inr s0" "budget_ok b" "live b = {}"
    "merge_run env ls s0 = Some s"
  shows "inv_phase (settled s)" "inv_budget (settled s)"
proof -
  let ?P = "\<lambda>s. inv_entries s \<and> inv_phase s \<and> inv_budget s"
  have "?P (settled s0)"
    using Merge_start_inv [OF assms(1)] Merge_start_not_saving [OF assms(1)] assms(2,3) by simp
  with turns_run [of ?P, OF _ assms(4) Merge_start_turn_ok [OF assms(1)]] have "?P (settled s)"
    by (blast intro: inv_entries_move inv_phase_move inv_budget_move)
  then show "inv_phase (settled s)" "inv_budget (settled s)" by auto
qed

text \<open>
  C2: In every state of a merge the decoded bytes that are counted resident, their recorded
  peak included, stay within the byte budget, and when \<open>Merge\<close> has returned, with a result or
  with any error, every lease has been given back: nothing is reserved and nothing resident.
\<close>
theorem merge_within_budget:
  assumes "Merge_start n cx1 cx2 m b w cps x = Inr s0" "budget_ok b" "live b = {}"
    "merge_run env ls s0 = Some s"
  shows "sint (bb_resident (g_budget s)) \<le> sint (bb_reserved (g_budget s))
    \<and> sint (bb_reserved (g_budget s)) \<le> sint (Limit (g_budget s))
    \<and> sint (PeakResident (g_budget s)) \<le> sint (Limit (g_budget s))
    \<and> (\<forall>r. g_pc s = M_Return r \<longrightarrow>
         sint (bb_reserved (g_budget s)) = 0 \<and> sint (bb_resident (g_budget s)) = 0
         \<and> (\<forall>l<length (bb_leases (g_budget s)). bl_released (bb_leases (g_budget s) ! l)))"
proof -
  note inv = merge_run_budget [OF assms]
  have ok: "budget_ok (g_budget s)" using inv(2) by (simp add: inv_budget_def)
  have "live (g_budget s) = {}" if "g_pc s = M_Return r" for r
  proof -
    have set: "settled s = s" using that by (simp add: saving_def)
    then have "g_pending s = []" "g_results s = []" "results_closed s"
      using inv(1) that by (auto simp: phase_defs)
    then have "(\<Sum>w\<leftarrow>g_workers s. worker_leases w) = {#}"
      by (intro sum_list_no_token) (auto simp: results_closed_def list_all_iff)
    then have "held s = {#}" using \<open>g_pending s = []\<close> \<open>g_results s = []\<close> by (simp add: held_def)
    with inv(2) set show ?thesis by (simp add: inv_budget_def mset_set_empty_iff)
  qed
  then show ?thesis
    using budget_ok_bounds [OF ok] ok live_empty [OF ok]
    by (auto simp: budget_ok_def Limit_def PeakResident_def live_def)
qed

theorem merge_within_budget_witness:
  "\<exists>s. merge_run demo_env save_refused (demo_state 1 64) = Some s
     \<and> g_pc s = M_Return (Inl (CtxErr Canceled)) \<and> sint (bb_reserved (g_budget s)) = 0"
proof -
  have start: "Merge_start 1 None None demo_manifest (NewByteBudget 64) NewMemoryWriter
      NewMemoryCheckpoints NewMemoryIndex = Inr (demo_state 1 64)"
    by (rule demo_start) simp_all
  have "live (NewByteBudget 64) = {}" by (simp add: live_def NewByteBudget_def)
  then show ?thesis
    using merge_within_budget [OF start budget_ok_new] demo_save_refused by blast
qed

lemma written_unique:
  assumes "CompileManifest m = Inr c" "en_source env = MemorySource_Open data"
    "written_ok env c (length (mf_Segments c)) d" "written_ok env c (length (mf_Segments c)) d'"
  shows "d = d'"
proof (rule nth_equalityI)
  note a = written_ok_all [OF assms(3)] and b = written_ok_all [OF assms(4)]
  show len: "length d = length d'" using a(1) b(1) by linarith
  fix p assume p: "p < length d"
  show "d ! p = d' ! p"
  proof (cases "\<exists>sg\<in>set (mf_Segments c). inside sg p")
    case True
    then obtain sg where sg: "sg \<in> set (mf_Segments c)" "inside sg p" by blast
    then have "loads (en_gunzip env) (MemorySource_Open data) sg (seg_slice sg d)"
      "loads (en_gunzip env) (MemorySource_Open data) sg (seg_slice sg d')"
      using a(2) b(2) assms(2) by auto
    then have same: "seg_slice sg d = seg_slice sg d'" by (auto dest!: loads_memory)
    have ok: "seg_ok (mf_TotalSize c) sg"
      using compiled_layout(6) [OF assms(1)] sg(1) by (auto simp: list_all_iff)
    define k where "k = p - nat (sint (seg_Offset sg))"
    have k: "k < nat (sint (seg_LogicalSize sg))" "nat (sint (seg_Offset sg)) + k = p"
      using sg(2) seg_ok_sizes [OF ok] by (auto simp: k_def inside_def seg_start_def seg_end_def)
    show ?thesis
      using seg_slice_nth [OF ok a(1) k(1)] seg_slice_nth [OF ok b(1) k(1)] same k(2) by simp
  next
    case False
    then show ?thesis using a(3) b(3) p len by auto
  qed
qed

text \<open>
  C8: The file does not depend on the schedule: two merges of the same manifest from the same
  memory source that return a result, with any number of workers, any interleaving, any budget and
  any interruptions, publish the same bytes and the same receipt.
\<close>
theorem merge_deterministic:
  assumes "merge_history env m w cps x s" "writer_ok w" "g_pc s = M_Return (Inr res)"
    "merge_history env m w' cps' x' s'" "writer_ok w'" "g_pc s' = M_Return (Inr res')"
    "en_source env = MemorySource_Open data"
  shows "\<exists>c out. CompileManifest m = Inr c
    \<and> Output (mf_FileID c) (g_writer s) = Some out \<and> Output (mf_FileID c) (g_writer s') = Some out"
proof -
  have inv: "merge_inv env m w cps x s" "merge_inv env m w' cps' x' s'"
    using assms history_returned by blast+
  then obtain r r' where r: "published env w r s" "published env w' r' s'"
    using assms(3,6) by (auto simp: merge_inv_def inv_output_def)
  have c: "g_compiled s' = g_compiled s" "CompileManifest m = Inr (g_compiled s)"
    using inv by (simp_all add: merge_inv_def)
  from r obtain d d' where d:
    "written_ok env (g_compiled s) (length (mf_Segments (g_compiled s))) d"
    "written_ok env (g_compiled s) (length (mf_Segments (g_compiled s))) d'"
    "Output (mf_FileID (g_compiled s)) (g_writer s) = Some (d, r)"
    "Output (mf_FileID (g_compiled s)) (g_writer s') = Some (d', r')"
    "r = \<lparr>rc_FileID = mf_FileID (g_compiled s), rc_Version = mf_Version (g_compiled s),
          rc_Size = mf_TotalSize (g_compiled s), rc_Digest = Digest d\<rparr>"
    "r' = \<lparr>rc_FileID = mf_FileID (g_compiled s), rc_Version = mf_Version (g_compiled s),
          rc_Size = mf_TotalSize (g_compiled s), rc_Digest = Digest d'\<rparr>"
    using c(1) by (auto simp: published_def Output_def)
  have "d = d'" using written_unique [OF c(2) assms(7) d(1,2)] .
  with d c show ?thesis by auto
qed


lemma demo_history_2: "merge_history demo_env demo_manifest NewMemoryWriter NewMemoryCheckpoints
    NewMemoryIndex (demo_state 2 64)"
  by (rule merge_history.first [of _ _ 2 None None "NewByteBudget 64"])
    (simp add: NewMemoryCheckpoints_def, rule demo_start, simp_all)

theorem merge_deterministic_witness:
  "\<exists>s s' out. merge_run demo_env (one_segment @ one_segment @ publish) (demo_state 1 64) = Some s
     \<and> merge_run demo_env out_of_order (demo_state 2 64) = Some s'
     \<and> Output ''demo'' (g_writer s) = Some out \<and> Output ''demo'' (g_writer s') = Some out"
proof -
  obtain s res where s: "merge_run demo_env (one_segment @ one_segment @ publish) (demo_state 1 64) = Some s"
    "g_pc s = M_Return (Inr res)" using demo_publishes by blast
  obtain s' res' where s': "merge_run demo_env out_of_order (demo_state 2 64) = Some s'"
    "g_pc s' = M_Return (Inr res')" using demo_out_of_order by blast
  have src: "en_source demo_env = MemorySource_Open (NewMemorySource
     [''part-1'' \<mapsto> demo_first, ''part-2'' \<mapsto> demo_second])"
    by (simp add: demo_env_def demo_source_def)
  show ?thesis
    using merge_deterministic [OF merge_history.steps [OF demo_history s(1)] writer_ok_new s(2)
        merge_history.steps [OF demo_history_2 s'(1)] writer_ok_new s'(2) src] s s'
    by (auto simp: demo_compiled)
qed


section \<open>Stopping and starting again\<close>

text \<open>What a call finds in the stores a merge left.\<close>

lemma Merge_start_checkpoint:
  assumes "CompileManifest m = Inr c" "cps (mf_FileID c) = Some k" "resumable c k"
    "Begin None (plan_from c (cp_NextOrdinal k) (cp_SessionID k)) w = (r, w')"
  shows "Merge_start n None None m b w cps x =
    (case r of
       Inl e \<Rightarrow> Inl (e, w')
     | Inr session \<Rightarrow> Inr \<lparr>g_compiled = c, g_plan = plan_from c (cp_NextOrdinal k) (cp_SessionID k),
          g_found = True, g_ctx = None, g_wctx = None,
          g_jobs = pl_Entries (plan_from c (cp_NextOrdinal k) (cp_SessionID k)),
          g_workers = loadAll_workers n (pl_Entries (plan_from c (cp_NextOrdinal k) (cp_SessionID k))),
          g_results = [], g_budget = b, g_writer = w', g_session = session, g_checkpoints = cps,
          g_index = x, g_pending = [], g_next = cp_NextOrdinal k, g_pc = M_Recv\<rparr>)"
  using assms BuildPlan_compiled(2) [OF compiled_again [OF assms(1)], of k]
  by (cases r) (simp_all add: Merge_start_def Checkpoints_Load_def compiled_again
      BuildPlan_compiled(2) [OF assms(1)])

lemma saved_resumable:
  assumes "plan_ok s" "g_next s \<noteq> 0"
  shows "\<exists>k. saved_point s = Some k \<and> resumable (g_compiled s) k \<and> cp_NextOrdinal k = g_next s
    \<and> cp_SessionID k = ss_id (g_session s)"
  using assms by (auto simp: saved_point_def resumable_def Matches_def plan_ok_def Let_def)

text \<open>
  C4: A merge that has written at least one segment and saved its checkpoint can be stopped at any
  point of its loop, or before its commit, and resumed: the next call of \<open>Merge\<close> finds the
  checkpoint, takes up the draft as it is, hands out exactly the segments from the one the checkpoint
  names on (the next one to write, or the one just written where the checkpoint was not saved yet),
  and the segments it does not load again are in the draft with verified bytes.
\<close>
theorem merge_resumes:
  assumes "merge_history env m w cps x s" "writer_ok w" "running s \<or> saving s \<or> g_pc s = M_Commit"
    "saved_next s \<noteq> 0"
  shows "\<exists>c s'. CompileManifest m = Inr c
    \<and> Merge_start n None None m b (g_writer s) (g_checkpoints s) (g_index s) = Inr s'
    \<and> g_found s' \<and> g_next s' = saved_next s \<and> g_writer s' = g_writer s
    \<and> draft_data (g_session s') (g_writer s') = draft_data (g_session s) (g_writer s)
    \<and> map pe_Segment (g_jobs s') = drop (nat (saved_next s)) (mf_Segments c)
    \<and> (\<forall>sg\<in>set (take (nat (saved_next s)) (mf_Segments c)).
         loads (en_gunzip env) (en_source env) sg (seg_slice sg (draft_data (g_session s') (g_writer s'))))"
proof -
  let ?c = "g_compiled s" and ?t = "at_save s"
  have ok: "merge_ok env m w cps x s" using assms(1,2) by (rule history_inv)
  have c: "CompileManifest m = Inr ?c" using merge_okD(2) [OF ok] .
  note p = merge_ok_stopped [OF ok assms(3)]
  have t: "g_compiled ?t = ?c" "g_next ?t = saved_next s" "g_session ?t = g_session s"
    "g_writer ?t = g_writer s" "g_checkpoints ?t = g_checkpoints s" by (simp_all add: at_save_def)
  obtain k where k: "saved_point ?t = Some k" "resumable ?c k" "cp_NextOrdinal k = saved_next s"
    "cp_SessionID k = ss_id (g_session s)"
    using saved_resumable [OF p(3)] assms(4) t by auto
  have live: "draft_live env ?t" using p(1) by (simp add: paused_def)
  then have "ss_id (g_session s) \<noteq> []"
    using p(2) t by (metis draft_live_def session_id_nonempty session_live_def writer_ok_def)
  then have "Begin None (plan_from ?c (saved_next s) (ss_id (g_session s))) (g_writer s)
      = (Inr (g_session s), g_writer s)"
    using live by (auto simp: t Begin_def Let_def draft_live_def session_live_def written_ok_def
        draft_data_def)
  moreover have "g_checkpoints s (mf_FileID ?c) = Some k"
    using p(1) k(1) t by (simp add: paused_def saved_def)
  moreover have "0 \<le> saved_next s" using p(3) t by (simp add: plan_ok_def)
  ultimately show ?thesis
    using c k Merge_start_checkpoint [OF c, of "g_checkpoints s" k "g_writer s"] live
    by (auto simp: t plan_entries_segments draft_live_def written_ok_def in_set_conv_nth)
qed

theorem merge_resumes_witness:
  "\<exists>s s'. merge_run demo_env one_segment (demo_state 1 64) = Some s
     \<and> Merge_start 2 None None demo_manifest (NewByteBudget 64) (g_writer s) (g_checkpoints s)
         (g_index s) = Inr s'
     \<and> g_next s' = 1 \<and> map pe_Segment (g_jobs s') = [raw_segment ''part-2'' 6 demo_second]"
proof -
  obtain s where s: "merge_run demo_env one_segment (demo_state 1 64) = Some s" "g_pc s = M_Recv"
    "g_next s = 1" using demo_one_segment by blast
  then have "running s" "saved_next s = 1" by (simp_all add: running_def saved_next_def)
  moreover have "drop 1 (mf_Segments demo_manifest) = [raw_segment ''part-2'' 6 demo_second]"
    by (simp add: demo_manifest_def)
  ultimately show ?thesis
    using merge_resumes [where n = 2 and b = "NewByteBudget 64",
        OF merge_history.steps [OF demo_history s(1)] writer_ok_new] s
    by (auto simp: demo_compiled)
qed

text \<open>
  C10: A merge whose context is cancelled between its commit and the end has published the
  file and failed, and from then on every call of \<open>Merge\<close> for the manifest fails: the
  checkpoint that was not cleared names a session that the commit closed, \<open>Begin\<close> refuses it,
  and that early return clears nothing.
\<close>
theorem merge_stranded:
  assumes "merge_history env m w cps x s" "writer_ok w" "g_pc s = M_Return (Inl e)"
    "stranded env w cps x s" "mf_Segments (g_compiled s) \<noteq> []"
  shows "Merge_start n None None m b (g_writer s) (g_checkpoints s) (g_index s)
    = Inl (ErrWriterState (ResumeSession (ss_id (g_session s))), g_writer s)"
proof -
  let ?c = "g_compiled s"
  have inv: "merge_inv env m w cps x s" using assms(1-3) by (rule history_returned)
  then have c: "CompileManifest m = Inr ?c" and plan: "plan_ok s"
    by (simp_all add: merge_inv_def inv_entries_def)
  obtain r where r: "published env w r s" "saved cps s" using assms(4) by (auto simp: stranded_def)
  then have "g_next s \<noteq> 0" using assms(5) by (simp add: published_def)
  then obtain k where k: "saved_point s = Some k" "resumable ?c k" "cp_NextOrdinal k = g_next s"
    "cp_SessionID k = ss_id (g_session s)"
    using saved_resumable [OF plan] by blast
  have "Begin None (plan_from ?c (g_next s) (ss_id (g_session s))) (g_writer s)
      = (Inl (ErrWriterState (ResumeSession (ss_id (g_session s)))), g_writer s)"
    using r(1) by (simp add: Begin_def published_def)
  moreover have "g_checkpoints s (mf_FileID ?c) = Some k"
    using r(2) k(1) by (simp add: saved_def)
  ultimately show ?thesis
    using k Merge_start_checkpoint [OF c, of "g_checkpoints s" k "g_writer s"] by simp
qed


theorem merge_stranded_witness:
  "\<exists>s sid. merge_run demo_env cancelled_late (demo_state 1 64) = Some s
     \<and> Output ''demo'' (g_writer s) \<noteq> None
     \<and> Merge_start 1 None None demo_manifest (NewByteBudget 64) (g_writer s) (g_checkpoints s)
         (g_index s) = Inl (ErrWriterState (ResumeSession sid), g_writer s)"
proof -
  obtain s where s: "merge_run demo_env cancelled_late (demo_state 1 64) = Some s"
    "g_pc s = M_Return (Inl (CtxErr Canceled))" "Output ''demo'' (g_writer s) \<noteq> None"
    using demo_cancelled_late by blast
  have hist: "merge_history demo_env demo_manifest NewMemoryWriter NewMemoryCheckpoints NewMemoryIndex s"
    using merge_history.steps [OF demo_history s(1)] .
  have inv: "merge_inv demo_env demo_manifest NewMemoryWriter NewMemoryCheckpoints NewMemoryIndex s"
    using history_returned [OF hist writer_ok_new s(2)] .
  have "\<not> untouched NewMemoryWriter s"
    using s(3) Output_cong [of "g_writer s" "''demo''" NewMemoryWriter]
    by (auto simp: untouched_def) (simp add: Output_def NewMemoryWriter_def)
  then have "stranded demo_env NewMemoryWriter NewMemoryCheckpoints NewMemoryIndex s"
    using inv s(2) by (auto simp: merge_inv_def inv_output_def dropped_def abandoned_def paused_def)
  moreover have "g_compiled s = demo_manifest" using inv demo_compiled by (simp add: merge_inv_def)
  ultimately show ?thesis
    using merge_stranded [OF hist writer_ok_new s(2)] s(1,3)
    by (auto simp: demo_manifest_def)
qed

end
