(* ===== verification/Service.thy ===== *)
theory Service
  imports Operation Merges
begin

text \<open>
  \<open>operation/service.go\<close> and \<open>operation/runner.go\<close> as a transition system of concurrent calls.

  A thread is one call in progress. Its program counter names the next section of the code that
  touches shared state, with the local variables that are still live; a step runs that section
  and the code up to the next one. The sections are: one call of the catalog, of the lease manager or
  of the journal, one critical section of \<open>s.mu\<close>, one \<open>sequence.Add\<close>, one reading of a context
  by \<open>Merge\<close>, one step of the merge itself (\<open>Merger.merge_step\<close>). Steps of different threads
  interleave in any order. What a step reads from outside is its input: the clock, what
  the disk did, whether the timer of a \<open>select\<close> has fired.

  The deferred functions of \<open>Run\<close> are the counters \<open>R_Unregister\<close> and \<open>R_Release\<close>, which carry
  the values to be returned. A cancel function in \<open>s.cancels\<close> is the number of the thread whose worker
  context it cancels. Requests and manifests are values, so \<open>cloneRequest\<close> is the value itself.
\<close>

section \<open>The environment\<close>

text \<open>
  The payloads of the events, which \<open>json.Marshal\<close> (a parameter) encodes, and the texts of errors.
\<close>

datatype payload =
    Pay_Accepted string u32 int
  | Pay_Started int u64
  | Pay_Completed commit_receipt i64
  | Pay_Finished failure_class string op_error i64
  | Pay_Cancelled string

record svc_env =
  se_json :: json
  se_gunzip :: gunzip
  se_marshal :: "payload \<Rightarrow> bytes option"
  se_text :: "op_error \<Rightarrow> string"

record step_input =
  in_now :: time
  in_io :: io_result
  in_timer :: bool


section \<open>The service\<close>

record config =
  cf_WorkerID :: string
  cf_PartitionCount :: u32
  cf_LeaseTTL :: i64

text \<open>The interface \<open>journal.Store\<close>, with its two implementations.\<close>

datatype journal_store = MemoryStore memory_store | FileStore file_store

definition Append ::
  "json \<Rightarrow> io_result \<Rightarrow> ctx_error option \<Rightarrow> event \<Rightarrow> journal_store
     \<Rightarrow> (journal_error + envelope) \<times> journal_store" where
  "Append js io cx e j =
     (case j of
        MemoryStore m \<Rightarrow> (let (r, m') = Memory_Append js cx e m in (r, MemoryStore m'))
      | FileStore f \<Rightarrow> (let (r, f') = File_Append js io cx e f in (r, FileStore f')))"

definition journal_Replay ::
  "json \<Rightarrow> (u64 \<Rightarrow> ctx_error option) \<Rightarrow> string \<Rightarrow> journal_store \<Rightarrow> journal_error + replay" where
  "journal_Replay js cx i j =
     (case j of MemoryStore m \<Rightarrow> Memory_Replay js cx i m | FileStore f \<Rightarrow> File_Replay js cx i f)"

record service =
  sv_config :: config
  sv_catalog :: catalog
  sv_journal :: journal_store
  sv_leases :: lease_manager
  sv_admission :: limits
  sv_sequence :: u64
  sv_requests :: "string \<rightharpoonup> request"
  sv_cancels :: "string \<rightharpoonup> nat"

definition NewService ::
  "config \<Rightarrow> catalog option \<Rightarrow> journal_store option \<Rightarrow> lease_manager option \<Rightarrow> limits option \<Rightarrow> service"
  where
  "NewService c recs events leases admission =
     \<lparr>sv_config =
        \<lparr>cf_WorkerID = (if cf_WorkerID c = [] then ''worker-local'' else cf_WorkerID c),
         cf_PartitionCount = (if cf_PartitionCount c = 0 then 64 else cf_PartitionCount c),
         cf_LeaseTTL = (if sint (cf_LeaseTTL c) \<le> 0 then 30 * (1000 * Millisecond) else cf_LeaseTTL c)\<rparr>,
      sv_catalog = (case recs of None \<Rightarrow> New | Some r \<Rightarrow> r),
      sv_journal = (case events of None \<Rightarrow> MemoryStore NewMemoryStore | Some j \<Rightarrow> j),
      sv_leases = (case leases of None \<Rightarrow> NewManager | Some l \<Rightarrow> l),
      sv_admission = (case admission of None \<Rightarrow> NewAdmission DefaultLimits | Some a \<Rightarrow> a),
      sv_sequence = 0, sv_requests = Map.empty, sv_cancels = Map.empty\<rparr>"

definition currentLoad :: "catalog \<Rightarrow> load" where
  "currentLoad c =
     (let counts = Counts c
      in \<lparr>lo_ActiveOperations =
            count_at counts (''state.'' @ StateAccepted) + count_at counts (''state.'' @ StateRunning)
            + count_at counts (''state.'' @ StateRetrying),
          lo_ResidentBytes = 0\<rparr>)"

text \<open>
  The calls that only read: \<open>Replay\<close> fails where no event is found, \<open>Artifact\<close> reads the context
  first.
\<close>

definition Service_Replay ::
  "svc_env \<Rightarrow> (u64 \<Rightarrow> ctx_error option) \<Rightarrow> string \<Rightarrow> service \<Rightarrow> op_error + envelope list" where
  "Service_Replay env cx i sv =
     (case journal_Replay (se_json env) cx i (sv_journal sv) of
        Inl e \<Rightarrow> Inl (JournalFailed e)
      | Inr replay \<Rightarrow> if rp_Events replay = [] then Inl ErrNotFound else Inr (rp_Events replay))"

definition Artifact :: "ctx_error option \<Rightarrow> string \<Rightarrow> service \<Rightarrow> op_error + artifact_record" where
  "Artifact cx fileID sv =
     (case cx of
        Some e \<Rightarrow> Inl (CtxFailed e)
      | None \<Rightarrow>
          (case GetArtifact fileID (sv_catalog sv) of
             Inl e \<Rightarrow> Inl (CatalogFailed e) | Inr a \<Rightarrow> Inr a))"

definition Service_List :: "string \<Rightarrow> int \<Rightarrow> service \<Rightarrow> operation_record list" where
  "Service_List state limit sv = ListOperations state limit (sv_catalog sv)"


section \<open>Threads\<close>

text \<open>\<open>Operation{}\<close> is \<open>None\<close>; the flag is what \<open>Submit\<close> returns beside the operation.\<close>

datatype outcome = Returned "operation option" bool "op_error option"

datatype caller = For_Get | For_Submit | For_Run | For_Cancel | For_Wait

datatype pc =
    P_Get caller string
  | P_Request caller string operation_record
  | S_Admit request
  | S_Number request
  | S_Create operation request
  | S_Store operation request u64
  | S_Append operation u64
  | S_Fail operation u64 op_error
  | R_Acquire operation
  | R_Start operation lease
  | R_Update operation lease time u64
  | R_Started operation lease time u64
  | R_Register operation lease u64
  | R_Admit operation lease u64 request
  | R_Load operation lease u64 request decision
  | R_Begin operation lease u64 request decision "ctx_error option"
  | R_Merge operation lease u64 request merge_state
  | R_Complete operation lease u64 request merge_result
  | R_Artifact operation lease operation_record request merge_result
  | R_Completed operation lease operation_record request merge_result
  | R_Fail operation lease u64 op_error failure_class bool
  | R_Failed operation operation lease operation_record op_error retry_decision bool
  | R_Unregister lease string outcome
  | R_Release lease outcome
  | C_Read operation
  | C_Update operation operation time u64
  | C_Signal operation operation_record time
  | C_Append operation operation_record time
  | W_Delay time
  | W_Select time
  | Q_List int
  | Q_Next
  | Q_Finished
  | Done outcome

record thread =
  th_ctx :: "ctx_error option"
  th_wctx :: "ctx_error option"
  th_pc :: pc
  th_batch :: bool
  th_todo :: "string list"
  th_current :: string
  th_errors :: "(string \<times> op_error) list"

abbreviation failed :: "op_error \<Rightarrow> outcome" where
  "failed e \<equiv> Returned None False (Some e)"

text \<open>\<open>event, _ := NewEvent(...)\<close>: the zero event where it fails.\<close>

definition event_of :: "svc_env \<Rightarrow> string \<Rightarrow> string \<Rightarrow> time \<Rightarrow> payload \<Rightarrow> event" where
  "event_of env i kind at p =
     (case NewEvent i kind at (se_marshal env p) of Inl _ \<Rightarrow> zero_event | Inr e \<Rightarrow> e)"

definition append_event ::
  "svc_env \<Rightarrow> step_input \<Rightarrow> ctx_error option \<Rightarrow> event \<Rightarrow> service \<Rightarrow> op_error option \<times> service" where
  "append_event env inp cx e sv =
     (case Append (se_json env) (in_io inp) cx e (sv_journal sv) of
        (Inl er, j) \<Rightarrow> (Some (JournalFailed er), sv\<lparr>sv_journal := j\<rparr>)
      | (Inr _, j) \<Rightarrow> (None, sv\<lparr>sv_journal := j\<rparr>))"

definition update_record ::
  "operation \<Rightarrow> u64 \<Rightarrow> service \<Rightarrow> (op_error + operation_record) \<times> service" where
  "update_record op revision sv =
     (case Update (toRecord op) revision (sv_catalog sv) of
        (Inl e, c) \<Rightarrow> (Inl (CatalogFailed e), sv\<lparr>sv_catalog := c\<rparr>)
      | (Inr r, c) \<Rightarrow> (Inr r, sv\<lparr>sv_catalog := c\<rparr>))"


subsection \<open>Get\<close>

text \<open>\<open>Get\<close>, and what each of its callers does with the operation it returns.\<close>

definition got :: "caller \<Rightarrow> operation \<Rightarrow> pc" where
  "got k op =
     (case k of
        For_Get \<Rightarrow> Done (Returned (Some op) False None)
      | For_Submit \<Rightarrow> Done (Returned (Some op) False None)
      | For_Run \<Rightarrow>
          if \<not> CanStart op
          then Done (failed (if Terminal op then ErrTerminal else CannotStart (op_State op)))
          else R_Acquire op
      | For_Cancel \<Rightarrow> if Terminal op then Done (failed ErrTerminal) else C_Read op
      | For_Wait \<Rightarrow>
          (case op_RetryAt op of
             None \<Rightarrow> Done (failed NotScheduled)
           | Some t \<Rightarrow> if op_State op \<noteq> StateRetrying then Done (failed NotScheduled) else W_Delay t))"

definition get_step :: "ctx_error option \<Rightarrow> caller \<Rightarrow> string \<Rightarrow> service \<Rightarrow> pc" where
  "get_step cx k i sv =
     (case cx of
        Some e \<Rightarrow> Done (failed (CtxFailed e))
      | None \<Rightarrow>
          (case GetOperation i (sv_catalog sv) of
             Inl e \<Rightarrow> Done (failed (if e = ErrOperationNotFound then ErrNotFound else CatalogFailed e))
           | Inr record \<Rightarrow> P_Request k i record))"

definition request_step :: "caller \<Rightarrow> string \<Rightarrow> operation_record \<Rightarrow> service \<Rightarrow> pc" where
  "request_step k i record sv =
     (case sv_requests sv i of
        None \<Rightarrow> Done (failed PayloadUnavailable)
      | Some request \<Rightarrow> got k (fromRecord record (rq_Manifest request)))"


subsection \<open>Submit\<close>

definition submit_admit :: "request \<Rightarrow> service \<Rightarrow> pc" where
  "submit_admit request sv =
     (case Validate request of
        Some e \<Rightarrow> Done (failed e)
      | None \<Rightarrow>
          (let d = Evaluate (sv_admission sv) (rq_Manifest request) (currentLoad (sv_catalog sv))
           in if \<not> de_Allowed d then Done (failed (ErrRejected (de_Reason d))) else S_Number request))"

definition submit_operation :: "config \<Rightarrow> time \<Rightarrow> u64 \<Rightarrow> request \<Rightarrow> operation" where
  "submit_operation c now seq request =
     (let part = partition_of (cf_PartitionCount c) (rq_IdempotencyKey request)
      in \<lparr>op_ID = operation_id part seq, op_Partition = part,
          op_IdempotencyKey = rq_IdempotencyKey request, op_Manifest = rq_Manifest request,
          op_State = StateAccepted, op_Attempt = 0, op_Fence = 0, op_Owner = [],
          op_Progress = \<lparr>pg_CompletedSegments = 0,
             pg_TotalSegments = int (length (mf_Segments (rq_Manifest request))),
             pg_LastSegmentID = [], pg_UpdatedAt = now\<rparr>,
          op_Result = None, op_LastError = [], op_CreatedAt = now, op_UpdatedAt = now,
          op_RetryAt = None, op_Metadata = Map.empty\<rparr>)"

definition submit_number :: "time \<Rightarrow> request \<Rightarrow> service \<Rightarrow> pc \<times> service" where
  "submit_number now request sv =
     (let sv' = sv\<lparr>sv_sequence := sv_sequence sv + 1\<rparr>
      in (S_Create (submit_operation (sv_config sv) now (sv_sequence sv') request) request, sv'))"

definition submit_create :: "operation \<Rightarrow> request \<Rightarrow> service \<Rightarrow> pc \<times> service" where
  "submit_create op request sv =
     (case Create (toRecord op) (sv_catalog sv) of
        (Inl e, c) \<Rightarrow> (Done (failed (CatalogFailed e)), sv\<lparr>sv_catalog := c\<rparr>)
      | (Inr (stored, created), c) \<Rightarrow>
          (if created then S_Store op request (or_Revision stored) else P_Get For_Submit (or_ID stored),
           sv\<lparr>sv_catalog := c\<rparr>))"

definition submit_append ::
  "svc_env \<Rightarrow> step_input \<Rightarrow> ctx_error option \<Rightarrow> operation \<Rightarrow> u64 \<Rightarrow> service \<Rightarrow> pc \<times> service" where
  "submit_append env inp cx op revision sv =
     (case append_event env inp cx
             (event_of env (op_ID op) ''accepted'' (op_CreatedAt op)
               (Pay_Accepted (mf_FileID (op_Manifest op)) (op_Partition op)
                  (int (length (mf_Segments (op_Manifest op)))))) sv of
        (None, sv') \<Rightarrow> (Done (Returned (Some op) True None), sv')
      | (Some e, sv') \<Rightarrow>
          (case transition op StateFailed (op_CreatedAt op) of
             Inl _ \<Rightarrow> (Done (failed e), sv')
           | Inr f \<Rightarrow> (S_Fail (f\<lparr>op_LastError := se_text env e\<rparr>) revision e, sv')))"


subsection \<open>Run\<close>

definition run_acquire :: "time \<Rightarrow> operation \<Rightarrow> service \<Rightarrow> pc \<times> service" where
  "run_acquire now op sv =
     (case Lease_Acquire now (''merge/'' @ mf_FileID (op_Manifest op)) (cf_WorkerID (sv_config sv))
             (cf_LeaseTTL (sv_config sv)) (sv_leases sv) of
        (Inl e, m) \<Rightarrow> (Done (failed (LeaseFailed e)), sv\<lparr>sv_leases := m\<rparr>)
      | (Inr l, m) \<Rightarrow> (R_Start op l, sv\<lparr>sv_leases := m\<rparr>))"

definition run_start :: "time \<Rightarrow> operation \<Rightarrow> lease \<Rightarrow> service \<Rightarrow> pc" where
  "run_start now op l sv =
     (case transition op StateRunning now of
        Inl e \<Rightarrow> R_Release l (failed e)
      | Inr r \<Rightarrow>
          (let run = r\<lparr>op_Attempt := op_Attempt r + 1, op_Fence := le_Fence l, op_Owner := le_Owner l\<rparr>
           in case GetOperation (op_ID op) (sv_catalog sv) of
                Inl e \<Rightarrow> R_Release l (failed (CatalogFailed e))
              | Inr record \<Rightarrow> R_Update run l now (or_Revision record)))"

definition run_update :: "operation \<Rightarrow> lease \<Rightarrow> time \<Rightarrow> u64 \<Rightarrow> service \<Rightarrow> pc \<times> service" where
  "run_update run l now revision sv =
     (case update_record run revision sv of
        (Inl e, sv') \<Rightarrow> (R_Release l (failed e), sv')
      | (Inr updated, sv') \<Rightarrow> (R_Started run l now (or_Revision updated), sv'))"

definition stamped :: "operation \<Rightarrow> event \<Rightarrow> event" where
  "stamped op e = e\<lparr>ev_Attempt := op_Attempt op, ev_Fence := op_Fence op\<rparr>"

definition run_started ::
  "svc_env \<Rightarrow> step_input \<Rightarrow> ctx_error option \<Rightarrow> operation \<Rightarrow> lease \<Rightarrow> time \<Rightarrow> u64 \<Rightarrow> service
     \<Rightarrow> pc \<times> service" where
  "run_started env inp cx run l now revision sv =
     (case append_event env inp cx
             (stamped run (event_of env (op_ID run) ''started'' now
                (Pay_Started (op_Attempt run) (op_Fence run)))) sv of
        (Some e, sv') \<Rightarrow> (R_Release l (failed e), sv')
      | (None, sv') \<Rightarrow> (R_Register run l revision, sv'))"

definition run_register :: "nat \<Rightarrow> operation \<Rightarrow> lease \<Rightarrow> u64 \<Rightarrow> service \<Rightarrow> pc \<times> service" where
  "run_register self run l revision sv =
     (R_Admit run l revision
        (case sv_requests sv (op_ID run) of None \<Rightarrow> zero_request | Some r \<Rightarrow> r),
      sv\<lparr>sv_cancels := (sv_cancels sv)(op_ID run \<mapsto> self)\<rparr>)"

definition run_admit :: "operation \<Rightarrow> lease \<Rightarrow> u64 \<Rightarrow> request \<Rightarrow> service \<Rightarrow> pc" where
  "run_admit run l revision request sv =
     (let d = Evaluate (sv_admission sv) (rq_Manifest request) (currentLoad (sv_catalog sv))
      in if \<not> de_Allowed d
         then R_Fail run l revision (ErrRejected (de_Reason d)) FailurePermanent False
         else R_Load run l revision request d)"

definition merge_env_of :: "svc_env \<Rightarrow> request \<Rightarrow> merge_env" where
  "merge_env_of env request =
     \<lparr>en_gunzip = se_gunzip env, en_source = MemorySource_Open (NewMemorySource (rq_Segments request))\<rparr>"

definition merge_failed :: "operation \<Rightarrow> lease \<Rightarrow> u64 \<Rightarrow> sm_error \<Rightarrow> pc" where
  "merge_failed run l revision e =
     R_Fail run l revision (MergeFailed e) (classifyFailure e) True"

text \<open>\<open>NewMergerWithBudget\<close> and \<open>Merge\<close> up to its loop, on stores of its own.\<close>

definition run_begin ::
  "operation \<Rightarrow> lease \<Rightarrow> u64 \<Rightarrow> request \<Rightarrow> decision \<Rightarrow> ctx_error option \<Rightarrow> ctx_error option \<Rightarrow> pc" where
  "run_begin run l revision request d cx1 cx2 =
     (case Merge_start (NewMerger_concurrency (de_Concurrency d)) cx1 cx2 (rq_Manifest request)
             (NewByteBudget (de_MemoryLimit d)) NewMemoryWriter NewMemoryCheckpoints NewMemoryIndex of
        Inl (e, w) \<Rightarrow> merge_failed run l revision e
      | Inr g \<Rightarrow> R_Merge run l revision request g)"

definition run_merged ::
  "time \<Rightarrow> operation \<Rightarrow> lease \<Rightarrow> u64 \<Rightarrow> request \<Rightarrow> merge_state \<Rightarrow> pc option" where
  "run_merged now run l revision request g =
     (case g_pc g of
        M_Return (Inl e) \<Rightarrow> Some (merge_failed run l revision e)
      | M_Return (Inr result) \<Rightarrow>
          Some (case transition run StateCompleted now of
             Inl e \<Rightarrow> R_Unregister l (op_ID run) (failed e)
           | Inr completed \<Rightarrow>
               R_Complete
                 (completed\<lparr>op_Result := Some result,
                    op_Progress := (op_Progress completed)\<lparr>
                       pg_CompletedSegments := int (length (mf_Segments (rq_Manifest request))),
                       pg_UpdatedAt := op_UpdatedAt completed\<rparr>\<rparr>)
                 l revision request result)
      | _ \<Rightarrow> None)"

definition run_complete ::
  "operation \<Rightarrow> lease \<Rightarrow> u64 \<Rightarrow> request \<Rightarrow> merge_result \<Rightarrow> service \<Rightarrow> pc \<times> service" where
  "run_complete completed l revision request result sv =
     (case update_record completed revision sv of
        (Inl e, sv') \<Rightarrow> (R_Unregister l (op_ID completed) (failed e), sv')
      | (Inr record, sv') \<Rightarrow> (R_Artifact completed l record request result, sv'))"

definition receipt_of :: "merge_result \<Rightarrow> commit_receipt" where
  "receipt_of result =
     \<lparr>rc_FileID = mr_FileID result, rc_Version = mr_Version result, rc_Size = mr_Size result,
      rc_Digest = mr_Digest result\<rparr>"

definition run_artifact ::
  "operation \<Rightarrow> lease \<Rightarrow> operation_record \<Rightarrow> request \<Rightarrow> merge_result \<Rightarrow> service \<Rightarrow> pc \<times> service" where
  "run_artifact completed l record request result sv =
     (case PutArtifact \<lparr>ar_Receipt = receipt_of result, ar_OperationID = op_ID completed,
               ar_CommittedAt = op_UpdatedAt completed\<rparr> (sv_catalog sv) of
        (Some e, c) \<Rightarrow>
          (R_Unregister l (op_ID completed) (failed (CatalogFailed e)), sv\<lparr>sv_catalog := c\<rparr>)
      | (None, c) \<Rightarrow> (R_Completed completed l record request result, sv\<lparr>sv_catalog := c\<rparr>))"

definition run_completed ::
  "svc_env \<Rightarrow> step_input \<Rightarrow> ctx_error option \<Rightarrow> operation \<Rightarrow> lease \<Rightarrow> operation_record \<Rightarrow> request
     \<Rightarrow> merge_result \<Rightarrow> service \<Rightarrow> pc \<times> service" where
  "run_completed env inp cx completed l record request result sv =
     (case append_event env inp cx
             (stamped completed (event_of env (op_ID completed) ''completed'' (op_UpdatedAt completed)
                (Pay_Completed (receipt_of result) (mr_PeakResidentBytes result)))) sv of
        (Some e, sv') \<Rightarrow> (R_Unregister l (op_ID completed) (failed e), sv')
      | (None, sv') \<Rightarrow>
          (R_Unregister l (op_ID completed)
             (Returned (Some ((fromRecord record (rq_Manifest request))\<lparr>op_Result := Some result,
                 op_Fence := op_Fence completed, op_Owner := op_Owner completed\<rparr>)) False None),
           sv'))"


subsection \<open>finishFailure\<close>

definition failure_record ::
  "svc_env \<Rightarrow> time \<Rightarrow> operation \<Rightarrow> op_error \<Rightarrow> retry_decision \<Rightarrow> op_error + operation" where
  "failure_record env now run cause d =
     (case transition run (if rd_Retry d then StateRetrying else StateFailed) now of
        Inl e \<Rightarrow> Inl e
      | Inr f \<Rightarrow>
          Inr (let f' = f\<lparr>op_LastError := se_text env cause\<rparr>
               in if rd_Retry d then f'\<lparr>op_RetryAt := Some (now + sint (rd_After d))\<rparr> else f'))"

definition finish_update ::
  "svc_env \<Rightarrow> time \<Rightarrow> operation \<Rightarrow> lease \<Rightarrow> u64 \<Rightarrow> op_error \<Rightarrow> failure_class \<Rightarrow> bool \<Rightarrow> service
     \<Rightarrow> pc \<times> service" where
  "finish_update env now run l revision cause cls background sv =
     (let d = Retry (sv_admission sv) (op_Attempt run) cls
      in case failure_record env now run cause d of
           Inl e \<Rightarrow> (R_Unregister l (op_ID run) (failed e), sv)
         | Inr f \<Rightarrow>
             (case update_record f revision sv of
                (Inl e, sv') \<Rightarrow> (R_Unregister l (op_ID run) (failed e), sv')
              | (Inr updated, sv') \<Rightarrow> (R_Failed run f l updated cause d background, sv')))"

definition finish_append ::
  "svc_env \<Rightarrow> step_input \<Rightarrow> ctx_error option \<Rightarrow> operation \<Rightarrow> operation \<Rightarrow> lease \<Rightarrow> operation_record
     \<Rightarrow> op_error \<Rightarrow> retry_decision \<Rightarrow> bool \<Rightarrow> service \<Rightarrow> pc \<times> service" where
  "finish_append env inp cx run f l updated cause d background sv =
     (case append_event env inp (if background then None else cx)
             (stamped run (event_of env (op_ID run)
                (if rd_Retry d then ''retrying'' else ''failed'') (op_UpdatedAt f)
                (Pay_Finished (rd_Class d) (rd_Reason d) cause (rd_After d)))) sv of
        (Some e, sv') \<Rightarrow> (R_Unregister l (op_ID run) (failed e), sv')
      | (None, sv') \<Rightarrow>
          (R_Unregister l (op_ID run)
             (Returned (Some ((fromRecord updated (op_Manifest run))\<lparr>op_RetryAt := op_RetryAt f,
                 op_Fence := op_Fence run, op_Owner := op_Owner run\<rparr>)) False (Some cause)),
           sv'))"

definition run_unregister :: "lease \<Rightarrow> string \<Rightarrow> outcome \<Rightarrow> service \<Rightarrow> pc \<times> service" where
  "run_unregister l i out sv = (R_Release l out, sv\<lparr>sv_cancels := (sv_cancels sv)(i := None)\<rparr>)"

definition run_release :: "lease \<Rightarrow> outcome \<Rightarrow> service \<Rightarrow> pc \<times> service" where
  "run_release l out sv =
     (Done out,
      sv\<lparr>sv_leases := snd (Lease_Release (le_Resource l) (le_Owner l) (le_Fence l) (sv_leases sv))\<rparr>)"


subsection \<open>Cancel\<close>

definition cancel_read :: "time \<Rightarrow> operation \<Rightarrow> service \<Rightarrow> pc" where
  "cancel_read now op sv =
     (case transition op StateCancelled now of
        Inl e \<Rightarrow> Done (failed e)
      | Inr cancelled \<Rightarrow>
          C_Update op cancelled now
            (case GetOperation (op_ID op) (sv_catalog sv) of
               Inl _ \<Rightarrow> or_Revision zero_record | Inr record \<Rightarrow> or_Revision record))"

definition cancel_update :: "operation \<Rightarrow> operation \<Rightarrow> time \<Rightarrow> u64 \<Rightarrow> service \<Rightarrow> pc \<times> service" where
  "cancel_update op cancelled now revision sv =
     (case update_record cancelled revision sv of
        (Inl e, sv') \<Rightarrow> (Done (failed e), sv')
      | (Inr updated, sv') \<Rightarrow> (C_Signal op updated now, sv'))"

definition cancel_append ::
  "svc_env \<Rightarrow> step_input \<Rightarrow> ctx_error option \<Rightarrow> operation \<Rightarrow> operation_record \<Rightarrow> time \<Rightarrow> service
     \<Rightarrow> pc \<times> service" where
  "cancel_append env inp cx op updated now sv =
     (case append_event env inp cx
             (event_of env (op_ID op) ''cancelled'' now (Pay_Cancelled (op_State op))) sv of
        (Some e, sv') \<Rightarrow> (Done (failed e), sv')
      | (None, sv') \<Rightarrow> (Done (Returned (Some (fromRecord updated (op_Manifest op))) False None), sv'))"


subsection \<open>WaitUntilRetry\<close>

text \<open>\<open>time.Until\<close> reads the system clock, whatever the clock of the service is.\<close>

definition wait_delay :: "time \<Rightarrow> time \<Rightarrow> pc" where
  "wait_delay now t = (if t - now \<le> 0 then Done (Returned None False None) else W_Select t)"

definition wait_select :: "step_input \<Rightarrow> ctx_error option \<Rightarrow> time \<Rightarrow> pc option" where
  "wait_select inp cx t =
     (if in_timer inp
      then (if t \<le> in_now inp then Some (Done (Returned None False None)) else None)
      else (case cx of None \<Rightarrow> None | Some e \<Rightarrow> Some (Done (failed (CtxFailed e)))))"


section \<open>The steps\<close>

text \<open>
  One section of a call: the next counter, the service, and the thread whose cancel
  function was called. \<open>None\<close> where the thread is blocked or has returned.
\<close>

fun call_step ::
  "svc_env \<Rightarrow> step_input \<Rightarrow> nat \<Rightarrow> ctx_error option \<Rightarrow> ctx_error option \<Rightarrow> pc \<Rightarrow> service
     \<Rightarrow> ((pc \<times> service) \<times> nat option) option" where
  "call_step env inp self cx wcx (P_Get k i) sv = Some ((get_step cx k i sv, sv), None)"
| "call_step env inp self cx wcx (P_Request k i r) sv = Some ((request_step k i r sv, sv), None)"
| "call_step env inp self cx wcx (S_Admit rq) sv = Some ((submit_admit rq sv, sv), None)"
| "call_step env inp self cx wcx (S_Number rq) sv = Some (submit_number (in_now inp) rq sv, None)"
| "call_step env inp self cx wcx (S_Create p rq) sv = Some (submit_create p rq sv, None)"
| "call_step env inp self cx wcx (S_Store p rq n) sv =
     Some ((S_Append p n, sv\<lparr>sv_requests := (sv_requests sv)(op_ID p \<mapsto> rq)\<rparr>), None)"
| "call_step env inp self cx wcx (S_Append p n) sv = Some (submit_append env inp cx p n sv, None)"
| "call_step env inp self cx wcx (S_Fail p n e) sv =
     Some ((Done (failed e), snd (update_record p n sv)), None)"
| "call_step env inp self cx wcx (R_Acquire p) sv = Some (run_acquire (in_now inp) p sv, None)"
| "call_step env inp self cx wcx (R_Start p l) sv = Some ((run_start (in_now inp) p l sv, sv), None)"
| "call_step env inp self cx wcx (R_Update p l t n) sv = Some (run_update p l t n sv, None)"
| "call_step env inp self cx wcx (R_Started p l t n) sv =
     Some (run_started env inp cx p l t n sv, None)"
| "call_step env inp self cx wcx (R_Register p l n) sv = Some (run_register self p l n sv, None)"
| "call_step env inp self cx wcx (R_Admit p l n rq) sv = Some ((run_admit p l n rq sv, sv), None)"
| "call_step env inp self cx wcx (R_Load p l n rq d) sv =
     Some ((R_Begin p l n rq d wcx, sv), None)"
| "call_step env inp self cx wcx (R_Begin p l n rq d cx1) sv =
     Some ((run_begin p l n rq d cx1 wcx, sv), None)"
| "call_step env inp self cx wcx (R_Merge p l n rq g) sv =
     map_option (\<lambda>c. ((c, sv), None)) (run_merged (in_now inp) p l n rq g)"
| "call_step env inp self cx wcx (R_Complete p l n rq res) sv =
     Some (run_complete p l n rq res sv, None)"
| "call_step env inp self cx wcx (R_Artifact p l r rq res) sv =
     Some (run_artifact p l r rq res sv, None)"
| "call_step env inp self cx wcx (R_Completed p l r rq res) sv =
     Some (run_completed env inp cx p l r rq res sv, None)"
| "call_step env inp self cx wcx (R_Fail p l n e c bg) sv =
     Some (finish_update env (in_now inp) p l n e c bg sv, None)"
| "call_step env inp self cx wcx (R_Failed p f l r e d bg) sv =
     Some (finish_append env inp cx p f l r e d bg sv, None)"
| "call_step env inp self cx wcx (R_Unregister l i out) sv = Some (run_unregister l i out sv, Some self)"
| "call_step env inp self cx wcx (R_Release l out) sv = Some (run_release l out sv, None)"
| "call_step env inp self cx wcx (C_Read p) sv = Some ((cancel_read (in_now inp) p sv, sv), None)"
| "call_step env inp self cx wcx (C_Update p q t n) sv = Some (cancel_update p q t n sv, None)"
| "call_step env inp self cx wcx (C_Signal p r t) sv =
     Some ((C_Append p r t, sv), sv_cancels sv (op_ID p))"
| "call_step env inp self cx wcx (C_Append p r t) sv = Some (cancel_append env inp cx p r t sv, None)"
| "call_step env inp self cx wcx (W_Delay t) sv = Some ((wait_delay (in_now inp) t, sv), None)"
| "call_step env inp self cx wcx (W_Select t) sv =
     map_option (\<lambda>c. ((c, sv), None)) (wait_select inp cx t)"
| "call_step env inp self cx wcx _ sv = None"

text \<open>Cancelling the worker context reaches the merge that runs under it.\<close>

definition first_error :: "ctx_error \<Rightarrow> ctx_error option \<Rightarrow> ctx_error option" where
  "first_error e cx = (case cx of None \<Rightarrow> Some e | Some e' \<Rightarrow> Some e')"

definition cancel_pc :: "ctx_error \<Rightarrow> pc \<Rightarrow> pc" where
  "cancel_pc e c =
     (case c of R_Merge p l n rq g \<Rightarrow> R_Merge p l n rq (cancel_ctx e g) | _ \<Rightarrow> c)"

definition cancel_worker :: "ctx_error \<Rightarrow> thread \<Rightarrow> thread" where
  "cancel_worker e th = th\<lparr>th_wctx := first_error e (th_wctx th), th_pc := cancel_pc e (th_pc th)\<rparr>"

text \<open>The loop of \<open>RunReady\<close>, around its calls of \<open>Run\<close>.\<close>

definition ready_limit :: "int \<Rightarrow> int" where
  "ready_limit limit = (if limit \<le> 0 then 1 else limit)"

fun outcome_error :: "outcome \<Rightarrow> op_error option" where
  "outcome_error (Returned r b e) = e"

definition ready_step :: "thread \<Rightarrow> service \<Rightarrow> thread option" where
  "ready_step th sv =
     (case th_pc th of
        Q_List limit \<Rightarrow>
          Some (th\<lparr>th_pc := Q_Next, th_batch := True,
                   th_todo := map or_ID (Service_List StateAccepted (ready_limit limit) sv)\<rparr>)
      | Q_Next \<Rightarrow>
          (case th_todo th of
             [] \<Rightarrow> Some (th\<lparr>th_pc := Q_Finished\<rparr>)
           | i # is \<Rightarrow> Some (th\<lparr>th_pc := P_Get For_Run i, th_todo := is, th_current := i\<rparr>))
      | Done out \<Rightarrow>
          if th_batch th
          then Some (th\<lparr>th_pc := Q_Next,
                 th_errors := th_errors th @
                   (case outcome_error out of None \<Rightarrow> [] | Some e \<Rightarrow> [(th_current th, e)])\<rparr>)
          else None
      | _ \<Rightarrow> None)"

definition is_register :: "pc \<Rightarrow> bool" where
  "is_register c = (case c of R_Register p l n \<Rightarrow> True | _ \<Rightarrow> False)"

definition thread_step ::
  "svc_env \<Rightarrow> step_input \<Rightarrow> nat \<Rightarrow> thread \<Rightarrow> service \<Rightarrow> (thread \<times> service \<times> nat option) option" where
  "thread_step env inp self th sv =
     (case call_step env inp self (th_ctx th) (th_wctx th) (th_pc th) sv of
        Some ((c, sv'), sig) \<Rightarrow>
          Some (th\<lparr>th_pc := c,
                   th_wctx := (if is_register (th_pc th) then th_ctx th else th_wctx th)\<rparr>, sv', sig)
      | None \<Rightarrow> map_option (\<lambda>th'. (th', sv, None)) (ready_step th sv))"

record system =
  sy_service :: service
  sy_threads :: "thread list"

text \<open>
  What can happen: a call begins, a thread makes a step, the merge of a thread makes a step, the
  context of a caller is cancelled, or another client uses the lease manager.
\<close>

datatype call =
    Call_Get string
  | Call_Submit request
  | Call_Run string
  | Call_Cancel string
  | Call_RunReady int
  | Call_WaitUntilRetry string

datatype label =
    Start call "ctx_error option"
  | Step nat step_input
  | MergeStep nat merge_label
  | CancelCaller nat ctx_error
  | OtherLease lease_op

fun first_pc :: "call \<Rightarrow> pc" where
  "first_pc (Call_Get i) = P_Get For_Get i"
| "first_pc (Call_Submit rq) = S_Admit rq"
| "first_pc (Call_Run i) = P_Get For_Run i"
| "first_pc (Call_Cancel i) = P_Get For_Cancel i"
| "first_pc (Call_RunReady limit) = Q_List limit"
| "first_pc (Call_WaitUntilRetry i) = P_Get For_Wait i"

definition new_thread :: "call \<Rightarrow> ctx_error option \<Rightarrow> thread" where
  "new_thread k cx =
     \<lparr>th_ctx = cx, th_wctx = None, th_pc = first_pc k, th_batch = False, th_todo = [],
      th_current = [], th_errors = []\<rparr>"

definition signal :: "nat option \<Rightarrow> thread list \<Rightarrow> thread list" where
  "signal sig ths =
     (case sig of
        None \<Rightarrow> ths
      | Some j \<Rightarrow> if j < length ths then ths[j := cancel_worker Canceled (ths ! j)] else ths)"

definition merge_thread :: "svc_env \<Rightarrow> merge_label \<Rightarrow> thread \<Rightarrow> thread option" where
  "merge_thread env l th =
     (case th_pc th of
        R_Merge p le n rq g \<Rightarrow>
          (case l of
             L_Cancel e \<Rightarrow> None
           | _ \<Rightarrow> map_option (\<lambda>g'. th\<lparr>th_pc := R_Merge p le n rq g'\<rparr>)
                    (merge_step (merge_env_of env rq) l g))
      | _ \<Rightarrow> None)"

fun svc_step :: "svc_env \<Rightarrow> label \<Rightarrow> system \<Rightarrow> system option" where
  "svc_step env (Start k cx) s = Some (s\<lparr>sy_threads := sy_threads s @ [new_thread k cx]\<rparr>)"
| "svc_step env (Step i inp) s =
     (if i < length (sy_threads s) then
        (case thread_step env inp i (sy_threads s ! i) (sy_service s) of
           None \<Rightarrow> None
         | Some (th, sv, sig) \<Rightarrow>
             Some (s\<lparr>sy_service := sv, sy_threads := signal sig ((sy_threads s)[i := th])\<rparr>))
      else None)"
| "svc_step env (MergeStep i l) s =
     (if i < length (sy_threads s) then
        map_option (\<lambda>th. s\<lparr>sy_threads := (sy_threads s)[i := th]\<rparr>) (merge_thread env l (sy_threads s ! i))
      else None)"
| "svc_step env (CancelCaller i e) s =
     (if i < length (sy_threads s) then
        Some (s\<lparr>sy_threads := (sy_threads s)[i :=
          (cancel_worker e (sy_threads s ! i))\<lparr>th_ctx := first_error e (th_ctx (sy_threads s ! i))\<rparr>]\<rparr>)
      else None)"
| "svc_step env (OtherLease op) s =
     Some (s\<lparr>sy_service := (sy_service s)\<lparr>sv_leases := lease_step op (sv_leases (sy_service s))\<rparr>\<rparr>)"

fun svc_run :: "svc_env \<Rightarrow> label list \<Rightarrow> system \<Rightarrow> system option" where
  "svc_run env [] s = Some s"
| "svc_run env (l # ls) s = (case svc_step env l s of None \<Rightarrow> None | Some s' \<Rightarrow> svc_run env ls s')"

definition system_of :: "service \<Rightarrow> system" where
  "system_of sv = \<lparr>sy_service = sv, sy_threads = []\<rparr>"

end
