(* ===== verification/ServiceSafety.thy ===== *)
theory ServiceSafety
  imports Service
begin

text \<open>
  The invariant of the service: in every state, whatever the calls, their order and their
  interleaving, the records of the catalog are well typed, what they say of a result is what a
  merge of the request verified, and the artifacts vouch for such a result too. Each program counter
  has its share (\<open>pc_ok\<close>); what a thread knows of the tables survives the steps of the others
  because the tables only grow (\<open>extends\<close>).
\<close>

section \<open>What is to hold\<close>

definition known_states :: "string set" where
  "known_states =
     {StateAccepted, StateRunning, StateRetrying, StateCompleted, StateFailed, StateCancelled}"

text \<open>A result that a merge of the request has verified: the digest of a file put together from it.\<close>

definition verified :: "svc_env \<Rightarrow> request \<Rightarrow> merge_result \<Rightarrow> bool" where
  "verified env rq res \<longleftrightarrow>
     (\<exists>c d. CompileManifest (rq_Manifest rq) = Inr c
        \<and> written_ok (merge_env_of env rq) c (length (mf_Segments c)) d
        \<and> receipt_of res = \<lparr>rc_FileID = mf_FileID c, rc_Version = mf_Version c,
             rc_Size = mf_TotalSize c, rc_Digest = Digest d\<rparr>
        \<and> mr_SegmentCount res = int (length (mf_Segments c)))"

definition result_fits :: "svc_env \<Rightarrow> request \<Rightarrow> string \<Rightarrow> merge_result option \<Rightarrow> bool" where
  "result_fits env rq state res \<longleftrightarrow>
     (state = StateCompleted \<longrightarrow> res \<noteq> None) \<and> (\<forall>x. res = Some x \<longrightarrow> verified env rq x)"

definition record_ok :: "svc_env \<Rightarrow> service \<Rightarrow> operation_record \<Rightarrow> bool" where
  "record_ok env sv r \<longleftrightarrow>
     or_State r \<in> known_states \<and> 0 \<le> or_Attempt r
     \<and> (or_State r = StateCompleted \<longrightarrow> or_Result r \<noteq> None)
     \<and> (\<forall>res. or_Result r = Some res \<longrightarrow>
          (\<exists>rq. sv_requests sv (or_ID r) = Some rq \<and> verified env rq res))"

definition request_ok :: "service \<Rightarrow> string \<Rightarrow> request \<Rightarrow> bool" where
  "request_ok sv i rq \<longleftrightarrow>
     Validate rq = None
     \<and> (\<exists>r. table (sv_catalog sv) i = Some r
          \<and> identity r = (i, mf_FileID (rq_Manifest rq), rq_IdempotencyKey rq))"

definition artifact_ok :: "svc_env \<Rightarrow> service \<Rightarrow> artifact_record \<Rightarrow> bool" where
  "artifact_ok env sv a \<longleftrightarrow>
     (\<exists>rq res. sv_requests sv (ar_OperationID a) = Some rq \<and> verified env rq res
        \<and> ar_Receipt a = receipt_of res)"

definition service_ok :: "svc_env \<Rightarrow> service \<Rightarrow> bool" where
  "service_ok env sv \<longleftrightarrow>
     catalog_ok (sv_catalog sv)
     \<and> (\<forall>i r. table (sv_catalog sv) i = Some r \<longrightarrow> record_ok env sv r)
     \<and> (\<forall>i rq. sv_requests sv i = Some rq \<longrightarrow> request_ok sv i rq)
     \<and> (\<forall>f a. map_of (ct_artifacts (sv_catalog sv)) f = Some a \<longrightarrow> artifact_ok env sv a)"

text \<open>Operations as the threads hold them.\<close>

definition op_ok :: "svc_env \<Rightarrow> service \<Rightarrow> operation \<Rightarrow> bool" where
  "op_ok env sv op \<longleftrightarrow>
     op_State op \<in> known_states \<and> 0 \<le> op_Attempt op
     \<and> (\<exists>rq. sv_requests sv (op_ID op) = Some rq \<and> op_Manifest op = rq_Manifest rq
          \<and> op_IdempotencyKey op = rq_IdempotencyKey rq
          \<and> result_fits env rq (op_State op) (op_Result op))"

definition new_op :: "operation \<Rightarrow> request \<Rightarrow> bool" where
  "new_op op rq \<longleftrightarrow>
     Validate rq = None \<and> op_State op = StateAccepted \<and> op_Attempt op = 0 \<and> op_Result op = None
     \<and> op_Manifest op = rq_Manifest rq \<and> op_IdempotencyKey op = rq_IdempotencyKey rq"

definition listed :: "service \<Rightarrow> operation_record \<Rightarrow> bool" where
  "listed sv r \<longleftrightarrow>
     (\<exists>r'. table (sv_catalog sv) (or_ID r) = Some r' \<and> identity r' = identity r)"

fun outcome_ok :: "svc_env \<Rightarrow> service \<Rightarrow> outcome \<Rightarrow> bool" where
  "outcome_ok env sv (Returned op b e) = (\<forall>p. op = Some p \<longrightarrow> op_ok env sv p)"

definition run_ok :: "svc_env \<Rightarrow> service \<Rightarrow> operation \<Rightarrow> bool" where
  "run_ok env sv op \<longleftrightarrow> op_ok env sv op \<and> op_State op = StateRunning"

definition done_ok :: "svc_env \<Rightarrow> service \<Rightarrow> operation \<Rightarrow> request \<Rightarrow> merge_result \<Rightarrow> bool" where
  "done_ok env sv op rq res \<longleftrightarrow>
     op_ok env sv op \<and> op_State op = StateCompleted \<and> op_Result op = Some res
     \<and> sv_requests sv (op_ID op) = Some rq"

fun pc_ok :: "svc_env \<Rightarrow> service \<Rightarrow> pc \<Rightarrow> bool" where
  "pc_ok env sv (P_Request k i r) \<longleftrightarrow> or_ID r = i \<and> record_ok env sv r \<and> listed sv r"
| "pc_ok env sv (S_Number rq) \<longleftrightarrow> Validate rq = None"
| "pc_ok env sv (S_Create op rq) \<longleftrightarrow> new_op op rq"
| "pc_ok env sv (S_Store op rq n) \<longleftrightarrow>
     new_op op rq \<and> sv_requests sv (op_ID op) = None \<and> listed sv (toRecord op)"
| "pc_ok env sv (S_Append op n) \<longleftrightarrow> op_ok env sv op"
| "pc_ok env sv (S_Fail op n e) \<longleftrightarrow> op_ok env sv op \<and> op_State op = StateFailed"
| "pc_ok env sv (R_Acquire op) \<longleftrightarrow> op_ok env sv op"
| "pc_ok env sv (R_Start op l) \<longleftrightarrow> op_ok env sv op"
| "pc_ok env sv (R_Update run l t n) \<longleftrightarrow> run_ok env sv run"
| "pc_ok env sv (R_Started run l t n) \<longleftrightarrow> run_ok env sv run"
| "pc_ok env sv (R_Register run l n) \<longleftrightarrow> run_ok env sv run"
| "pc_ok env sv (R_Admit run l n rq) \<longleftrightarrow> run_ok env sv run \<and> sv_requests sv (op_ID run) = Some rq"
| "pc_ok env sv (R_Load run l n rq d) \<longleftrightarrow> run_ok env sv run \<and> sv_requests sv (op_ID run) = Some rq"
| "pc_ok env sv (R_Begin run l n rq d cx) \<longleftrightarrow> run_ok env sv run \<and> sv_requests sv (op_ID run) = Some rq"
| "pc_ok env sv (R_Merge run l n rq g) \<longleftrightarrow>
     run_ok env sv run \<and> sv_requests sv (op_ID run) = Some rq
     \<and> merge_ok (merge_env_of env rq) (rq_Manifest rq) NewMemoryWriter NewMemoryCheckpoints
         NewMemoryIndex g"
| "pc_ok env sv (R_Complete op l n rq res) \<longleftrightarrow> done_ok env sv op rq res"
| "pc_ok env sv (R_Artifact op l r rq res) \<longleftrightarrow>
     done_ok env sv op rq res \<and> record_ok env sv r \<and> identity r = identity (toRecord op)"
| "pc_ok env sv (R_Completed op l r rq res) \<longleftrightarrow>
     done_ok env sv op rq res \<and> record_ok env sv r \<and> identity r = identity (toRecord op)"
| "pc_ok env sv (R_Fail run l n e c bg) \<longleftrightarrow> run_ok env sv run"
| "pc_ok env sv (R_Failed run f l r e d bg) \<longleftrightarrow>
     run_ok env sv run \<and> record_ok env sv r \<and> identity r = identity (toRecord run)"
| "pc_ok env sv (R_Unregister l i out) \<longleftrightarrow> outcome_ok env sv out"
| "pc_ok env sv (R_Release l out) \<longleftrightarrow> outcome_ok env sv out"
| "pc_ok env sv (C_Read op) \<longleftrightarrow> op_ok env sv op"
| "pc_ok env sv (C_Update op q t n) \<longleftrightarrow>
     op_ok env sv op \<and> op_ok env sv q \<and> op_ID q = op_ID op \<and> op_State q = StateCancelled"
| "pc_ok env sv (C_Signal op r t) \<longleftrightarrow>
     op_ok env sv op \<and> record_ok env sv r \<and> identity r = identity (toRecord op)"
| "pc_ok env sv (C_Append op r t) \<longleftrightarrow>
     op_ok env sv op \<and> record_ok env sv r \<and> identity r = identity (toRecord op)"
| "pc_ok env sv (Done out) \<longleftrightarrow> outcome_ok env sv out"
| "pc_ok env sv _ \<longleftrightarrow> True"

text \<open>The identifier under which a thread is about to store a request.\<close>

definition storing :: "pc \<Rightarrow> string option" where
  "storing c = (case c of S_Store op rq n \<Rightarrow> Some (op_ID op) | _ \<Rightarrow> None)"

lemma storing_simps [simp]:
  "storing (S_Store op rq n) = Some (op_ID op)"
  "(\<And>op rq n. c \<noteq> S_Store op rq n) \<Longrightarrow> storing c = None"
  by (auto simp: storing_def split: pc.split)

lemma storing_Some: "storing c = Some i \<Longrightarrow> \<exists>op rq n. c = S_Store op rq n \<and> i = op_ID op"
  by (auto simp: storing_def split: pc.splits)


section \<open>The tables only grow\<close>

definition extends :: "service \<Rightarrow> service \<Rightarrow> bool" where
  "extends sv sv' \<longleftrightarrow>
     (\<forall>i rq. sv_requests sv i = Some rq \<longrightarrow> sv_requests sv' i = Some rq)
     \<and> (\<forall>i r. table (sv_catalog sv) i = Some r \<longrightarrow>
          (\<exists>r'. table (sv_catalog sv') i = Some r' \<and> identity r' = identity r))"

lemma extends_refl [simp]: "extends sv sv"
  by (simp add: extends_def)

lemma extends_same:
  "sv_requests sv' = sv_requests sv \<Longrightarrow> sv_catalog sv' = sv_catalog sv \<Longrightarrow> extends sv sv'"
  by (simp add: extends_def)

lemma record_ok_extends: "extends sv sv' \<Longrightarrow> record_ok env sv r \<Longrightarrow> record_ok env sv' r"
  unfolding extends_def record_ok_def by blast

lemma listed_extends: "extends sv sv' \<Longrightarrow> listed sv r \<Longrightarrow> listed sv' r"
  unfolding extends_def listed_def by metis

lemma request_ok_extends: "extends sv sv' \<Longrightarrow> request_ok sv i rq \<Longrightarrow> request_ok sv' i rq"
  unfolding extends_def request_ok_def by metis

lemma artifact_ok_extends: "extends sv sv' \<Longrightarrow> artifact_ok env sv a \<Longrightarrow> artifact_ok env sv' a"
  unfolding extends_def artifact_ok_def by blast

lemma op_ok_extends: "extends sv sv' \<Longrightarrow> op_ok env sv op \<Longrightarrow> op_ok env sv' op"
  unfolding extends_def op_ok_def by blast

lemma run_ok_extends: "extends sv sv' \<Longrightarrow> run_ok env sv op \<Longrightarrow> run_ok env sv' op"
  unfolding run_ok_def using op_ok_extends by blast

lemma done_ok_extends: "extends sv sv' \<Longrightarrow> done_ok env sv op rq res \<Longrightarrow> done_ok env sv' op rq res"
  unfolding done_ok_def using op_ok_extends by (auto simp: extends_def)

lemma outcome_ok_extends: "extends sv sv' \<Longrightarrow> outcome_ok env sv out \<Longrightarrow> outcome_ok env sv' out"
  by (cases out) (auto intro: op_ok_extends)

lemma requests_extends: "extends sv sv' \<Longrightarrow> sv_requests sv i = Some rq \<Longrightarrow> sv_requests sv' i = Some rq"
  by (simp add: extends_def)

lemmas extends_intros = record_ok_extends listed_extends request_ok_extends artifact_ok_extends
  op_ok_extends run_ok_extends done_ok_extends outcome_ok_extends requests_extends

text \<open>What a thread knows survives the steps of others.\<close>

lemma pc_ok_extends:
  assumes "extends sv sv'" "pc_ok env sv c" "\<And>i. storing c = Some i \<Longrightarrow> sv_requests sv' i = None"
  shows "pc_ok env sv' c"
  using assms by (cases c) (auto intro: extends_intros)


section \<open>The sections that change the tables\<close>

lemma service_okD:
  assumes "service_ok env sv"
  shows "catalog_ok (sv_catalog sv)"
    "table (sv_catalog sv) i = Some r \<Longrightarrow> record_ok env sv r"
    "sv_requests sv i = Some rq \<Longrightarrow> request_ok sv i rq"
    "map_of (ct_artifacts (sv_catalog sv)) f = Some a \<Longrightarrow> artifact_ok env sv a"
  using assms unfolding service_ok_def by blast+

lemma service_ok_same:
  assumes "service_ok env sv" "sv_requests sv' = sv_requests sv" "sv_catalog sv' = sv_catalog sv"
  shows "service_ok env sv'"
  using assms
  by (simp add: service_ok_def record_ok_def request_ok_def artifact_ok_def)

lemma record_ok_toRecord:
  assumes "op_ok env sv op"
  shows "record_ok env sv ((toRecord op)\<lparr>or_Revision := n\<rparr>)"
  using assms by (auto simp: op_ok_def record_ok_def result_fits_def)

lemma op_ok_fromRecord:
  assumes "service_ok env sv" "record_ok env sv r" "listed sv r" "sv_requests sv (or_ID r) = Some rq"
  shows "op_ok env sv (fromRecord r (rq_Manifest rq))"
proof -
  have "or_IdempotencyKey r = rq_IdempotencyKey rq"
    using service_okD(3) [OF assms(1,4)] assms(3) by (auto simp: request_ok_def listed_def identity_def)
  with assms(2,4) show ?thesis by (auto simp: op_ok_def record_ok_def result_fits_def)
qed

text \<open>The record a client was given belongs to the operation it holds.\<close>

lemma op_ok_returned:
  assumes "service_ok env sv" "op_ok env sv op" "record_ok env sv r" "identity r = identity (toRecord op)"
  shows "op_ok env sv (fromRecord r (op_Manifest op))"
proof -
  obtain rq where rq: "sv_requests sv (op_ID op) = Some rq" "op_Manifest op = rq_Manifest rq"
    "op_IdempotencyKey op = rq_IdempotencyKey rq"
    using assms(2) by (auto simp: op_ok_def)
  have "listed sv r"
    using service_okD(3) [OF assms(1) rq(1)] rq assms(4)
    by (auto simp: request_ok_def listed_def identity_def)
  with assms rq show ?thesis
    using op_ok_fromRecord [of env sv r rq] by (simp add: identity_def)
qed

lemma update_record_cases:
  assumes ok: "service_ok env sv" and op: "op_ok env sv op"
    and up: "update_record op n sv = (res, sv')"
  obtains (refused) e where "res = Inl (CatalogFailed e)" "sv' = sv"
  | (updated) s r c where "table (sv_catalog sv) (op_ID op) = Some s" "or_Revision s = n"
      "r = (toRecord op)\<lparr>or_Revision := n + 1\<rparr>" "res = Inr r" "sv' = sv\<lparr>sv_catalog := c\<rparr>"
      "table c = (table (sv_catalog sv))(op_ID op \<mapsto> r)" "identity s = identity r"
      "ct_artifacts c = ct_artifacts (sv_catalog sv)" "service_ok env sv'" "extends sv sv'"
proof -
  obtain u c where u: "Update (toRecord op) n (sv_catalog sv) = (u, c)" by fastforce
  have cok: "catalog_ok c" using catalog_ok_Update [OF service_okD(1) [OF ok] u] .
  from u show ?thesis
  proof (cases rule: Update_cases)
    case (refused err)
    then have "res = Inl (CatalogFailed err)" "sv' = sv"
      using up u by (simp_all add: update_record_def)
    then show ?thesis by (rule that(1))
  next
    case (updated s)
    let ?r = "(toRecord op)\<lparr>or_Revision := n + 1\<rparr>"
    have sv': "sv' = sv\<lparr>sv_catalog := c\<rparr>" "res = Inr ?r"
      using up u updated by (simp_all add: update_record_def)
    have ids: "identity s = identity ?r"
      using catalog_okD(2) [OF service_okD(1) [OF ok]] updated by (auto simp: identity_def)
    have ext: "extends sv sv'"
      using updated(1,7) ids by (auto simp: extends_def sv'(1))
    have "service_ok env sv'"
      unfolding service_ok_def
    proof (intro conjI allI impI)
      show "catalog_ok (sv_catalog sv')" using cok sv' by simp
      show "record_ok env sv' r" if "table (sv_catalog sv') i = Some r" for i r
        using that updated(7) record_ok_extends [OF ext] record_ok_toRecord [OF op] service_okD(2) [OF ok]
        by (auto simp: sv' split: if_splits)
      show "request_ok sv' i rq" if "sv_requests sv' i = Some rq" for i rq
        using that request_ok_extends [OF ext] service_okD(3) [OF ok] by (auto simp: sv')
      show "artifact_ok env sv' a" if "map_of (ct_artifacts (sv_catalog sv')) f = Some a" for f a
        using that artifact_ok_extends [OF ext] service_okD(4) [OF ok] by (auto simp: sv' updated(6))
    qed
    with updated ids ext sv' show ?thesis by (intro that(2) [of s ?r c]) simp_all
  qed
qed

lemma append_event_same:
  assumes "append_event env inp cx e sv = (res, sv')"
  shows "sv_requests sv' = sv_requests sv" "sv_catalog sv' = sv_catalog sv"
    "sv_leases sv' = sv_leases sv" "sv_cancels sv' = sv_cancels sv" "sv_admission sv' = sv_admission sv"
    "sv_config sv' = sv_config sv"
  using assms by (auto simp: append_event_def split: prod.splits sum.splits)

text \<open>What a section may do to the service, beside what its counter needs.\<close>

definition step_ok :: "svc_env \<Rightarrow> pc \<Rightarrow> service \<Rightarrow> pc \<Rightarrow> service \<Rightarrow> bool" where
  "step_ok env c sv c' sv' \<longleftrightarrow>
     service_ok env sv' \<and> extends sv sv' \<and> pc_ok env sv' c'
     \<and> (\<forall>i. storing c' = Some i \<longrightarrow> table (sv_catalog sv) i = None)
     \<and> (\<forall>i. sv_requests sv' i \<noteq> None \<longrightarrow> sv_requests sv i \<noteq> None \<or> storing c = Some i)"

lemma step_ok_same:
  assumes "service_ok env sv" "sv_requests sv' = sv_requests sv" "sv_catalog sv' = sv_catalog sv"
    "pc_ok env sv' c'" "storing c' = None"
  shows "step_ok env c sv c' sv'"
  using assms service_ok_same [OF assms(1-3)] extends_same [OF assms(2,3)] by (simp add: step_ok_def)

lemma pc_ok_same:
  assumes "sv_requests sv' = sv_requests sv" "sv_catalog sv' = sv_catalog sv" "storing c = None" "pc_ok env sv c"
  shows "pc_ok env sv' c"
  by (rule pc_ok_extends [OF extends_same [OF assms(1,2)] assms(4)]) (simp add: assms(3))

text \<open>Submit.\<close>

lemma Create_ok:
  assumes ok: "service_ok env sv" and op: "new_op op rq" and
    cr: "Create (toRecord op) (sv_catalog sv) = (Inr (r, True), c)"
  shows "service_ok env (sv\<lparr>sv_catalog := c\<rparr>)" "extends sv (sv\<lparr>sv_catalog := c\<rparr>)"
    "table (sv_catalog sv) (op_ID op) = None" "sv_requests sv (op_ID op) = None"
    "table c (op_ID op) = Some ((toRecord op)\<lparr>or_Revision := 1\<rparr>)" "or_Revision r = 1"
proof -
  let ?sv = "sv\<lparr>sv_catalog := c\<rparr>"
  have cok: "catalog_ok c" using catalog_ok_Create [OF service_okD(1) [OF ok] cr] .
  from service_okD(1) [OF ok] cr have c: "table (sv_catalog sv) (op_ID op) = None"
    "table c = (table (sv_catalog sv))(op_ID op \<mapsto> (toRecord op)\<lparr>or_Revision := 1\<rparr>)"
    "ct_artifacts c = ct_artifacts (sv_catalog sv)" "r = (toRecord op)\<lparr>or_Revision := 1\<rparr>"
    by (cases rule: Create_cases; simp)+
  then show "table (sv_catalog sv) (op_ID op) = None"
    "table c (op_ID op) = Some ((toRecord op)\<lparr>or_Revision := 1\<rparr>)" "or_Revision r = 1"
    by simp_all
  then show "sv_requests sv (op_ID op) = None"
    using service_okD(3) [OF ok, of "op_ID op"]
    by (cases "sv_requests sv (op_ID op)") (auto simp: request_ok_def)
  show ext: "extends sv ?sv" using c(1,2) by (auto simp: extends_def)
  have new: "record_ok env ?sv ((toRecord op)\<lparr>or_Revision := 1\<rparr>)"
    using op by (simp add: record_ok_def new_op_def known_states_def) (simp add: state_defs)
  show "service_ok env ?sv"
    unfolding service_ok_def
  proof (intro conjI allI impI)
    show "catalog_ok (sv_catalog ?sv)" using cok by simp
    show "record_ok env ?sv r" if "table (sv_catalog ?sv) i = Some r" for i r
      using that new record_ok_extends [OF ext] service_okD(2) [OF ok] by (auto simp: c(2) split: if_splits)
    show "request_ok ?sv i rq" if "sv_requests ?sv i = Some rq" for i rq
      using that request_ok_extends [OF ext] service_okD(3) [OF ok] by auto
    show "artifact_ok env ?sv a" if "map_of (ct_artifacts (sv_catalog ?sv)) f = Some a" for f a
      using that artifact_ok_extends [OF ext] service_okD(4) [OF ok] by (auto simp: c(3))
  qed
qed

lemma Create_not_created:
  assumes "service_ok env sv" "Create r (sv_catalog sv) = (res, c)" "\<And>s. res \<noteq> Inr (s, True)"
  shows "c = sv_catalog sv"
  using service_okD(1) [OF assms(1)] assms(2) by (cases rule: Create_cases) (use assms(3) in auto)

lemma submit_create_ok:
  assumes ok: "service_ok env sv" and op: "new_op op rq" and s: "submit_create op rq sv = (c', sv')"
  shows "step_ok env (S_Create op rq) sv c' sv'"
proof -
  obtain res c where cr: "Create (toRecord op) (sv_catalog sv) = (res, c)" by fastforce
  show ?thesis
  proof (cases "\<exists>r. res = Inr (r, True)")
    case True
    then obtain r where r: "res = Inr (r, True)" by blast
    note n = Create_ok [OF ok op cr [unfolded r]]
    have "c' = S_Store op rq (or_Revision r)" "sv' = sv\<lparr>sv_catalog := c\<rparr>"
      using s cr r by (simp_all add: submit_create_def)
    with n op show ?thesis by (auto simp: step_ok_def listed_def identity_def)
  next
    case False
    then have "c = sv_catalog sv" using Create_not_created [OF ok cr] by blast
    with s cr False show ?thesis
      by (intro step_ok_same [OF ok]) (auto simp: submit_create_def split: sum.splits prod.splits if_splits)
  qed
qed

lemma store_ok:
  assumes ok: "service_ok env sv" and op: "pc_ok env sv (S_Store op rq n)"
  shows "step_ok env (S_Store op rq n) sv (S_Append op n)
    (sv\<lparr>sv_requests := (sv_requests sv)(op_ID op \<mapsto> rq)\<rparr>)"
proof -
  let ?sv = "sv\<lparr>sv_requests := (sv_requests sv)(op_ID op \<mapsto> rq)\<rparr>"
  have ext: "extends sv ?sv" using op by (auto simp: extends_def)
  have "service_ok env ?sv"
    unfolding service_ok_def
  proof (intro conjI allI impI)
    show "catalog_ok (sv_catalog ?sv)" using service_okD(1) [OF ok] by simp
    show "record_ok env ?sv r" if "table (sv_catalog ?sv) i = Some r" for i r
      using that record_ok_extends [OF ext] service_okD(2) [OF ok] by auto
    show "request_ok ?sv i rq'" if "sv_requests ?sv i = Some rq'" for i rq'
      using that request_ok_extends [OF ext] service_okD(3) [OF ok] op
      by (auto simp: request_ok_def new_op_def listed_def identity_def split: if_splits)
    show "artifact_ok env ?sv a" if "map_of (ct_artifacts (sv_catalog ?sv)) f = Some a" for f a
      using that artifact_ok_extends [OF ext] service_okD(4) [OF ok] by auto
  qed
  moreover have "op_ok env ?sv op"
    using op by (simp add: op_ok_def new_op_def result_fits_def known_states_def) (simp add: state_defs)
  ultimately show ?thesis using ext by (auto simp: step_ok_def)
qed

text \<open>Artifacts.\<close>

lemma run_artifact_ok:
  assumes ok: "service_ok env sv" and op: "pc_ok env sv (R_Artifact op l r rq res)"
    and s: "run_artifact op l r rq res sv = (c', sv')"
  shows "step_ok env (R_Artifact op l r rq res) sv c' sv'"
proof -
  let ?a = "\<lparr>ar_Receipt = receipt_of res, ar_OperationID = op_ID op, ar_CommittedAt = op_UpdatedAt op\<rparr>"
  obtain u c where u: "PutArtifact ?a (sv_catalog sv) = (u, c)" by fastforce
  have cok: "catalog_ok c" using catalog_ok_PutArtifact [OF service_okD(1) [OF ok] u] .
  have a: "artifact_ok env sv ?a"
    using op by (auto simp: artifact_ok_def done_ok_def op_ok_def result_fits_def)
  have c: "table c = table (sv_catalog sv)"
    "map_of (ct_artifacts c) f = Some b \<Longrightarrow> b = ?a \<or> map_of (ct_artifacts (sv_catalog sv)) f = Some b" for f b
    using u by (cases rule: PutArtifact_cases; auto simp: table_def update_conv' split: if_splits)+
  have sv': "sv' = sv\<lparr>sv_catalog := c\<rparr>"
    using s u by (auto simp: run_artifact_def split: option.splits)
  have ext: "extends sv sv'" using c(1) by (simp add: extends_def sv')
  have "service_ok env sv'"
    unfolding service_ok_def
  proof (intro conjI allI impI)
    show "catalog_ok (sv_catalog sv')" using cok by (simp add: sv')
    show "record_ok env sv' r" if "table (sv_catalog sv') i = Some r" for i r
      using that record_ok_extends [OF ext] service_okD(2) [OF ok] by (auto simp: sv' c(1))
    show "request_ok sv' i rq'" if "sv_requests sv' i = Some rq'" for i rq'
      using that request_ok_extends [OF ext] service_okD(3) [OF ok] by (auto simp: sv')
    show "artifact_ok env sv' b" if "map_of (ct_artifacts (sv_catalog sv')) f = Some b" for f b
    proof -
      have "map_of (ct_artifacts c) f = Some b" using that by (simp add: sv')
      then have "b = ?a \<or> map_of (ct_artifacts (sv_catalog sv)) f = Some b" by (rule c(2))
      then have "artifact_ok env sv b" using a service_okD(4) [OF ok] by blast
      then show ?thesis by (rule artifact_ok_extends [OF ext])
    qed
  qed
  moreover have "pc_ok env sv' c'" "storing c' = None"
    using s u op pc_ok_extends [OF ext op]
    by (auto simp: run_artifact_def split: option.splits)
  ultimately show ?thesis using ext by (auto simp: step_ok_def sv')
qed


section \<open>Every section keeps the invariant\<close>

lemma transition_Inr:
  "transition op s now = Inr op' \<longleftrightarrow>
     allowed (op_State op) s \<and> op' = op\<lparr>op_State := s, op_UpdatedAt := now\<rparr>"
  by (auto simp: transition_def)

lemma op_ok_change:
  assumes "op_ok env sv op" "op_ID op' = op_ID op" "op_Manifest op' = op_Manifest op"
    "op_IdempotencyKey op' = op_IdempotencyKey op" "op_Result op' = op_Result op"
    "op_State op' \<in> known_states - {StateCompleted}" "0 \<le> op_Attempt op'"
  shows "op_ok env sv op'"
  using assms by (auto simp: op_ok_def result_fits_def)

lemma known_states_simps [simp]:
  "StateAccepted \<in> known_states" "StateRunning \<in> known_states" "StateRetrying \<in> known_states"
  "StateCompleted \<in> known_states" "StateFailed \<in> known_states" "StateCancelled \<in> known_states"
  by (simp_all add: known_states_def)

lemma states_differ [simp]:
  "StateRunning \<noteq> StateCompleted" "StateFailed \<noteq> StateCompleted" "StateRetrying \<noteq> StateCompleted"
  "StateCancelled \<noteq> StateCompleted" "StateAccepted \<noteq> StateCompleted"
  by (simp_all add: state_defs)

lemma verified_result:
  assumes "merge_ok (merge_env_of env rq) (rq_Manifest rq) w cps x g" "g_pc g = M_Return (Inr res)"
  shows "verified env rq res"
proof -
  obtain r where r: "published (merge_env_of env rq) w r g" "reports r g res"
    using merge_okD(3) [OF assms(1)] assms(2) by (auto simp: merge_inv_def inv_output_def saving_def)
  moreover have "CompileManifest (rq_Manifest rq) = Inr (g_compiled g)"
    using merge_okD(2) [OF assms(1)] .
  ultimately show ?thesis
    by (auto simp: verified_def published_def reports_def receipt_of_def)
qed

lemma get_step_ok:
  "service_ok env sv \<Longrightarrow> step_ok env c sv (get_step cx k i sv) sv"
  using service_okD(2) [of env sv i] catalog_okD(2) [OF service_okD(1), of env sv i]
  by (intro step_ok_same)
    (auto simp: get_step_def GetOperation_def listed_def table_def split: option.splits sum.splits)

lemma got_ok: "op_ok env sv op \<Longrightarrow> pc_ok env sv (got k op) \<and> storing (got k op) = None"
  by (auto simp: got_def split: caller.splits option.splits)

lemma request_step_ok:
  assumes "service_ok env sv" "pc_ok env sv (P_Request k i r)"
  shows "step_ok env c sv (request_step k i r sv) sv"
  using assms got_ok [OF op_ok_fromRecord, of env sv r]
  by (intro step_ok_same) (auto simp: request_step_def split: option.splits)

lemma submit_admit_ok: "service_ok env sv \<Longrightarrow> step_ok env c sv (submit_admit rq sv) sv"
  by (rule step_ok_same) (auto simp: submit_admit_def Let_def split: option.splits)

lemma submit_number_ok:
  assumes "service_ok env sv" "Validate rq = None" "submit_number now rq sv = (c', sv')"
  shows "step_ok env c sv c' sv'"
  using assms by (intro step_ok_same) (auto simp: submit_number_def Let_def new_op_def submit_operation_def)

lemma submit_append_ok:
  assumes ok: "service_ok env sv" and op: "op_ok env sv op" and s: "submit_append env inp cx op n sv = (c', sv')"
  shows "step_ok env c sv c' sv'"
proof -
  obtain res sv1 where a: "append_event env inp cx
             (event_of env (op_ID op) ''accepted'' (op_CreatedAt op)
               (Pay_Accepted (mf_FileID (op_Manifest op)) (op_Partition op)
                  (int (length (mf_Segments (op_Manifest op)))))) sv = (res, sv1)" by fastforce
  note same = append_event_same(1,2) [OF a]
  have sv': "sv' = sv1" using s a by (auto simp: submit_append_def split: option.splits sum.splits)
  have op1: "op_ok env sv1 op" using op_ok_extends [OF extends_same [OF same] op] .
  have "op_ok env sv1 (f\<lparr>op_LastError := e\<rparr>) \<and> op_State f = StateFailed"
    if "transition op StateFailed t = Inr f" for f e t
    using that op1 by (intro conjI op_ok_change [OF op1]) (auto simp: transition_Inr op_ok_def)
  then have "pc_ok env sv1 c' \<and> storing c' = None"
    using s a op1 by (auto simp: submit_append_def split: option.splits sum.splits)
  with same show ?thesis by (intro step_ok_same [OF ok]) (simp_all add: sv')
qed

lemma step_ok_updated:
  assumes "service_ok env sv'" "extends sv sv'" "pc_ok env sv' c'" "storing c' = None"
    "sv_requests sv' = sv_requests sv"
  shows "step_ok env c sv c' sv'"
  using assms by (simp add: step_ok_def)

text \<open>A section that ends in \<open>update_record\<close>.\<close>

lemma update_step_ok:
  assumes ok: "service_ok env sv" and op: "op_ok env sv op" and up: "update_record op n sv = (res, sv')"
    and bad: "\<And>e. res = Inl e \<Longrightarrow> pc_ok env sv c' \<and> storing c' = None"
    and good: "\<And>r. res = Inr r \<Longrightarrow> record_ok env sv' r \<Longrightarrow> identity r = identity (toRecord op) \<Longrightarrow>
      extends sv sv' \<Longrightarrow> pc_ok env sv' c' \<and> storing c' = None"
  shows "step_ok env c sv c' sv'"
  using ok op up
proof (cases rule: update_record_cases)
  case (refused e)
  with bad ok show ?thesis by (intro step_ok_same) auto
next
  case (updated s r c)
  have "record_ok env sv' r"
    using service_okD(2) [OF updated(9), of "op_ID op" r] updated(5,6) by simp
  moreover have "identity r = identity (toRecord op)"
    using updated(3) by (simp add: identity_def)
  ultimately show ?thesis
    using good [OF updated(4)] updated(5,9,10) by (intro step_ok_updated) auto
qed

lemma S_Fail_ok:
  assumes "service_ok env sv" "op_ok env sv op" "update_record op n sv = (res, sv')"
  shows "step_ok env c sv (Done (failed e)) sv'"
  by (rule update_step_ok [OF assms]) simp_all

lemma run_acquire_ok:
  assumes "service_ok env sv" "op_ok env sv op" "run_acquire now op sv = (c', sv')"
  shows "step_ok env c sv c' sv'"
proof -
  have s: "sv_requests sv' = sv_requests sv" "sv_catalog sv' = sv_catalog sv"
    "(\<exists>l. c' = R_Start op l) \<or> (\<exists>e. c' = Done (failed e))"
    using assms(3) by (auto simp: run_acquire_def split: prod.splits sum.splits)
  then have "pc_ok env sv' c' \<and> storing c' = None"
    using op_ok_extends [OF extends_same [OF s(1,2)] assms(2)] by auto
  with s assms(1) show ?thesis by (intro step_ok_same) auto
qed

lemma run_start_ok:
  assumes "service_ok env sv" "op_ok env sv op"
  shows "step_ok env c sv (run_start now op l sv) sv"
proof (rule step_ok_same [OF assms(1)])
  have "run_ok env sv (r\<lparr>op_Attempt := op_Attempt r + 1, op_Fence := f, op_Owner := w\<rparr>)"
    if "transition op StateRunning now = Inr r" for r f w
    using that assms(2) by (auto simp: transition_Inr run_ok_def op_ok_def result_fits_def)
  then show "pc_ok env sv (run_start now op l sv)" "storing (run_start now op l sv) = None"
    by (auto simp: run_start_def Let_def split: sum.splits)
qed simp_all

lemma run_update_ok:
  assumes ok: "service_ok env sv" and run: "run_ok env sv run" and s: "run_update run l now n sv = (c', sv')"
  shows "step_ok env c sv c' sv'"
proof -
  obtain res sv1 where u: "update_record run n sv = (res, sv1)" by fastforce
  have "sv1 = sv'" "\<And>e. res = Inl e \<Longrightarrow> c' = R_Release l (failed e)"
    "\<And>r. res = Inr r \<Longrightarrow> c' = R_Started run l now (or_Revision r)"
    using s u by (auto simp: run_update_def split: sum.splits)
  with u run ok show ?thesis
    by (intro update_step_ok [of env sv run n res]) (auto simp: run_ok_def intro: op_ok_extends)
qed

text \<open>A section that ends in appending an event.\<close>

lemma append_step_ok:
  assumes ok: "service_ok env sv" and a: "append_event env inp cx e sv = (res, sv')"
    and c': "pc_ok env sv c'" "storing c' = None"
  shows "step_ok env c sv c' sv'"
  using append_event_same(1,2) [OF a] pc_ok_same [OF append_event_same(1,2) [OF a] c'(2,1)] c' ok
  by (intro step_ok_same) auto

lemma run_started_ok:
  assumes "service_ok env sv" "run_ok env sv run" "run_started env inp cx run l now n sv = (c', sv')"
  shows "step_ok env c sv c' sv'"
proof -
  obtain res sv1 where a: "append_event env inp cx
             (stamped run (event_of env (op_ID run) ''started'' now
                (Pay_Started (op_Attempt run) (op_Fence run)))) sv = (res, sv1)" by fastforce
  with assms(3) have "sv1 = sv'" "pc_ok env sv c' \<and> storing c' = None"
    using assms(2) by (auto simp: run_started_def split: option.splits)
  with a assms(1) show ?thesis by (intro append_step_ok) auto
qed

lemma run_register_ok:
  assumes "service_ok env sv" "run_ok env sv run" "run_register self run l n sv = (c', sv')"
  shows "step_ok env c sv c' sv'"
proof -
  obtain rq where rq: "sv_requests sv (op_ID run) = Some rq"
    using assms(2) by (auto simp: run_ok_def op_ok_def)
  have s: "sv_requests sv' = sv_requests sv" "sv_catalog sv' = sv_catalog sv" "c' = R_Admit run l n rq"
    using assms(3) rq by (auto simp: run_register_def)
  with rq have "pc_ok env sv' c'" using run_ok_extends [OF extends_same [OF s(1,2)] assms(2)] by simp
  with s assms(1) show ?thesis by (intro step_ok_same) auto
qed

lemma run_begin_ok:
  assumes "run_ok env sv run" "sv_requests sv (op_ID run) = Some rq"
  shows "pc_ok env sv (run_begin run l n rq d cx1 cx2)" "storing (run_begin run l n rq d cx1 cx2) = None"
proof -
  have "merge_ok (merge_env_of env rq) (rq_Manifest rq) NewMemoryWriter NewMemoryCheckpoints
      NewMemoryIndex g"
    if "Merge_start k cx1 cx2 (rq_Manifest rq) b NewMemoryWriter NewMemoryCheckpoints NewMemoryIndex = Inr g"
    for g k b
    using that
    by (intro history_inv merge_history.first writer_ok_new) (auto simp: NewMemoryCheckpoints_def)
  with assms show "pc_ok env sv (run_begin run l n rq d cx1 cx2)"
    by (auto simp: run_begin_def merge_failed_def split: sum.splits)
  show "storing (run_begin run l n rq d cx1 cx2) = None"
    by (auto simp: run_begin_def merge_failed_def split: sum.splits)
qed

lemma run_merged_ok:
  assumes "pc_ok env sv (R_Merge run l n rq g)" "run_merged now run l n rq g = Some c'"
  shows "pc_ok env sv c'" "storing c' = None"
proof -
  have run: "op_ok env sv run" "op_State run = StateRunning" "sv_requests sv (op_ID run) = Some rq"
    and inv: "merge_ok (merge_env_of env rq) (rq_Manifest rq) NewMemoryWriter NewMemoryCheckpoints
         NewMemoryIndex g"
    using assms(1) by (auto simp: run_ok_def)
  have "allowed StateRunning StateCompleted" by (simp add: allowed_def state_defs)
  with run verified_result [OF inv] assms(2)
  show "pc_ok env sv c'" "storing c' = None"
    by (auto simp: run_merged_def merge_failed_def run_ok_def done_ok_def op_ok_def result_fits_def
        transition_def split: main_pc.splits sum.splits)
qed

lemma run_complete_ok:
  assumes ok: "service_ok env sv" and op: "done_ok env sv op rq res"
    and s: "run_complete op l n rq res sv = (c', sv')"
  shows "step_ok env c sv c' sv'"
proof -
  obtain u sv1 where u: "update_record op n sv = (u, sv1)" by fastforce
  have "sv1 = sv'" "\<And>e. u = Inl e \<Longrightarrow> c' = R_Unregister l (op_ID op) (failed e)"
    "\<And>r. u = Inr r \<Longrightarrow> c' = R_Artifact op l r rq res"
    using s u by (auto simp: run_complete_def split: sum.splits)
  with u op ok show ?thesis
    by (intro update_step_ok [of env sv op n u]) (auto simp: done_ok_def intro: op_ok_extends requests_extends)
qed

lemma run_completed_ok:
  assumes ok: "service_ok env sv" and op: "pc_ok env sv (R_Completed op l r rq res)"
    and s: "run_completed env inp cx op l r rq res sv = (c', sv')"
  shows "step_ok env c sv c' sv'"
proof -
  obtain u sv1 where a: "append_event env inp cx
             (stamped op (event_of env (op_ID op) ''completed'' (op_UpdatedAt op)
                (Pay_Completed (receipt_of res) (mr_PeakResidentBytes res)))) sv = (u, sv1)" by fastforce
  have d: "op_ok env sv op" "record_ok env sv r" "identity r = identity (toRecord op)"
    "op_Manifest op = rq_Manifest rq" "verified env rq res" "sv_requests sv (op_ID op) = Some rq"
    using op by (auto simp: done_ok_def op_ok_def result_fits_def)
  have "op_ok env sv (fromRecord r (rq_Manifest rq))" using op_ok_returned [OF ok d(1-3)] d(4) by simp
  with d have "op_ok env sv ((fromRecord r (rq_Manifest rq))\<lparr>op_Result := Some res,
      op_Fence := op_Fence op, op_Owner := op_Owner op\<rparr>)"
    by (auto simp: op_ok_def result_fits_def identity_def)
  with a s have "sv1 = sv'" "pc_ok env sv c' \<and> storing c' = None"
    by (auto simp: run_completed_def split: option.splits)
  with a ok show ?thesis by (intro append_step_ok) auto
qed

lemma finish_update_ok:
  assumes ok: "service_ok env sv" and run: "run_ok env sv run"
    and s: "finish_update env now run l n cause cls bg sv = (c', sv')"
  shows "step_ok env c sv c' sv'"
proof -
  let ?d = "Retry (sv_admission sv) (op_Attempt run) cls"
  show ?thesis
  proof (cases "failure_record env now run cause ?d")
    case (Inl e)
    with s ok show ?thesis by (intro step_ok_same) (auto simp: finish_update_def Let_def)
  next
    case (Inr f)
    have f: "op_ok env sv f" "op_ID f = op_ID run" "op_Manifest f = op_Manifest run"
      "op_IdempotencyKey f = op_IdempotencyKey run"
      using run Inr
      by (auto simp: failure_record_def transition_Inr run_ok_def op_ok_def result_fits_def Let_def
          split: sum.splits if_splits)
    obtain u sv1 where u: "update_record f n sv = (u, sv1)" by fastforce
    have "sv1 = sv'" "\<And>e. u = Inl e \<Longrightarrow> c' = R_Unregister l (op_ID run) (failed e)"
      "\<And>r. u = Inr r \<Longrightarrow> c' = R_Failed run f l r cause ?d bg"
      using s u Inr by (auto simp: finish_update_def Let_def split: sum.splits)
    with u f run ok show ?thesis
      by (intro update_step_ok [of env sv f n u]) (auto simp: identity_def intro: run_ok_extends)
  qed
qed

lemma finish_append_ok:
  assumes ok: "service_ok env sv" and op: "pc_ok env sv (R_Failed run f l r cause d bg)"
    and s: "finish_append env inp cx run f l r cause d bg sv = (c', sv')"
  shows "step_ok env c sv c' sv'"
proof -
  obtain u sv1 where a: "append_event env inp (if bg then None else cx)
             (stamped run (event_of env (op_ID run)
                (if rd_Retry d then ''retrying'' else ''failed'') (op_UpdatedAt f)
                (Pay_Finished (rd_Class d) (rd_Reason d) cause (rd_After d)))) sv = (u, sv1)" by fastforce
  have "op_ok env sv (fromRecord r (op_Manifest run))"
    using op op_ok_returned [OF ok] by (simp add: run_ok_def)
  then have "op_ok env sv ((fromRecord r (op_Manifest run))\<lparr>op_RetryAt := x, op_Fence := y, op_Owner := z\<rparr>)"
    for x y z by (auto simp: op_ok_def)
  with a s have "sv1 = sv'" "pc_ok env sv c' \<and> storing c' = None"
    by (auto simp: finish_append_def split: option.splits)
  with a ok show ?thesis by (intro append_step_ok) auto
qed

lemma cancel_read_ok:
  assumes "service_ok env sv" "op_ok env sv op"
  shows "step_ok env c sv (cancel_read now op sv) sv"
proof (rule step_ok_same [OF assms(1)])
  have "op_ok env sv q" if "transition op StateCancelled now = Inr q" for q
    using that assms(2) by (intro op_ok_change [OF assms(2)]) (auto simp: transition_Inr op_ok_def)
  with assms(2) show "pc_ok env sv (cancel_read now op sv)" "storing (cancel_read now op sv) = None"
    by (auto simp: cancel_read_def transition_Inr split: sum.splits)
qed simp_all

lemma cancel_update_ok:
  assumes ok: "service_ok env sv" and op: "pc_ok env sv (C_Update op q t n)"
    and s: "cancel_update op q t n sv = (c', sv')"
  shows "step_ok env c sv c' sv'"
proof -
  obtain u sv1 where u: "update_record q n sv = (u, sv1)" by fastforce
  have "sv1 = sv'" "\<And>e. u = Inl e \<Longrightarrow> c' = Done (failed e)" "\<And>r. u = Inr r \<Longrightarrow> c' = C_Signal op r t"
    using s u by (auto simp: cancel_update_def split: sum.splits)
  moreover have "identity (toRecord q) = identity (toRecord op)"
    using op by (auto simp: op_ok_def identity_def)
  ultimately show ?thesis
    using u op ok by (intro update_step_ok [of env sv q n u]) (auto intro: op_ok_extends)
qed

lemma cancel_append_ok:
  assumes ok: "service_ok env sv" and op: "pc_ok env sv (C_Append op r t)"
    and s: "cancel_append env inp cx op r t sv = (c', sv')"
  shows "step_ok env c sv c' sv'"
proof -
  obtain u sv1 where a: "append_event env inp cx
      (event_of env (op_ID op) ''cancelled'' t (Pay_Cancelled (op_State op))) sv = (u, sv1)" by fastforce
  have "op_ok env sv (fromRecord r (op_Manifest op))" using op op_ok_returned [OF ok] by simp
  with a s have "sv1 = sv'" "pc_ok env sv c' \<and> storing c' = None"
    by (auto simp: cancel_append_def split: option.splits)
  with a ok show ?thesis by (intro append_step_ok) auto
qed

lemma call_step_ok:
  assumes ok: "service_ok env sv" and c: "pc_ok env sv c"
    and s: "call_step env inp self cx wcx c sv = Some ((c', sv'), sig)"
  shows "step_ok env c sv c' sv'"
proof (cases c)
  case (R_Fail run l n e cls bg)
  with s c show ?thesis by (intro finish_update_ok [OF ok]) auto
next
  case (R_Failed run f l r e d bg)
  with s c show ?thesis by (intro finish_append_ok [OF ok]) auto
next
  case (R_Unregister l i out)
  with s c have "sv_requests sv' = sv_requests sv" "sv_catalog sv' = sv_catalog sv" "c' = R_Release l out"
    by (auto simp: run_unregister_def)
  with c R_Unregister ok show ?thesis
    by (intro step_ok_same) (auto intro: outcome_ok_extends [OF extends_same])
next
  case (R_Release l out)
  with s c have "sv_requests sv' = sv_requests sv" "sv_catalog sv' = sv_catalog sv" "c' = Done out"
    by (auto simp: run_release_def)
  with c R_Release ok show ?thesis
    by (intro step_ok_same) (auto intro: outcome_ok_extends [OF extends_same])
next
  case (R_Merge run l n rq g)
  with s obtain c1 where "run_merged (in_now inp) run l n rq g = Some c1" "c' = c1" "sv' = sv" by auto
  with run_merged_ok [of env sv run l n rq g] c ok R_Merge show ?thesis by (intro step_ok_same) auto
next
  case (R_Begin run l n rq d cx1)
  with run_begin_ok [of env sv run rq] s c ok show ?thesis by (intro step_ok_same) auto
next
  case (S_Fail op n e)
  obtain u sv1 where u: "update_record op n sv = (u, sv1)" by fastforce
  with S_Fail s c S_Fail_ok [OF ok _ u] show ?thesis by auto
next
  case (S_Store op rq n)
  with s c store_ok [OF ok, of op rq n] show ?thesis by auto
next
  case (C_Update op q t n)
  with s c show ?thesis by (intro cancel_update_ok [OF ok]) auto
next
  case (R_Admit run l n rq)
  with s c ok show ?thesis by (intro step_ok_same) (auto simp: run_admit_def Let_def)
next
  case (W_Select t)
  with s ok show ?thesis
    by (intro step_ok_same) (auto simp: wait_select_def split: if_splits option.splits)
qed (use s c ok in \<open>auto simp: wait_delay_def
    intro: get_step_ok request_step_ok submit_admit_ok submit_number_ok submit_create_ok submit_append_ok
      run_acquire_ok run_start_ok run_update_ok run_started_ok run_register_ok run_complete_ok
      run_artifact_ok run_completed_ok cancel_read_ok cancel_update_ok cancel_append_ok step_ok_same\<close>)


section \<open>The invariant of the system\<close>

definition threads_ok :: "svc_env \<Rightarrow> service \<Rightarrow> thread list \<Rightarrow> bool" where
  "threads_ok env sv ths \<longleftrightarrow>
     (\<forall>i<length ths. pc_ok env sv (th_pc (ths ! i)))
     \<and> (\<forall>i j x. i < length ths \<longrightarrow> j < length ths \<longrightarrow> storing (th_pc (ths ! i)) = Some x \<longrightarrow>
          storing (th_pc (ths ! j)) = Some x \<longrightarrow> i = j)"

definition system_ok :: "svc_env \<Rightarrow> system \<Rightarrow> bool" where
  "system_ok env s \<longleftrightarrow> service_ok env (sy_service s) \<and> threads_ok env (sy_service s) (sy_threads s)"

lemma threads_okD:
  "threads_ok env sv ths \<Longrightarrow> i < length ths \<Longrightarrow> pc_ok env sv (th_pc (ths ! i))"
  by (simp add: threads_ok_def)

lemma storing_unique:
  "threads_ok env sv ths \<Longrightarrow> i < length ths \<Longrightarrow> j < length ths \<Longrightarrow> storing (th_pc (ths ! i)) = Some x \<Longrightarrow>
   storing (th_pc (ths ! j)) = Some x \<Longrightarrow> i = j"
  by (simp add: threads_ok_def)

lemma storing_listed: "pc_ok env sv c \<Longrightarrow> storing c = Some i \<Longrightarrow> table (sv_catalog sv) i \<noteq> None"
  by (auto simp: listed_def dest!: storing_Some)

lemma storing_fresh: "pc_ok env sv c \<Longrightarrow> storing c = Some i \<Longrightarrow> sv_requests sv i = None"
  by (auto dest!: storing_Some)

text \<open>One thread makes a step on the service; the others keep what they know.\<close>

lemma threads_ok_step:
  assumes ths: "threads_ok env sv ths" and k: "k < length ths"
    and s: "step_ok env (th_pc (ths ! k)) sv (th_pc th) sv'"
  shows "threads_ok env sv' (ths[k := th])"
  unfolding threads_ok_def
proof (intro conjI allI impI)
  have ext: "extends sv sv'" and new: "\<And>i. storing (th_pc th) = Some i \<Longrightarrow> table (sv_catalog sv) i = None"
    and req: "\<And>i. sv_requests sv' i \<noteq> None \<Longrightarrow> sv_requests sv i \<noteq> None \<or> storing (th_pc (ths ! k)) = Some i"
    using s by (auto simp: step_ok_def)
  have other: "storing (th_pc (ths ! j)) \<noteq> Some x"
    if "j < length ths" "storing (th_pc th) = Some x" for j x
    using new [OF that(2)] storing_listed [OF threads_okD [OF ths that(1)]] by blast
  show "pc_ok env sv' (th_pc (ths[k := th] ! i))" if "i < length (ths[k := th])" for i
  proof (cases "i = k")
    case True
    with s k show ?thesis by (simp add: step_ok_def)
  next
    case False
    have i: "i < length ths" using that by simp
    have "pc_ok env sv' (th_pc (ths ! i))"
    proof (rule pc_ok_extends [OF ext threads_okD [OF ths i]])
      fix x assume x: "storing (th_pc (ths ! i)) = Some x"
      then have "storing (th_pc (ths ! k)) \<noteq> Some x"
        using storing_unique [OF ths i k] False by blast
      with req [of x] storing_fresh [OF threads_okD [OF ths i] x] show "sv_requests sv' x = None" by blast
    qed
    with False show ?thesis by simp
  qed
  show "i = j" if "i < length (ths[k := th])" "j < length (ths[k := th])"
    "storing (th_pc (ths[k := th] ! i)) = Some x" "storing (th_pc (ths[k := th] ! j)) = Some x" for i j x
    using that other [of i x] other [of j x] storing_unique [OF ths, of i j x]
    by (cases "i = k"; cases "j = k") auto
qed

text \<open>A thread changes without a step on the tables.\<close>

lemma threads_ok_update:
  assumes "threads_ok env sv ths" "k < length ths" "pc_ok env sv (th_pc th)"
    "storing (th_pc th) = None \<or> storing (th_pc th) = storing (th_pc (ths ! k))"
  shows "threads_ok env sv (ths[k := th])"
proof -
  have same: "storing (th_pc (ths ! i)) = Some x"
    if "storing (th_pc (ths[k := th] ! i)) = Some x" "i < length ths" for i x
    using that assms(2,4) by (cases "i = k") auto
  show ?thesis
    unfolding threads_ok_def
  proof (intro conjI allI impI)
    show "pc_ok env sv (th_pc (ths[k := th] ! i))" if "i < length (ths[k := th])" for i
      using that assms(2,3) threads_okD [OF assms(1)] by (cases "i = k") auto
    show "i = j" if "i < length (ths[k := th])" "j < length (ths[k := th])"
      "storing (th_pc (ths[k := th] ! i)) = Some x" "storing (th_pc (ths[k := th] ! j)) = Some x" for i j x
      using that same storing_unique [OF assms(1)] by (metis length_list_update)
  qed
qed

lemma threads_ok_start:
  assumes "threads_ok env sv ths" "pc_ok env sv (th_pc th)" "storing (th_pc th) = None"
  shows "threads_ok env sv (ths @ [th])"
  using assms storing_unique [OF assms(1)] by (auto simp: threads_ok_def nth_append less_Suc_eq)

lemma storing_cancel [simp]: "storing (cancel_pc e c) = storing c"
  by (cases c) (simp_all add: cancel_pc_def)

lemma pc_ok_cancel:
  assumes "pc_ok env sv c"
  shows "pc_ok env sv (cancel_pc e c)"
proof (cases c)
  case (R_Merge run l n rq g)
  have "merge_step (merge_env_of env rq) (L_Cancel e) g = Some (cancel_ctx e g)" by simp
  with assms R_Merge show ?thesis by (auto simp: cancel_pc_def intro: merge_ok_step simp del: merge_step.simps)
qed (use assms in \<open>simp_all add: cancel_pc_def\<close>)

lemma threads_ok_signal: "threads_ok env sv ths \<Longrightarrow> threads_ok env sv (signal sig ths)"
  by (auto simp: signal_def cancel_worker_def intro!: threads_ok_update pc_ok_cancel threads_okD
      split: option.split)

lemma ready_step_ok:
  assumes "ready_step th sv = Some th'"
  shows "pc_ok env sv (th_pc th')" "storing (th_pc th') = None"
  using assms by (auto simp: ready_step_def split: pc.splits list.splits if_splits)

lemma thread_step_ok:
  assumes "service_ok env sv" "threads_ok env sv ths" "k < length ths"
    "thread_step env inp k (ths ! k) sv = Some (th, sv', sig)"
  shows "service_ok env sv' \<and> threads_ok env sv' (signal sig (ths[k := th]))"
proof (cases "call_step env inp k (th_ctx (ths ! k)) (th_wctx (ths ! k)) (th_pc (ths ! k)) sv")
  case None
  with assms(4) have "ready_step (ths ! k) sv = Some th" "sv' = sv" "sig = None"
    by (auto simp: thread_step_def)
  with ready_step_ok [of "ths ! k" sv th] assms show ?thesis
    by (auto intro!: threads_ok_signal threads_ok_update)
next
  case (Some r)
  then obtain c where c: "call_step env inp k (th_ctx (ths ! k)) (th_wctx (ths ! k)) (th_pc (ths ! k)) sv
      = Some ((c, sv'), sig)" "th_pc th = c"
    using assms(4) by (auto simp: thread_step_def split: prod.splits)
  have "step_ok env (th_pc (ths ! k)) sv (th_pc th) sv'"
    using call_step_ok [OF assms(1) threads_okD [OF assms(2,3)] c(1)] c(2) by simp
  moreover from this have "service_ok env sv'" by (simp add: step_ok_def)
  ultimately show ?thesis using threads_ok_signal [OF threads_ok_step [OF assms(2,3)]] by blast
qed

lemma merge_thread_ok:
  assumes "merge_thread env l th = Some th'" "pc_ok env sv (th_pc th)"
  shows "pc_ok env sv (th_pc th')" "storing (th_pc th') = None"
proof -
  obtain run le n rq g g' where g: "th_pc th = R_Merge run le n rq g"
    "merge_step (merge_env_of env rq) l g = Some g'" "th' = th\<lparr>th_pc := R_Merge run le n rq g'\<rparr>"
    using assms(1) by (auto simp: merge_thread_def split: pc.splits merge_label.splits)
  have "merge_ok (merge_env_of env rq) (rq_Manifest rq) NewMemoryWriter NewMemoryCheckpoints
      NewMemoryIndex g"
    using assms(2) by (simp add: g(1))
  from merge_ok_step [OF this g(2)] show "pc_ok env sv (th_pc th')" "storing (th_pc th') = None"
    using assms(2) by (simp_all add: g(1,3))
qed

lemma system_ok_step:
  assumes ok: "system_ok env s" and s: "svc_step env l s = Some s'"
  shows "system_ok env s'"
proof (cases l)
  case (Start k cx)
  have "pc_ok env (sy_service s) (first_pc k)" "storing (first_pc k) = None" by (cases k; simp)+
  moreover have "s' = s\<lparr>sy_threads := sy_threads s @ [new_thread k cx]\<rparr>" using Start s by simp
  ultimately show ?thesis
    using ok threads_ok_start [of env "sy_service s" "sy_threads s" "new_thread k cx"]
    by (simp add: system_ok_def new_thread_def)
next
  case (Step i inp)
  with s ok thread_step_ok [of env "sy_service s" "sy_threads s" i inp] show ?thesis
    by (auto simp: system_ok_def split: if_splits option.splits)
next
  case (MergeStep i m)
  then obtain th where "i < length (sy_threads s)" "merge_thread env m (sy_threads s ! i) = Some th"
    "s' = s\<lparr>sy_threads := (sy_threads s)[i := th]\<rparr>"
    using s by (auto split: if_splits)
  with ok merge_thread_ok [of env m "sy_threads s ! i" th] show ?thesis
    by (auto simp: system_ok_def intro!: threads_ok_update dest: threads_okD)
next
  case (CancelCaller i e)
  with s ok show ?thesis
    by (auto simp: system_ok_def cancel_worker_def intro!: threads_ok_update pc_ok_cancel threads_okD
        split: if_splits)
next
  case (OtherLease op)
  let ?sv = "(sy_service s)\<lparr>sv_leases := lease_step op (sv_leases (sy_service s))\<rparr>"
  have ext: "extends (sy_service s) ?sv" by (simp add: extends_same)
  have "pc_ok env ?sv c" if "pc_ok env (sy_service s) c" for c
    by (rule pc_ok_extends [OF ext that]) (simp add: storing_fresh [OF that])
  moreover have "service_ok env ?sv"
    by (rule service_ok_same [of env "sy_service s"]) (use ok in \<open>simp_all add: system_ok_def\<close>)
  moreover have "s' = s\<lparr>sy_service := ?sv\<rparr>" using OtherLease s by simp
  ultimately show ?thesis using ok by (simp add: system_ok_def threads_ok_def)
qed

lemma system_ok_run: "svc_run env ls s = Some s' \<Longrightarrow> system_ok env s \<Longrightarrow> system_ok env s'"
  by (induction ls arbitrary: s) (auto intro: system_ok_step split: option.splits)

lemma service_ok_NewService: "service_ok env (NewService c None j l a)"
  by (simp add: service_ok_def NewService_def catalog_ok_New) (simp add: New_def table_def)

lemma system_ok_start: "system_ok env (system_of (NewService c None j l a))"
  by (simp add: system_ok_def system_of_def threads_ok_def service_ok_NewService)

end
