(* ===== verification/ServiceMoves.thy ===== *)
theory ServiceMoves
  imports ServiceSafety
begin

text \<open>
  How the record of an operation moves while calls interleave: which sections write it, and what a
  thread that wrote it may conclude from an unchanged revision. A thread that has started an operation,
  or has just created it, holds a claim: as long as the revision is the one it got, the record
  is the one it wrote.
\<close>

section \<open>The writes\<close>

text \<open>What the section of a counter is about to write, and at which revision.\<close>

definition writing :: "svc_env \<Rightarrow> step_input \<Rightarrow> service \<Rightarrow> pc \<Rightarrow> (operation \<times> u64) option" where
  "writing env inp sv c =
     (case c of
        S_Fail op n e \<Rightarrow> Some (op, n)
      | R_Update run l t n \<Rightarrow> Some (run, n)
      | R_Complete op l n rq res \<Rightarrow> Some (op, n)
      | C_Update op q t n \<Rightarrow> Some (q, n)
      | R_Fail run l n e cls bg \<Rightarrow>
          (case failure_record env (in_now inp) run e (Retry (sv_admission sv) (op_Attempt run) cls) of
             Inl _ \<Rightarrow> None | Inr f \<Rightarrow> Some (f, n))
      | _ \<Rightarrow> None)"

text \<open>A claim: the operation, the revision, and the record as it was written.\<close>

type_synonym claim = "string \<times> u64 \<times> string \<times> int \<times> u64 \<times> string"

definition claim_of :: "string \<Rightarrow> operation \<Rightarrow> u64 \<Rightarrow> claim" where
  "claim_of state op n = (op_ID op, n, state, op_Attempt op, op_Fence op, op_Owner op)"

definition claim :: "pc \<Rightarrow> claim option" where
  "claim c =
     (case c of
        S_Store op rq n \<Rightarrow> Some (claim_of StateAccepted op n)
      | S_Append op n \<Rightarrow> Some (claim_of StateAccepted op n)
      | S_Fail op n e \<Rightarrow> Some (claim_of StateAccepted op n)
      | R_Started run l t n \<Rightarrow> Some (claim_of StateRunning run n)
      | R_Register run l n \<Rightarrow> Some (claim_of StateRunning run n)
      | R_Admit run l n rq \<Rightarrow> Some (claim_of StateRunning run n)
      | R_Load run l n rq d \<Rightarrow> Some (claim_of StateRunning run n)
      | R_Begin run l n rq d cx \<Rightarrow> Some (claim_of StateRunning run n)
      | R_Merge run l n rq g \<Rightarrow> Some (claim_of StateRunning run n)
      | R_Complete op l n rq res \<Rightarrow> Some (claim_of StateRunning op n)
      | R_Fail run l n e cls bg \<Rightarrow> Some (claim_of StateRunning run n)
      | _ \<Rightarrow> None)"

fun holds :: "service \<Rightarrow> claim \<Rightarrow> bool" where
  "holds sv (i, n, state, attempt, fence, owner) \<longleftrightarrow>
     (\<exists>r. table (sv_catalog sv) i = Some r \<and> unat n \<le> unat (or_Revision r)
        \<and> (or_Revision r = n \<longrightarrow>
             or_State r = state \<and> or_Attempt r = attempt \<and> or_Fence r = fence \<and> or_Owner r = owner))"

definition claim_ok :: "service \<Rightarrow> pc \<Rightarrow> bool" where
  "claim_ok sv c \<longleftrightarrow> (\<forall>k. claim c = Some k \<longrightarrow> holds sv k)"

lemma claim_simps [simp]:
  "claim (Done out) = None" "claim (P_Get k i) = None" "claim (R_Release l out) = None"
  "claim (R_Unregister l i out) = None" "claim (R_Start op l) = None" "claim (R_Acquire op) = None"
  "claim (R_Artifact op l r rq res) = None" "claim (S_Number rq) = None"
  "claim (S_Create op rq) = None" "claim (R_Failed run f l r e d bg) = None"
  "claim (C_Read op) = None" "claim (C_Signal op r t) = None" "claim (C_Append op r t) = None"
  "claim (P_Request k i r) = None" "claim (W_Delay t) = None" "claim (W_Select t) = None"
  "claim (R_Update run l t n) = None" "claim (C_Update op q t n) = None"
  "claim (R_Completed op l r rq res) = None" "claim Q_Next = None" "claim Q_Finished = None"
  "claim (Q_List limit) = None" "claim (S_Admit rq) = None"
  "claim (S_Store op rq n) = Some (claim_of StateAccepted op n)"
  "claim (S_Append op n) = Some (claim_of StateAccepted op n)"
  "claim (S_Fail op n e) = Some (claim_of StateAccepted op n)"
  "claim (R_Started run l t n) = Some (claim_of StateRunning run n)"
  "claim (R_Register run l n) = Some (claim_of StateRunning run n)"
  "claim (R_Admit run l n rq) = Some (claim_of StateRunning run n)"
  "claim (R_Load run l n rq dc) = Some (claim_of StateRunning run n)"
  "claim (R_Begin run l n rq dc cx) = Some (claim_of StateRunning run n)"
  "claim (R_Merge run l n rq g) = Some (claim_of StateRunning run n)"
  "claim (R_Complete op l n rq res) = Some (claim_of StateRunning op n)"
  "claim (R_Fail run l n e cls bg) = Some (claim_of StateRunning run n)"
  by (simp_all add: claim_def)

lemma writing_simps [simp]:
  "writing env inp sv (S_Fail op n e) = Some (op, n)"
  "writing env inp sv (R_Update run l t n) = Some (run, n)"
  "writing env inp sv (R_Complete op l n rq res) = Some (op, n)"
  "writing env inp sv (C_Update op q t n) = Some (q, n)"
  by (simp_all add: writing_def)

text \<open>What a section does to the table of records.\<close>

definition created :: "pc \<Rightarrow> service \<Rightarrow> pc \<Rightarrow> service \<Rightarrow> bool" where
  "created c sv c' sv' \<longleftrightarrow>
     (\<exists>op rq. c = S_Create op rq \<and> c' = S_Store op rq 1 \<and> op_State op = StateAccepted
        \<and> table (sv_catalog sv) (op_ID op) = None
        \<and> table (sv_catalog sv') = (table (sv_catalog sv))(op_ID op \<mapsto> (toRecord op)\<lparr>or_Revision := 1\<rparr>))"

definition written ::
  "svc_env \<Rightarrow> step_input \<Rightarrow> pc \<Rightarrow> service \<Rightarrow> pc \<Rightarrow> service \<Rightarrow> bool" where
  "written env inp c sv c' sv' \<longleftrightarrow>
     (\<exists>op n r. writing env inp sv c = Some (op, n) \<and> table (sv_catalog sv) (op_ID op) = Some r
        \<and> or_Revision r = n \<and> identity r = identity (toRecord op)
        \<and> table (sv_catalog sv') =
            (table (sv_catalog sv))(op_ID op \<mapsto> (toRecord op)\<lparr>or_Revision := n + 1\<rparr>)
        \<and> (claim c' = None \<or> op_State op = StateRunning \<and> claim c' = Some (claim_of StateRunning op (n + 1))))"

lemma update_written:
  assumes "service_ok env sv" "op_ok env sv op" "update_record op n sv = (res, sv')"
    "writing env inp sv c = Some (op, n)"
    "\<And>e. res = Inl e \<Longrightarrow> claim c' = None"
    "\<And>r. res = Inr r \<Longrightarrow> or_Revision r = n + 1 \<Longrightarrow>
       claim c' = None \<or> op_State op = StateRunning \<and> claim c' = Some (claim_of StateRunning op (n + 1))"
  shows "table (sv_catalog sv') = table (sv_catalog sv) \<and> claim c' = None \<or> written env inp c sv c' sv'"
  using assms(1-3)
proof (cases rule: update_record_cases)
  case (refused e)
  with assms(5) show ?thesis by simp
next
  case (updated s r c)
  then have "or_Revision r = n + 1" by simp
  with assms(6) updated(4)
  have "claim c' = None \<or> op_State op = StateRunning \<and> claim c' = Some (claim_of StateRunning op (n + 1))"
    by blast
  moreover have "identity s = identity (toRecord op)" using updated(3,7) by (simp add: identity_def)
  ultimately have "written env inp c sv c' sv'" if "writing env inp sv c = Some (op, n)" for c
    using updated that unfolding written_def by (intro exI [of _ op] exI [of _ n] exI [of _ s]) simp
  with assms(4) show ?thesis by blast
qed

text \<open>One lemma per section that writes, and one for the rest.\<close>

lemma run_update_written:
  assumes "service_ok env sv" "run_ok env sv run" "run_update run l now n sv = (c', sv')"
  shows "table (sv_catalog sv') = table (sv_catalog sv) \<and> claim c' = None
    \<or> written env inp (R_Update run l now n) sv c' sv'"
proof -
  obtain res sv1 where u: "update_record run n sv = (res, sv1)" by fastforce
  then have "sv1 = sv'" "\<And>e. res = Inl e \<Longrightarrow> c' = R_Release l (failed e)"
    "\<And>r. res = Inr r \<Longrightarrow> c' = R_Started run l now (or_Revision r)"
    using assms(3) by (auto simp: run_update_def split: sum.splits)
  with u assms(1,2) show ?thesis
    by (intro update_written [of env sv run n res]) (auto simp: run_ok_def)
qed

lemma run_complete_written:
  assumes "service_ok env sv" "done_ok env sv op rq res" "run_complete op l n rq res sv = (c', sv')"
  shows "table (sv_catalog sv') = table (sv_catalog sv) \<and> claim c' = None
    \<or> written env inp (R_Complete op l n rq res) sv c' sv'"
proof -
  obtain u sv1 where u: "update_record op n sv = (u, sv1)" by fastforce
  then have "sv1 = sv'" "claim c' = None"
    using assms(3) by (auto simp: run_complete_def split: sum.splits)
  with u assms(1,2) show ?thesis
    by (intro update_written [of env sv op n u]) (auto simp: done_ok_def)
qed

lemma cancel_update_written:
  assumes "service_ok env sv" "op_ok env sv q" "cancel_update op q t n sv = (c', sv')"
  shows "table (sv_catalog sv') = table (sv_catalog sv) \<and> claim c' = None
    \<or> written env inp (C_Update op q t n) sv c' sv'"
proof -
  obtain u sv1 where u: "update_record q n sv = (u, sv1)" by fastforce
  then have "sv1 = sv'" "claim c' = None"
    using assms(3) by (auto simp: cancel_update_def split: sum.splits)
  with u assms(1,2) show ?thesis by (intro update_written [of env sv q n u]) auto
qed

lemma S_Fail_written:
  assumes "service_ok env sv" "op_ok env sv op"
  shows "table (sv_catalog (snd (update_record op n sv))) = table (sv_catalog sv)
    \<or> written env inp (S_Fail op n e) sv (Done (failed e)) (snd (update_record op n sv))"
proof -
  obtain u sv1 where u: "update_record op n sv = (u, sv1)" by fastforce
  have "table (sv_catalog sv1) = table (sv_catalog sv) \<and> claim (Done (failed e)) = None
    \<or> written env inp (S_Fail op n e) sv (Done (failed e)) sv1"
    by (rule update_written [OF assms u]) simp_all
  with u show ?thesis by auto
qed

lemma failure_record_Inr:
  assumes "failure_record env now run cause d = Inr f"
  shows "op_State f = (if rd_Retry d then StateRetrying else StateFailed)" "op_ID f = op_ID run"
    "op_Attempt f = op_Attempt run" "op_Fence f = op_Fence run" "op_Owner f = op_Owner run"
    "op_Manifest f = op_Manifest run" "op_IdempotencyKey f = op_IdempotencyKey run"
    "op_Result f = op_Result run"
  using assms by (auto simp: failure_record_def transition_Inr Let_def split: sum.splits if_splits)

lemma failure_record_ok:
  assumes "run_ok env sv run" "failure_record env now run cause d = Inr f"
  shows "op_ok env sv f"
  using assms(1) failure_record_Inr [OF assms(2)]
  by (intro op_ok_change [of env sv run f]) (auto simp: run_ok_def op_ok_def)

lemma finish_update_written:
  assumes "service_ok env sv" "run_ok env sv run"
    "finish_update env (in_now inp) run l n cause cls bg sv = (c', sv')"
  shows "table (sv_catalog sv') = table (sv_catalog sv) \<and> claim c' = None
    \<or> written env inp (R_Fail run l n cause cls bg) sv c' sv'"
proof (cases "failure_record env (in_now inp) run cause (Retry (sv_admission sv) (op_Attempt run) cls)")
  case (Inl e)
  with assms(3) show ?thesis by (auto simp: finish_update_def Let_def)
next
  case (Inr f)
  obtain u sv1 where u: "update_record f n sv = (u, sv1)" by fastforce
  then have "sv1 = sv'" "claim c' = None"
    using assms(3) Inr by (auto simp: finish_update_def Let_def split: sum.splits)
  with u assms(1) failure_record_ok [OF assms(2) Inr] Inr show ?thesis
    by (intro update_written [of env sv f n u]) (auto simp: writing_def)
qed

lemma submit_create_written:
  assumes ok: "service_ok env sv" and op: "new_op op rq" and s: "submit_create op rq sv = (c', sv')"
  shows "table (sv_catalog sv') = table (sv_catalog sv) \<and> claim c' = None
    \<or> created (S_Create op rq) sv c' sv'"
proof -
  obtain res c where cr: "Create (toRecord op) (sv_catalog sv) = (res, c)" by fastforce
  from service_okD(1) [OF ok] cr show ?thesis
  proof (cases rule: Create_cases)
    case created
    with s cr op show ?thesis by (auto simp: submit_create_def created_def new_op_def)
  qed (use s cr in \<open>auto simp: submit_create_def\<close>)
qed

lemma append_sections:
  "fst (submit_append env inp cx op n sv) = c' \<Longrightarrow>
     claim c' = None \<or> claim c' = Some (claim_of StateAccepted op n)"
  "fst (run_started env inp cx run l t n sv) = c' \<Longrightarrow>
     claim c' = None \<or> claim c' = Some (claim_of StateRunning run n)"
  "claim (fst (run_completed env inp cx op l r rq res sv)) = None"
  "claim (fst (finish_append env inp cx run f l r e d bg sv)) = None"
  "claim (fst (cancel_append env inp cx op r t sv)) = None"
  by (auto simp: submit_append_def run_started_def run_completed_def finish_append_def
      cancel_append_def transition_Inr claim_of_def split: prod.splits option.splits sum.splits)

lemma append_event_catalog [simp]: "sv_catalog (snd (append_event env inp cx e sv)) = sv_catalog sv"
  by (auto simp: append_event_def split: prod.splits sum.splits)

lemma append_tables:
  "sv_catalog (snd (submit_append env inp cx op n sv)) = sv_catalog sv"
  "sv_catalog (snd (run_started env inp cx run l t n sv)) = sv_catalog sv"
  "sv_catalog (snd (run_completed env inp cx op l r rq res sv)) = sv_catalog sv"
  "sv_catalog (snd (finish_append env inp cx run f l r e d bg sv)) = sv_catalog sv"
  "sv_catalog (snd (cancel_append env inp cx op r t sv)) = sv_catalog sv"
  by (auto simp: submit_append_def run_started_def run_completed_def finish_append_def
      cancel_append_def split: prod.splits option.splits sum.splits
      dest: append_event_same(2))

lemma run_artifact_table: "table (sv_catalog (snd (run_artifact op l r rq res sv))) = table (sv_catalog sv)"
  "claim (fst (run_artifact op l r rq res sv)) = None"
  by (auto simp: run_artifact_def PutArtifact_def table_def split: prod.splits option.splits if_splits)

text \<open>Every section leaves the records alone, or creates one, or writes the one it announced.\<close>

definition quiet :: "pc \<Rightarrow> service \<Rightarrow> pc \<Rightarrow> service \<Rightarrow> bool" where
  "quiet c sv c' sv' \<longleftrightarrow>
     table (sv_catalog sv') = table (sv_catalog sv) \<and> (claim c' = None \<or> claim c' = claim c)"

lemma call_step_effect:
  assumes ok: "service_ok env sv" and c: "pc_ok env sv c"
    and s: "call_step env inp self cx wcx c sv = Some ((c', sv'), sig)"
  shows "quiet c sv c' sv' \<or> created c sv c' sv' \<or> written env inp c sv c' sv'"
proof (cases c)
  case (P_Get k i)
  with s show ?thesis by (auto simp: quiet_def get_step_def split: option.splits sum.splits)
next
  case (P_Request k i r)
  with s show ?thesis
    by (auto simp: quiet_def request_step_def got_def split: option.splits caller.splits)
next
  case (S_Create op rq)
  with s c submit_create_written [OF ok, of op rq c' sv'] show ?thesis by (auto simp: quiet_def)
next
  case (S_Append op n)
  with s append_sections(1) [of env inp cx op n sv c'] append_tables(1) [of env inp cx op n sv]
  show ?thesis by (auto simp: quiet_def)
next
  case (S_Fail op n e)
  with s c S_Fail_written [OF ok, of op n inp e] show ?thesis by (auto simp: quiet_def)
next
  case (R_Update run l t n)
  with s c run_update_written [OF ok, of run l t n c' sv' inp] show ?thesis by (auto simp: quiet_def)
next
  case (R_Started run l t n)
  with s append_sections(2) [of env inp cx run l t n sv c'] append_tables(2) [of env inp cx run l t n sv]
  show ?thesis by (auto simp: quiet_def)
next
  case (R_Complete op l n rq res)
  with s c run_complete_written [OF ok, of op rq res l n c' sv' inp] show ?thesis by (auto simp: quiet_def)
next
  case (R_Artifact op l r rq res)
  with s run_artifact_table [of op l r rq res sv] show ?thesis by (auto simp: quiet_def)
next
  case (R_Completed op l r rq res)
  with s append_sections(3) [of env inp cx op l r rq res sv] append_tables(3) [of env inp cx op l r rq res sv]
  show ?thesis by (auto simp: quiet_def)
next
  case (R_Fail run l n e cls bg)
  with s c finish_update_written [OF ok, of run inp l n e cls bg c' sv'] show ?thesis
    by (auto simp: quiet_def)
next
  case (R_Failed run f l r e d bg)
  with s append_sections(4) [of env inp cx run f l r e d bg sv] append_tables(4) [of env inp cx run f l r e d bg sv]
  show ?thesis by (auto simp: quiet_def)
next
  case (R_Merge run l n rq g)
  with s show ?thesis
    by (auto simp: quiet_def run_merged_def merge_failed_def transition_Inr
        claim_of_def split: main_pc.splits sum.splits)
next
  case (R_Begin run l n rq d cx1)
  with s show ?thesis by (auto simp: quiet_def run_begin_def merge_failed_def split: sum.splits)
next
  case (C_Update op q t n)
  with s c cancel_update_written [OF ok, of q op t n c' sv' inp] show ?thesis by (auto simp: quiet_def)
next
  case (C_Append op r t)
  with s append_sections(5) [of env inp cx op r t sv] append_tables(5) [of env inp cx op r t sv]
  show ?thesis by (auto simp: quiet_def)
qed (use s in \<open>auto simp: quiet_def submit_admit_def submit_number_def run_acquire_def run_start_def
      run_register_def run_admit_def run_unregister_def run_release_def cancel_read_def wait_delay_def
      wait_select_def Let_def split: option.splits sum.splits prod.splits if_splits\<close>)


section \<open>The moves of a record\<close>

text \<open>
  A start and a cancellation may overwrite whatever is there; the other writes are of the state they
  expect, and by the thread that put the record there.
\<close>

definition moved :: "operation_record \<Rightarrow> operation_record \<Rightarrow> bool" where
  "moved r r' \<longleftrightarrow>
     r' = r
     \<or> or_Revision r' = or_Revision r + 1 \<and> identity r' = identity r
       \<and> (or_State r' = StateRunning \<or> or_State r' = StateCancelled
          \<or> or_Attempt r' = or_Attempt r \<and> or_Fence r' = or_Fence r \<and> or_Owner r' = or_Owner r
            \<and> (or_State r = StateRunning
                 \<and> or_State r' \<in> {StateCompleted, StateRetrying, StateFailed}
               \<or> or_State r = StateAccepted \<and> or_State r' = StateFailed))"

lemma writing_moved:
  assumes c: "pc_ok env sv c" "claim_ok sv c" and w: "writing env inp sv c = Some (op, n)"
    and r: "table (sv_catalog sv) (op_ID op) = Some r" "or_Revision r = n" "identity r = identity (toRecord op)"
  shows "moved r ((toRecord op)\<lparr>or_Revision := n + 1\<rparr>)"
proof -
  let ?r = "(toRecord op)\<lparr>or_Revision := n + 1\<rparr>"
  have id: "identity ?r = identity r" using r(3) by (simp add: identity_def)
  have held: "or_State r = st \<and> or_Attempt r = op_Attempt op \<and> or_Fence r = op_Fence op \<and> or_Owner r = op_Owner op"
    if "claim c = Some (claim_of st op n)" for st
    using c(2) that r(1,2) by (auto simp: claim_ok_def claim_of_def)
  show ?thesis
  proof (cases c)
    case (S_Fail op' n' e)
    with w held [of StateAccepted] c(1) r(2) id show ?thesis by (auto simp: moved_def)
  next
    case (R_Update run l t n')
    with w c(1) r(2) id show ?thesis by (auto simp: moved_def run_ok_def)
  next
    case (R_Complete op' l n' rq res)
    with w held [of StateRunning] c(1) r(2) id show ?thesis by (auto simp: moved_def done_ok_def)
  next
    case (C_Update op' q t n')
    with w c(1) r(2) id show ?thesis by (auto simp: moved_def)
  next
    case (R_Fail run l n' e cls bg)
    let ?d = "Retry (sv_admission sv) (op_Attempt run) cls"
    have f: "failure_record env (in_now inp) run e ?d = Inr op" "n' = n"
      using w R_Fail by (auto simp: writing_def split: sum.splits)
    note g = failure_record_Inr [OF f(1)]
    have "claim c = Some (claim_of StateRunning op n)" using R_Fail f g by (simp add: claim_of_def)
    with held [of StateRunning] g(1) r(2) id show ?thesis by (auto simp: moved_def)
  qed (use w in \<open>simp_all add: writing_def\<close>)
qed

definition revisions_below :: "nat \<Rightarrow> service \<Rightarrow> bool" where
  "revisions_below k sv \<longleftrightarrow>
     (\<forall>i r. table (sv_catalog sv) i = Some r \<longrightarrow> unat (or_Revision r) \<le> k)"

text \<open>What one section does to the records, to its own claim and to the claims of others.\<close>

definition all_moved :: "service \<Rightarrow> service \<Rightarrow> bool" where
  "all_moved sv sv' \<longleftrightarrow>
     (\<forall>i r. table (sv_catalog sv) i = Some r \<longrightarrow>
        (\<exists>r'. table (sv_catalog sv') i = Some r' \<and> moved r r'))"

lemma all_moved_same: "sv_catalog sv' = sv_catalog sv \<Longrightarrow> all_moved sv sv'"
  by (simp add: all_moved_def moved_def)

lemma moved_above:
  assumes "moved r r'" "revisions_below k sv" "table (sv_catalog sv) i = Some r" "Suc k < 2 ^ 64"
  shows "r' = r \<or> unat (or_Revision r') = Suc (unat (or_Revision r))"
proof -
  have "unat (or_Revision r) \<le> k" using assms(2,3) by (auto simp: revisions_below_def)
  then have "unat (or_Revision r + 1) = Suc (unat (or_Revision r))" using assms(4) by (intro u64_Suc) simp
  with assms(1) show ?thesis by (auto simp: moved_def)
qed

lemma holds_moved:
  assumes "holds sv cl" "all_moved sv sv'" "revisions_below k sv" "Suc k < 2 ^ 64"
  shows "holds sv' cl"
proof -
  obtain i n st a f w where cl: "cl = (i, n, st, a, f, w)" by (cases cl) auto
  obtain r where r: "table (sv_catalog sv) i = Some r" "unat n \<le> unat (or_Revision r)"
    "or_Revision r = n \<longrightarrow> or_State r = st \<and> or_Attempt r = a \<and> or_Fence r = f \<and> or_Owner r = w"
    using assms(1) cl by auto
  obtain r' where r': "table (sv_catalog sv') i = Some r'" "moved r r'"
    using assms(2) r(1) by (auto simp: all_moved_def)
  from moved_above [OF r'(2) assms(3) r(1) assms(4)] show ?thesis
    using r r' by (auto simp: cl)
qed

lemma call_step_moves:
  assumes ok: "service_ok env sv" and c: "pc_ok env sv c" "claim_ok sv c"
    and below: "revisions_below k sv" "Suc k < 2 ^ 64" "1 \<le> k"
    and s: "call_step env inp self cx wcx c sv = Some ((c', sv'), sig)"
  shows "all_moved sv sv' \<and> claim_ok sv' c' \<and> revisions_below (Suc k) sv'"
proof -
  from call_step_effect [OF ok c(1) s] show ?thesis
  proof (elim disjE)
    assume "quiet c sv c' sv'"
    with c(2) below(1) show ?thesis
      by (auto simp: quiet_def all_moved_def moved_def claim_ok_def revisions_below_def le_SucI)
  next
    assume "created c sv c' sv'"
    then obtain op rq where op: "c' = S_Store op rq 1" "op_State op = StateAccepted"
      "table (sv_catalog sv) (op_ID op) = None"
      "table (sv_catalog sv') = (table (sv_catalog sv))(op_ID op \<mapsto> (toRecord op)\<lparr>or_Revision := 1\<rparr>)"
      by (auto simp: created_def)
    then show ?thesis
      using below(1) by (auto simp: all_moved_def moved_def claim_ok_def claim_of_def revisions_below_def le_SucI)
  next
    assume "written env inp c sv c' sv'"
    then obtain op n r where w: "writing env inp sv c = Some (op, n)" "table (sv_catalog sv) (op_ID op) = Some r"
      "or_Revision r = n" "identity r = identity (toRecord op)"
      "table (sv_catalog sv') = (table (sv_catalog sv))(op_ID op \<mapsto> (toRecord op)\<lparr>or_Revision := n + 1\<rparr>)"
      "claim c' = None \<or> op_State op = StateRunning \<and> claim c' = Some (claim_of StateRunning op (n + 1))"
      unfolding written_def by blast
    let ?r = "(toRecord op)\<lparr>or_Revision := n + 1\<rparr>"
    have m: "moved r ?r" using writing_moved [OF c w(1-4)] .
    have "unat (or_Revision ?r) = Suc (unat (or_Revision r)) \<or> ?r = r"
      using moved_above [OF m below(1) w(2) below(2)] by blast
    moreover have "unat (or_Revision r) \<le> k" using below(1) w(2) by (auto simp: revisions_below_def)
    ultimately have "unat (or_Revision ?r) \<le> Suc k" by auto
    then have "revisions_below (Suc k) sv'"
      using below(1) by (auto simp: revisions_below_def w(5) le_SucI)
    moreover have "all_moved sv sv'" using m w(2) by (auto simp: all_moved_def w(5) moved_def)
    moreover have "claim_ok sv' c'" using w(6) by (auto simp: claim_ok_def claim_of_def w(5))
    ultimately show ?thesis by blast
  qed
qed


section \<open>The moves of the system\<close>

definition claims_ok :: "service \<Rightarrow> thread list \<Rightarrow> bool" where
  "claims_ok sv ths \<longleftrightarrow> (\<forall>th\<in>set ths. claim_ok sv (th_pc th))"

lemma claim_ok_moved:
  "claim_ok sv c \<Longrightarrow> all_moved sv sv' \<Longrightarrow> revisions_below k sv \<Longrightarrow> Suc k < 2 ^ 64 \<Longrightarrow> claim_ok sv' c"
  unfolding claim_ok_def using holds_moved by blast

lemma claim_cancel [simp]: "claim (cancel_pc e c) = claim c"
  by (cases c) (simp_all add: cancel_pc_def)

lemma claims_ok_update:
  "claims_ok sv ths \<Longrightarrow> claim_ok sv (th_pc th) \<Longrightarrow> claims_ok sv (ths[k := th])"
  using set_update_subset_insert [of ths k th] by (auto simp: claims_ok_def)

lemma claims_ok_cancel:
  "claims_ok sv ths \<Longrightarrow> i < length ths \<Longrightarrow> claim_ok sv (cancel_pc e (th_pc (ths ! i)))"
  using nth_mem [of i ths] unfolding claims_ok_def claim_ok_def claim_cancel by blast

lemma claims_ok_signal: "claims_ok sv ths \<Longrightarrow> claims_ok sv (signal sig ths)"
  by (auto simp: signal_def cancel_worker_def intro!: claims_ok_update claims_ok_cancel split: option.split)

lemma ready_step_claim: "ready_step th sv = Some th' \<Longrightarrow> claim (th_pc th') = None"
  by (auto simp: ready_step_def split: pc.splits list.splits if_splits)

lemma thread_step_moves:
  assumes ok: "service_ok env sv" "threads_ok env sv ths" "claims_ok sv ths" and i: "i < length ths"
    and below: "revisions_below k sv" "Suc k < 2 ^ 64" "1 \<le> k"
    and s: "thread_step env inp i (ths ! i) sv = Some (th, sv', sig)"
  shows "all_moved sv sv' \<and> claims_ok sv' (signal sig (ths[i := th])) \<and> revisions_below (Suc k) sv'"
proof (cases "call_step env inp i (th_ctx (ths ! i)) (th_wctx (ths ! i)) (th_pc (ths ! i)) sv")
  case None
  with s have r: "ready_step (ths ! i) sv = Some th" "sv' = sv" by (auto simp: thread_step_def)
  then have "claims_ok sv (signal sig (ths[i := th]))"
    using ok(3) ready_step_claim [OF r(1)] by (intro claims_ok_signal claims_ok_update) (auto simp: claim_ok_def)
  with r(2) below(1) show ?thesis by (auto simp: all_moved_def moved_def revisions_below_def le_SucI)
next
  case (Some r)
  then obtain c where c: "call_step env inp i (th_ctx (ths ! i)) (th_wctx (ths ! i)) (th_pc (ths ! i)) sv
      = Some ((c, sv'), sig)" "th_pc th = c"
    using s by (auto simp: thread_step_def split: prod.splits)
  have "claim_ok sv (th_pc (ths ! i))" using ok(3) i by (simp add: claims_ok_def)
  then have m: "all_moved sv sv' \<and> claim_ok sv' c \<and> revisions_below (Suc k) sv'"
    using call_step_moves [OF ok(1) threads_okD [OF ok(2) i] _ below c(1)] by blast
  have "claims_ok sv' ths"
    unfolding claims_ok_def
    using ok(3) claim_ok_moved [OF _ _ below(1,2), of _ sv'] m by (auto simp: claims_ok_def)
  then have "claims_ok sv' (signal sig (ths[i := th]))"
    using m c(2) by (intro claims_ok_signal claims_ok_update) auto
  with m show ?thesis by blast
qed

lemma svc_step_moves:
  assumes ok: "system_ok env s" "claims_ok (sy_service s) (sy_threads s)"
    and below: "revisions_below k (sy_service s)" "Suc k < 2 ^ 64" "1 \<le> k"
    and s: "svc_step env l s = Some s'"
  shows "all_moved (sy_service s) (sy_service s') \<and> claims_ok (sy_service s') (sy_threads s')
    \<and> revisions_below (Suc k) (sy_service s')"
proof -
  have up: "revisions_below (Suc k) (sy_service s)" using below(1) by (auto simp: revisions_below_def le_SucI)
  show ?thesis
  proof (cases l)
    case (Start cl cx)
    have "claim (first_pc cl) = None" by (cases cl) simp_all
    with Start s ok(2) up show ?thesis
      by (auto simp: claims_ok_def claim_ok_def new_thread_def all_moved_same)
  next
    case (Step i inp)
    then obtain th sv sig where "i < length (sy_threads s)"
      "thread_step env inp i (sy_threads s ! i) (sy_service s) = Some (th, sv, sig)"
      "s' = s\<lparr>sy_service := sv, sy_threads := signal sig ((sy_threads s)[i := th])\<rparr>"
      using s by (auto split: if_splits option.splits)
    with ok below show ?thesis
      using thread_step_moves [of env "sy_service s" "sy_threads s" i k inp th sv sig]
      by (simp add: system_ok_def)
  next
    case (MergeStep i m)
    then obtain th where i: "i < length (sy_threads s)" "merge_thread env m (sy_threads s ! i) = Some th"
      "s' = s\<lparr>sy_threads := (sy_threads s)[i := th]\<rparr>"
      using s by (auto split: if_splits)
    then have "claim (th_pc th) = claim (th_pc (sy_threads s ! i))"
      by (auto simp: merge_thread_def split: pc.splits merge_label.splits)
    then have "claim_ok (sy_service s) (th_pc th)"
      using ok(2) nth_mem [OF i(1)] by (simp add: claims_ok_def claim_ok_def)
    with i(3) ok(2) up show ?thesis by (simp add: claims_ok_update all_moved_same)
  next
    case (CancelCaller i e)
    let ?th = "(cancel_worker e (sy_threads s ! i))\<lparr>th_ctx := first_error e (th_ctx (sy_threads s ! i))\<rparr>"
    have i: "i < length (sy_threads s)" "s' = s\<lparr>sy_threads := (sy_threads s)[i := ?th]\<rparr>"
      using s CancelCaller by (auto split: if_splits)
    then have "claim_ok (sy_service s) (th_pc ?th)"
      using claims_ok_cancel [OF ok(2) i(1)] by (simp add: cancel_worker_def)
    with i(2) ok(2) up show ?thesis by (simp add: claims_ok_update all_moved_same)
  next
    case (OtherLease op)
    then have s': "sv_catalog (sy_service s') = sv_catalog (sy_service s)" "sy_threads s' = sy_threads s"
      using s by auto
    have "holds (sy_service s') cl = holds (sy_service s) cl" for cl
      by (cases cl) (simp add: s'(1))
    then show ?thesis
      using ok(2) up by (simp add: claims_ok_def claim_ok_def s' all_moved_same revisions_below_def)
  qed
qed

lemma svc_run_moves:
  assumes "svc_run env ls s = Some s'" "system_ok env s" "claims_ok (sy_service s) (sy_threads s)"
    "revisions_below k (sy_service s)" "k + length ls < 2 ^ 64" "1 \<le> k"
  shows "claims_ok (sy_service s') (sy_threads s') \<and> revisions_below (k + length ls) (sy_service s')"
  using assms
proof (induction ls arbitrary: s k)
  case (Cons l ls)
  then obtain s1 where s1: "svc_step env l s = Some s1" "svc_run env ls s1 = Some s'"
    by (auto split: option.splits)
  have "Suc k < 2 ^ 64" using Cons.prems(5) by simp
  from svc_step_moves [OF Cons.prems(2-4) this Cons.prems(6) s1(1)]
  have "claims_ok (sy_service s1) (sy_threads s1)" "revisions_below (Suc k) (sy_service s1)" by auto
  with Cons.IH [OF s1(2) system_ok_step [OF Cons.prems(2) s1(1)], of "Suc k"] Cons.prems(5)
  show ?case by simp
qed simp

lemma start_moves:
  "claims_ok (sy_service (system_of (NewService c None j lm a))) (sy_threads (system_of (NewService c None j lm a)))"
  "revisions_below 1 (sy_service (system_of (NewService c None j lm a)))"
  by (simp_all add: claims_ok_def revisions_below_def system_of_def NewService_def New_def table_def)

end
