(* ===== verification/ServiceDemo.thy ===== *)
theory ServiceDemo
  imports ServiceMoves
begin

text \<open>
  A service with one request, the one of \<open>cmd/merge-demo/main.go\<close>, evaluated step by step:
  the states and schedules that the witnesses of the service's properties use. The format of the
  journal's lines and the payloads plays no part and is constant.
\<close>

section \<open>The request and the service\<close>

definition demo_json :: json where
  "demo_json = \<lparr>js_event = (\<lambda>_. Some []), js_envelope = (\<lambda>_. Some [65]), js_decode = (\<lambda>_. None),
    js_compact = (\<lambda>b. b)\<rparr>"

definition demo_svc :: svc_env where
  "demo_svc = \<lparr>se_json = demo_json, se_gunzip = no_gunzip, se_marshal = (\<lambda>_. Some []), se_text = (\<lambda>_. [])\<rparr>"

definition demo_request :: request where
  "demo_request =
     \<lparr>rq_Manifest = demo_manifest, rq_Segments = [''part-1'' \<mapsto> demo_first, ''part-2'' \<mapsto> demo_second],
      rq_IdempotencyKey = ''k''\<rparr>"

definition demo_limits :: "int \<Rightarrow> limits" where
  "demo_limits n = NewAdmission (DefaultLimits\<lparr>li_MaxResidentBytes := 64, li_MaxActiveOperations := n\<rparr>)"

definition demo_config :: config where
  "demo_config = \<lparr>cf_WorkerID = ''w'', cf_PartitionCount = 64, cf_LeaseTTL = 10\<rparr>"

definition demo_service :: "int \<Rightarrow> service" where
  "demo_service n = NewService demo_config None None None (Some (demo_limits n))"

definition at :: "time \<Rightarrow> step_input" where
  "at t = \<lparr>in_now = t, in_io = IoDone, in_timer = False\<rparr>"

definition demo_id :: string where
  "demo_id = operation_id (partition_of 64 ''k'') 1"

lemma demo_valid: "Validate demo_request = None"
  by (simp add: Validate_def demo_request_def demo_compiled)
    (simp add: demo_defs)

lemma demo_env_of [simp]: "merge_env_of demo_svc demo_request = demo_env"
  by (simp add: merge_env_of_def demo_svc_def demo_request_def demo_env_def demo_source_def)

lemma demo_limits_simps:
  "0 < n \<Longrightarrow> demo_limits n = DefaultLimits\<lparr>li_MaxResidentBytes := 64, li_MaxActiveOperations := n\<rparr>"
  by (simp add: demo_limits_def NewAdmission_def DefaultLimits_def Millisecond_def)

lemma demo_admitted:
  assumes "0 < n" "a < n"
  shows "Evaluate (demo_limits n) demo_manifest \<lparr>lo_ActiveOperations = a, lo_ResidentBytes = 0\<rparr> =
    \<lparr>de_Allowed = True, de_Reason = ''admitted'', de_Concurrency = 2, de_MemoryLimit = 64,
     de_EstimatedWeight = 6\<rparr>"
proof -
  have "peak_of (mf_Segments demo_manifest) = 6" by (simp add: peak_of_def demo_defs)
  moreover have "ceil_sqrt 2 = 2"
    by (simp add: ceil_sqrt_def ceil_sqrt_from.simps numeral_2_eq_2)
  moreover have "mf_TotalSize demo_manifest = 11" by (simp add: demo_defs)
  ultimately show ?thesis
    using assms
    by (simp add: Evaluate_def demo_limits_simps DefaultLimits_def Let_def max64_def minInt_def maxInt_def
        signed_divide_int_def)
qed



section \<open>States\<close>

text \<open>
  The service once the request is submitted: its one record, the number of lines in the journal, the
  leases, the cancel functions and the artifacts.
\<close>

definition demo_catalog :: "operation_record \<Rightarrow> (string \<times> artifact_record) list \<Rightarrow> catalog" where
  "demo_catalog r arts =
     \<lparr>ct_operations = [(demo_id, r)], ct_idempotency = [(''k'', demo_id)], ct_artifacts = arts\<rparr>"

definition demo_journal :: "nat \<Rightarrow> journal_store" where
  "demo_journal j = MemoryStore \<lparr>ms_lines = replicate j [65], ms_next = of_nat j\<rparr>"

definition demo_sv ::
  "int \<Rightarrow> operation_record \<Rightarrow> (string \<times> artifact_record) list \<Rightarrow> nat \<Rightarrow> lease_manager
     \<Rightarrow> (string \<rightharpoonup> nat) \<Rightarrow> service" where
  "demo_sv n r arts j lm cs =
     \<lparr>sv_config = demo_config, sv_catalog = demo_catalog r arts, sv_journal = demo_journal j,
      sv_leases = lm, sv_admission = demo_limits n, sv_sequence = 1,
      sv_requests = [demo_id \<mapsto> demo_request], sv_cancels = cs\<rparr>"

definition demo_op :: operation where
  "demo_op = submit_operation demo_config 1 1 demo_request"

definition demo_record :: operation_record where
  "demo_record = (toRecord demo_op)\<lparr>or_Revision := 1\<rparr>"

text \<open>A thread of a single call, whose caller does not cancel.\<close>

definition plain :: "ctx_error option \<Rightarrow> pc \<Rightarrow> thread" where
  "plain w c = \<lparr>th_ctx = None, th_wctx = w, th_pc = c, th_batch = False, th_todo = [],
      th_current = [], th_errors = []\<rparr>"

lemma plain_simps [simp]:
  "th_ctx (plain w c) = None" "th_wctx (plain w c) = w" "th_pc (plain w c) = c"
  "(plain w c)\<lparr>th_pc := c', th_wctx := w'\<rparr> = plain w' c'" "(plain w c)\<lparr>th_pc := c'\<rparr> = plain w c'"
  "(plain w c)\<lparr>th_wctx := w', th_pc := c'\<rparr> = plain w' c'" "(plain w c)\<lparr>th_wctx := w'\<rparr> = plain w' c"
  by (simp_all add: plain_def)

lemma demo_op_simps [simp]:
  "op_ID demo_op = demo_id" "op_State demo_op = StateAccepted" "op_Attempt demo_op = 0"
  "op_Manifest demo_op = demo_manifest" "op_IdempotencyKey demo_op = ''k''" "op_CreatedAt demo_op = 1"
  by (simp_all add: demo_op_def submit_operation_def demo_id_def demo_config_def demo_request_def Let_def)

lemma demo_request_simps [simp]:
  "rq_Manifest demo_request = demo_manifest" "rq_IdempotencyKey demo_request = ''k''"
  by (simp_all add: demo_request_def)

lemma demo_id_nonempty [simp]: "demo_id \<noteq> []"
  by (simp add: demo_id_def)

lemma demo_sv_simps [simp]:
  "sv_config (demo_sv n r arts j lm cs) = demo_config" "sv_leases (demo_sv n r arts j lm cs) = lm"
  "sv_catalog (demo_sv n r arts j lm cs) = demo_catalog r arts"
  "sv_journal (demo_sv n r arts j lm cs) = demo_journal j"
  "sv_admission (demo_sv n r arts j lm cs) = demo_limits n"
  "sv_requests (demo_sv n r arts j lm cs) = [demo_id \<mapsto> demo_request]"
  "sv_cancels (demo_sv n r arts j lm cs) = cs"
  "(demo_sv n r arts j lm cs)\<lparr>sv_catalog := demo_catalog r' arts'\<rparr> = demo_sv n r' arts' j lm cs"
  "(demo_sv n r arts j lm cs)\<lparr>sv_journal := demo_journal j'\<rparr> = demo_sv n r arts j' lm cs"
  "(demo_sv n r arts j lm cs)\<lparr>sv_leases := lm'\<rparr> = demo_sv n r arts j lm' cs"
  "(demo_sv n r arts j lm cs)\<lparr>sv_cancels := cs'\<rparr> = demo_sv n r arts j lm cs'"
  by (simp_all add: demo_sv_def)


section \<open>Steps\<close>

lemma svc_run_append:
  "svc_run env (ls @ ls') s = (case svc_run env ls s of None \<Rightarrow> None | Some s' \<Rightarrow> svc_run env ls' s')"
  by (induction ls arbitrary: s) (auto split: option.split)

text \<open>A step of a thread in a schedule.\<close>

lemma run_step:
  assumes "i < length ths" "ths ! i = plain w c" "call_step env inp i None w c sv = Some ((c', sv'), None)"
    "w = None \<or> \<not> is_register c"
  shows "svc_run env (Step i inp # ls) \<lparr>sy_service = sv, sy_threads = ths\<rparr> =
    svc_run env ls \<lparr>sy_service = sv', sy_threads = ths[i := plain w c']\<rparr>"
  using assms by (auto simp: thread_step_def signal_def)

lemma run_unregister_step:
  assumes "i < length ths" "ths ! i = plain None (R_Unregister l k out)"
  shows "svc_run env (Step i inp # ls) \<lparr>sy_service = sv, sy_threads = ths\<rparr> =
    svc_run env ls \<lparr>sy_service = sv\<lparr>sv_cancels := (sv_cancels sv)(k := None)\<rparr>,
      sy_threads = ths[i := plain (Some Canceled) (R_Release l out)]\<rparr>"
  using assms
  by (simp add: thread_step_def signal_def run_unregister_def is_register_def cancel_worker_def
      first_error_def cancel_pc_def)

lemma run_start_call:
  "svc_run env (Start k None # ls) \<lparr>sy_service = sv, sy_threads = ths\<rparr> =
    svc_run env ls \<lparr>sy_service = sv, sy_threads = ths @ [plain None (first_pc k)]\<rparr>"
  by (simp add: new_thread_def plain_def)

lemma run_merge_steps:
  assumes "i < length ths" "ths ! i = plain w (R_Merge run l n rq g)"
    "merge_run (merge_env_of env rq) ms g = Some g'" "\<forall>e. L_Cancel e \<notin> set ms"
  shows "svc_run env (map (MergeStep i) ms @ ls) \<lparr>sy_service = sv, sy_threads = ths\<rparr> =
    svc_run env ls \<lparr>sy_service = sv, sy_threads = ths[i := plain w (R_Merge run l n rq g')]\<rparr>"
  using assms
proof (induction ms arbitrary: g ths)
  case Nil
  then have "ths = ths[i := plain w (R_Merge run l n rq g)]" by (metis list_update_id)
  with Nil show ?case by simp
next
  case (Cons m ms)
  then obtain g1 where g1: "merge_step (merge_env_of env rq) m g = Some g1"
    "merge_run (merge_env_of env rq) ms g1 = Some g'" by (auto split: option.splits)
  have "merge_thread env m (ths ! i) = Some (plain w (R_Merge run l n rq g1))"
    using Cons.prems(2,4) g1(1) by (cases m) (auto simp: merge_thread_def simp del: merge_step.simps)
  with Cons.prems Cons.IH [OF _ _ g1(2), of "ths[i := plain w (R_Merge run l n rq g1)]"] show ?case
    by simp
qed

lemma demo_load_none: "currentLoad New = \<lparr>lo_ActiveOperations = 0, lo_ResidentBytes = 0\<rparr>"
  by (simp add: currentLoad_def Counts_def New_def count_at_def state_defs)

lemma demo_load_one:
  "or_State r \<in> {StateAccepted, StateRunning, StateRetrying} \<Longrightarrow>
   currentLoad (demo_catalog r arts) = \<lparr>lo_ActiveOperations = 1, lo_ResidentBytes = 0\<rparr>"
  by (elim insertE emptyE)
    (simp_all add: currentLoad_def Counts_def demo_catalog_def count_at_def bump_def state_defs)

lemma demo_append:
  assumes "validKind kind"
  shows "append_event demo_svc inp None (event_of demo_svc demo_id kind t p) (demo_sv n r arts j lm cs) =
    (None, demo_sv n r arts (Suc j) lm cs)"
    "append_event demo_svc inp None (stamped op (event_of demo_svc demo_id kind t p))
      (demo_sv n r arts j lm cs) = (None, demo_sv n r arts (Suc j) lm cs)"
proof -
  have *: "Append demo_json io None e (demo_journal j) =
      (Inr \<lparr>en_Sequence = of_nat j + 1, en_Checksum = event_sum [], en_Event = e\<rparr>, demo_journal (Suc j))"
    if "event_ok e" for io e
    using that
    by (auto simp: Append_def demo_journal_def Memory_Append_def encodeEnvelope_def demo_json_def
        event_ok_def replicate_append_same add.commute)
  have ev: "event_ok (event_of demo_svc demo_id kind t p)"
    "event_ok (stamped op (event_of demo_svc demo_id kind t p))"
    using assms by (auto simp: event_ok_def event_of_def NewEvent_def demo_svc_def json_null_def stamped_def)
  have js: "se_json demo_svc = demo_json" by (simp add: demo_svc_def)
  from ev show "append_event demo_svc inp None (event_of demo_svc demo_id kind t p)
      (demo_sv n r arts j lm cs) = (None, demo_sv n r arts (Suc j) lm cs)"
    "append_event demo_svc inp None (stamped op (event_of demo_svc demo_id kind t p))
      (demo_sv n r arts j lm cs) = (None, demo_sv n r arts (Suc j) lm cs)"
    by (simp_all add: append_event_def js *)
qed

lemma demo_kinds [simp]:
  "validKind ''accepted''" "validKind ''started''" "validKind ''completed''" "validKind ''failed''"
  "validKind ''cancelled''"
  by (simp_all add: validKind_def journal_kinds_def)

lemma demo_get:
  "or_ID r = demo_id \<Longrightarrow> call_step env inp i None w (P_Get k demo_id) (demo_sv n r arts j lm cs) =
    Some ((P_Request k demo_id r, demo_sv n r arts j lm cs), None)"
  "call_step env inp i None w (P_Request k demo_id r) (demo_sv n r' arts j lm cs) =
    Some ((got k (fromRecord r demo_manifest), demo_sv n r' arts j lm cs), None)"
  by (simp_all add: get_step_def GetOperation_def demo_catalog_def request_step_def)

lemma demo_update:
  assumes "op_ID op = demo_id" "op_Manifest op = demo_manifest" "op_IdempotencyKey op = ''k''"
    "or_FileID r = ''demo''" "or_IdempotencyKey r = ''k''"
  shows "update_record op (or_Revision r) (demo_sv n r arts j lm cs) =
    (Inr ((toRecord op)\<lparr>or_Revision := or_Revision r + 1\<rparr>),
     demo_sv n ((toRecord op)\<lparr>or_Revision := or_Revision r + 1\<rparr>) arts j lm cs)"
proof -
  have "Update (toRecord op) (or_Revision r) (demo_catalog r arts) =
      (Inr ((toRecord op)\<lparr>or_Revision := or_Revision r + 1\<rparr>),
       demo_catalog ((toRecord op)\<lparr>or_Revision := or_Revision r + 1\<rparr>) arts)"
    using assms by (simp add: Update_def demo_catalog_def Let_def)
  then show ?thesis by (simp add: update_record_def)
qed

text \<open>The submission.\<close>

definition demo_submit :: "label list" where
  "demo_submit = [Start (Call_Submit demo_request) None, Step 0 (at 1), Step 0 (at 1), Step 0 (at 1),
     Step 0 (at 1), Step 0 (at 1)]"

definition submitted :: "int \<Rightarrow> service" where
  "submitted n = demo_sv n demo_record [] 1 NewManager Map.empty"

text \<open>Up to the number, and up to the event for any journal format.\<close>

lemma demo_numbered:
  assumes "0 < n"
  shows "svc_run env (Start (Call_Submit demo_request) None # Step 0 (at 1) # Step 0 (at 1) # ls)
      (system_of (demo_service n)) =
    svc_run env ls \<lparr>sy_service = (demo_service n)\<lparr>sv_sequence := 1\<rparr>,
      sy_threads = [plain None (S_Create demo_op demo_request)]\<rparr>"
proof -
  let ?s0 = "demo_service n"
  have cfg: "sv_config ?s0 = demo_config" "sv_sequence ?s0 = 0" "sv_catalog ?s0 = New"
    "sv_admission ?s0 = demo_limits n"
    by (simp_all add: demo_service_def NewService_def demo_config_def)
  have 1: "call_step env (at 1) 0 None None (S_Admit demo_request) ?s0 =
      Some ((S_Number demo_request, ?s0), None)"
    using assms by (simp add: submit_admit_def demo_valid cfg demo_load_none demo_admitted Let_def)
  have 2: "call_step env (at 1) 0 None None (S_Number demo_request) ?s0 =
      Some ((S_Create demo_op demo_request, ?s0\<lparr>sv_sequence := 1\<rparr>), None)"
    by (simp add: submit_number_def cfg Let_def demo_op_def at_def)
  show ?thesis
    unfolding system_of_def
    by (simp add: run_start_call run_step [OF _ _ 1] run_step [OF _ _ 2] del: svc_run.simps(2))
qed

lemma demo_stored:
  assumes "0 < n"
  shows "svc_run env (Start (Call_Submit demo_request) None # Step 0 (at 1) # Step 0 (at 1) # Step 0 (at 1)
      # Step 0 (at 1) # ls) (system_of (demo_service n)) =
    svc_run env ls \<lparr>sy_service = demo_sv n demo_record [] 0 NewManager Map.empty,
      sy_threads = [plain None (S_Append demo_op 1)]\<rparr>"
proof -
  let ?s1 = "(demo_service n)\<lparr>sv_sequence := 1\<rparr>"
  let ?s2 = "?s1\<lparr>sv_catalog := demo_catalog demo_record []\<rparr>"
  let ?s3 = "?s2\<lparr>sv_requests := [demo_id \<mapsto> demo_request]\<rparr>"
  have cfg: "sv_catalog ?s1 = New" "sv_requests ?s1 = Map.empty"
    by (simp_all add: demo_service_def NewService_def)
  have 1: "call_step env (at 1) 0 None None (S_Create demo_op demo_request) ?s1 =
      Some ((S_Store demo_op demo_request 1, ?s2), None)"
    by (simp add: submit_create_def Create_def cfg [simplified] New_def Let_def demo_catalog_def demo_record_def)
  have s3: "?s3 = demo_sv n demo_record [] 0 NewManager Map.empty"
    by (simp add: demo_sv_def demo_service_def NewService_def demo_config_def demo_journal_def
        NewMemoryStore_def)
  have 2: "call_step env (at 1) 0 None None (S_Store demo_op demo_request 1) ?s2 =
      Some ((S_Append demo_op 1, ?s3), None)"
    by (simp add: cfg [simplified])
  show ?thesis
    unfolding s3 [symmetric] demo_numbered [OF assms]
    by (simp add: run_step [OF _ _ 1] run_step [OF _ _ 2] del: svc_run.simps(2))
qed

lemma demo_submitted:
  assumes "0 < n"
  shows "svc_run demo_svc demo_submit (system_of (demo_service n)) =
    Some \<lparr>sy_service = submitted n,
          sy_threads = [plain None (Done (Returned (Some demo_op) True None))]\<rparr>"
proof -
  have 5: "call_step demo_svc (at 1) 0 None None (S_Append demo_op 1)
      (demo_sv n demo_record [] 0 NewManager Map.empty) =
      Some ((Done (Returned (Some demo_op) True None), submitted n), None)"
    by (simp add: submit_append_def demo_append submitted_def)
  show ?thesis
    unfolding demo_submit_def demo_stored [OF assms]
    by (simp add: run_step [OF _ _ 5] del: svc_run.simps(2))
qed


section \<open>A run\<close>

definition demo_got :: operation where
  "demo_got = fromRecord demo_record demo_manifest"

definition demo_lease :: lease where
  "demo_lease = new_lease 2 ''merge/demo'' ''w'' 10 NewManager"

definition demo_leases :: lease_manager where
  "demo_leases = \<lparr>lm_next = 1, lm_leases = [(''merge/demo'', demo_lease)]\<rparr>"

definition demo_running :: operation where
  "demo_running = demo_got\<lparr>op_State := StateRunning, op_UpdatedAt := 2, op_Attempt := 1,
     op_Fence := 1, op_Owner := ''w''\<rparr>"

definition demo_running_record :: operation_record where
  "demo_running_record = (toRecord demo_running)\<lparr>or_Revision := 2\<rparr>"

definition demo_decision :: decision where
  "demo_decision = \<lparr>de_Allowed = True, de_Reason = ''admitted'', de_Concurrency = 2,
     de_MemoryLimit = 64, de_EstimatedWeight = 6\<rparr>"

definition demo_completed :: "merge_result \<Rightarrow> operation" where
  "demo_completed res = demo_running\<lparr>op_State := StateCompleted, op_UpdatedAt := 3,
     op_Result := Some res,
     op_Progress := (op_Progress demo_running)\<lparr>pg_CompletedSegments := 2, pg_UpdatedAt := 3\<rparr>\<rparr>"

lemma demo_got_simps [simp]:
  "op_ID demo_got = demo_id" "op_State demo_got = StateAccepted" "op_Manifest demo_got = demo_manifest"
  "op_IdempotencyKey demo_got = ''k''" "op_Attempt demo_got = 0"
  "op_ID demo_running = demo_id" "op_State demo_running = StateRunning"
  "op_Manifest demo_running = demo_manifest" "op_IdempotencyKey demo_running = ''k''"
  "op_Attempt demo_running = 1"
  by (simp_all add: demo_got_def demo_record_def demo_running_def)

lemma demo_record_simps [simp]:
  "or_ID demo_record = demo_id" "or_Revision demo_record = 1" "or_FileID demo_record = ''demo''"
  "or_IdempotencyKey demo_record = ''k''" "or_State demo_record = StateAccepted"
  "or_ID demo_running_record = demo_id" "or_Revision demo_running_record = 2"
  "or_FileID demo_running_record = ''demo''" "or_IdempotencyKey demo_running_record = ''k''"
  "or_State demo_running_record = StateRunning"
  by (simp_all add: demo_record_def demo_running_record_def)

text \<open>From \<open>Get\<close> to the start of the merge, as thread \<open>i\<close>.\<close>

lemma step_acquire:
  "in_now inp = 2 \<Longrightarrow> call_step demo_svc inp i None w (R_Acquire demo_got) (demo_sv n demo_record [] j NewManager cs)
      = Some ((R_Start demo_got demo_lease, demo_sv n demo_record [] j demo_leases cs), None)"
  by (simp add: run_acquire_def Lease_Acquire_eq Lease_Get_def demo_config_def demo_lease_def
      demo_leases_def NewManager_def new_lease_def)

lemma step_start:
  "in_now inp = 2 \<Longrightarrow> call_step demo_svc inp i None w (R_Start demo_got demo_lease) (demo_sv n demo_record [] j demo_leases cs)
      = Some ((R_Update demo_running demo_lease 2 1, demo_sv n demo_record [] j demo_leases cs), None)"
  by (simp add: run_start_def transition_def allowed_def Let_def GetOperation_def demo_catalog_def
      demo_running_def demo_lease_def new_lease_def NewManager_def)

lemma step_update:
  "call_step demo_svc inp i None w (R_Update demo_running demo_lease 2 1)
        (demo_sv n demo_record [] j demo_leases cs)
      = Some ((R_Started demo_running demo_lease 2 2,
               demo_sv n demo_running_record [] j demo_leases cs), None)"
  using demo_update [of demo_running demo_record n "[]" j demo_leases cs]
  by (simp add: run_update_def demo_running_record_def)

text \<open>A run up to the writing of its start.\<close>

definition demo_to_update :: "label list" where
  "demo_to_update = [Start (Call_Run demo_id) None, Step 1 (at 2), Step 1 (at 2), Step 1 (at 2), Step 1 (at 2)]"

definition demo_update_state :: "int \<Rightarrow> system" where
  "demo_update_state n =
     \<lparr>sy_service = demo_sv n demo_record [] 1 demo_leases Map.empty,
      sy_threads = [plain None (Done (Returned (Some demo_op) True None)),
        plain None (R_Update demo_running demo_lease 2 1)]\<rparr>"

lemma demo_to_update_run:
  assumes "0 < n"
  shows "svc_run demo_svc (demo_submit @ demo_to_update) (system_of (demo_service n)) = Some (demo_update_state n)"
proof -
  have got: "got For_Run demo_got = R_Acquire demo_got" by (simp add: got_def CanStart_def startable_def)
  have at2: "in_now (at 2) = 2" by (simp add: at_def)
  show ?thesis
    unfolding svc_run_append demo_submitted [OF assms] demo_to_update_def option.case submitted_def demo_update_state_def
    by (simp add: run_start_call run_step [OF _ _ demo_get(1)] run_step [OF _ _ demo_get(2)] got
        run_step [OF _ _ step_acquire [OF at2]] run_step [OF _ _ step_start [OF at2]]
        flip: demo_got_def del: svc_run.simps(2) call_step.simps)
qed

lemma step_started:
  "call_step demo_svc inp i None w (R_Started demo_running demo_lease 2 2)
        (demo_sv n demo_running_record [] j demo_leases cs)
      = Some ((R_Register demo_running demo_lease 2,
               demo_sv n demo_running_record [] (Suc j) demo_leases cs), None)"
  by (simp add: run_started_def demo_append)

lemma step_register:
  "call_step demo_svc inp i None w (R_Register demo_running demo_lease 2)
        (demo_sv n demo_running_record [] j demo_leases cs)
      = Some ((R_Admit demo_running demo_lease 2 demo_request,
               demo_sv n demo_running_record [] j demo_leases (cs(demo_id \<mapsto> i))), None)"
  by (simp add: run_register_def)

lemma step_admit:
  assumes "1 < n"
  shows "call_step demo_svc inp i None w (R_Admit demo_running demo_lease 2 demo_request)
        (demo_sv n demo_running_record [] j demo_leases cs)
      = Some ((R_Load demo_running demo_lease 2 demo_request demo_decision,
               demo_sv n demo_running_record [] j demo_leases cs), None)"
  using assms by (simp add: run_admit_def demo_load_one demo_admitted Let_def demo_decision_def)

lemma step_load:
  "call_step env inp i None None (R_Load demo_running demo_lease 2 demo_request demo_decision) sv
      = Some ((R_Begin demo_running demo_lease 2 demo_request demo_decision None, sv), None)"
  by simp

lemma step_begin:
  "call_step demo_svc inp i None None
        (R_Begin demo_running demo_lease 2 demo_request demo_decision None) sv
      = Some ((R_Merge demo_running demo_lease 2 demo_request (demo_state 2 64), sv), None)"
  using demo_start [of 2 64]
  by (simp add: run_begin_def demo_decision_def NewMerger_concurrency_def)

lemma step_merged:
  assumes "g_pc g = M_Return (Inr res)" "in_now inp = 3"
  shows "call_step env inp i None w (R_Merge demo_running demo_lease 2 demo_request g) sv
    = Some ((R_Complete (demo_completed res) demo_lease 2 demo_request res, sv), None)"
  using assms
  by (simp add: run_merged_def transition_def allowed_def demo_completed_def) (simp add: state_defs)

lemma demo_completed_simps [simp]:
  "op_ID (demo_completed res) = demo_id" "op_State (demo_completed res) = StateCompleted"
  "op_Manifest (demo_completed res) = demo_manifest" "op_IdempotencyKey (demo_completed res) = ''k''"
  "op_Result (demo_completed res) = Some res"
  by (simp_all add: demo_completed_def)

definition demo_completed_record :: "merge_result \<Rightarrow> operation_record" where
  "demo_completed_record res = (toRecord (demo_completed res))\<lparr>or_Revision := 3\<rparr>"

definition demo_artifact :: "merge_result \<Rightarrow> artifact_record" where
  "demo_artifact res = \<lparr>ar_Receipt = receipt_of res, ar_OperationID = demo_id, ar_CommittedAt = 3\<rparr>"

lemma step_complete:
  "call_step env inp i None w (R_Complete (demo_completed res) demo_lease 2 demo_request res)
      (demo_sv n demo_running_record [] j lm cs)
    = Some ((R_Artifact (demo_completed res) demo_lease (demo_completed_record res) demo_request res,
             demo_sv n (demo_completed_record res) [] j lm cs), None)"
  using demo_update [of "demo_completed res" demo_running_record n "[]" j lm cs]
  by (simp add: run_complete_def demo_completed_record_def)

lemma step_artifact:
  assumes "mr_FileID res = ''demo''"
  shows "call_step env inp i None w
      (R_Artifact (demo_completed res) demo_lease (demo_completed_record res) demo_request res)
      (demo_sv n r [] j lm cs)
    = Some ((R_Completed (demo_completed res) demo_lease (demo_completed_record res) demo_request res,
             demo_sv n r [(''demo'', demo_artifact res)] j lm cs), None)"
  using assms
  by (simp add: run_artifact_def PutArtifact_def demo_catalog_def receipt_of_def demo_artifact_def)
    (simp add: demo_completed_def demo_sv_def demo_catalog_def)

lemma step_completed:
  "\<exists>out. call_step demo_svc inp i None w
      (R_Completed (demo_completed res) demo_lease (demo_completed_record res) demo_request res)
      (demo_sv n r arts j lm cs)
    = Some ((R_Unregister demo_lease demo_id out, demo_sv n r arts (Suc j) lm cs), None)"
  by (simp add: run_completed_def demo_append)

text \<open>
  Threads 1 and 3 run the operation, thread 2 cancels it. Threads 1 and 2 read it while it is accepted and
  stop there; thread 3 runs it up to the end of its merge (\<open>demo_to_merged\<close>), then to its return
  (\<open>demo_to_end\<close>).
\<close>

definition demo_readers :: "label list" where
  "demo_readers =
     [Start (Call_Run demo_id) None, Step 1 (at 2), Step 1 (at 2),
      Start (Call_Cancel demo_id) None, Step 2 (at 2), Step 2 (at 2)]"

definition demo_to_merged :: "label list" where
  "demo_to_merged =
     [Start (Call_Run demo_id) None, Step 3 (at 2), Step 3 (at 2), Step 3 (at 2), Step 3 (at 2),
      Step 3 (at 2), Step 3 (at 2), Step 3 (at 2), Step 3 (at 2), Step 3 (at 2), Step 3 (at 2)]
     @ map (MergeStep 3) out_of_order @ [Step 3 (at 3)]"

definition demo_to_end :: "label list" where
  "demo_to_end = [Step 3 (at 3), Step 3 (at 3), Step 3 (at 3), Step 3 (at 3), Step 3 (at 3)]"

definition demo_waiting :: "thread list" where
  "demo_waiting =
     [plain None (Done (Returned (Some demo_op) True None)), plain None (R_Acquire demo_got),
      plain None (C_Read demo_got)]"

lemma got_run: "got For_Run demo_got = R_Acquire demo_got" "got For_Cancel demo_got = C_Read demo_got"
  by (simp_all add: got_def CanStart_def startable_def Terminal_def terminal_state_def state_defs)

lemma demo_read:
  "call_step env inp i None w (P_Get k demo_id) (demo_sv n demo_record arts j lm cs) =
    Some ((P_Request k demo_id demo_record, demo_sv n demo_record arts j lm cs), None)"
  "call_step env inp i None w (P_Request k demo_id demo_record) (demo_sv n demo_record arts j lm cs) =
    Some ((got k demo_got, demo_sv n demo_record arts j lm cs), None)"
  using demo_get by (simp_all add: demo_got_def)

lemma demo_readers_run:
  "svc_run demo_svc (demo_readers @ ls) \<lparr>sy_service = submitted n,
      sy_threads = [plain None (Done (Returned (Some demo_op) True None))]\<rparr> =
   svc_run demo_svc ls \<lparr>sy_service = submitted n, sy_threads = demo_waiting\<rparr>"
  unfolding demo_readers_def submitted_def
  by (simp add: run_start_call run_step [OF _ _ demo_read(1)] run_step [OF _ _ demo_read(2)] got_run
      demo_waiting_def del: svc_run.simps(2))

lemma demo_merge:
  "\<exists>g res. merge_run demo_env out_of_order (demo_state 2 64) = Some g \<and> g_pc g = M_Return (Inr res)
     \<and> mr_FileID res = ''demo'' \<and> verified demo_svc demo_request res"
proof -
  obtain g res where g: "merge_run demo_env out_of_order (demo_state 2 64) = Some g"
    "g_pc g = M_Return (Inr res)" using demo_out_of_order by blast
  have "merge_ok demo_env demo_manifest NewMemoryWriter NewMemoryCheckpoints NewMemoryIndex g"
    by (rule history_inv [OF merge_history.steps [OF demo_history_2 g(1)] writer_ok_new])
  then have v: "verified demo_svc demo_request res"
    using verified_result [of demo_svc demo_request _ _ _ g res] g(2) by simp
  then have "mr_FileID res = ''demo''"
    by (auto simp: verified_def receipt_of_def demo_compiled)
  with g v show ?thesis by blast
qed

lemma no_cancel: "\<forall>e. L_Cancel e \<notin> set out_of_order"
  by (simp add: out_of_order_def)

lemma demo_run_3:
  assumes "1 < n" "merge_run demo_env out_of_order (demo_state 2 64) = Some g"
    "g_pc g = M_Return (Inr res)"
  shows "svc_run demo_svc (demo_to_merged @ ls) \<lparr>sy_service = submitted n, sy_threads = demo_waiting\<rparr> =
    svc_run demo_svc ls
      \<lparr>sy_service = demo_sv n demo_running_record [] (Suc 1) demo_leases [demo_id \<mapsto> 3],
       sy_threads = demo_waiting @ [plain None (R_Complete (demo_completed res) demo_lease 2 demo_request res)]\<rparr>"
proof -
  have at: "in_now (at 2) = 2" "in_now (at 3) = 3" by (simp_all add: at_def)
  note admit = step_admit [OF assms(1)]
  note merge = run_merge_steps [of 3 _ None demo_running demo_lease 2 demo_request "demo_state 2 64"
      demo_svc out_of_order g, unfolded demo_env_of, OF _ _ assms(2) no_cancel]
  show ?thesis
    unfolding demo_to_merged_def submitted_def
    by (simp add: demo_waiting_def run_start_call run_step [OF _ _ demo_read(1)]
        run_step [OF _ _ demo_read(2)] got_run run_step [OF _ _ step_acquire [OF at(1)]]
        run_step [OF _ _ step_start [OF at(1)]] run_step [OF _ _ step_update]
        run_step [OF _ _ step_started] run_step [OF _ _ step_register] run_step [OF _ _ admit]
        run_step [OF _ _ step_load] run_step [OF _ _ step_begin] merge
        run_step [OF _ _ step_merged [OF assms(3) at(2)]] del: svc_run.simps(2))
qed

definition demo_prefix :: "label list" where
  "demo_prefix = demo_submit @ demo_readers @ demo_to_merged"

lemma demo_reaches_merged:
  assumes "1 < n"
  shows "\<exists>res. mr_FileID res = ''demo'' \<and> (\<forall>ls.
    svc_run demo_svc (demo_prefix @ ls) (system_of (demo_service n)) =
      svc_run demo_svc ls
        \<lparr>sy_service = demo_sv n demo_running_record [] 2 demo_leases [demo_id \<mapsto> 3],
         sy_threads = demo_waiting @ [plain None (R_Complete (demo_completed res) demo_lease 2 demo_request res)]\<rparr>)"
proof -
  obtain g res where g: "merge_run demo_env out_of_order (demo_state 2 64) = Some g"
    "g_pc g = M_Return (Inr res)" "mr_FileID res = ''demo''" using demo_merge by blast
  have n: "0 < n" using assms by simp
  have "svc_run demo_svc (demo_prefix @ ls) (system_of (demo_service n)) =
      svc_run demo_svc ls
        \<lparr>sy_service = demo_sv n demo_running_record [] (Suc 1) demo_leases [demo_id \<mapsto> 3],
         sy_threads = demo_waiting @ [plain None (R_Complete (demo_completed res) demo_lease 2 demo_request res)]\<rparr>"
    for ls
    by (simp only: demo_prefix_def append_assoc svc_run_append [of demo_svc demo_submit]
        demo_submitted [OF n] option.case demo_readers_run demo_run_3 [OF assms g(1,2)])
  with g(3) show ?thesis by (intro exI [of _ res]) (simp add: numeral_2_eq_2)
qed

text \<open>Thread 3 returns: its record is complete and its artifact is there.\<close>

lemma demo_reaches_end:
  assumes "1 < n"
  shows "\<exists>res out. mr_FileID res = ''demo'' \<and> (\<forall>ls.
    svc_run demo_svc (demo_prefix @ demo_to_end @ ls) (system_of (demo_service n)) =
      svc_run demo_svc ls
        \<lparr>sy_service = demo_sv n (demo_completed_record res) [(''demo'', demo_artifact res)] 3
            \<lparr>lm_next = 1, lm_leases = []\<rparr> Map.empty,
         sy_threads = demo_waiting @ [plain (Some Canceled) (Done out)]\<rparr>)"
proof -
  obtain res where res: "mr_FileID res = ''demo''"
    "\<And>ls. svc_run demo_svc (demo_prefix @ ls) (system_of (demo_service n)) =
      svc_run demo_svc ls
        \<lparr>sy_service = demo_sv n demo_running_record [] 2 demo_leases [demo_id \<mapsto> 3],
         sy_threads = demo_waiting @ [plain None (R_Complete (demo_completed res) demo_lease 2 demo_request res)]\<rparr>"
    using demo_reaches_merged [OF assms] by blast
  obtain out where out: "\<And>inp i w n r arts j lm cs. call_step demo_svc inp i None w
      (R_Completed (demo_completed res) demo_lease (demo_completed_record res) demo_request res)
      (demo_sv n r arts j lm cs)
    = Some ((R_Unregister demo_lease demo_id out, demo_sv n r arts (Suc j) lm cs), None)"
    by (simp add: run_completed_def demo_append)
  have release: "call_step demo_svc inp i None w (R_Release demo_lease out) (demo_sv n r arts j demo_leases cs)
      = Some ((Done out, demo_sv n r arts j \<lparr>lm_next = 1, lm_leases = []\<rparr> cs), None)" for inp i w r arts j cs
    by (simp add: run_release_def Lease_Release_def demo_leases_def)
      (simp add: demo_lease_def new_lease_def)
  have reg: "is_register (R_Release demo_lease out) = False" by (simp add: is_register_def)
  have "svc_run demo_svc (demo_to_end @ ls)
        \<lparr>sy_service = demo_sv n demo_running_record [] 2 demo_leases [demo_id \<mapsto> 3],
         sy_threads = demo_waiting @ [plain None (R_Complete (demo_completed res) demo_lease 2 demo_request res)]\<rparr>
      = svc_run demo_svc ls
        \<lparr>sy_service = demo_sv n (demo_completed_record res) [(''demo'', demo_artifact res)] 3
            \<lparr>lm_next = 1, lm_leases = []\<rparr> Map.empty,
         sy_threads = demo_waiting @ [plain (Some Canceled) (Done out)]\<rparr>" for ls
    unfolding demo_to_end_def demo_waiting_def
    by (simp add: run_step [OF _ _ step_complete] run_step [OF _ _ step_artifact [OF res(1)]]
        run_step [OF _ _ out] run_unregister_step run_step [OF _ _ release] reg del: svc_run.simps(2))
  with res show ?thesis by (intro exI [of _ res] exI [of _ out]) simp
qed

definition demo_end_state :: "int \<Rightarrow> merge_result \<Rightarrow> outcome \<Rightarrow> system" where
  "demo_end_state n res out =
     \<lparr>sy_service = demo_sv n (demo_completed_record res) [(''demo'', demo_artifact res)] 3
        \<lparr>lm_next = 1, lm_leases = []\<rparr> Map.empty,
      sy_threads = demo_waiting @ [plain (Some Canceled) (Done out)]\<rparr>"

lemma demo_end:
  assumes "1 < n"
  shows "\<exists>res out. mr_FileID res = ''demo''
    \<and> svc_run demo_svc (demo_prefix @ demo_to_end) (system_of (demo_service n))
        = Some (demo_end_state n res out)"
proof -
  obtain res out where r: "mr_FileID res = ''demo''" and run: "\<forall>ls.
    svc_run demo_svc (demo_prefix @ demo_to_end @ ls) (system_of (demo_service n)) =
      svc_run demo_svc ls
        \<lparr>sy_service = demo_sv n (demo_completed_record res) [(''demo'', demo_artifact res)] 3
            \<lparr>lm_next = 1, lm_leases = []\<rparr> Map.empty,
         sy_threads = demo_waiting @ [plain (Some Canceled) (Done out)]\<rparr>"
    using demo_reaches_end [OF assms] by blast
  from run [THEN spec, of "[]"] have "svc_run demo_svc (demo_prefix @ demo_to_end) (system_of (demo_service n)) =
      Some (demo_end_state n res out)"
    by (simp only: append_Nil2 svc_run.simps(1) demo_end_state_def)
  with r show ?thesis by blast
qed

lemma demo_end_table:
  "table (sv_catalog (sy_service (demo_end_state n res out))) demo_id = Some (demo_completed_record res)"
  "map_of (ct_artifacts (sv_catalog (sy_service (demo_end_state n res out)))) ''demo'' = Some (demo_artifact res)"
  by (simp_all add: demo_end_state_def demo_catalog_def table_def)

lemma demo_end_simps [simp]:
  "table (sv_catalog (sy_service (demo_end_state n res out))) demo_id = Some (demo_completed_record res)"
  "map_of (ct_artifacts (sv_catalog (sy_service (demo_end_state n res out)))) ''demo'' = Some (demo_artifact res)"
  "or_State (demo_completed_record res) = StateCompleted"
  "or_Result (demo_completed_record res) = Some res" "or_ID (demo_completed_record res) = demo_id"
  "or_Revision (demo_completed_record res) = 3"
  "sv_requests (sy_service (demo_end_state n res out)) demo_id = Some demo_request"
  "ar_OperationID (demo_artifact res) = demo_id"
  by (simp_all add: demo_end_state_def demo_artifact_def demo_catalog_def table_def demo_completed_record_def)

end
