(* ===== verification/ServiceReads.thy ===== *)
theory ServiceReads
  imports ServiceMoves
begin

text \<open>
  Where the starts and the cancellations come from: a call writes what it made of a record that it has
  read before, at some earlier point of the same schedule. The record may have moved in the meantime; what
  was read is remembered here along the schedule.
\<close>

section \<open>What was there before\<close>

text \<open>At some point of the schedule \<open>r\<close> was the record of operation \<open>i\<close>.\<close>

definition had :: "svc_env \<Rightarrow> system \<Rightarrow> label list \<Rightarrow> string \<Rightarrow> operation_record \<Rightarrow> bool" where
  "had env s0 ls i r \<longleftrightarrow>
     (\<exists>ls1 ls2 s. ls = ls1 @ ls2 \<and> svc_run env ls1 s0 = Some s \<and> table (sv_catalog (sy_service s)) i = Some r)"

lemma had_now: "svc_run env ls s0 = Some s \<Longrightarrow> table (sv_catalog (sy_service s)) i = Some r \<Longrightarrow> had env s0 ls i r"
  unfolding had_def by (intro exI [of _ ls] exI [of _ "[]"]) auto

lemma had_later: "had env s0 ls i r \<Longrightarrow> had env s0 (ls @ ls') i r"
  unfolding had_def by (metis append.assoc)

text \<open>What a counter holds of a record that was read; \<open>seen\<close> says which records there were.\<close>

definition to_start :: "(string \<Rightarrow> operation_record \<Rightarrow> bool) \<Rightarrow> operation \<Rightarrow> bool" where
  "to_start seen op \<longleftrightarrow>
     (\<exists>r. seen (op_ID op) r \<and> startable (or_State r) \<and> op_State op = or_State r \<and> op_Attempt op = or_Attempt r)"

definition started_from :: "(string \<Rightarrow> operation_record \<Rightarrow> bool) \<Rightarrow> operation \<Rightarrow> lease \<Rightarrow> bool" where
  "started_from seen run l \<longleftrightarrow>
     (\<exists>r. seen (op_ID run) r \<and> startable (or_State r) \<and> op_Attempt run = or_Attempt r + 1)
     \<and> op_Fence run = le_Fence l \<and> op_Owner run = le_Owner l"

definition to_cancel :: "(string \<Rightarrow> operation_record \<Rightarrow> bool) \<Rightarrow> operation \<Rightarrow> bool" where
  "to_cancel seen op \<longleftrightarrow>
     (\<exists>r. seen (op_ID op) r \<and> \<not> terminal_state (or_State r)
        \<and> op_Attempt op = or_Attempt r \<and> op_Fence op = or_Fence r \<and> op_Owner op = or_Owner r)"

definition based :: "(string \<Rightarrow> operation_record \<Rightarrow> bool) \<Rightarrow> pc \<Rightarrow> bool" where
  "based seen c =
     (case c of
        P_Request k j r \<Rightarrow> seen j r
      | R_Acquire op \<Rightarrow> to_start seen op
      | R_Start op l \<Rightarrow> to_start seen op
      | R_Update run l t n \<Rightarrow> started_from seen run l
      | C_Read op \<Rightarrow> to_cancel seen op
      | C_Update op q t n \<Rightarrow> to_cancel seen q
      | _ \<Rightarrow> True)"

lemma based_simps [simp]:
  "based seen (P_Request k j r) \<longleftrightarrow> seen j r" "based seen (R_Acquire op) \<longleftrightarrow> to_start seen op"
  "based seen (R_Start op l) \<longleftrightarrow> to_start seen op" "based seen (R_Update op l t n) \<longleftrightarrow> started_from seen op l"
  "based seen (C_Read op) \<longleftrightarrow> to_cancel seen op" "based seen (C_Update op q t n) \<longleftrightarrow> to_cancel seen q"
  "based seen (P_Get k j)" "based seen (Done out)" "based seen (R_Release l out)"
  "based seen (R_Unregister l j out)" "based seen (R_Started op l t n)" "based seen (R_Register op l n)"
  "based seen (R_Admit op l n rq)" "based seen (R_Load op l n rq d)" "based seen (R_Begin op l n rq d cx)"
  "based seen (R_Merge op l n rq g)" "based seen (R_Complete op l n rq res)" "based seen (R_Artifact op l rc rq res)"
  "based seen (R_Completed op l rc rq res)" "based seen (R_Fail op l n e cls bg)"
  "based seen (R_Failed op f l rc e dc bg)" "based seen (C_Signal op rc t)" "based seen (C_Append op rc t)"
  "based seen (S_Admit rq)" "based seen (S_Number rq)" "based seen (S_Create op rq)" "based seen (S_Store op rq n)"
  "based seen (S_Append op n)" "based seen (S_Fail op n e)" "based seen (W_Delay t)" "based seen (W_Select t)"
  "based seen (Q_List limit)" "based seen Q_Next" "based seen Q_Finished"
  by (simp_all add: based_def)

lemma based_later: "based seen c \<Longrightarrow> (\<And>i r. seen i r \<Longrightarrow> seen' i r) \<Longrightarrow> based seen' c"
  by (cases c) (auto simp: to_start_def started_from_def to_cancel_def)

lemma based_cancel [simp]: "based seen (cancel_pc e c) = based seen c"
  by (cases c) (simp_all add: cancel_pc_def)

lemma based_first [simp]: "based seen (first_pc k)"
  by (cases k) simp_all

lemma got_based:
  assumes "seen (op_ID op) r" "op_State op = or_State r" "op_Attempt op = or_Attempt r" "op_Fence op = or_Fence r"
    "op_Owner op = or_Owner r"
  shows "based seen (got k op)"
  using assms
  by (auto simp: got_def to_start_def to_cancel_def CanStart_def Terminal_def split: caller.split option.split)

text \<open>A section goes on with what its counter held, or has just read a record of the table.\<close>

lemma call_step_based:
  assumes c: "pc_ok env sv c" "based seen c"
    and now: "\<And>i r. table (sv_catalog sv) i = Some r \<Longrightarrow> seen i r"
    and s: "call_step env inp self cx wcx c sv = Some ((c', sv'), sig)"
  shows "based seen c'"
proof (cases c)
  case (P_Get k j)
  with s now show ?thesis
    by (auto simp: get_step_def GetOperation_def table_def split: option.splits)
next
  case (P_Request k j r)
  then have "based seen (got k (fromRecord r m))" for m
    using c by (intro got_based [of _ _ r]) auto
  with s P_Request show ?thesis by (auto simp: request_step_def split: option.splits)
next
  case (R_Acquire op)
  with s c(2) show ?thesis by (auto simp: run_acquire_def split: prod.splits sum.splits)
next
  case (R_Start op l)
  with s c(2) show ?thesis
    by (auto simp: run_start_def to_start_def started_from_def transition_Inr Let_def split: sum.splits)
next
  case (C_Read op)
  with s c(2) show ?thesis
    by (auto simp: cancel_read_def to_cancel_def transition_Inr split: sum.splits)
qed (use s in \<open>auto simp: submit_admit_def submit_number_def submit_create_def submit_append_def run_update_def
      run_started_def run_register_def run_admit_def run_begin_def run_merged_def merge_failed_def
      run_complete_def run_artifact_def run_completed_def finish_update_def finish_append_def
      run_unregister_def run_release_def cancel_update_def cancel_append_def wait_delay_def
      wait_select_def Let_def
      split: option.splits sum.splits prod.splits if_splits main_pc.splits\<close>)


section \<open>Along a schedule\<close>

definition all_based :: "(string \<Rightarrow> operation_record \<Rightarrow> bool) \<Rightarrow> thread list \<Rightarrow> bool" where
  "all_based seen ths \<longleftrightarrow> (\<forall>th\<in>set ths. based seen (th_pc th))"

lemma all_basedD: "all_based seen ths \<Longrightarrow> k < length ths \<Longrightarrow> based seen (th_pc (ths ! k))"
  by (simp add: all_based_def)

lemma all_based_update: "all_based seen ths \<Longrightarrow> based seen (th_pc th) \<Longrightarrow> all_based seen (ths[k := th])"
  using set_update_subset_insert [of ths k th] by (auto simp: all_based_def)

lemma all_based_signal: "all_based seen ths \<Longrightarrow> all_based seen (signal sig ths)"
  by (auto simp: signal_def cancel_worker_def intro!: all_based_update dest: all_basedD split: option.split)

lemma ready_step_based: "ready_step th sv = Some th' \<Longrightarrow> based seen (th_pc th')"
  by (auto simp: ready_step_def split: pc.splits list.splits if_splits)

lemma svc_step_based:
  assumes ok: "system_ok env s" and b: "all_based seen (sy_threads s)"
    and now: "\<And>i r. table (sv_catalog (sy_service s)) i = Some r \<Longrightarrow> seen i r"
    and s: "svc_step env l s = Some s'"
  shows "all_based seen (sy_threads s')"
proof (cases l)
  case (Start cl cx)
  with s b show ?thesis by (auto simp: all_based_def new_thread_def)
next
  case (Step k inp)
  then obtain th sv sig where k: "k < length (sy_threads s)"
    "thread_step env inp k (sy_threads s ! k) (sy_service s) = Some (th, sv, sig)"
    "s' = s\<lparr>sy_service := sv, sy_threads := signal sig ((sy_threads s)[k := th])\<rparr>"
    using s by (auto split: if_splits option.splits)
  have pc: "pc_ok env (sy_service s) (th_pc (sy_threads s ! k))"
    using threads_okD [OF _ k(1)] ok by (simp add: system_ok_def)
  have "based seen (th_pc th)"
    using k(2) call_step_based [OF pc all_basedD [OF b k(1)] now] ready_step_based
    by (auto simp: thread_step_def split: option.splits prod.splits)
  with k(3) b show ?thesis by (simp add: all_based_signal all_based_update)
next
  case (MergeStep k m)
  then obtain th where k: "merge_thread env m (sy_threads s ! k) = Some th" "s' = s\<lparr>sy_threads := (sy_threads s)[k := th]\<rparr>"
    using s by (auto split: if_splits)
  then have "based seen (th_pc th)" by (auto simp: merge_thread_def split: pc.splits merge_label.splits)
  with k(2) b show ?thesis by (simp add: all_based_update)
next
  case (CancelCaller k e)
  then have k: "k < length (sy_threads s)" "s' = s\<lparr>sy_threads := (sy_threads s)[k :=
      (cancel_worker e (sy_threads s ! k))\<lparr>th_ctx := first_error e (th_ctx (sy_threads s ! k))\<rparr>]\<rparr>"
    using s by (auto split: if_splits)
  with b show ?thesis by (simp add: all_based_update all_basedD cancel_worker_def)
next
  case (OtherLease op)
  with s b show ?thesis by auto
qed

lemma svc_run_snoc:
  "svc_run env (ls @ [l]) s0 = Some s' \<longleftrightarrow> (\<exists>s. svc_run env ls s0 = Some s \<and> svc_step env l s = Some s')"
  by (induction ls arbitrary: s0) (auto split: option.splits)

lemma svc_run_based:
  assumes "svc_run env ls s0 = Some s" "system_ok env s0" "sy_threads s0 = []"
  shows "all_based (had env s0 ls) (sy_threads s) \<and> system_ok env s"
  using assms(1)
proof (induction ls arbitrary: s rule: rev_induct)
  case Nil
  with assms show ?case by (simp add: all_based_def)
next
  case (snoc l ls)
  then obtain t where t: "svc_run env ls s0 = Some t" "svc_step env l t = Some s"
    by (auto simp: svc_run_snoc)
  then have ih: "all_based (had env s0 ls) (sy_threads t)" "system_ok env t" using snoc.IH by simp_all
  have "all_based (had env s0 ls) (sy_threads s)"
    by (rule svc_step_based [OF ih(2,1) _ t(2)]) (rule had_now [OF t(1)])
  then have "all_based (had env s0 (ls @ [l])) (sy_threads s)"
    by (auto simp: all_based_def intro: based_later had_later)
  with system_ok_step [OF ih(2) t(2)] show ?case by simp
qed


section \<open>Who wrote a record\<close>

text \<open>When a step changes a record that was there, a thread has written the one it announced.\<close>

lemma step_writes:
  assumes ok: "system_ok env s" and s: "svc_step env l s = Some s'"
    and r: "table (sv_catalog (sy_service s)) i = Some r" "table (sv_catalog (sy_service s')) i = Some r'" "r' \<noteq> r"
  shows "\<exists>j inp op n. l = Step j inp \<and> j < length (sy_threads s)
    \<and> writing env inp (sy_service s) (th_pc (sy_threads s ! j)) = Some (op, n)
    \<and> op_ID op = i \<and> or_Revision r = n \<and> r' = (toRecord op)\<lparr>or_Revision := n + 1\<rparr>"
proof (cases l)
  case (Step j inp)
  then obtain th sv sig where j: "j < length (sy_threads s)"
    "thread_step env inp j (sy_threads s ! j) (sy_service s) = Some (th, sv, sig)" "sy_service s' = sv"
    using s by (auto split: if_splits option.splits)
  let ?c = "th_pc (sy_threads s ! j)"
  have pc: "pc_ok env (sy_service s) ?c" using threads_okD [OF _ j(1)] ok by (simp add: system_ok_def)
  have sv: "service_ok env (sy_service s)" using ok by (simp add: system_ok_def)
  obtain c' where c': "call_step env inp j (th_ctx (sy_threads s ! j)) (th_wctx (sy_threads s ! j)) ?c (sy_service s)
      = Some ((c', sv), sig)"
    using j(2,3) r by (auto simp: thread_step_def split: option.splits prod.splits)
  from call_step_effect [OF sv pc c'] show ?thesis
  proof (elim disjE)
    assume "written env inp ?c (sy_service s) c' sv"
    with Step j(1,3) r show ?thesis by (auto simp: written_def split: if_splits)
  qed (use r j(3) in \<open>auto simp: quiet_def created_def split: if_splits\<close>)
qed (use s r in \<open>auto split: if_splits option.splits\<close>)

text \<open>
  A thread that writes a running record starts it with the lease it holds, from a record it has read, and one
  that writes a cancelled record cancels one it has read.
\<close>

lemma start_origin:
  assumes "pc_ok env sv c" "based seen c" "writing env inp sv c = Some (op, n)" "op_State op = StateRunning"
  shows "\<exists>l t. c = R_Update op l t n \<and> started_from seen op l"
proof -
  have "\<exists>l t. c = R_Update op l t n"
    using assms(1,3,4)
    by (auto simp: writing_def state_defs done_ok_def split: pc.splits sum.splits dest!: failure_record_Inr(1) split: if_splits)
  with assms(2) show ?thesis by auto
qed

lemma cancel_origin:
  assumes "pc_ok env sv c" "based seen c" "writing env inp sv c = Some (op, n)" "op_State op = StateCancelled"
  shows "to_cancel seen op"
proof -
  have "\<exists>p t. c = C_Update p op t n"
    using assms(1,3,4)
    by (auto simp: writing_def state_defs done_ok_def run_ok_def split: pc.splits sum.splits dest!: failure_record_Inr(1) split: if_splits)
  with assms(2) show ?thesis by auto
qed

end
