(* ===== verification/Services.thy ===== *)
theory Services
  imports ServiceDemo ServiceReads
begin

text \<open>
  What the service promises over all its schedules, and what it does not.
\<close>

section \<open>Every reachable state\<close>

lemma reached_ok:
  "svc_run env ls (system_of (NewService c None j lm a)) = Some s \<Longrightarrow> system_ok env s"
  using system_ok_run system_ok_start by blast

lemma reached_service:
  "svc_run env ls (system_of (NewService c None j lm a)) = Some s \<Longrightarrow> service_ok env (sy_service s)"
  using reached_ok by (simp add: system_ok_def)

lemma demo_system: "system_of (demo_service n) = system_of (NewService demo_config None None None (Some (demo_limits n)))"
  by (simp add: demo_service_def)

lemma record_okD:
  "record_ok env sv r \<Longrightarrow> or_Result r = Some res \<Longrightarrow>
   \<exists>rq. sv_requests sv (or_ID r) = Some rq \<and> verified env rq res"
  by (simp add: record_ok_def)

text \<open>The bytes a verified result stands for.\<close>

lemma verified_bytes:
  assumes "verified env rq res"
  obtains c d where "CompileManifest (rq_Manifest rq) = Inr c" "int (length d) = sint (mf_TotalSize c)"
    "\<forall>sg\<in>set (mf_Segments c). load_data (se_gunzip env) (MemorySource_Open (rq_Segments rq)) None sg
        = Inr (seg_slice sg d) \<and> Digest (seg_slice sg d) = seg_Digest sg"
    "\<forall>p<length d. (\<forall>sg\<in>set (mf_Segments c). \<not> inside sg p) \<longrightarrow> d ! p = 0"
    "receipt_of res = \<lparr>rc_FileID = mf_FileID c, rc_Version = mf_Version c,
       rc_Size = mf_TotalSize c, rc_Digest = Digest d\<rparr>"
    "mr_SegmentCount res = int (length (mf_Segments c))"
proof -
  obtain c d where v: "CompileManifest (rq_Manifest rq) = Inr c"
    "written_ok (merge_env_of env rq) c (length (mf_Segments c)) d"
    "receipt_of res = \<lparr>rc_FileID = mf_FileID c, rc_Version = mf_Version c,
       rc_Size = mf_TotalSize c, rc_Digest = Digest d\<rparr>"
    "mr_SegmentCount res = int (length (mf_Segments c))"
    using assms by (auto simp: verified_def)
  note w = written_ok_all [OF v(2)]
  have "load_data (se_gunzip env) (MemorySource_Open (rq_Segments rq)) None sg = Inr (seg_slice sg d)
      \<and> Digest (seg_slice sg d) = seg_Digest sg" if "sg \<in> set (mf_Segments c)" for sg
    using w(2) that loads_memory loads_verified(2)
    by (fastforce simp: merge_env_of_def NewMemorySource_def)
  with v w show ?thesis by (intro that [of c d]) auto
qed

text \<open>
  C18: The types of the catalog hold in every state the service reaches, whatever the calls and
  their interleaving, the failures of the journal and the clock: a record is stored under its own
  identifier, is in one of the six states and has counted no negative attempts; no two records share an
  idempotency key; and the request kept for an identifier passed \<open>Validate\<close> and is of the record's
  file and key.
\<close>
theorem records_typed:
  assumes "svc_run env ls (system_of (NewService c None j lm a)) = Some s"
    "table (sv_catalog (sy_service s)) i = Some r"
  shows "or_ID r = i \<and> or_State r \<in> known_states \<and> 0 \<le> or_Attempt r
    \<and> (\<forall>i' r'. table (sv_catalog (sy_service s)) i' = Some r' \<longrightarrow>
         or_IdempotencyKey r' = or_IdempotencyKey r \<longrightarrow> i' = i)
    \<and> (\<forall>rq. sv_requests (sy_service s) i = Some rq \<longrightarrow>
         Validate rq = None \<and> mf_FileID (rq_Manifest rq) = or_FileID r
         \<and> rq_IdempotencyKey rq = or_IdempotencyKey r)"
proof -
  note ok = reached_service [OF assms(1)]
  have "or_ID r = i" using catalog_okD(2) [OF service_okD(1) [OF ok] assms(2)] .
  moreover have "or_State r \<in> known_states \<and> 0 \<le> or_Attempt r"
    using service_okD(2) [OF ok assms(2)] by (simp add: record_ok_def)
  moreover have "i' = i" if "table (sv_catalog (sy_service s)) i' = Some r'"
    "or_IdempotencyKey r' = or_IdempotencyKey r" for i' r'
    using same_key [OF service_okD(1) [OF ok] that(1) assms(2) that(2)] .
  moreover have "Validate rq = None \<and> mf_FileID (rq_Manifest rq) = or_FileID r
      \<and> rq_IdempotencyKey rq = or_IdempotencyKey r" if "sv_requests (sy_service s) i = Some rq" for rq
    using service_okD(3) [OF ok that] assms(2) by (auto simp: request_ok_def identity_def)
  ultimately show ?thesis by blast
qed

theorem records_typed_witness:
  "or_ID demo_record = demo_id \<and> Validate demo_request = None"
proof -
  have "table (sv_catalog (submitted 2)) demo_id = Some demo_record"
    by (simp add: submitted_def demo_catalog_def table_def)
  then show ?thesis
    using records_typed [OF demo_submitted [of 2, unfolded demo_system], of demo_id demo_record]
    by (auto simp: submitted_def)
qed

text \<open>
  C11: An artifact in the catalog is what it says, in every state the service reaches: there is
  a request that was submitted and validated, with the artifact's file and version, whose payloads
  load to verified bytes for every segment, and the artifact's size and digest are those of the file
  put together from exactly these bytes and zeros elsewhere.
\<close>
theorem artifacts_verified:
  assumes "svc_run env ls (system_of (NewService c None j lm a)) = Some s"
    "map_of (ct_artifacts (sv_catalog (sy_service s))) f = Some art"
  shows "\<exists>rq m d. sv_requests (sy_service s) (ar_OperationID art) = Some rq \<and> Validate rq = None
    \<and> CompileManifest (rq_Manifest rq) = Inr m \<and> f = mf_FileID m
    \<and> ar_Receipt art = \<lparr>rc_FileID = f, rc_Version = mf_Version m, rc_Size = mf_TotalSize m,
         rc_Digest = Digest d\<rparr>
    \<and> int (length d) = sint (mf_TotalSize m)
    \<and> (\<forall>sg\<in>set (mf_Segments m). load_data (se_gunzip env) (MemorySource_Open (rq_Segments rq)) None sg
          = Inr (seg_slice sg d) \<and> Digest (seg_slice sg d) = seg_Digest sg)
    \<and> (\<forall>p<length d. (\<forall>sg\<in>set (mf_Segments m). \<not> inside sg p) \<longrightarrow> d ! p = 0)"
proof -
  note ok = reached_service [OF assms(1)]
  obtain rq res where a: "sv_requests (sy_service s) (ar_OperationID art) = Some rq"
    "verified env rq res" "ar_Receipt art = receipt_of res"
    using service_okD(4) [OF ok assms(2)] by (auto simp: artifact_ok_def)
  obtain m d where v: "CompileManifest (rq_Manifest rq) = Inr m" "int (length d) = sint (mf_TotalSize m)"
    "\<forall>sg\<in>set (mf_Segments m). load_data (se_gunzip env) (MemorySource_Open (rq_Segments rq)) None sg
        = Inr (seg_slice sg d) \<and> Digest (seg_slice sg d) = seg_Digest sg"
    "\<forall>p<length d. (\<forall>sg\<in>set (mf_Segments m). \<not> inside sg p) \<longrightarrow> d ! p = 0"
    "receipt_of res = \<lparr>rc_FileID = mf_FileID m, rc_Version = mf_Version m,
       rc_Size = mf_TotalSize m, rc_Digest = Digest d\<rparr>"
    using a(2) by (rule verified_bytes)
  have "f = mf_FileID m"
    using catalog_okD(5) [OF service_okD(1) [OF ok] assms(2)] a(3) v(5) by simp
  moreover have "Validate rq = None" using service_okD(3) [OF ok a(1)] by (simp add: request_ok_def)
  ultimately show ?thesis using a v by auto
qed

theorem artifacts_verified_witness:
  "\<exists>s art d. svc_run demo_svc (demo_prefix @ demo_to_end) (system_of (demo_service 2)) = Some s
     \<and> map_of (ct_artifacts (sv_catalog (sy_service s))) ''demo'' = Some art
     \<and> rc_Digest (ar_Receipt art) = Digest d \<and> length d = 11"
proof -
  obtain res out where run: "svc_run demo_svc (demo_prefix @ demo_to_end) (system_of (demo_service 2)) =
      Some (demo_end_state 2 res out)" using demo_end [of 2] by auto
  have tot: "sint (mf_TotalSize demo_manifest) = 11" by (simp add: demo_defs)
  show ?thesis
    using artifacts_verified [OF run [unfolded demo_system] demo_end_table(2)] run tot
    by (auto simp: demo_compiled)
qed

text \<open>
  C12: A record that says its operation is completed carries a result, and any result a record carries,
  also one of an operation that was restarted or cancelled later, is one that a merge of the request has
  verified: the digest is that of a file made of the request's own verified payloads.
\<close>
theorem results_verified:
  assumes "svc_run env ls (system_of (NewService c None j lm a)) = Some s"
    "table (sv_catalog (sy_service s)) i = Some r"
  shows "(or_State r = StateCompleted \<longrightarrow> or_Result r \<noteq> None)
    \<and> (\<forall>res. or_Result r = Some res \<longrightarrow>
         (\<exists>rq m d. sv_requests (sy_service s) i = Some rq \<and> CompileManifest (rq_Manifest rq) = Inr m
            \<and> (\<forall>sg\<in>set (mf_Segments m).
                 load_data (se_gunzip env) (MemorySource_Open (rq_Segments rq)) None sg
                   = Inr (seg_slice sg d) \<and> Digest (seg_slice sg d) = seg_Digest sg)
            \<and> int (length d) = sint (mr_Size res) \<and> mr_Digest res = Digest d
            \<and> mr_FileID res = mf_FileID m \<and> mr_SegmentCount res = int (length (mf_Segments m))))"
proof -
  note ok = reached_service [OF assms(1)]
  have i: "or_ID r = i" using catalog_okD(2) [OF service_okD(1) [OF ok] assms(2)] .
  have r: "record_ok env (sy_service s) r" using service_okD(2) [OF ok assms(2)] .
  have "\<exists>rq m d. sv_requests (sy_service s) i = Some rq \<and> CompileManifest (rq_Manifest rq) = Inr m
            \<and> (\<forall>sg\<in>set (mf_Segments m).
                 load_data (se_gunzip env) (MemorySource_Open (rq_Segments rq)) None sg
                   = Inr (seg_slice sg d) \<and> Digest (seg_slice sg d) = seg_Digest sg)
            \<and> int (length d) = sint (mr_Size res) \<and> mr_Digest res = Digest d
            \<and> mr_FileID res = mf_FileID m \<and> mr_SegmentCount res = int (length (mf_Segments m))"
    if h: "or_Result r = Some res" for res
  proof -
    obtain rq where rq: "sv_requests (sy_service s) i = Some rq" "verified env rq res"
      using record_okD [OF r h] i by blast
    from rq(2) show ?thesis
      by (rule verified_bytes) (use rq(1) in \<open>auto simp: receipt_of_def\<close>)
  qed
  with r show ?thesis by (simp add: record_ok_def)
qed

theorem results_verified_witness:
  "\<exists>s r res. svc_run demo_svc (demo_prefix @ demo_to_end) (system_of (demo_service 2)) = Some s
     \<and> table (sv_catalog (sy_service s)) demo_id = Some r \<and> or_State r = StateCompleted
     \<and> or_Result r = Some res \<and> mr_FileID res = ''demo''"
proof -
  obtain res out where run: "svc_run demo_svc (demo_prefix @ demo_to_end) (system_of (demo_service 2)) =
      Some (demo_end_state 2 res out)" using demo_end [of 2] by auto
  show ?thesis
    using results_verified [OF run [unfolded demo_system] demo_end_table(1)] run demo_compiled
    by auto
qed

text \<open>
  C13: How a record can move in one step of the system, whoever makes it. It stays as it is, or its revision
  goes up by one, its identifier, file and key stay, and it was one of these: a start, by a
  thread that holds a lease, whose token and owner the record gets, and with one attempt more than a record
  of this operation that could start had at some point before; a cancellation, with the attempt, token and
  owner that a record of this operation which was not terminal had at some point before; the outcome
  of a run, completed, retrying or failed, of a running record whose attempt, token and owner stay; or
  the failure of a submission, from accepted to failed. So an outcome is
  recorded at most once for a start, and a cancellation between the start and the outcome prevents it.
\<close>
theorem record_lifecycle:
  assumes "s0 = system_of (NewService c None j lm a)" "svc_run env ls s0 = Some s" "length ls < 2 ^ 64 - 2"
    "svc_step env l s = Some s'" "table (sv_catalog (sy_service s)) i = Some r"
  shows "\<exists>r'. table (sv_catalog (sy_service s')) i = Some r'
    \<and> (r' = r
       \<or> or_Revision r' = or_Revision r + 1 \<and> identity r' = identity r
         \<and> (or_State r' = StateRunning
             \<and> (\<exists>k x run le t. l = Step k x \<and> k < length (sy_threads s)
                  \<and> th_pc (sy_threads s ! k) = R_Update run le t (or_Revision r)
                  \<and> or_Fence r' = le_Fence le \<and> or_Owner r' = le_Owner le)
             \<and> (\<exists>old. had env s0 ls i old \<and> or_State old \<in> {StateAccepted, StateRetrying}
                  \<and> or_Attempt r' = or_Attempt old + 1)
            \<or> or_State r' = StateCancelled
             \<and> (\<exists>old. had env s0 ls i old \<and> or_State old \<notin> {StateCompleted, StateFailed, StateCancelled}
                  \<and> or_Attempt r' = or_Attempt old \<and> or_Fence r' = or_Fence old \<and> or_Owner r' = or_Owner old)
            \<or> or_Attempt r' = or_Attempt r \<and> or_Fence r' = or_Fence r \<and> or_Owner r' = or_Owner r
              \<and> (or_State r = StateRunning
                   \<and> or_State r' \<in> {StateCompleted, StateRetrying, StateFailed}
                 \<or> or_State r = StateAccepted \<and> or_State r' = StateFailed)))"
proof -
  note run = assms(2) [unfolded assms(1)]
  have k: "1 + length ls < 2 ^ 64" "Suc (1 + length ls) < 2 ^ 64" using assms(3) by simp_all
  have "claims_ok (sy_service s) (sy_threads s) \<and> revisions_below (1 + length ls) (sy_service s)"
    using svc_run_moves [OF run system_ok_start start_moves k(1)] by simp
  then have "all_moved (sy_service s) (sy_service s')"
    using svc_step_moves [OF reached_ok [OF run] _ _ k(2) _ assms(4)] by simp
  then obtain r' where r': "table (sv_catalog (sy_service s')) i = Some r'" "moved r r'"
    using assms(5) by (auto simp: all_moved_def)
  have based: "all_based (had env s0 ls) (sy_threads s)"
    using svc_run_based [OF assms(2)] by (simp add: assms(1) system_ok_start) (simp add: system_of_def)
  have threads: "threads_ok env (sy_service s) (sy_threads s)" using reached_ok [OF run] by (simp add: system_ok_def)
  show ?thesis
  proof (cases "r' = r")
    case False
    obtain k x op n where w: "l = Step k x" "k < length (sy_threads s)"
      "writing env x (sy_service s) (th_pc (sy_threads s ! k)) = Some (op, n)"
      "op_ID op = i" "or_Revision r = n" "r' = (toRecord op)\<lparr>or_Revision := n + 1\<rparr>"
      using step_writes [OF reached_ok [OF run] assms(4,5) r'(1) False] by blast
    note origin = start_origin [OF threads_okD [OF threads w(2)] all_basedD [OF based w(2)] w(3)]
      cancel_origin [OF threads_okD [OF threads w(2)] all_basedD [OF based w(2)] w(3)]
    have "(\<exists>run le t. th_pc (sy_threads s ! k) = R_Update run le t (or_Revision r)
          \<and> or_Fence r' = le_Fence le \<and> or_Owner r' = le_Owner le)
        \<and> (\<exists>old. had env s0 ls i old \<and> or_State old \<in> {StateAccepted, StateRetrying}
          \<and> or_Attempt r' = or_Attempt old + 1)" if "or_State r' = StateRunning"
      using origin(1) that w(4-6) by (auto simp: started_from_def startable_def)
    moreover have "\<exists>old. had env s0 ls i old \<and> or_State old \<notin> {StateCompleted, StateFailed, StateCancelled}
        \<and> or_Attempt r' = or_Attempt old \<and> or_Fence r' = or_Fence old \<and> or_Owner r' = or_Owner old"
      if "or_State r' = StateCancelled"
      using origin(2) that w(4,6) by (auto simp: to_cancel_def terminal_state_def)
    ultimately show ?thesis using r' w(1,2) False unfolding moved_def by blast
  qed (use r'(1) in blast)
qed

theorem record_lifecycle_witness:
  "\<exists>s s' r'. svc_run demo_svc (demo_submit @ demo_to_update) (system_of (demo_service 2)) = Some s
     \<and> svc_step demo_svc (Step 1 (at 2)) s = Some s'
     \<and> table (sv_catalog (sy_service s')) demo_id = Some r' \<and> or_State r' = StateRunning \<and> or_Fence r' = 1
     \<and> (\<exists>old. had demo_svc (system_of (demo_service 2)) (demo_submit @ demo_to_update) demo_id old
          \<and> or_State old \<in> {StateAccepted, StateRetrying} \<and> or_Attempt r' = or_Attempt old + 1)"
proof -
  note run = demo_to_update_run [of 2, simplified]
  let ?s = "demo_update_state 2"
  let ?s' = "?s\<lparr>sy_service := demo_sv 2 demo_running_record [] 1 demo_leases Map.empty,
    sy_threads := (sy_threads ?s)[1 := plain None (R_Started demo_running demo_lease 2 2)]\<rparr>"
  have s': "svc_step demo_svc (Step 1 (at 2)) ?s = Some ?s'"
    using step_update [of "at 2" 1 None 2 1 Map.empty]
    by (simp add: demo_update_state_def thread_step_def signal_def)
  have len: "length (demo_submit @ demo_to_update) < 2 ^ 64 - 2"
    by (simp add: demo_submit_def demo_to_update_def)
  have tab: "table (sv_catalog (sy_service ?s)) demo_id = Some demo_record"
    "table (sv_catalog (sy_service ?s')) demo_id = Some demo_running_record"
    by (simp_all add: demo_update_state_def table_def demo_catalog_def)
  have "or_Fence demo_running_record = 1" by (simp add: demo_running_record_def demo_running_def)
  moreover have "StateRunning \<noteq> StateCancelled" "StateRunning \<notin> {StateCompleted, StateRetrying, StateFailed}"
    "demo_running_record \<noteq> demo_record"
    by (auto simp: state_defs dest: arg_cong [of _ _ or_Revision])
  ultimately show ?thesis
    using record_lifecycle [OF demo_system run len s' tab(1)] run s' tab(2)
    by (intro exI [of _ ?s] exI [of _ ?s'] exI [of _ demo_running_record]) (simp add: state_defs)
qed

end
