(* ===== verification/Races.thy ===== *)
theory Races
  imports Services
begin

text \<open>
  Where the service does not keep what its state machine, its leases and its admission promise: each
  theorem is about any reachable state of the kind it describes, and its witness reaches one.
\<close>

section \<open>Two steps of a thread\<close>

text \<open>The same as \<open>run_step\<close>, for a thread whose context may be cancelled.\<close>

lemma svc_run_step:
  assumes "i < length (sy_threads s)"
    "call_step env inp i (th_ctx (sy_threads s ! i)) (th_wctx (sy_threads s ! i)) (th_pc (sy_threads s ! i))
       (sy_service s) = Some ((c, sv), None)"
  shows "\<exists>th. th_pc th = c \<and> th_ctx th = th_ctx (sy_threads s ! i) \<and> th_batch th = th_batch (sy_threads s ! i)
    \<and> svc_step env (Step i inp) s = Some \<lparr>sy_service = sv, sy_threads = (sy_threads s)[i := th]\<rparr>"
proof -
  let ?th = "(sy_threads s ! i)\<lparr>th_pc := c,
    th_wctx := (if is_register (th_pc (sy_threads s ! i)) then th_ctx (sy_threads s ! i)
                else th_wctx (sy_threads s ! i))\<rparr>"
  have "svc_step env (Step i inp) s = Some \<lparr>sy_service = sv, sy_threads = (sy_threads s)[i := ?th]\<rparr>"
    using assms by (cases s) (simp add: thread_step_def signal_def)
  then show ?thesis by (intro exI [of _ ?th]) simp
qed

text \<open>A write at the current revision succeeds, whatever the state of the record.\<close>

lemma update_record_current:
  assumes "service_ok env sv" "op_ok env sv op" "table (sv_catalog sv) (op_ID op) = Some r"
  shows "\<exists>c. update_record op (or_Revision r) sv =
      (Inr ((toRecord op)\<lparr>or_Revision := or_Revision r + 1\<rparr>), sv\<lparr>sv_catalog := c\<rparr>)
    \<and> table c = (table (sv_catalog sv))(op_ID op \<mapsto> (toRecord op)\<lparr>or_Revision := or_Revision r + 1\<rparr>)
    \<and> ct_artifacts c = ct_artifacts (sv_catalog sv)"
proof -
  obtain rq where rq: "sv_requests sv (op_ID op) = Some rq" "op_Manifest op = rq_Manifest rq"
    "op_IdempotencyKey op = rq_IdempotencyKey rq" using assms(2) by (auto simp: op_ok_def)
  have ids: "or_FileID r = mf_FileID (op_Manifest op)" "or_IdempotencyKey r = op_IdempotencyKey op"
    using service_okD(3) [OF assms(1) rq(1)] assms(3) rq by (auto simp: request_ok_def identity_def)
  obtain u c where u: "Update (toRecord op) (or_Revision r) (sv_catalog sv) = (u, c)" by fastforce
  from Update_table [OF u] assms(3) ids
  have "u = Inr ((toRecord op)\<lparr>or_Revision := or_Revision r + 1\<rparr>)"
    "table c = (table (sv_catalog sv))(op_ID op \<mapsto> (toRecord op)\<lparr>or_Revision := or_Revision r + 1\<rparr>)"
    "ct_artifacts c = ct_artifacts (sv_catalog sv)" by auto
  with u show ?thesis by (intro exI [of _ c]) (simp add: update_record_def)
qed

lemma reached_pc:
  assumes "svc_run env ls (system_of (NewService c None j lm a)) = Some s" "i < length (sy_threads s)"
  shows "service_ok env (sy_service s)" "pc_ok env (sy_service s) (th_pc (sy_threads s ! i))"
  using reached_ok [OF assms(1)] assms(2) by (auto simp: system_ok_def dest: threads_okD)


section \<open>The state machine\<close>

text \<open>
  \<open>Run\<close> checks the state of the operation it read first, and reads the revision for its update
  later. So an operation that could be started when \<open>Run\<close> read it is set to running whatever its
  record says by then: also one that was cancelled, or one that another call has completed since,
  which starts again.
\<close>
theorem stale_start_overwrites:
  assumes "svc_run env ls (system_of (NewService c None j lm a)) = Some s" "i < length (sy_threads s)"
    "th_pc (sy_threads s ! i) = R_Start op l" "CanStart op"
    "table (sv_catalog (sy_service s)) (op_ID op) = Some r"
  shows "\<exists>s' r'. svc_run env [Step i x, Step i y] s = Some s'
    \<and> table (sv_catalog (sy_service s')) (op_ID op) = Some r'
    \<and> or_State r' = StateRunning \<and> or_Revision r' = or_Revision r + 1
    \<and> or_Fence r' = le_Fence l \<and> or_Attempt r' = op_Attempt op + 1"
proof -
  let ?sv = "sy_service s"
  let ?run = "op\<lparr>op_State := StateRunning, op_UpdatedAt := in_now x, op_Attempt := op_Attempt op + 1,
      op_Fence := le_Fence l, op_Owner := le_Owner l\<rparr>"
  let ?r = "(toRecord ?run)\<lparr>or_Revision := or_Revision r + 1\<rparr>"
  note ok = reached_pc [OF assms(1,2), unfolded assms(3)]
  have "allowed (op_State op) StateRunning"
    using assms(4) by (auto simp: CanStart_def startable_def allowed_def state_defs)
  then have "run_start (in_now x) op l ?sv = R_Update ?run l (in_now x) (or_Revision r)"
    using assms(5) by (simp add: run_start_def transition_def Let_def GetOperation_def table_def)
  then obtain th where th: "th_pc th = R_Update ?run l (in_now x) (or_Revision r)"
    "svc_step env (Step i x) s = Some \<lparr>sy_service = ?sv, sy_threads = (sy_threads s)[i := th]\<rparr>"
    using svc_run_step [OF assms(2), of env x] assms(3) by fastforce
  have run: "op_ok env ?sv ?run"
    by (rule op_ok_change [of env ?sv op]) (use ok(2) in \<open>auto simp: op_ok_def\<close>)
  have r: "table (sv_catalog ?sv) (op_ID ?run) = Some r" using assms(5) by simp
  from update_record_current [OF ok(1) run r]
  obtain c' where c': "update_record ?run (or_Revision r) ?sv = (Inr ?r, ?sv\<lparr>sv_catalog := c'\<rparr>)"
    "table c' = (table (sv_catalog ?sv))(op_ID ?run \<mapsto> ?r)" by blast
  from c'(1) have "run_update ?run l (in_now x) (or_Revision r) ?sv =
      (R_Started ?run l (in_now x) (or_Revision ?r), ?sv\<lparr>sv_catalog := c'\<rparr>)"
    by (simp add: run_update_def)
  then obtain th' where "svc_step env (Step i y) \<lparr>sy_service = ?sv, sy_threads = (sy_threads s)[i := th]\<rparr> =
      Some \<lparr>sy_service = ?sv\<lparr>sv_catalog := c'\<rparr>, sy_threads = (sy_threads s)[i := th']\<rparr>"
    using svc_run_step [of i "\<lparr>sy_service = ?sv, sy_threads = (sy_threads s)[i := th]\<rparr>" env y] assms(2) th(1)
    by fastforce
  with th(2) c'(2) show ?thesis by (auto simp del: svc_step.simps)
qed

text \<open>Thread 1 had read the operation before thread 3 ran it to its end.\<close>

lemma demo_restart:
  "\<exists>res out l. svc_run demo_svc (demo_prefix @ demo_to_end @ [Step 1 (at 4)]) (system_of (demo_service 2)) =
     Some \<lparr>sy_service = demo_sv 2 (demo_completed_record res) [(''demo'', demo_artifact res)] 3
             \<lparr>lm_next = 2, lm_leases = [(''merge/demo'', l)]\<rparr> Map.empty,
           sy_threads = demo_waiting[1 := plain None (R_Start demo_got l)] @ [plain (Some Canceled) (Done out)]\<rparr>"
proof -
  obtain res out where run: "\<forall>ls.
    svc_run demo_svc (demo_prefix @ demo_to_end @ ls) (system_of (demo_service 2)) =
      svc_run demo_svc ls
        \<lparr>sy_service = demo_sv 2 (demo_completed_record res) [(''demo'', demo_artifact res)] 3
            \<lparr>lm_next = 1, lm_leases = []\<rparr> Map.empty,
         sy_threads = demo_waiting @ [plain (Some Canceled) (Done out)]\<rparr>"
    using demo_reaches_end [of 2] by auto
  let ?lm = "\<lparr>lm_next = 1, lm_leases = []\<rparr>"
  let ?l = "new_lease 4 ''merge/demo'' ''w'' 10 ?lm"
  have "call_step demo_svc (at 4) i None w (R_Acquire demo_got) (demo_sv n r arts j ?lm cs) =
      Some ((R_Start demo_got ?l, demo_sv n r arts j \<lparr>lm_next = 2, lm_leases = [(''merge/demo'', ?l)]\<rparr> cs), None)"
    for i w n r arts j cs
    by (simp add: run_acquire_def Lease_Acquire_eq Lease_Get_def demo_config_def at_def)
  then show ?thesis
    by (intro exI [of _ res] exI [of _ out] exI [of _ ?l])
      (simp add: run demo_waiting_def run_step del: svc_run.simps(2))
qed

theorem stale_start_overwrites_witness:
  "\<exists>ls s r s' r'. svc_run demo_svc ls (system_of (demo_service 2)) = Some s
     \<and> table (sv_catalog (sy_service s)) demo_id = Some r \<and> or_State r = StateCompleted
     \<and> svc_run demo_svc [Step 1 (at 4), Step 1 (at 4)] s = Some s'
     \<and> table (sv_catalog (sy_service s')) demo_id = Some r' \<and> or_State r' = StateRunning"
proof -
  obtain res out l where run: "svc_run demo_svc (demo_prefix @ demo_to_end @ [Step 1 (at 4)])
      (system_of (demo_service 2)) =
     Some \<lparr>sy_service = demo_sv 2 (demo_completed_record res) [(''demo'', demo_artifact res)] 3
             \<lparr>lm_next = 2, lm_leases = [(''merge/demo'', l)]\<rparr> Map.empty,
           sy_threads = demo_waiting[1 := plain None (R_Start demo_got l)] @ [plain (Some Canceled) (Done out)]\<rparr>"
    (is "_ = Some ?s")
    using demo_restart by blast
  have start: "1 < length (sy_threads ?s)" "th_pc (sy_threads ?s ! 1) = R_Start demo_got l"
    "CanStart demo_got" "table (sv_catalog (sy_service ?s)) (op_ID demo_got) = Some (demo_completed_record res)"
    by (simp_all add: demo_waiting_def CanStart_def startable_def table_def demo_catalog_def)
  obtain s' r' where "svc_run demo_svc [Step 1 (at 4), Step 1 (at 4)] ?s = Some s'"
    "table (sv_catalog (sy_service s')) demo_id = Some r'" "or_State r' = StateRunning"
    using stale_start_overwrites [OF run [unfolded demo_system] start, of "at 4" "at 4"] by auto
  with run start(4) show ?thesis
    using demo_end_simps(3) by (metis demo_got_simps(1))
qed

text \<open>
  \<open>Cancel\<close> has the same gap: an operation that was not terminal when \<open>Cancel\<close> read it is set to
  cancelled whatever its record says by then, also when a run has completed it and published its
  artifact, which stays.
\<close>
theorem stale_cancel_overwrites:
  assumes "svc_run env ls (system_of (NewService c None j lm a)) = Some s" "i < length (sy_threads s)"
    "th_pc (sy_threads s ! i) = C_Read op" "\<not> Terminal op"
    "table (sv_catalog (sy_service s)) (op_ID op) = Some r"
  shows "\<exists>s' r'. svc_run env [Step i x, Step i y] s = Some s'
    \<and> table (sv_catalog (sy_service s')) (op_ID op) = Some r'
    \<and> or_State r' = StateCancelled \<and> or_Revision r' = or_Revision r + 1
    \<and> ct_artifacts (sv_catalog (sy_service s')) = ct_artifacts (sv_catalog (sy_service s))"
proof -
  let ?sv = "sy_service s"
  let ?q = "op\<lparr>op_State := StateCancelled, op_UpdatedAt := in_now x\<rparr>"
  let ?r = "(toRecord ?q)\<lparr>or_Revision := or_Revision r + 1\<rparr>"
  note ok = reached_pc [OF assms(1,2), unfolded assms(3)]
  have "op_State op \<in> known_states" using ok(2) by (simp add: op_ok_def)
  with assms(4) have "allowed (op_State op) StateCancelled"
    by (auto simp: Terminal_def terminal_state_def known_states_def allowed_def state_defs)
  then have "cancel_read (in_now x) op ?sv = C_Update op ?q (in_now x) (or_Revision r)"
    using assms(5) by (simp add: cancel_read_def transition_def GetOperation_def table_def)
  then obtain th where th: "th_pc th = C_Update op ?q (in_now x) (or_Revision r)"
    "svc_step env (Step i x) s = Some \<lparr>sy_service = ?sv, sy_threads = (sy_threads s)[i := th]\<rparr>"
    using svc_run_step [OF assms(2), of env x] assms(3) by fastforce
  have q: "op_ok env ?sv ?q"
    by (rule op_ok_change [of env ?sv op]) (use ok(2) in \<open>auto simp: op_ok_def\<close>)
  have r: "table (sv_catalog ?sv) (op_ID ?q) = Some r" using assms(5) by simp
  from update_record_current [OF ok(1) q r]
  obtain c' where c': "update_record ?q (or_Revision r) ?sv = (Inr ?r, ?sv\<lparr>sv_catalog := c'\<rparr>)"
    "table c' = (table (sv_catalog ?sv))(op_ID ?q \<mapsto> ?r)" "ct_artifacts c' = ct_artifacts (sv_catalog ?sv)"
    by blast
  from c'(1) have "cancel_update op ?q (in_now x) (or_Revision r) ?sv =
      (C_Signal op ?r (in_now x), ?sv\<lparr>sv_catalog := c'\<rparr>)"
    by (simp add: cancel_update_def)
  then obtain th' where "svc_step env (Step i y) \<lparr>sy_service = ?sv, sy_threads = (sy_threads s)[i := th]\<rparr> =
      Some \<lparr>sy_service = ?sv\<lparr>sv_catalog := c'\<rparr>, sy_threads = (sy_threads s)[i := th']\<rparr>"
    using svc_run_step [of i "\<lparr>sy_service = ?sv, sy_threads = (sy_threads s)[i := th]\<rparr>" env y] assms(2) th(1)
    by fastforce
  with th(2) c'(2,3) show ?thesis by (auto simp del: svc_step.simps)
qed

theorem stale_cancel_overwrites_witness:
  "\<exists>ls s r s' r'. svc_run demo_svc ls (system_of (demo_service 2)) = Some s
     \<and> table (sv_catalog (sy_service s)) demo_id = Some r \<and> or_State r = StateCompleted
     \<and> svc_run demo_svc [Step 2 (at 4), Step 2 (at 4)] s = Some s'
     \<and> table (sv_catalog (sy_service s')) demo_id = Some r' \<and> or_State r' = StateCancelled
     \<and> map_of (ct_artifacts (sv_catalog (sy_service s'))) ''demo'' \<noteq> None"
proof -
  obtain res out where run: "svc_run demo_svc (demo_prefix @ demo_to_end) (system_of (demo_service 2)) =
      Some (demo_end_state 2 res out)" using demo_end [of 2] by auto
  let ?s = "demo_end_state 2 res out"
  have start: "2 < length (sy_threads ?s)" "th_pc (sy_threads ?s ! 2) = C_Read demo_got"
    "\<not> Terminal demo_got" "table (sv_catalog (sy_service ?s)) (op_ID demo_got) = Some (demo_completed_record res)"
    by (simp_all add: demo_end_state_def demo_waiting_def Terminal_def terminal_state_def state_defs
        table_def demo_catalog_def)
  obtain s' r' where s': "svc_run demo_svc [Step 2 (at 4), Step 2 (at 4)] ?s = Some s'"
    "table (sv_catalog (sy_service s')) demo_id = Some r'" "or_State r' = StateCancelled"
    "ct_artifacts (sv_catalog (sy_service s')) = ct_artifacts (sv_catalog (sy_service ?s))"
    using stale_cancel_overwrites [OF run [unfolded demo_system] start, of "at 4" "at 4"] by auto
  have "map_of (ct_artifacts (sv_catalog (sy_service s'))) ''demo'' \<noteq> None"
    unfolding s'(4) by simp
  with run s'(1-3) demo_end_table(1) demo_end_simps(3) show ?thesis by metis
qed


section \<open>The fence\<close>

lemma other_leases_run:
  "svc_run env (map OtherLease ops @ ls) s =
     svc_run env ls (s\<lparr>sy_service := (sy_service s)\<lparr>sv_leases := fold lease_step ops (sv_leases (sy_service s))\<rparr>\<rparr>)"
  by (induction ops arbitrary: s) simp_all

text \<open>
  C35: A run never asks for its lease again: whatever happens to the leases after it was granted,
  also when it has expired and another worker holds the resource under a greater token, a merge that
  has ended is recorded as completed and its artifact is published, under the old token.
\<close>
theorem stale_worker_publishes:
  assumes "svc_run env ls (system_of (NewService c None j lm a)) = Some s" "i < length (sy_threads s)"
    "th_pc (sy_threads s ! i) = R_Complete op l n rq res"
    "table (sv_catalog (sy_service s)) (op_ID op) = Some r" "or_Revision r = n"
    "map_of (ct_artifacts (sv_catalog (sy_service s))) (mr_FileID res) = None" "op_ID op \<noteq> []"
  shows "\<exists>s' r' art. svc_run env (map OtherLease ops @ [Step i x, Step i y]) s = Some s'
    \<and> sv_leases (sy_service s') = fold lease_step ops (sv_leases (sy_service s))
    \<and> table (sv_catalog (sy_service s')) (op_ID op) = Some r'
    \<and> or_State r' = StateCompleted \<and> or_Fence r' = op_Fence op
    \<and> map_of (ct_artifacts (sv_catalog (sy_service s'))) (mr_FileID res) = Some art
    \<and> ar_OperationID art = op_ID op"
proof -
  let ?ls = "fold lease_step ops (sv_leases (sy_service s))"
  let ?sv = "(sy_service s)\<lparr>sv_leases := ?ls\<rparr>"
  let ?s = "s\<lparr>sy_service := ?sv\<rparr>"
  let ?r = "(toRecord op)\<lparr>or_Revision := n + 1\<rparr>"
  have reach: "svc_run env (ls @ map OtherLease ops) (system_of (NewService c None j lm a)) = Some ?s"
    using assms(1) other_leases_run [of env ops "[]" s] by (simp add: svc_run_append)
  have i: "i < length (sy_threads ?s)" "th_pc (sy_threads ?s ! i) = R_Complete op l n rq res"
    using assms(2,3) by simp_all
  note ok = reached_pc [OF reach i(1), unfolded i(2)]
  have d: "op_ok env ?sv op" "op_State op = StateCompleted" "verified env rq res"
    using ok(2) by (auto simp: done_ok_def op_ok_def result_fits_def)
  have r: "table (sv_catalog ?sv) (op_ID op) = Some r" using assms(4) by simp
  obtain c' where c': "update_record op n ?sv = (Inr ?r, ?sv\<lparr>sv_catalog := c'\<rparr>)"
    "table c' = (table (sv_catalog ?sv))(op_ID op \<mapsto> ?r)" "ct_artifacts c' = ct_artifacts (sv_catalog ?sv)"
    using update_record_current [OF _ d(1) r] ok(1) assms(5) by auto
  then have "run_complete op l n rq res ?sv = (R_Artifact op l ?r rq res, ?sv\<lparr>sv_catalog := c'\<rparr>)"
    by (simp add: run_complete_def)
  then obtain th where th: "th_pc th = R_Artifact op l ?r rq res"
    "svc_step env (Step i x) ?s = Some \<lparr>sy_service = ?sv\<lparr>sv_catalog := c'\<rparr>, sy_threads = (sy_threads s)[i := th]\<rparr>"
    using svc_run_step [OF i(1), of env x] i(2) by fastforce
  let ?art = "\<lparr>ar_Receipt = receipt_of res, ar_OperationID = op_ID op, ar_CommittedAt = op_UpdatedAt op\<rparr>"
  let ?c = "c'\<lparr>ct_artifacts := AList.update (mr_FileID res) ?art (ct_artifacts c')\<rparr>"
  have "mr_FileID res \<noteq> []"
    using d(3) compiled_layout(1)
    by (auto simp: verified_def receipt_of_def CompileManifest_Inr normalise_def manifest_ok_def)
  then have "run_artifact op l ?r rq res (?sv\<lparr>sv_catalog := c'\<rparr>) =
      (R_Completed op l ?r rq res, ?sv\<lparr>sv_catalog := ?c\<rparr>)"
    using assms(6,7) c'(3) by (simp add: run_artifact_def PutArtifact_def receipt_of_def)
  then obtain th' where "svc_step env (Step i y)
      \<lparr>sy_service = ?sv\<lparr>sv_catalog := c'\<rparr>, sy_threads = (sy_threads s)[i := th]\<rparr> =
      Some \<lparr>sy_service = ?sv\<lparr>sv_catalog := ?c\<rparr>, sy_threads = (sy_threads s)[i := th']\<rparr>"
    using svc_run_step [of i "\<lparr>sy_service = ?sv\<lparr>sv_catalog := c'\<rparr>, sy_threads = (sy_threads s)[i := th]\<rparr>" env y]
      assms(2) th(1) by fastforce
  then have "svc_run env (map OtherLease ops @ [Step i x, Step i y]) s =
      Some \<lparr>sy_service = ?sv\<lparr>sv_catalog := ?c\<rparr>, sy_threads = (sy_threads s)[i := th']\<rparr>"
    using th(2) by (simp add: other_leases_run del: svc_step.simps)
  moreover have "table ?c = table c'" by (simp add: table_def)
  ultimately show ?thesis using c'(2) d(2) by (simp add: update_conv')
qed

theorem stale_worker_publishes_witness:
  "\<exists>ls s s' r' l. svc_run demo_svc ls (system_of (demo_service 2)) = Some s
     \<and> svc_run demo_svc ([OtherLease (OpAcquire 100 ''merge/demo'' ''worker-2'' 10)] @ [Step 3 (at 101), Step 3 (at 101)]) s
         = Some s'
     \<and> Lease_Get 101 ''merge/demo'' (sv_leases (sy_service s')) = Some l
     \<and> le_Owner l = ''worker-2'' \<and> le_Fence l = 2
     \<and> table (sv_catalog (sy_service s')) demo_id = Some r'
     \<and> or_State r' = StateCompleted \<and> or_Fence r' = 1
     \<and> map_of (ct_artifacts (sv_catalog (sy_service s'))) ''demo'' \<noteq> None"
proof -
  obtain res where res: "mr_FileID res = ''demo''" "\<forall>ls. svc_run demo_svc (demo_prefix @ ls) (system_of (demo_service 2)) =
      svc_run demo_svc ls
        \<lparr>sy_service = demo_sv 2 demo_running_record [] 2 demo_leases [demo_id \<mapsto> 3],
         sy_threads = demo_waiting @ [plain None (R_Complete (demo_completed res) demo_lease 2 demo_request res)]\<rparr>"
    (is "\<forall>ls. _ = svc_run demo_svc ls ?s")
    using demo_reaches_merged [of 2] by auto
  from res(2) [THEN spec, of "[]"] have run: "svc_run demo_svc demo_prefix (system_of (demo_service 2)) = Some ?s"
    by (simp only: append_Nil2 svc_run.simps(1))
  have start: "3 < length (sy_threads ?s)"
    "th_pc (sy_threads ?s ! 3) = R_Complete (demo_completed res) demo_lease 2 demo_request res"
    "table (sv_catalog (sy_service ?s)) (op_ID (demo_completed res)) = Some demo_running_record"
    "or_Revision demo_running_record = 2"
    "map_of (ct_artifacts (sv_catalog (sy_service ?s))) (mr_FileID res) = None"
    "op_ID (demo_completed res) \<noteq> []"
    by (simp_all add: demo_waiting_def table_def demo_catalog_def)
  let ?ops = "[OpAcquire 100 ''merge/demo'' ''worker-2'' 10]"
  obtain s' r' where s': "svc_run demo_svc (map OtherLease ?ops @ [Step 3 (at 101), Step 3 (at 101)]) ?s = Some s'"
    "sv_leases (sy_service s') = fold lease_step ?ops (sv_leases (sy_service ?s))"
    "table (sv_catalog (sy_service s')) demo_id = Some r'" "or_State r' = StateCompleted"
    "or_Fence r' = op_Fence (demo_completed res)"
    "map_of (ct_artifacts (sv_catalog (sy_service s'))) ''demo'' \<noteq> None"
    using stale_worker_publishes [OF run [unfolded demo_system] start, of ?ops "at 101" "at 101"] res(1) by auto
  have l: "\<exists>l. Lease_Get 101 ''merge/demo'' (sv_leases (sy_service s')) = Some l
      \<and> le_Owner l = ''worker-2'' \<and> le_Fence l = 2"
    unfolding s'(2)
    by (simp add: Lease_Acquire_eq Lease_Get_def demo_leases_def demo_lease_def new_lease_def Expired_def)
  have f: "op_Fence (demo_completed res) = 1" by (simp add: demo_completed_def demo_running_def)
  have ls: "map OtherLease ?ops = [OtherLease (OpAcquire 100 ''merge/demo'' ''worker-2'' 10)]" by simp
  show ?thesis
    using run s'(1) [unfolded ls] s'(3-6) l unfolding f by blast
qed


section \<open>Admission\<close>

definition active :: "operation_record \<Rightarrow> bool" where
  "active r \<longleftrightarrow> or_State r \<in> {StateAccepted, StateRunning, StateRetrying}"

lemma currentLoad_active:
  assumes "catalog_ok c"
  shows "lo_ActiveOperations (currentLoad c) = int (card {r \<in> ran (table c). active r})"
proof -
  let ?n = "\<lambda>s. {r \<in> ran (table c). or_State r = s}"
  have fin: "finite (ran (table c))" by (simp add: table_def finite_ran finite_dom_map_of)
  have "{r \<in> ran (table c). active r} = ?n StateAccepted \<union> (?n StateRunning \<union> ?n StateRetrying)"
    by (auto simp: active_def)
  also have "card \<dots> = card (?n StateAccepted) + (card (?n StateRunning) + card (?n StateRetrying))"
    using fin by (subst card_Un_disjoint, auto simp: state_defs) (subst card_Un_disjoint, auto)
  finally show ?thesis
    using Counts_exact [OF assms] by (simp add: currentLoad_def Let_def)
qed

text \<open>
  A run is admitted a second time, and counts itself: when as many operations are active as the
  limit allows (the one that is about to merge among them), the run fails for good, although its
  submission was admitted. With a limit of one no operation can ever be run.
\<close>
theorem run_counts_itself:
  assumes "svc_run env ls (system_of (NewService c None j lm a)) = Some s" "i < length (sy_threads s)"
    "th_pc (sy_threads s ! i) = R_Admit run l n rq"
    "table (sv_catalog (sy_service s)) (op_ID run) = Some r" "or_Revision r = n"
    "li_MaxActiveOperations (sv_admission (sy_service s))
       = int (card {r \<in> ran (table (sv_catalog (sy_service s))). active r})"
  shows "\<exists>s' r'. svc_run env [Step i x, Step i y] s = Some s'
    \<and> table (sv_catalog (sy_service s')) (op_ID run) = Some r'
    \<and> or_State r' = StateFailed \<and> or_RetryAt r' = op_RetryAt run
    \<and> or_LastError r' = se_text env (ErrRejected ''active operation limit reached'')"
proof -
  let ?sv = "sy_service s" and ?e = "ErrRejected ''active operation limit reached''"
  let ?f = "run\<lparr>op_State := StateFailed, op_UpdatedAt := in_now y, op_LastError := se_text env ?e\<rparr>"
  let ?r = "(toRecord ?f)\<lparr>or_Revision := n + 1\<rparr>"
  let ?d = "Retry (sv_admission ?sv) (op_Attempt run) FailurePermanent"
  note ok = reached_pc [OF assms(1,2), unfolded assms(3)]
  have "lo_ActiveOperations (currentLoad (sv_catalog ?sv)) = li_MaxActiveOperations (sv_admission ?sv)"
    using currentLoad_active [OF service_okD(1) [OF ok(1)]] assms(6) by simp
  then have "run_admit run l n rq ?sv = R_Fail run l n ?e FailurePermanent False"
    by (simp add: run_admit_def Evaluate_def rejected_def)
  then obtain th where th: "th_pc th = R_Fail run l n ?e FailurePermanent False"
    "svc_step env (Step i x) s = Some \<lparr>sy_service = ?sv, sy_threads = (sy_threads s)[i := th]\<rparr>"
    using svc_run_step [OF assms(2), of env x] assms(3) by fastforce
  have "op_State run = StateRunning" and run: "run_ok env ?sv run" using ok(2) by (simp_all add: run_ok_def)
  then have f: "failure_record env (in_now y) run ?e ?d = Inr ?f"
    by (simp add: failure_record_def transition_def allowed_def state_defs Retry_def no_retry_def)
  have fok: "op_ok env ?sv ?f" using failure_record_ok [OF run f] .
  have r: "table (sv_catalog ?sv) (op_ID ?f) = Some r" using assms(4) by simp
  from update_record_current [OF ok(1) fok r]
  obtain c' where c': "update_record ?f (or_Revision r) ?sv =
      (Inr ((toRecord ?f)\<lparr>or_Revision := or_Revision r + 1\<rparr>), ?sv\<lparr>sv_catalog := c'\<rparr>)"
    "table c' = (table (sv_catalog ?sv))(op_ID ?f \<mapsto> (toRecord ?f)\<lparr>or_Revision := or_Revision r + 1\<rparr>)"
    by blast
  have "finish_update env (in_now y) run l n ?e FailurePermanent False ?sv =
      (R_Failed run ?f l ?r ?e ?d False, ?sv\<lparr>sv_catalog := c'\<rparr>)"
    using c'(1) f assms(5) by (simp add: finish_update_def Let_def)
  then obtain th' where "svc_step env (Step i y) \<lparr>sy_service = ?sv, sy_threads = (sy_threads s)[i := th]\<rparr> =
      Some \<lparr>sy_service = ?sv\<lparr>sv_catalog := c'\<rparr>, sy_threads = (sy_threads s)[i := th']\<rparr>"
    using svc_run_step [of i "\<lparr>sy_service = ?sv, sy_threads = (sy_threads s)[i := th]\<rparr>" env y] assms(2) th(1)
    by fastforce
  with th(2) c'(2) show ?thesis by (auto simp del: svc_step.simps)
qed

text \<open>One operation, submitted and run alone, under a limit of one.\<close>

definition demo_alone :: "label list" where
  "demo_alone = Start (Call_Run demo_id) None # replicate 7 (Step 1 (at 2))"

lemma demo_alone_run:
  assumes "0 < n"
  shows "svc_run demo_svc (demo_submit @ demo_alone) (system_of (demo_service n)) =
    Some \<lparr>sy_service = demo_sv n demo_running_record [] 2 demo_leases [demo_id \<mapsto> 1],
          sy_threads = [plain None (Done (Returned (Some demo_op) True None)),
            plain None (R_Admit demo_running demo_lease 2 demo_request)]\<rparr>"
proof -
  have at: "in_now (at 2) = 2" by (simp add: at_def)
  have seven: "replicate 7 x = [x, x, x, x, x, x, x]" for x :: label by (simp add: numeral_eq_Suc)
  have "svc_run demo_svc demo_alone \<lparr>sy_service = submitted n,
      sy_threads = [plain None (Done (Returned (Some demo_op) True None))]\<rparr> =
    Some \<lparr>sy_service = demo_sv n demo_running_record [] (Suc 1) demo_leases [demo_id \<mapsto> 1],
          sy_threads = [plain None (Done (Returned (Some demo_op) True None)),
            plain None (R_Admit demo_running demo_lease 2 demo_request)]\<rparr>"
    unfolding demo_alone_def submitted_def seven
    by (simp add: run_start_call run_step [OF _ _ demo_read(1)] run_step [OF _ _ demo_read(2)] got_run
        run_step [OF _ _ step_acquire [OF at]] run_step [OF _ _ step_start [OF at]]
        run_step [OF _ _ step_update] run_step [OF _ _ step_started] run_step [OF _ _ step_register]
        del: svc_run.simps(2))
  then show ?thesis
    by (simp only: svc_run_append demo_submitted [OF assms] option.case) (simp add: numeral_2_eq_2)
qed

theorem run_counts_itself_witness:
  "\<exists>s s' r'. svc_run demo_svc (demo_submit @ demo_alone) (system_of (demo_service 1)) = Some s
     \<and> svc_run demo_svc [Step 1 (at 2), Step 1 (at 2)] s = Some s'
     \<and> table (sv_catalog (sy_service s')) demo_id = Some r' \<and> or_State r' = StateFailed"
proof -
  let ?s = "\<lparr>sy_service = demo_sv 1 demo_running_record [] 2 demo_leases [demo_id \<mapsto> 1],
          sy_threads = [plain None (Done (Returned (Some demo_op) True None)),
            plain None (R_Admit demo_running demo_lease 2 demo_request)]\<rparr>"
  have run: "svc_run demo_svc (demo_submit @ demo_alone) (system_of (demo_service 1)) = Some ?s"
    by (rule demo_alone_run) simp
  have "ran (table (sv_catalog (sy_service ?s))) = {demo_running_record}"
    by (auto simp: table_def demo_catalog_def ran_def)
  then have "{r \<in> ran (table (sv_catalog (sy_service ?s))). active r} = {demo_running_record}"
    by (auto simp: active_def)
  then have one: "li_MaxActiveOperations (sv_admission (sy_service ?s)) =
      int (card {r \<in> ran (table (sv_catalog (sy_service ?s))). active r})"
    by (simp add: demo_limits_simps)
  have start: "1 < length (sy_threads ?s)"
    "th_pc (sy_threads ?s ! 1) = R_Admit demo_running demo_lease 2 demo_request"
    "table (sv_catalog (sy_service ?s)) (op_ID demo_running) = Some demo_running_record"
    "or_Revision demo_running_record = 2"
    by (simp_all add: table_def demo_catalog_def)
  show ?thesis
    using run_counts_itself [OF run [unfolded demo_system] start one, of "at 2" "at 2"] run by auto
qed


section \<open>A start that cannot be recorded\<close>

text \<open>
  When the context of \<open>Run\<close> ends between the update to running and the event that records the
  start, the event is refused and \<open>Run\<close> returns the error, but the record stays running: no worker
  is on it and no later \<open>Run\<close> accepts it (it cannot start from running), so only a cancellation
  ends the operation.
\<close>
theorem unrecorded_start_strands:
  assumes "svc_run env ls (system_of (NewService c None j lm a)) = Some s" "i < length (sy_threads s)"
    "th_pc (sy_threads s ! i) = R_Started run l t n" "th_ctx (sy_threads s ! i) = Some e"
    "table (sv_catalog (sy_service s)) (op_ID run) = Some r" "or_State r = StateRunning"
    "k = length (sy_threads s)"
  shows "\<exists>s'. svc_run env [Step i x, Step i x', Start (Call_Run (op_ID run)) None, Step k y, Step k y'] s = Some s'
    \<and> th_pc (sy_threads s' ! i) = Done (failed (JournalFailed (JournalCtx e)))
    \<and> th_pc (sy_threads s' ! k) = Done (failed (CannotStart StateRunning))
    \<and> sv_catalog (sy_service s') = sv_catalog (sy_service s)"
proof -
  let ?sv = "sy_service s" and ?out = "failed (JournalFailed (JournalCtx e))"
  note ok = reached_pc [OF assms(1,2), unfolded assms(3)]
  have id: "or_ID r = op_ID run" using catalog_okD(2) [OF service_okD(1) [OF ok(1)] assms(5)] .
  obtain rq where rq: "sv_requests ?sv (op_ID run) = Some rq"
    using ok(2) by (auto simp: run_ok_def op_ok_def)
  have "append_event env x (Some e) ev ?sv = (Some (JournalFailed (JournalCtx e)), ?sv)" for ev
    by (cases "sv_journal ?sv") (simp_all add: append_event_def Append_def Memory_Append_def File_Append_def)
  then have "run_started env x (Some e) run l t n ?sv = (R_Release l ?out, ?sv)"
    by (simp add: run_started_def)
  then obtain th where th: "th_pc th = R_Release l ?out"
    "svc_step env (Step i x) s = Some \<lparr>sy_service = ?sv, sy_threads = (sy_threads s)[i := th]\<rparr>"
    using svc_run_step [OF assms(2), of env x] assms(3,4) by fastforce
  let ?sv1 = "snd (run_release l ?out ?sv)"
  have same: "sv_catalog ?sv1 = sv_catalog ?sv" "sv_requests ?sv1 = sv_requests ?sv"
    "run_release l ?out ?sv = (Done ?out, ?sv1)"
    by (simp_all add: run_release_def)
  obtain th1 where th1: "th_pc th1 = Done ?out"
    "svc_step env (Step i x') \<lparr>sy_service = ?sv, sy_threads = (sy_threads s)[i := th]\<rparr> =
      Some \<lparr>sy_service = ?sv1, sy_threads = (sy_threads s)[i := th1]\<rparr>"
    using svc_run_step [of i "\<lparr>sy_service = ?sv, sy_threads = (sy_threads s)[i := th]\<rparr>" env x'] assms(2) th(1) same(3)
    by fastforce
  let ?ths = "(sy_threads s)[i := th1]"
  let ?new = "new_thread (Call_Run (op_ID run)) None"
  have k: "k < length (?ths @ [?new])" "(?ths @ [?new]) ! k = ?new" using assms(7) by (simp_all add: nth_append)
  have "get_step None For_Run (op_ID run) ?sv1 = P_Request For_Run (op_ID run) r"
    using assms(5) by (simp add: get_step_def GetOperation_def table_def same(1))
  then obtain th2 where th2: "th_pc th2 = P_Request For_Run (op_ID run) r" "th_ctx th2 = None"
    "svc_step env (Step k y) \<lparr>sy_service = ?sv1, sy_threads = ?ths @ [?new]\<rparr> =
      Some \<lparr>sy_service = ?sv1, sy_threads = (?ths @ [?new])[k := th2]\<rparr>"
    using svc_run_step [of k "\<lparr>sy_service = ?sv1, sy_threads = ?ths @ [?new]\<rparr>" env y] k
    by (auto simp: new_thread_def)
  have "request_step For_Run (op_ID run) r ?sv1 = Done (failed (CannotStart StateRunning))"
    using rq assms(6)
    by (simp add: request_step_def same(2) got_def CanStart_def startable_def Terminal_def
        terminal_state_def state_defs)
  then obtain th3 where th3: "th_pc th3 = Done (failed (CannotStart StateRunning))"
    "svc_step env (Step k y') \<lparr>sy_service = ?sv1, sy_threads = (?ths @ [?new])[k := th2]\<rparr> =
      Some \<lparr>sy_service = ?sv1, sy_threads = (?ths @ [?new])[k := th3]\<rparr>"
    using svc_run_step [of k "\<lparr>sy_service = ?sv1, sy_threads = (?ths @ [?new])[k := th2]\<rparr>" env y'] k(1) th2(1)
    by auto
  have "svc_run env [Step i x, Step i x', Start (Call_Run (op_ID run)) None, Step k y, Step k y'] s =
      Some \<lparr>sy_service = ?sv1, sy_threads = (?ths @ [?new])[k := th3]\<rparr>"
    using th(2) th1(2) th2(3) th3(2) by (simp del: svc_step.simps(2))
  moreover have "(?ths @ [?new])[k := th3] ! i = th1" "(?ths @ [?new])[k := th3] ! k = th3"
    using assms(2,7) k(1) by (simp_all add: nth_append)
  ultimately show ?thesis using th1(1) th3(1) same(1) by simp
qed

text \<open>The caller of a run gives up after the update.\<close>

definition demo_given_up :: "label list" where
  "demo_given_up =
     [Start (Call_Run demo_id) None, Step 1 (at 2), Step 1 (at 2), Step 1 (at 2), Step 1 (at 2),
      Step 1 (at 2), CancelCaller 1 DeadlineExceeded]"

theorem unrecorded_start_strands_witness:
  "\<exists>s s'. svc_run demo_svc (demo_submit @ demo_given_up) (system_of (demo_service 2)) = Some s
     \<and> svc_run demo_svc [Step 1 (at 2), Step 1 (at 2), Start (Call_Run demo_id) None, Step 2 (at 9), Step 2 (at 9)] s
         = Some s'
     \<and> table (sv_catalog (sy_service s')) demo_id = Some demo_running_record
     \<and> th_pc (sy_threads s' ! 2) = Done (failed (CannotStart StateRunning))"
proof -
  have at: "in_now (at 2) = 2" by (simp add: at_def)
  let ?th = "(plain (Some DeadlineExceeded) (R_Started demo_running demo_lease 2 2))\<lparr>th_ctx := Some DeadlineExceeded\<rparr>"
  let ?s = "\<lparr>sy_service = demo_sv 2 demo_running_record [] (Suc 0) demo_leases Map.empty,
    sy_threads = [plain None (Done (Returned (Some demo_op) True None)), ?th]\<rparr>"
  have cancel: "svc_run env [CancelCaller (Suc 0) DeadlineExceeded]
      \<lparr>sy_service = sv, sy_threads = [th, plain None (R_Started demo_running demo_lease 2 2)]\<rparr> =
    Some \<lparr>sy_service = sv, sy_threads = [th, ?th]\<rparr>" for env sv th
    by (simp add: cancel_worker_def first_error_def cancel_pc_def)
  have "svc_run demo_svc demo_given_up \<lparr>sy_service = submitted 2,
      sy_threads = [plain None (Done (Returned (Some demo_op) True None))]\<rparr> = Some ?s"
    unfolding demo_given_up_def submitted_def
    by (simp add: run_start_call run_step [OF _ _ demo_read(1)] run_step [OF _ _ demo_read(2)] got_run
        run_step [OF _ _ step_acquire [OF at]] run_step [OF _ _ step_start [OF at]]
        run_step [OF _ _ step_update] cancel del: svc_run.simps(2))
  then have run: "svc_run demo_svc (demo_submit @ demo_given_up) (system_of (demo_service 2)) = Some ?s"
    by (simp only: svc_run_append demo_submitted [of 2, simplified] option.case)
  have start: "1 < length (sy_threads ?s)" "th_pc (sy_threads ?s ! 1) = R_Started demo_running demo_lease 2 2"
    "th_ctx (sy_threads ?s ! 1) = Some DeadlineExceeded"
    "table (sv_catalog (sy_service ?s)) (op_ID demo_running) = Some demo_running_record"
    "or_State demo_running_record = StateRunning" "2 = length (sy_threads ?s)"
    by (simp_all add: table_def demo_catalog_def)
  from unrecorded_start_strands [OF run [unfolded demo_system] start, of "at 2" "at 2" "at 9" "at 9"]
  obtain s' where s': "svc_run demo_svc [Step 1 (at 2), Step 1 (at 2), Start (Call_Run demo_id) None, Step 2 (at 9),
      Step 2 (at 9)] ?s = Some s'" "th_pc (sy_threads s' ! 2) = Done (failed (CannotStart StateRunning))"
    "sv_catalog (sy_service s') = sv_catalog (sy_service ?s)" by auto
  show ?thesis
    using run s'(1,2) start(4) by (intro exI [of _ ?s] exI [of _ s']) (simp add: s'(3))
qed

end
