(* ===== verification/ServiceStates.thy ===== *)
theory ServiceStates
  imports Races
begin

text \<open>
  The state machine of \<open>Operation.transition\<close> and the records of the catalog. A call reads an operation,
  decides on what it read, and writes later. \<open>knows\<close> says that what it read is still true; it stays
  so as long as nobody writes the record in between, and then the records move as the state machine
  says. The theory \<open>Races\<close> shows what happens otherwise.
\<close>

section \<open>What a thread knows\<close>

text \<open>The counters of a thread that has read operation \<open>i\<close> and may still start or cancel it.\<close>

definition engaged :: "string \<Rightarrow> pc \<Rightarrow> bool" where
  "engaged i c =
     (case c of
        P_Request k j r \<Rightarrow> j = i
      | R_Acquire op \<Rightarrow> op_ID op = i
      | R_Start op l \<Rightarrow> op_ID op = i
      | R_Update op l t n \<Rightarrow> op_ID op = i
      | C_Read op \<Rightarrow> op_ID op = i
      | C_Update op q t n \<Rightarrow> op_ID op = i
      | _ \<Rightarrow> False)"

definition as_read :: "service \<Rightarrow> operation \<Rightarrow> bool" where
  "as_read sv op \<longleftrightarrow>
     (\<exists>r. table (sv_catalog sv) (op_ID op) = Some r
        \<and> or_State r = op_State op \<and> or_Attempt r = op_Attempt op)"

definition may_start :: "service \<Rightarrow> operation \<Rightarrow> bool" where
  "may_start sv run \<longleftrightarrow>
     (\<exists>r. table (sv_catalog sv) (op_ID run) = Some r
        \<and> allowed (or_State r) StateRunning \<and> op_Attempt run = or_Attempt r + 1)"

definition may_cancel :: "service \<Rightarrow> operation \<Rightarrow> operation \<Rightarrow> bool" where
  "may_cancel sv op q \<longleftrightarrow>
     (\<exists>r. table (sv_catalog sv) (op_ID op) = Some r
        \<and> allowed (or_State r) StateCancelled \<and> op_Attempt q = or_Attempt r)"

definition knows :: "service \<Rightarrow> pc \<Rightarrow> bool" where
  "knows sv c =
     (case c of
        P_Request k j r \<Rightarrow> table (sv_catalog sv) j = Some r
      | R_Acquire op \<Rightarrow> as_read sv op
      | R_Start op l \<Rightarrow> as_read sv op
      | R_Update run l t n \<Rightarrow> may_start sv run
      | C_Read op \<Rightarrow> as_read sv op
      | C_Update op q t n \<Rightarrow> may_cancel sv op q
      | _ \<Rightarrow> True)"

lemma engaged_simps [simp]:
  "engaged i (P_Request k j r) \<longleftrightarrow> j = i" "engaged i (R_Acquire op) \<longleftrightarrow> op_ID op = i"
  "engaged i (R_Start op l) \<longleftrightarrow> op_ID op = i" "engaged i (R_Update op l t n) \<longleftrightarrow> op_ID op = i"
  "engaged i (C_Read op) \<longleftrightarrow> op_ID op = i" "engaged i (C_Update op q t n) \<longleftrightarrow> op_ID op = i"
  by (simp_all add: engaged_def)

lemma knows_simps [simp]:
  "knows sv (P_Request k j r) \<longleftrightarrow> table (sv_catalog sv) j = Some r"
  "knows sv (R_Acquire op) \<longleftrightarrow> as_read sv op" "knows sv (R_Start op l) \<longleftrightarrow> as_read sv op"
  "knows sv (R_Update op l t n) \<longleftrightarrow> may_start sv op" "knows sv (C_Read op) \<longleftrightarrow> as_read sv op"
  "knows sv (C_Update op q t n) \<longleftrightarrow> may_cancel sv op q"
  by (simp_all add: knows_def)

lemma not_engaged_simps [simp]:
  "\<not> engaged i (P_Get k j)" "\<not> engaged i (Done out)" "\<not> engaged i (R_Release l out)"
  "\<not> engaged i (R_Unregister l j out)" "\<not> engaged i (R_Started op l t n)" "\<not> engaged i (R_Register op l n)"
  "\<not> engaged i (R_Admit op l n rq)" "\<not> engaged i (R_Load op l n rq d)"
  "\<not> engaged i (R_Begin op l n rq d cx)" "\<not> engaged i (R_Merge op l n rq g)"
  "\<not> engaged i (R_Complete op l n rq res)" "\<not> engaged i (R_Artifact op l r rq res)"
  "\<not> engaged i (R_Completed op l r rq res)" "\<not> engaged i (R_Fail op l n e cls bg)"
  "\<not> engaged i (R_Failed op f l r e dc bg)" "\<not> engaged i (C_Signal op r t)"
  "\<not> engaged i (C_Append op r t)" "\<not> engaged i (S_Admit rq)" "\<not> engaged i (S_Number rq)"
  "\<not> engaged i (S_Create op rq)" "\<not> engaged i (S_Store op rq n)" "\<not> engaged i (S_Append op n)"
  "\<not> engaged i (S_Fail op n e)" "\<not> engaged i (W_Delay t)" "\<not> engaged i (W_Select t)"
  "\<not> engaged i (Q_List limit)" "\<not> engaged i Q_Next" "\<not> engaged i Q_Finished"
  by (simp_all add: engaged_def)

lemma engaged_first [simp]: "\<not> engaged i (first_pc k)"
  by (cases k) simp_all

lemma engaged_cancel [simp]: "engaged i (cancel_pc e c) \<longleftrightarrow> engaged i c"
  by (cases c) (simp_all add: cancel_pc_def)

lemma knows_cancel [simp]: "knows sv (cancel_pc e c) = knows sv c"
  by (cases c) (simp_all add: cancel_pc_def knows_def)

lemma knows_same:
  "table (sv_catalog sv') i = table (sv_catalog sv) i \<Longrightarrow> engaged i c \<Longrightarrow> knows sv' c = knows sv c"
  by (cases c) (auto simp: as_read_def may_start_def may_cancel_def)


section \<open>A section of a call\<close>

lemma allowed_start: "startable s \<Longrightarrow> allowed s StateRunning"
  by (auto simp: startable_def allowed_def state_defs)

lemma got_read:
  assumes "engaged i (got k op)" "as_read sv op"
  shows "knows sv (got k op)"
  using assms by (auto simp: got_def split: caller.splits option.splits if_splits)

text \<open>A call that engages with an operation has just read it, or knew it before.\<close>

lemma call_step_knows:
  assumes c: "pc_ok env sv c" "engaged i c \<Longrightarrow> knows sv c"
    and s: "call_step env inp self cx wcx c sv = Some ((c', sv'), sig)"
    and e: "engaged i c'"
  shows "knows sv' c'"
proof (cases c)
  case (P_Get k j)
  with s e show ?thesis
    by (auto simp: get_step_def GetOperation_def table_def split: option.splits sum.splits)
next
  case (P_Request k j r)
  have sv: "sv' = sv" using s P_Request by simp
  obtain rq :: request where rq: "c' = got k (fromRecord r (rq_Manifest rq))"
    using s P_Request e by (auto simp: request_step_def split: option.splits)
  have "j = i"
    using e rq c(1) P_Request by (auto simp: got_def split: caller.splits option.splits if_splits)
  then have "as_read sv (fromRecord r (rq_Manifest rq))"
    using c P_Request by (auto simp: as_read_def)
  with got_read [of i k _ sv] e show ?thesis by (simp add: rq sv)
next
  case (R_Acquire op)
  with s e have "op_ID op = i" by (auto simp: run_acquire_def split: prod.splits sum.splits)
  with c(2) R_Acquire have "as_read sv op" by simp
  with R_Acquire s e show ?thesis
    by (auto simp: run_acquire_def as_read_def split: prod.splits sum.splits)
next
  case (R_Start op l)
  with s e have "op_ID op = i"
    by (auto simp: run_start_def transition_def Let_def split: sum.splits if_splits)
  with c(2) R_Start have "as_read sv op" by simp
  with R_Start s e show ?thesis
    by (auto simp: run_start_def as_read_def may_start_def transition_def Let_def
        split: prod.splits sum.splits if_splits)
next
  case (C_Read op)
  with s e have "op_ID op = i"
    by (auto simp: cancel_read_def transition_def split: sum.splits if_splits)
  with c(2) C_Read have "as_read sv op" by simp
  with C_Read s e show ?thesis
    by (auto simp: cancel_read_def as_read_def may_cancel_def transition_def split: sum.splits if_splits)
qed (use s e in \<open>auto simp: submit_admit_def submit_number_def submit_create_def submit_append_def run_update_def
      run_started_def run_register_def run_admit_def run_begin_def run_merged_def merge_failed_def
      run_complete_def run_artifact_def run_completed_def finish_update_def finish_append_def
      run_unregister_def run_release_def cancel_update_def cancel_append_def wait_delay_def
      wait_select_def Let_def
      split: option.splits sum.splits prod.splits if_splits main_pc.splits\<close>)

text \<open>What a section writes is a transition of the state machine, when it knows what it writes over.\<close>

definition follows :: "operation_record \<Rightarrow> operation_record \<Rightarrow> bool" where
  "follows r r' \<longleftrightarrow>
     r' = r
     \<or> allowed (or_State r) (or_State r')
       \<and> or_Attempt r' = or_Attempt r + (if or_State r' = StateRunning then 1 else 0)"

lemma writing_follows:
  assumes c: "pc_ok env sv c" "claim_ok sv c" "engaged (op_ID op) c \<Longrightarrow> knows sv c"
    and w: "writing env inp sv c = Some (op, n)"
    and r: "table (sv_catalog sv) (op_ID op) = Some r" "or_Revision r = n"
  shows "follows r ((toRecord op)\<lparr>or_Revision := n + 1\<rparr>)"
proof -
  have held: "or_State r = st \<and> or_Attempt r = op_Attempt op" if "claim c = Some (claim_of st op n)" for st
    using c(2) that r by (auto simp: claim_ok_def claim_of_def)
  show ?thesis
  proof (cases c)
    case (S_Fail op' n' e)
    with w held [of StateAccepted] c(1) show ?thesis by (simp add: follows_def allowed_def state_defs)
  next
    case (R_Update run l t n')
    with w c r show ?thesis by (simp add: follows_def may_start_def run_ok_def)
  next
    case (R_Complete op' l n' rq res)
    with w held [of StateRunning] c(1) show ?thesis
      by (simp add: follows_def allowed_def state_defs done_ok_def)
  next
    case (C_Update op' q t n')
    with w c r have "may_cancel sv op' op" "op_ID op = op_ID op'" "op_State op = StateCancelled" by auto
    with r(1) have "allowed (or_State r) (op_State op)" "op_Attempt op = or_Attempt r"
      by (simp_all add: may_cancel_def)
    with \<open>op_State op = StateCancelled\<close> show ?thesis by (simp add: follows_def state_defs)
  next
    case (R_Fail run l n' e cls bg)
    let ?d = "Retry (sv_admission sv) (op_Attempt run) cls"
    have f: "failure_record env (in_now inp) run e ?d = Inr op" "n' = n"
      using w R_Fail by (auto simp: writing_def split: sum.splits)
    note g = failure_record_Inr [OF f(1)]
    have "claim c = Some (claim_of StateRunning op n)" using R_Fail f g by (simp add: claim_of_def)
    with held [of StateRunning] g(1) show ?thesis by (auto simp: follows_def allowed_def state_defs)
  qed (use w in \<open>simp_all add: writing_def\<close>)
qed

lemma call_step_follows:
  assumes "service_ok env sv" "pc_ok env sv c" "claim_ok sv c" "engaged i c \<Longrightarrow> knows sv c"
    "call_step env inp self cx wcx c sv = Some ((c', sv'), sig)"
    "table (sv_catalog sv) i = Some r" "table (sv_catalog sv') i = Some r'"
  shows "follows r r'"
  using call_step_effect [OF assms(1,2,5)]
proof (elim disjE)
  assume "quiet c sv c' sv'"
  with assms(6,7) show ?thesis by (simp add: quiet_def follows_def)
next
  assume "created c sv c' sv'"
  with assms(6,7) show ?thesis by (auto simp: created_def follows_def split: if_splits)
next
  assume "written env inp c sv c' sv'"
  then obtain op n s where w: "writing env inp sv c = Some (op, n)" "table (sv_catalog sv) (op_ID op) = Some s"
    "or_Revision s = n" "table (sv_catalog sv') = (table (sv_catalog sv))(op_ID op \<mapsto> (toRecord op)\<lparr>or_Revision := n + 1\<rparr>)"
    unfolding written_def by blast
  show ?thesis
  proof (cases "op_ID op = i")
    case True
    then show ?thesis
      using writing_follows [OF assms(2,3) _ w(1-3)] assms(4,6,7) w(2,4) by simp
  next
    case False
    with w(4) assms(6,7) show ?thesis by (simp add: follows_def)
  qed
qed


section \<open>Schedules\<close>

text \<open>
  A step disturbs operation \<open>i\<close> when it changes its record while another thread is engaged with it.
\<close>

definition disturbs :: "string \<Rightarrow> label \<Rightarrow> system \<Rightarrow> system \<Rightarrow> bool" where
  "disturbs i l s s' \<longleftrightarrow>
     table (sv_catalog (sy_service s')) i \<noteq> table (sv_catalog (sy_service s)) i
     \<and> (\<exists>k<length (sy_threads s). (\<forall>inp. l \<noteq> Step k inp) \<and> engaged i (th_pc (sy_threads s ! k)))"

fun undisturbed :: "svc_env \<Rightarrow> string \<Rightarrow> label list \<Rightarrow> system \<Rightarrow> bool" where
  "undisturbed env i [] s \<longleftrightarrow> True"
| "undisturbed env i (l # ls) s \<longleftrightarrow>
     (case svc_step env l s of
        None \<Rightarrow> False
      | Some s' \<Rightarrow> \<not> disturbs i l s s' \<and> undisturbed env i ls s')"

text \<open>The threads engaged with \<open>i\<close> know what they read.\<close>

definition all_know :: "string \<Rightarrow> service \<Rightarrow> thread list \<Rightarrow> bool" where
  "all_know i sv ths \<longleftrightarrow> (\<forall>th\<in>set ths. engaged i (th_pc th) \<longrightarrow> knows sv (th_pc th))"

lemma all_knowD: "all_know i sv ths \<Longrightarrow> k < length ths \<Longrightarrow> engaged i (th_pc (ths ! k)) \<Longrightarrow> knows sv (th_pc (ths ! k))"
  by (simp add: all_know_def)

lemma all_know_update:
  assumes "all_know i sv ths" "engaged i (th_pc th) \<Longrightarrow> knows sv (th_pc th)"
  shows "all_know i sv (ths[k := th])"
  using assms set_update_subset_insert [of ths k th] by (auto simp: all_know_def)

lemma all_know_signal: "all_know i sv ths \<Longrightarrow> all_know i sv (signal sig ths)"
  by (auto simp: signal_def cancel_worker_def intro!: all_know_update dest: all_knowD split: option.split)

lemma ready_step_engaged: "ready_step th sv = Some th' \<Longrightarrow> \<not> engaged i (th_pc th')"
  by (auto simp: ready_step_def split: pc.splits list.splits if_splits)

lemma thread_step_knows:
  assumes ok: "service_ok env sv" "threads_ok env sv ths" "claims_ok sv ths" "all_know i sv ths" and k: "k < length ths"
    and s: "thread_step env inp k (ths ! k) sv = Some (th, sv', sig)"
    and u: "table (sv_catalog sv') i = table (sv_catalog sv) i \<or> (\<forall>j<length ths. j \<noteq> k \<longrightarrow> \<not> engaged i (th_pc (ths ! j)))"
  shows "all_know i sv' (signal sig (ths[k := th]))
    \<and> (\<forall>r r'. table (sv_catalog sv) i = Some r \<longrightarrow> table (sv_catalog sv') i = Some r' \<longrightarrow> follows r r')"
proof (cases "call_step env inp k (th_ctx (ths ! k)) (th_wctx (ths ! k)) (th_pc (ths ! k)) sv")
  case None
  with s have r: "ready_step (ths ! k) sv = Some th" "sv' = sv" by (auto simp: thread_step_def)
  then show ?thesis
    using ok(4) ready_step_engaged [OF r(1)] by (auto simp: follows_def intro!: all_know_signal all_know_update)
next
  case (Some r)
  then obtain c where c: "call_step env inp k (th_ctx (ths ! k)) (th_wctx (ths ! k)) (th_pc (ths ! k)) sv
      = Some ((c, sv'), sig)" "th_pc th = c"
    using s by (auto simp: thread_step_def split: prod.splits)
  note pc = threads_okD [OF ok(2) k]
  have cl: "claim_ok sv (th_pc (ths ! k))" using ok(3) k by (simp add: claims_ok_def)
  have kn: "engaged i (th_pc (ths ! k)) \<Longrightarrow> knows sv (th_pc (ths ! k))" using all_knowD [OF ok(4) k] .
  have new: "knows sv' c" if "engaged i c" using call_step_knows [OF pc kn c(1) that] .
  have "all_know i sv' (ths[k := th])"
    unfolding all_know_def
  proof (intro ballI impI)
    fix x assume x: "x \<in> set (ths[k := th])" "engaged i (th_pc x)"
    then obtain j where j: "j < length ths" "x = (if j = k then th else ths ! j)"
      by (auto simp: in_set_conv_nth nth_list_update split: if_splits)
    show "knows sv' (th_pc x)"
    proof (cases "j = k")
      case False
      then have "engaged i (th_pc (ths ! j))" "x = ths ! j" using x(2) j(2) by auto
      then show ?thesis using u False j(1) all_knowD [OF ok(4) j(1)] knows_same [of sv' i sv] by blast
    qed (use j(2) new x(2) c(2) in auto)
  qed
  moreover have "follows r r'"
    if "table (sv_catalog sv) i = Some r" "table (sv_catalog sv') i = Some r'" for r r'
    using call_step_follows [OF ok(1) pc cl kn c(1) that] .
  ultimately show ?thesis by (auto intro: all_know_signal)
qed

lemma svc_step_knows:
  assumes ok: "system_ok env s" "claims_ok (sy_service s) (sy_threads s)" "all_know i (sy_service s) (sy_threads s)"
    and s: "svc_step env l s = Some s'" and u: "\<not> disturbs i l s s'"
  shows "all_know i (sy_service s') (sy_threads s')
    \<and> (\<forall>r r'. table (sv_catalog (sy_service s)) i = Some r \<longrightarrow>
         table (sv_catalog (sy_service s')) i = Some r' \<longrightarrow> follows r r')"
proof (cases l)
  case (Start cl cx)
  with s ok(3) show ?thesis by (auto simp: all_know_def new_thread_def follows_def)
next
  case (Step k inp)
  then obtain th sv sig where k: "k < length (sy_threads s)"
    "thread_step env inp k (sy_threads s ! k) (sy_service s) = Some (th, sv, sig)"
    "s' = s\<lparr>sy_service := sv, sy_threads := signal sig ((sy_threads s)[k := th])\<rparr>"
    using s by (auto split: if_splits option.splits)
  with ok u Step show ?thesis
    using thread_step_knows [of env "sy_service s" "sy_threads s" i k inp th sv sig]
    by (auto simp: system_ok_def disturbs_def)
next
  case (MergeStep k m)
  then obtain th where k: "k < length (sy_threads s)" "merge_thread env m (sy_threads s ! k) = Some th"
    "s' = s\<lparr>sy_threads := (sy_threads s)[k := th]\<rparr>"
    using s by (auto split: if_splits)
  then have "\<not> engaged i (th_pc th)" by (auto simp: merge_thread_def split: pc.splits merge_label.splits)
  with k(3) ok(3) show ?thesis by (auto simp: follows_def intro!: all_know_update)
next
  case (CancelCaller k e)
  then have k: "k < length (sy_threads s)" "s' = s\<lparr>sy_threads := (sy_threads s)[k :=
      (cancel_worker e (sy_threads s ! k))\<lparr>th_ctx := first_error e (th_ctx (sy_threads s ! k))\<rparr>]\<rparr>"
    using s by (auto split: if_splits)
  with ok(3) all_knowD [OF ok(3) k(1)] show ?thesis
    by (auto simp: cancel_worker_def follows_def intro!: all_know_update)
next
  case (OtherLease op)
  then have s': "sv_catalog (sy_service s') = sv_catalog (sy_service s)" "sy_threads s' = sy_threads s"
    using s by auto
  have "knows (sy_service s') c = knows (sy_service s) c" if "engaged i c" for c
    by (rule knows_same [OF _ that]) (simp add: s'(1))
  with ok(3) s' show ?thesis by (auto simp: all_know_def follows_def)
qed

text \<open>A whole schedule.\<close>

lemma follows_terminal: "follows r r' \<Longrightarrow> terminal_state (or_State r) \<Longrightarrow> r' = r"
  by (auto simp: follows_def allowed_def terminal_state_def state_defs)

lemma follows_attempts: "follows r r' \<Longrightarrow> or_Attempt r \<le> or_Attempt r'"
  by (auto simp: follows_def split: if_splits)

lemma undisturbed_run:
  assumes "svc_run env ls s = Some s'" "undisturbed env i ls s" "system_ok env s"
    "claims_ok (sy_service s) (sy_threads s)" "all_know i (sy_service s) (sy_threads s)"
    "revisions_below k (sy_service s)" "k + length ls < 2 ^ 64" "1 \<le> k"
  shows "all_know i (sy_service s') (sy_threads s')
    \<and> (\<forall>r. table (sv_catalog (sy_service s)) i = Some r \<longrightarrow>
         (\<exists>r'. table (sv_catalog (sy_service s')) i = Some r' \<and> rtranclp follows r r'))"
  using assms
proof (induction ls arbitrary: s k)
  case (Cons l ls)
  then obtain s1 where s1: "svc_step env l s = Some s1" "svc_run env ls s1 = Some s'"
    "\<not> disturbs i l s s1" "undisturbed env i ls s1"
    by (auto split: option.splits)
  have k: "Suc k < 2 ^ 64" using Cons.prems(7) by simp
  note mv = svc_step_moves [OF Cons.prems(3,4,6) k Cons.prems(8) s1(1)]
  note kn = svc_step_knows [OF Cons.prems(3-5) s1(1,3)]
  have IH: "all_know i (sy_service s') (sy_threads s')
    \<and> (\<forall>r. table (sv_catalog (sy_service s1)) i = Some r \<longrightarrow>
         (\<exists>r'. table (sv_catalog (sy_service s')) i = Some r' \<and> rtranclp follows r r'))"
    using Cons.IH [OF s1(2,4) system_ok_step [OF Cons.prems(3) s1(1)], of "Suc k"] mv kn Cons.prems(7)
    by simp
  moreover have "\<exists>r'. table (sv_catalog (sy_service s')) i = Some r' \<and> rtranclp follows r r'"
    if r: "table (sv_catalog (sy_service s)) i = Some r" for r
  proof -
    obtain r1 where r1: "table (sv_catalog (sy_service s1)) i = Some r1"
      using mv r by (auto simp: all_moved_def)
    with kn r have "follows r r1" by blast
    with IH r1 show ?thesis by (meson converse_rtranclp_into_rtranclp)
  qed
  ultimately show ?case by blast
qed auto

lemma undisturbed_append:
  "undisturbed env i (ls @ ls') s \<longleftrightarrow>
     undisturbed env i ls s \<and> (\<forall>s'. svc_run env ls s = Some s' \<longrightarrow> undisturbed env i ls' s')"
  by (induction ls arbitrary: s) (auto split: option.split)

text \<open>Steps of one thread, while no other is engaged with the operation, disturb nobody.\<close>

definition solo :: "nat \<Rightarrow> label \<Rightarrow> bool" where
  "solo k l \<longleftrightarrow> (case l of Step j inp \<Rightarrow> j = k | Start cl cx \<Rightarrow> False | _ \<Rightarrow> True)"

definition others_away :: "string \<Rightarrow> nat \<Rightarrow> thread list \<Rightarrow> bool" where
  "others_away i k ths \<longleftrightarrow> (\<forall>j<length ths. j \<noteq> k \<longrightarrow> \<not> engaged i (th_pc (ths ! j)))"

lemma others_away_update:
  "others_away i k ths \<Longrightarrow> j = k \<or> \<not> engaged i (th_pc th) \<Longrightarrow> others_away i k (ths[j := th])"
  by (cases "j < length ths") (auto simp: others_away_def nth_list_update)

lemma others_away_cancel:
  "others_away i k ths \<Longrightarrow> j < length ths \<Longrightarrow> th_pc th = cancel_pc e (th_pc (ths ! j)) \<Longrightarrow>
   others_away i k (ths[j := th])"
  by (cases "j = k") (auto simp: others_away_def nth_list_update)

lemma others_away_signal: "others_away i k ths \<Longrightarrow> others_away i k (signal sig ths)"
  by (auto simp: signal_def cancel_worker_def intro: others_away_cancel split: option.split)

lemma solo_undisturbed:
  "svc_run env ls s = Some s' \<Longrightarrow> \<forall>l\<in>set ls. solo k l \<Longrightarrow> others_away i k (sy_threads s) \<Longrightarrow>
   undisturbed env i ls s"
proof (induction ls arbitrary: s)
  case (Cons l ls)
  then obtain s1 where s1: "svc_step env l s = Some s1" "svc_run env ls s1 = Some s'"
    by (auto split: option.splits)
  have "\<not> disturbs i l s s1 \<and> others_away i k (sy_threads s1)"
  proof (cases l)
    case (Step j inp)
    then have "j = k" using Cons.prems(2) by (simp add: solo_def)
    with s1(1) Step Cons.prems(3) show ?thesis
      by (auto simp: disturbs_def others_away_def [symmetric] intro!: others_away_signal others_away_update
          split: if_splits option.splits) (auto simp: others_away_def)
  next
    case (MergeStep j m)
    with s1(1) Cons.prems(3) show ?thesis
      by (auto simp: disturbs_def merge_thread_def intro!: others_away_update
          split: if_splits pc.splits merge_label.splits)
  next
    case (CancelCaller j e)
    with s1(1) Cons.prems(3) show ?thesis
      by (auto simp: disturbs_def cancel_worker_def intro!: others_away_cancel split: if_splits)
  qed (use s1(1) Cons.prems(2,3) in \<open>auto simp: disturbs_def solo_def\<close>)
  with Cons.IH [OF s1(2)] Cons.prems(2) s1(1) show ?case by simp
qed simp


section \<open>The state machine\<close>

text \<open>
  C14: As long as no record of operation \<open>i\<close> is changed between the reading and the writing of another
  call, the record moves exactly as \<open>Operation.transition\<close> allows: each change is a transition of the
  state machine, the attempts count the starts, and a completed, failed or cancelled operation
  stays as it is for good. This is so for all calls, their workers, cancellations and failures
  otherwise; what stale reads do is in the theory \<open>Races\<close>.
\<close>
theorem undisturbed_states_follow:
  assumes "svc_run env ls (system_of (NewService c None j lm a)) = Some s" "svc_run env ls' s = Some s'"
    "undisturbed env i (ls @ ls') (system_of (NewService c None j lm a))"
    "length ls + length ls' < 2 ^ 64 - 1" "table (sv_catalog (sy_service s)) i = Some r"
  shows "\<exists>r'. table (sv_catalog (sy_service s')) i = Some r'
    \<and> rtranclp follows r r' \<and> or_Attempt r \<le> or_Attempt r'
    \<and> (terminal_state (or_State r) \<longrightarrow> r' = r)"
proof -
  let ?s0 = "system_of (NewService c None j lm a)"
  have k: "1 + length ls < 2 ^ 64" "1 + length ls + length ls' < 2 ^ 64" using assms(4) by simp_all
  have u: "undisturbed env i ls ?s0" "undisturbed env i ls' s"
    using assms(1,3) by (simp_all add: undisturbed_append)
  have "all_know i (sy_service ?s0) (sy_threads ?s0)" by (simp add: all_know_def system_of_def)
  then have kn: "all_know i (sy_service s) (sy_threads s)"
    using undisturbed_run [OF assms(1) u(1) system_ok_start start_moves(1) _ start_moves(2) k(1)] by simp
  have mv: "claims_ok (sy_service s) (sy_threads s)" "revisions_below (1 + length ls) (sy_service s)"
    using svc_run_moves [OF assms(1) system_ok_start start_moves k(1)] by simp_all
  obtain r' where r': "table (sv_catalog (sy_service s')) i = Some r'" "rtranclp follows r r'"
    using undisturbed_run [OF assms(2) u(2) reached_ok [OF assms(1)] mv(1) kn mv(2) k(2)] assms(5) by auto
  have "r' = r" if "terminal_state (or_State r)"
    using r'(2) that by (induction rule: rtranclp_induct) (auto dest: follows_terminal)
  moreover have "or_Attempt r \<le> or_Attempt r'"
    using r'(2) by (induction rule: rtranclp_induct) (auto dest: follows_attempts)
  ultimately show ?thesis using r' by auto
qed

theorem undisturbed_states_follow_witness:
  "\<exists>s'. svc_run demo_svc (demo_submit @ demo_alone) (system_of (demo_service 2)) = Some s'
     \<and> undisturbed demo_svc demo_id (demo_submit @ demo_alone) (system_of (demo_service 2))
     \<and> (\<exists>r'. table (sv_catalog (sy_service s')) demo_id = Some r'
          \<and> rtranclp follows demo_record r')"
proof -
  let ?start = "system_of (demo_service 2)" and ?th = "plain None (Done (Returned (Some demo_op) True None))"
  let ?s = "\<lparr>sy_service = submitted 2, sy_threads = [?th]\<rparr>"
  let ?calls = "?s\<lparr>sy_threads := [?th, new_thread (Call_Run demo_id) None]\<rparr>"
  let ?steps = "replicate 7 (Step 1 (at 2))"
  have submit: "svc_run demo_svc demo_submit ?start = Some ?s" by (rule demo_submitted) simp
  obtain s' where s': "svc_run demo_svc demo_alone ?s = Some s'"
    using demo_alone_run [of 2] submit by (auto simp: svc_run_append)
  have "svc_run demo_svc [Step 0 (at 1), Step 0 (at 1), Step 0 (at 1), Step 0 (at 1), Step 0 (at 1)]
      (?start\<lparr>sy_threads := [new_thread (Call_Submit demo_request) None]\<rparr>) = Some ?s"
    using submit by (simp add: demo_submit_def system_of_def del: svc_step.simps(2))
  then have "undisturbed demo_svc demo_id [Step 0 (at 1), Step 0 (at 1), Step 0 (at 1), Step 0 (at 1), Step 0 (at 1)]
      (?start\<lparr>sy_threads := [new_thread (Call_Submit demo_request) None]\<rparr>)"
    by (rule solo_undisturbed [of _ _ _ _ 0]) (simp_all add: solo_def others_away_def)
  then have u1: "undisturbed demo_svc demo_id demo_submit ?start"
    by (simp add: demo_submit_def system_of_def disturbs_def del: svc_step.simps(2))
  have "svc_run demo_svc ?steps ?calls = Some s'"
    using s' by (simp add: demo_alone_def del: svc_step.simps(2))
  then have "undisturbed demo_svc demo_id ?steps ?calls"
    by (rule solo_undisturbed [of _ _ _ _ 1]) (auto simp: solo_def others_away_def less_Suc_eq)
  then have "undisturbed demo_svc demo_id demo_alone ?s"
    by (simp add: demo_alone_def disturbs_def del: svc_step.simps(2))
  with u1 submit have u: "undisturbed demo_svc demo_id (demo_submit @ demo_alone) ?start"
    by (simp add: undisturbed_append)
  have r: "table (sv_catalog (sy_service ?s)) demo_id = Some demo_record"
    by (simp add: submitted_def table_def demo_catalog_def)
  have "length demo_submit + length demo_alone < 2 ^ 64 - 1" by (simp add: demo_submit_def demo_alone_def)
  from undisturbed_states_follow [OF submit [unfolded demo_system] s' u [unfolded demo_system] this r] submit s' u
  show ?thesis by (intro exI [of _ s']) (auto simp: svc_run_append)
qed

end
