(* ===== verification/Calls.thy ===== *)
theory Calls
  imports Races
begin

text \<open>
  A call that runs alone: its sections in a row, while the other threads pause. What the
  reading calls return then, and what a submission under a key that is known already does. The
  control plane (\<open>Control\<close>) turns these outcomes into responses.
\<close>

section \<open>Sections in a row\<close>

fun alone :: "svc_env \<Rightarrow> step_input \<Rightarrow> nat \<Rightarrow> nat \<Rightarrow> pc \<times> service \<Rightarrow> (pc \<times> service) option" where
  "alone env x k 0 p = Some p"
| "alone env x k (Suc m) (c, sv) =
     (case call_step env x k None None c sv of
        Some (p, None) \<Rightarrow> alone env x k m p
      | _ \<Rightarrow> None)"

lemma alone_steps:
  assumes "alone env x k m (th_pc (ths ! k), sv) = Some (c', sv')" "k < length ths"
    "th_ctx (ths ! k) = None" "th_wctx (ths ! k) = None"
  shows "\<exists>th. svc_run env (replicate m (Step k x)) \<lparr>sy_service = sv, sy_threads = ths\<rparr> =
      Some \<lparr>sy_service = sv', sy_threads = ths[k := th]\<rparr> \<and> th_pc th = c'"
  using assms
proof (induction m arbitrary: ths sv)
  case 0
  then show ?case by (intro exI [of _ "ths ! k"]) simp
next
  case (Suc m)
  obtain c1 sv1 where c: "call_step env x k None None (th_pc (ths ! k)) sv = Some ((c1, sv1), None)"
    "alone env x k m (c1, sv1) = Some (c', sv')"
    using Suc.prems(1) by (auto split: option.splits prod.splits)
  let ?th = "(ths ! k)\<lparr>th_pc := c1, th_wctx := None\<rparr>"
  have "thread_step env x k (ths ! k) sv = Some (?th, sv1, None)"
    using Suc.prems(3,4) c(1) by (simp add: thread_step_def)
  then have "svc_step env (Step k x) \<lparr>sy_service = sv, sy_threads = ths\<rparr> =
      Some \<lparr>sy_service = sv1, sy_threads = ths[k := ?th]\<rparr>"
    using Suc.prems(2) by (simp add: signal_def)
  moreover have "\<exists>th. svc_run env (replicate m (Step k x)) \<lparr>sy_service = sv1, sy_threads = ths[k := ?th]\<rparr> =
      Some \<lparr>sy_service = sv', sy_threads = (ths[k := ?th])[k := th]\<rparr> \<and> th_pc th = c'"
    by (rule Suc.IH) (use Suc.prems(2,3) c(2) in simp_all)
  ultimately show ?case by (simp del: svc_step.simps)
qed

text \<open>The schedule of a call that arrives and runs alone.\<close>

definition undivided :: "call \<Rightarrow> nat \<Rightarrow> step_input \<Rightarrow> system \<Rightarrow> label list" where
  "undivided cl m x s = Start cl None # replicate m (Step (length (sy_threads s)) x)"

lemma undivided_run:
  assumes "alone env x (length (sy_threads s)) m (first_pc cl, sy_service s) = Some (Done out, sv')"
  shows "\<exists>s'. svc_run env (undivided cl m x s) s = Some s' \<and> sy_service s' = sv'
    \<and> th_pc (sy_threads s' ! length (sy_threads s)) = Done out"
proof -
  let ?ths = "sy_threads s @ [new_thread cl None]" and ?k = "length (sy_threads s)"
  have new: "?ths ! ?k = new_thread cl None" "th_pc (new_thread cl None) = first_pc cl"
    "th_ctx (new_thread cl None) = None" "th_wctx (new_thread cl None) = None"
    by (simp_all add: new_thread_def)
  have "\<exists>th. svc_run env (replicate m (Step ?k x)) \<lparr>sy_service = sy_service s, sy_threads = ?ths\<rparr> =
      Some \<lparr>sy_service = sv', sy_threads = ?ths[?k := th]\<rparr> \<and> th_pc th = Done out"
    by (rule alone_steps) (use assms new in simp_all)
  then obtain th where "svc_run env (replicate m (Step ?k x)) \<lparr>sy_service = sy_service s, sy_threads = ?ths\<rparr> =
      Some \<lparr>sy_service = sv', sy_threads = ?ths[?k := th]\<rparr>" "th_pc th = Done out"
    by blast
  moreover have "svc_step env (Start cl None) s = Some \<lparr>sy_service = sy_service s, sy_threads = ?ths\<rparr>"
    by (cases s) simp
  ultimately show ?thesis by (simp add: undivided_def del: svc_step.simps)
qed


section \<open>Get\<close>

text \<open>What \<open>Get\<close> answers: the record with the manifest of the kept request.\<close>

definition find_operation :: "string \<Rightarrow> service \<Rightarrow> op_error + operation" where
  "find_operation i sv =
     (case table (sv_catalog sv) i of
        None \<Rightarrow> Inl ErrNotFound
      | Some r \<Rightarrow>
          (case sv_requests sv i of
             None \<Rightarrow> Inl PayloadUnavailable
           | Some rq \<Rightarrow> Inr (fromRecord r (rq_Manifest rq))))"

definition get_outcome :: "string \<Rightarrow> service \<Rightarrow> outcome" where
  "get_outcome i sv =
     (case find_operation i sv of Inl e \<Rightarrow> failed e | Inr op \<Rightarrow> Returned (Some op) False None)"

lemma get_alone:
  assumes "k = For_Get \<or> k = For_Submit"
  shows "\<exists>m\<le>2. alone env x j m (P_Get k i, sv) = Some (Done (get_outcome i sv), sv)"
proof (cases "table (sv_catalog sv) i")
  case None
  then have "alone env x j 1 (P_Get k i, sv) = Some (Done (get_outcome i sv), sv)"
    by (simp add: get_step_def GetOperation_def table_def get_outcome_def find_operation_def)
  then show ?thesis by (metis one_le_numeral)
next
  case (Some r)
  then have "alone env x j 2 (P_Get k i, sv) = Some (Done (get_outcome i sv), sv)"
    using assms
    by (auto simp: numeral_2_eq_2 get_step_def GetOperation_def table_def get_outcome_def find_operation_def
        request_step_def got_def split: option.split)
  then show ?thesis by blast
qed

lemma alone_Suc:
  "call_step env x k None None c sv = Some (p, None) \<Longrightarrow> alone env x k m p = q \<Longrightarrow>
   alone env x k (Suc m) (c, sv) = q"
  by simp


section \<open>A key that is known\<close>

definition admits :: "service \<Rightarrow> request \<Rightarrow> bool" where
  "admits sv rq \<longleftrightarrow> de_Allowed (Evaluate (sv_admission sv) (rq_Manifest rq) (currentLoad (sv_catalog sv)))"

lemma trim_space_Nil [simp]: "trim_space [] = []"
  by code_simp

lemma Validate_fields:
  assumes "Validate rq = None"
  shows "rq_IdempotencyKey rq \<noteq> []" "mf_FileID (rq_Manifest rq) \<noteq> []"
proof -
  obtain c where "CompileManifest (rq_Manifest rq) = Inr c" "rq_IdempotencyKey rq \<noteq> []"
    using assms by (auto simp: Validate_None)
  then show "rq_IdempotencyKey rq \<noteq> []" "mf_FileID (rq_Manifest rq) \<noteq> []"
    by (auto simp: CompileManifest_Inr manifest_ok_def)
qed

text \<open>
  A submission whose key belongs to a record: refused, or answered with that record. Either way
  only the counter of identifiers may move.
\<close>

lemma submit_known_alone:
  assumes ok: "service_ok env sv"
    and r: "table (sv_catalog sv) i = Some r" "or_IdempotencyKey r = rq_IdempotencyKey rq"
  shows "\<exists>m\<le>5. \<exists>out q. alone env x k m (S_Admit rq, sv) = Some (Done out, sv\<lparr>sv_sequence := q\<rparr>)
    \<and> (if Validate rq = None \<and> admits sv rq \<and> mf_FileID (rq_Manifest rq) = or_FileID r
       then out = get_outcome i sv else \<exists>e. out = failed e)"
proof -
  consider (invalid) e where "Validate rq = Some e" | (full) "Validate rq = None" "\<not> admits sv rq"
    | (admitted) "Validate rq = None" "admits sv rq"
    by fastforce
  then show ?thesis
  proof cases
    case invalid
    then have "alone env x k 1 (S_Admit rq, sv) = Some (Done (failed e), sv\<lparr>sv_sequence := sv_sequence sv\<rparr>)"
      by (simp add: submit_admit_def)
    with invalid show ?thesis
      by (intro exI [of _ "1 :: nat"] conjI exI [of _ "failed e"] exI [of _ "sv_sequence sv"]) simp_all
  next
    case full
    then obtain e where "alone env x k 1 (S_Admit rq, sv) = Some (Done (failed e), sv\<lparr>sv_sequence := sv_sequence sv\<rparr>)"
      by (simp add: submit_admit_def admits_def Let_def)
    with full show ?thesis
      by (intro exI [of _ "1 :: nat"] conjI exI [of _ "failed e"] exI [of _ "sv_sequence sv"]) simp_all
  next
    case admitted
    let ?sv = "sv\<lparr>sv_sequence := sv_sequence sv + 1\<rparr>"
    let ?op = "submit_operation (sv_config sv) (in_now x) (sv_sequence sv + 1) rq"
    have op: "record_fields (toRecord ?op)" "or_IdempotencyKey (toRecord ?op) = rq_IdempotencyKey rq"
      "or_FileID (toRecord ?op) = mf_FileID (rq_Manifest rq)"
      using Validate_fields [OF admitted(1)]
      by (simp_all add: record_fields_def submit_operation_def Let_def)
    have two: "alone env x k 2 (S_Admit rq, sv) = Some (S_Create ?op rq, ?sv)"
      using admitted by (simp add: numeral_2_eq_2 submit_admit_def admits_def submit_number_def Let_def)
    have cr: "Create (toRecord ?op) (sv_catalog sv) =
        (if mf_FileID (rq_Manifest rq) = or_FileID r then (Inr (r, False), sv_catalog sv)
         else (Inl (KeyBelongsTo (or_FileID r)), sv_catalog sv))"
      using Create_known_key [OF service_okD(1) [OF ok] op(1) r(1)] r(2) op(2,3) by auto
    show ?thesis
    proof (cases "mf_FileID (rq_Manifest rq) = or_FileID r")
      case True
      have "or_ID r = i" using catalog_okD(2) [OF service_okD(1) [OF ok] r(1)] .
      with cr True have c: "submit_create ?op rq ?sv = (P_Get For_Submit i, ?sv)"
        by (simp add: submit_create_def)
      obtain m where m: "m \<le> 2" "alone env x k m (P_Get For_Submit i, ?sv) = Some (Done (get_outcome i ?sv), ?sv)"
        using get_alone [of For_Submit env x k i ?sv] by blast
      have "get_outcome i ?sv = get_outcome i sv"
        by (simp add: get_outcome_def find_operation_def split: option.split)
      moreover have "alone env x k (Suc (Suc (Suc m))) (S_Admit rq, sv) = Some (Done (get_outcome i ?sv), ?sv)"
        using admitted c m(2)
        by (simp add: submit_admit_def admits_def submit_number_def Let_def)
      ultimately show ?thesis
        using m(1) True admitted
        by (intro exI [of _ "Suc (Suc (Suc m))"] conjI exI [of _ "get_outcome i sv"] exI [of _ "sv_sequence sv + 1"])
          simp_all
    next
      case False
      let ?out = "failed (CatalogFailed (KeyBelongsTo (or_FileID r)))"
      have "submit_create ?op rq ?sv = (Done ?out, ?sv)" using cr False by (simp add: submit_create_def)
      then have "alone env x k 3 (S_Admit rq, sv) = Some (Done ?out, ?sv)"
        using admitted by (simp add: numeral_3_eq_3 submit_admit_def admits_def submit_number_def Let_def)
      with False show ?thesis
        by (intro exI [of _ "3 :: nat"] conjI exI [of _ ?out] exI [of _ "sv_sequence sv + 1"]) simp_all
    qed
  qed
qed

end
