(* ===== verification/Codec.thy ===== *)
theory Codec
  imports Manifest
begin

text \<open>
  \<open>segmentmerge/codec.go\<close>: manifests as JSON texts. \<open>encoding/json\<close> is the parameter
  \<open>manifest_json\<close>; what the code does around it, the rest of the input after the first value
  included, is written out.
\<close>

section \<open>Reading and writing\<close>

text \<open>
  \<open>mj_value\<close> is \<open>Decoder.Decode\<close> with \<open>DisallowUnknownFields\<close>: the first value of the input and what
  follows it. \<open>mj_canon\<close> is what survives a way through JSON: invalid UTF-8 is replaced.
\<close>

record manifest_json =
  mj_value :: "bytes \<Rightarrow> (manifest \<times> bytes) option"
  mj_encode :: "manifest \<Rightarrow> bytes option"
  mj_canon :: "manifest \<Rightarrow> manifest"

definition json_space :: "byte \<Rightarrow> bool" where
  "json_space b \<longleftrightarrow> b = 32 \<or> b = 9 \<or> b = 10 \<or> b = 13"

datatype codec_error = DecodeFailed | TrailingValue | NotCompiled sm_error | EncodeFailed

fun is_invalid_manifest :: "codec_error \<Rightarrow> bool" where
  "is_invalid_manifest DecodeFailed = True"
| "is_invalid_manifest TrailingValue = True"
| "is_invalid_manifest (NotCompiled e) = errors_is e S_InvalidManifest"
| "is_invalid_manifest EncodeFailed = False"

text \<open>The second \<open>Decode\<close> returns \<open>io.EOF\<close> exactly where only spaces are left.\<close>

definition DecodeManifest :: "manifest_json \<Rightarrow> bytes \<Rightarrow> codec_error + manifest" where
  "DecodeManifest js data =
     (case mj_value js data of
        None \<Rightarrow> Inl DecodeFailed
      | Some (manifest, rest) \<Rightarrow>
          if \<not> list_all json_space rest then Inl TrailingValue
          else (case CompileManifest manifest of Inl e \<Rightarrow> Inl (NotCompiled e) | Inr c \<Rightarrow> Inr c))"

definition EncodeManifest :: "manifest_json \<Rightarrow> manifest \<Rightarrow> codec_error + bytes" where
  "EncodeManifest js manifest =
     (case CompileManifest manifest of
        Inl e \<Rightarrow> Inl (NotCompiled e)
      | Inr compiled \<Rightarrow>
          (case mj_encode js compiled of None \<Rightarrow> Inl EncodeFailed | Some b \<Rightarrow> Inr b))"

text \<open>
  What \<open>encoding/json\<close> promises: the text of a manifest is an object, which ends with its brace
  whatever follows, and reading it gives the manifest back as far as JSON can keep it.
\<close>

definition manifest_json_ok :: "manifest_json \<Rightarrow> bool" where
  "manifest_json_ok js \<longleftrightarrow>
     (\<forall>m b rest. mj_encode js m = Some b \<longrightarrow> mj_value js (b @ rest) = Some (mj_canon js m, rest))"


section \<open>The round trip\<close>

lemma DecodeManifest_Inr:
  "DecodeManifest js data = Inr c \<longleftrightarrow>
     (\<exists>m rest. mj_value js data = Some (m, rest) \<and> list_all json_space rest \<and> CompileManifest m = Inr c)"
  by (auto simp: DecodeManifest_def split: option.splits sum.splits)

lemma EncodeManifest_Inr:
  "EncodeManifest js m = Inr b \<longleftrightarrow> (\<exists>c. CompileManifest m = Inr c \<and> mj_encode js c = Some b)"
  by (auto simp: EncodeManifest_def split: option.splits sum.splits)

lemma DecodeManifest_Inl: "DecodeManifest js data = Inl e \<Longrightarrow> is_invalid_manifest e"
  by (auto simp: DecodeManifest_def dest!: CompileManifest_Inl split: option.splits sum.splits if_splits)


text \<open>A codec that knows one manifest, as an object of two braces.\<close>

definition one_manifest_json :: manifest_json where
  "one_manifest_json =
     \<lparr>mj_value = (\<lambda>b. if take 2 b = [123, 125] then Some (demo_manifest, drop 2 b) else None),
      mj_encode = (\<lambda>m. if m = demo_manifest then Some [123, 125] else None), mj_canon = (\<lambda>m. m)\<rparr>"


end
