(* ===== verification/Control.thy ===== *)
theory Control
  imports Calls Codec
begin

text \<open>
  The control plane: \<open>control/handler.go\<close>, \<open>control/server.go\<close> and the wiring of
  \<open>cmd/merge-server/main.go\<close>. A handler is split where it calls the service: what it makes of the HTTP
  request is \<open>serve\<close>, which answers at once or names the call; what it makes of the call's outcome
  is \<open>reply\<close>. In between the call is a thread of \<open>Service\<close>, whose context ends when the client
  goes away or the timeout of the handler has passed (\<open>CancelCaller\<close>).

  Texts of errors and the JSON of responses are not built: a response keeps the status, the code, the
  error and the value that is written. The statements of the handlers, which write to the response
  writer, the log and the recovery from panics are in \<open>Middleware\<close>, the process that serves in
  \<open>Process\<close>.
\<close>

section \<open>Requests\<close>

text \<open>
  An HTTP request: the path split at its slashes, the query parameters (empty where absent), the
  header \<open>Idempotency-Key\<close> and the body.
\<close>

record http_request =
  hr_Method :: string
  hr_Path :: "string list"
  hr_Limit :: string
  hr_State :: string
  hr_Key :: string
  hr_Body :: bytes

datatype endpoint =
    At_Health
  | At_Submit
  | At_List
  | At_Status string
  | At_Run string
  | At_Cancel string
  | At_Events string
  | At_Artifact string

text \<open>
  The patterns of the router that match a path, with their methods. A wildcard matches one segment, and
  not the empty one. \<open>ServeMux\<close> lets a pattern for GET serve HEAD too. The path is clean: one with
  empty, single-dot or double-dot segments inside is redirected before.
\<close>

definition routes :: "string list \<Rightarrow> (string \<times> endpoint) list" where
  "routes path =
     (case path of
        [a] \<Rightarrow> if a = ''healthz'' then [(''GET'', At_Health)] else []
      | [a, b] \<Rightarrow>
          if a = ''v1'' \<and> b = ''merges'' then [(''POST'', At_Submit), (''GET'', At_List)] else []
      | [a, b, i] \<Rightarrow>
          if a = ''v1'' \<and> b = ''merges'' \<and> i \<noteq> [] then [(''GET'', At_Status i)]
          else if a = ''v1'' \<and> b = ''artifacts'' \<and> i \<noteq> [] then [(''GET'', At_Artifact i)]
          else []
      | [a, b, i, d] \<Rightarrow>
          if a = ''v1'' \<and> b = ''merges'' \<and> i \<noteq> []
          then (if d = ''run'' then [(''POST'', At_Run i)]
                else if d = ''cancel'' then [(''POST'', At_Cancel i)]
                else if d = ''events'' then [(''GET'', At_Events i)]
                else [])
          else []
      | _ \<Rightarrow> [])"

definition serves :: "string \<Rightarrow> string \<Rightarrow> bool" where
  "serves pattern meth \<longleftrightarrow> meth = pattern \<or> pattern = ''GET'' \<and> meth = ''HEAD''"

datatype routed = Routed endpoint | MethodNotAllowed | PathNotFound

definition Router :: "http_request \<Rightarrow> routed" where
  "Router hr =
     (case filter (\<lambda>(p, e). serves p (hr_Method hr)) (routes (hr_Path hr)) of
        (p, e) # _ \<Rightarrow> Routed e
      | [] \<Rightarrow> if routes (hr_Path hr) = [] then PathNotFound else MethodNotAllowed)"


subsection \<open>The body\<close>

text \<open>
  \<open>qj_value\<close> is \<open>Decoder.Decode\<close> into a \<open>Request\<close> with \<open>DisallowUnknownFields\<close>: the first value and
  what follows it. The reader delivers the first 8 MiB of the body.
\<close>

record request_json =
  qj_value :: "bytes \<Rightarrow> (request \<times> bytes) option"

datatype control_error = BadBody | MultipleValues | KeysDiffer | LimitRange | RequestFailed
  | FromService op_error

definition max_body :: nat where
  "max_body = 8388608"

text \<open>\<open>Decoder.More\<close>: the next byte that is no space is neither a bracket nor a brace that closes.\<close>

definition More :: "bytes \<Rightarrow> bool" where
  "More rest = (case dropWhile json_space rest of [] \<Rightarrow> False | b # _ \<Rightarrow> b \<noteq> 93 \<and> b \<noteq> 125)"

definition decodeJSON :: "request_json \<Rightarrow> bytes \<Rightarrow> control_error + request" where
  "decodeJSON js body =
     (case qj_value js (take max_body body) of
        None \<Rightarrow> Inl BadBody
      | Some (rq, rest) \<Rightarrow> if More rest then Inl MultipleValues else Inr rq)"

definition with_key :: "string \<Rightarrow> request \<Rightarrow> control_error + request" where
  "with_key header rq =
     (let h = trim_space header
      in if h = [] then Inr rq
         else if rq_IdempotencyKey rq \<noteq> [] \<and> rq_IdempotencyKey rq \<noteq> h then Inl KeysDiffer
         else Inr (rq\<lparr>rq_IdempotencyKey := h\<rparr>))"


subsection \<open>The limit\<close>

text \<open>\<open>strconv.Atoi\<close>: a sign, digits, and a value of 64 bits.\<close>

definition digit :: "char \<Rightarrow> bool" where
  "digit c \<longleftrightarrow> 48 \<le> (of_char c :: nat) \<and> (of_char c :: nat) \<le> 57"

definition unsigned_digits :: "string \<Rightarrow> bool \<times> string" where
  "unsigned_digits s =
     (case s of
        [] \<Rightarrow> (False, [])
      | c # ds \<Rightarrow> if c = CHR ''-'' then (True, ds) else if c = CHR ''+'' then (False, ds) else (False, s))"

definition Atoi :: "string \<Rightarrow> int option" where
  "Atoi s =
     (let (neg, ds) = unsigned_digits s; n = int (undec ds)
      in if ds = [] \<or> \<not> list_all digit ds then None
         else if neg then (if n \<le> 2 ^ 63 then Some (- n) else None)
         else if n < 2 ^ 63 then Some n else None)"

definition limit_of :: "string \<Rightarrow> control_error + int" where
  "limit_of raw =
     (if raw = [] then Inr 100
      else (case Atoi raw of
              None \<Rightarrow> Inl LimitRange
            | Some n \<Rightarrow> if n < 1 \<or> n > 1000 then Inl LimitRange else Inr n))"


section \<open>Responses\<close>

datatype payload_json =
    Says_Ok
  | Says_Error string control_error
  | Says_Operation "operation option"
  | Says_Submitted "operation option" bool
  | Says_Operations "operation_record list" int
  | Says_Events "envelope list" int
  | Says_Artifact artifact_record
  | Says_NotFound
  | Says_MethodNotAllowed

record response =
  rs_Status :: int
  rs_Location :: "string option"
  rs_Body :: payload_json

definition writeJSON :: "int \<Rightarrow> payload_json \<Rightarrow> response" where
  "writeJSON status b = \<lparr>rs_Status = status, rs_Location = None, rs_Body = b\<rparr>"

definition writeError :: "int \<Rightarrow> string \<Rightarrow> control_error \<Rightarrow> response" where
  "writeError status code e = writeJSON status (Says_Error code e)"

lemma write_simps [simp]:
  "rs_Status (writeJSON st b) = st" "rs_Location (writeJSON st b) = None" "rs_Body (writeJSON st b) = b"
  "rs_Status (writeError st code e) = st" "rs_Location (writeError st code e) = None"
  "rs_Body (writeError st code e) = Says_Error code e"
  by (simp_all add: writeJSON_def writeError_def)


section \<open>The handlers\<close>

definition health :: response where
  "health = writeJSON 200 Says_Ok"

text \<open>Up to the call of \<open>Submit\<close>, and after it.\<close>

definition submit_request :: "request_json \<Rightarrow> http_request \<Rightarrow> response + request" where
  "submit_request js hr =
     (case decodeJSON js (hr_Body hr) of
        Inl e \<Rightarrow> Inl (writeError 400 ''invalid_request'' e)
      | Inr rq \<Rightarrow>
          (case with_key (hr_Key hr) rq of
             Inl e \<Rightarrow> Inl (writeError 400 ''idempotency_mismatch'' e)
           | Inr rq' \<Rightarrow> Inr rq'))"

definition submit_reply :: "outcome \<Rightarrow> response" where
  "submit_reply out =
     (case out of
        Returned op fresh (Some e) \<Rightarrow> writeError 422 ''submit_rejected'' (FromService e)
      | Returned op fresh None \<Rightarrow>
          (writeJSON (if fresh then 202 else 200) (Says_Submitted op fresh))
            \<lparr>rs_Location := Some (''/v1/merges/'' @ (case op of None \<Rightarrow> [] | Some p \<Rightarrow> op_ID p))\<rparr>)"

definition status_reply :: "outcome \<Rightarrow> response" where
  "status_reply out =
     (case out of
        Returned op b (Some e) \<Rightarrow>
          if op_is e Is_NotFound then writeError 404 ''not_found'' (FromService e)
          else writeError 500 ''status_failed'' (FromService e)
      | Returned op b None \<Rightarrow> writeJSON 200 (Says_Operation op))"

definition run_reply :: "outcome \<Rightarrow> response" where
  "run_reply out =
     (case out of
        Returned op b (Some e) \<Rightarrow>
          if op_is e Is_NotFound then writeError 404 ''not_found'' (FromService e)
          else writeError 409 ''run_failed'' (FromService e)
      | Returned op b None \<Rightarrow> writeJSON 200 (Says_Operation op))"

definition cancel_reply :: "outcome \<Rightarrow> response" where
  "cancel_reply out =
     (case out of
        Returned op b (Some e) \<Rightarrow>
          if op_is e Is_NotFound then writeError 404 ''not_found'' (FromService e)
          else if op_is e Is_Terminal then writeError 409 ''already_terminal'' (FromService e)
          else writeError 500 ''cancel_failed'' (FromService e)
      | Returned op b None \<Rightarrow> writeJSON 200 (Says_Operation op))"

definition list_handler :: "http_request \<Rightarrow> service \<Rightarrow> response" where
  "list_handler hr sv =
     (case limit_of (hr_Limit hr) of
        Inl e \<Rightarrow> writeError 400 ''invalid_limit'' e
      | Inr limit \<Rightarrow>
          (let rs = Service_List (hr_State hr) limit sv
           in writeJSON 200 (Says_Operations rs (int (length rs)))))"

definition events_handler ::
  "svc_env \<Rightarrow> (u64 \<Rightarrow> ctx_error option) \<Rightarrow> string \<Rightarrow> service \<Rightarrow> response" where
  "events_handler env cx i sv =
     (case Service_Replay env cx i sv of
        Inl e \<Rightarrow>
          if op_is e Is_NotFound then writeError 404 ''not_found'' (FromService e)
          else writeError 500 ''replay_failed'' (FromService e)
      | Inr evs \<Rightarrow> writeJSON 200 (Says_Events evs (int (length evs))))"

definition artifact_handler :: "ctx_error option \<Rightarrow> string \<Rightarrow> service \<Rightarrow> response" where
  "artifact_handler cx fileID sv =
     (case Artifact cx fileID sv of
        Inl e \<Rightarrow>
          if op_is e Is_ArtifactNotFound then writeError 404 ''not_found'' (FromService e)
          else writeError 500 ''artifact_failed'' (FromService e)
      | Inr art \<Rightarrow> writeJSON 200 (Says_Artifact art))"

text \<open>
  The handler as a whole. \<open>cx\<close> is what a section reads of the request's context, \<open>cxs\<close> what the
  reading of the journal sees line by line.
\<close>

datatype served = Answered response | Calling endpoint call

definition serve ::
  "svc_env \<Rightarrow> request_json \<Rightarrow> ctx_error option \<Rightarrow> (u64 \<Rightarrow> ctx_error option) \<Rightarrow> http_request \<Rightarrow> service
     \<Rightarrow> served" where
  "serve env js cx cxs hr sv =
     (case Router hr of
        PathNotFound \<Rightarrow> Answered (writeJSON 404 Says_NotFound)
      | MethodNotAllowed \<Rightarrow> Answered (writeJSON 405 Says_MethodNotAllowed)
      | Routed ep \<Rightarrow>
          (case ep of
             At_Health \<Rightarrow> Answered health
           | At_Submit \<Rightarrow>
               (case submit_request js hr of
                  Inl r \<Rightarrow> Answered r
                | Inr rq \<Rightarrow> Calling ep (Call_Submit rq))
           | At_List \<Rightarrow> Answered (list_handler hr sv)
           | At_Status i \<Rightarrow> Calling ep (Call_Get i)
           | At_Run i \<Rightarrow> Calling ep (Call_Run i)
           | At_Cancel i \<Rightarrow> Calling ep (Call_Cancel i)
           | At_Events i \<Rightarrow> Answered (events_handler env cxs i sv)
           | At_Artifact f \<Rightarrow> Answered (artifact_handler cx f sv)))"

definition reply :: "endpoint \<Rightarrow> outcome \<Rightarrow> response" where
  "reply ep out =
     (case ep of
        At_Submit \<Rightarrow> submit_reply out
      | At_Status i \<Rightarrow> status_reply out
      | At_Run i \<Rightarrow> run_reply out
      | At_Cancel i \<Rightarrow> cancel_reply out
      | _ \<Rightarrow> health)"


section \<open>The server\<close>

record server =
  sr_Addr :: string
  sr_ReadHeaderTimeout :: i64
  sr_ReadTimeout :: i64
  sr_WriteTimeout :: i64
  sr_IdleTimeout :: i64
  sr_listener :: "string option"

definition NewServer :: "string \<Rightarrow> server" where
  "NewServer address =
     \<lparr>sr_Addr = (if address = [] then ''127.0.0.1:8080'' else address),
      sr_ReadHeaderTimeout = 5 * (1000 * Millisecond), sr_ReadTimeout = 15 * (1000 * Millisecond),
      sr_WriteTimeout = 35 * (1000 * Millisecond), sr_IdleTimeout = 60 * (1000 * Millisecond),
      sr_listener = None\<rparr>"

text \<open>
  \<open>Start\<close>: the result of \<open>net.Listen\<close>, an error or the address, comes first; it returns when \<open>Serve\<close>
  does. The errors of the network are numbers.
\<close>

datatype server_error = ListenFailed nat | ErrServerClosed | ServeFailed nat | NotStarted | ShutdownFailed nat

definition Start_listen :: "nat + string \<Rightarrow> server \<Rightarrow> server_error option \<times> server" where
  "Start_listen res s =
     (case res of Inl e \<Rightarrow> (Some (ListenFailed e), s) | Inr a \<Rightarrow> (None, s\<lparr>sr_listener := Some a\<rparr>))"

definition Start_return :: "server_error \<Rightarrow> server_error option" where
  "Start_return e = (if e = ErrServerClosed then None else Some e)"

definition Address :: "server \<Rightarrow> string" where
  "Address s = (case sr_listener s of Some a \<Rightarrow> a | None \<Rightarrow> sr_Addr s)"

definition Shutdown :: "nat option \<Rightarrow> server \<Rightarrow> server_error option" where
  "Shutdown res s =
     (case sr_listener s of None \<Rightarrow> Some NotStarted | Some a \<Rightarrow> map_option ShutdownFailed res)"

text \<open>The service of \<open>cmd/merge-server\<close>; \<open>opened\<close> is what \<open>OpenFileStore\<close> returned for the path.\<close>

definition merge_server :: "string \<Rightarrow> journal_error + file_store \<Rightarrow> journal_error + service" where
  "merge_server journalPath opened =
     (let start = (\<lambda>events. NewService
            \<lparr>cf_WorkerID = ''merge-server'', cf_PartitionCount = 64, cf_LeaseTTL = 30 * (1000 * Millisecond)\<rparr>
            (Some New) (Some events) (Some NewManager) (Some (NewAdmission DefaultLimits)))
      in if journalPath = [] then Inr (start (MemoryStore NewMemoryStore))
         else (case opened of Inl e \<Rightarrow> Inl e | Inr store \<Rightarrow> Inr (start (FileStore store))))"

end
