(* ===== verification/Controls.thy ===== *)
theory Controls
  imports Control
begin

text \<open>
  What a client of the control plane may rely on: the answers to a repeated submission, to questions
  about an operation, to calls that are refused, and to the listing.
\<close>

section \<open>Routing\<close>

lemma Router_operation:
  "hr_Path hr = [''v1'', ''merges'', i] \<Longrightarrow> i \<noteq> [] \<Longrightarrow> hr_Method hr = ''GET'' \<Longrightarrow> Router hr = Routed (At_Status i)"
  "hr_Path hr = [''v1'', ''merges'', i, ''run''] \<Longrightarrow> i \<noteq> [] \<Longrightarrow> hr_Method hr = ''POST'' \<Longrightarrow>
     Router hr = Routed (At_Run i)"
  "hr_Path hr = [''v1'', ''merges'', i, ''cancel''] \<Longrightarrow> i \<noteq> [] \<Longrightarrow> hr_Method hr = ''POST'' \<Longrightarrow>
     Router hr = Routed (At_Cancel i)"
  "hr_Path hr = [''v1'', ''merges''] \<Longrightarrow> hr_Method hr = ''GET'' \<Longrightarrow> Router hr = Routed At_List"
  "hr_Path hr = [''v1'', ''merges''] \<Longrightarrow> hr_Method hr = ''POST'' \<Longrightarrow> Router hr = Routed At_Submit"
  by (simp_all add: Router_def routes_def serves_def)

lemma serve_Submit:
  "serve env js cx cxs hr sv = Calling At_Submit cl \<Longrightarrow> \<exists>rq. cl = Call_Submit rq \<and> submit_request js hr = Inr rq"
  by (auto simp: serve_def split: routed.splits endpoint.splits sum.splits)


section \<open>A submission that is repeated\<close>

lemma submit_reply_found:
  assumes "table (sv_catalog sv) i = Some r" "or_ID r = i" "sv_requests sv i = Some rq0"
  shows "submit_reply (get_outcome i sv) =
    \<lparr>rs_Status = 200, rs_Location = Some (''/v1/merges/'' @ i),
     rs_Body = Says_Submitted (Some (fromRecord r (rq_Manifest rq0))) False\<rparr>"
  using assms by (simp add: submit_reply_def get_outcome_def find_operation_def writeJSON_def)

lemma submit_reply_unstored:
  "table (sv_catalog sv) i = Some r \<Longrightarrow> sv_requests sv i = None \<Longrightarrow>
     rs_Status (submit_reply (get_outcome i sv)) = 422"
  by (simp add: submit_reply_def get_outcome_def find_operation_def)

text \<open>
  C21: A client may repeat a submission: under a key that belongs to a record, a valid request for the
  same file that the limits admit is not created again, and answered with 200, the location and the operation
  of that record, once the request of the operation is stored; between the creation of the record and
  the storing of its request, which are two sections of the first submission, it is answered with 422. Any
  other request under that key, and also the same one when the service is full, is answered with 422.
  In every case the catalog, the kept requests and the journal stay as they are.
\<close>
theorem http_resubmission:
  assumes "svc_run env ls (system_of (NewService c None j lm a)) = Some s"
    "serve env js cx cxs hr (sy_service s) = Calling At_Submit (Call_Submit rq)"
    "table (sv_catalog (sy_service s)) i = Some r" "or_IdempotencyKey r = rq_IdempotencyKey rq"
  shows "\<exists>m\<le>5. \<exists>s' out. svc_run env (undivided (Call_Submit rq) m x s) s = Some s'
    \<and> th_pc (sy_threads s' ! length (sy_threads s)) = Done out
    \<and> (if Validate rq = None \<and> admits (sy_service s) rq \<and> mf_FileID (rq_Manifest rq) = or_FileID r
       then (case sv_requests (sy_service s) i of
               Some rq0 \<Rightarrow> reply At_Submit out =
                 \<lparr>rs_Status = 200, rs_Location = Some (''/v1/merges/'' @ i),
                  rs_Body = Says_Submitted (Some (fromRecord r (rq_Manifest rq0))) False\<rparr>
             | None \<Rightarrow> rs_Status (reply At_Submit out) = 422)
       else rs_Status (reply At_Submit out) = 422)
    \<and> sv_catalog (sy_service s') = sv_catalog (sy_service s)
    \<and> sv_requests (sy_service s') = sv_requests (sy_service s)
    \<and> sv_journal (sy_service s') = sv_journal (sy_service s)"
proof -
  let ?sv = "sy_service s" and ?good = "Validate rq = None \<and> admits (sy_service s) rq \<and> mf_FileID (rq_Manifest rq) = or_FileID r"
  note ok = reached_service [OF assms(1)]
  have i: "or_ID r = i" using catalog_okD(2) [OF service_okD(1) [OF ok] assms(3)] .
  obtain m out q where m: "m \<le> 5"
    "alone env x (length (sy_threads s)) m (S_Admit rq, ?sv) = Some (Done out, ?sv\<lparr>sv_sequence := q\<rparr>)"
    "if ?good then out = get_outcome i ?sv else \<exists>e. out = failed e"
    using submit_known_alone [OF ok assms(3,4), of x "length (sy_threads s)"] by blast
  obtain s' where s': "svc_run env (undivided (Call_Submit rq) m x s) s = Some s'"
    "sy_service s' = ?sv\<lparr>sv_sequence := q\<rparr>" "th_pc (sy_threads s' ! length (sy_threads s)) = Done out"
    using undivided_run [of env x s m "Call_Submit rq" out] m(2) by auto
  have "if ?good
      then (case sv_requests ?sv i of
              Some rq0 \<Rightarrow> reply At_Submit out =
                \<lparr>rs_Status = 200, rs_Location = Some (''/v1/merges/'' @ i),
                 rs_Body = Says_Submitted (Some (fromRecord r (rq_Manifest rq0))) False\<rparr>
            | None \<Rightarrow> rs_Status (reply At_Submit out) = 422)
       else rs_Status (reply At_Submit out) = 422"
  proof (cases ?good)
    case True
    with m(3) have "reply At_Submit out = submit_reply (get_outcome i ?sv)" by (simp add: reply_def)
    with True submit_reply_found [OF assms(3) i] submit_reply_unstored [OF assms(3)] show ?thesis
      by (simp split: option.split)
  next
    case False
    with m(3) obtain e where "out = failed e" by auto
    with False show ?thesis by (auto simp: reply_def submit_reply_def)
  qed
  with s' m(1) show ?thesis by (intro exI [of _ m] conjI exI [of _ s'] exI [of _ out]) simp_all
qed


text \<open>The request of the example, as a client posts it, for a decoder that knows its body.\<close>

definition demo_body_json :: request_json where
  "demo_body_json = \<lparr>qj_value = (\<lambda>b. if take 2 b = [123, 125] then Some (demo_request, drop 2 b) else None)\<rparr>"

definition demo_post :: http_request where
  "demo_post = \<lparr>hr_Method = ''POST'', hr_Path = [''v1'', ''merges''], hr_Limit = [], hr_State = [],
     hr_Key = [], hr_Body = [123, 125]\<rparr>"

lemma demo_served: "serve env demo_body_json cx cxs demo_post sv = Calling At_Submit (Call_Submit demo_request)"
proof -
  have "take max_body [123, 125 :: byte] = [123, 125]" by (rule take_all) (simp add: max_body_def)
  then have "submit_request demo_body_json demo_post = Inr demo_request"
    by (simp add: submit_request_def decodeJSON_def demo_post_def demo_body_json_def More_def with_key_def)
  then show ?thesis by (simp add: serve_def Router_operation(5) demo_post_def)
qed

lemma demo_submitted_record:
  "table (sv_catalog (submitted n)) demo_id = Some demo_record"
  "sv_requests (submitted n) demo_id = Some demo_request"
  by (simp_all add: submitted_def table_def demo_catalog_def)

theorem http_resubmission_witness:
  "\<exists>s m s' out. svc_run demo_svc demo_submit (system_of (demo_service 2)) = Some s
     \<and> svc_run demo_svc (undivided (Call_Submit demo_request) m (at 5) s) s = Some s'
     \<and> th_pc (sy_threads s' ! 1) = Done out \<and> rs_Status (reply At_Submit out) = 200
     \<and> sv_catalog (sy_service s') = demo_catalog demo_record []"
proof -
  let ?s = "\<lparr>sy_service = submitted 2, sy_threads = [plain None (Done (Returned (Some demo_op) True None))]\<rparr>"
  have run: "svc_run demo_svc demo_submit (system_of (demo_service 2)) = Some ?s" by (rule demo_submitted) simp
  have r: "table (sv_catalog (sy_service ?s)) demo_id = Some demo_record"
    "or_IdempotencyKey demo_record = rq_IdempotencyKey demo_request"
    "sv_requests (sy_service ?s) demo_id = Some demo_request"
    using demo_submitted_record [of 2] by simp_all
  have "admits (submitted 2) demo_request"
    by (simp add: admits_def submitted_def demo_load_one demo_admitted)
  then have good: "Validate demo_request = None \<and> admits (sy_service ?s) demo_request
      \<and> mf_FileID (rq_Manifest demo_request) = or_FileID demo_record"
    by (simp add: demo_valid)
  from http_resubmission [OF run [unfolded demo_system] demo_served [of demo_svc None "\<lambda>_. None"] r(1,2), of "at 5"]
  obtain m s' out where "svc_run demo_svc (undivided (Call_Submit demo_request) m (at 5) ?s) ?s = Some s'"
    "th_pc (sy_threads s' ! length (sy_threads ?s)) = Done out"
    "reply At_Submit out = \<lparr>rs_Status = 200, rs_Location = Some (''/v1/merges/'' @ demo_id),
       rs_Body = Says_Submitted (Some (fromRecord demo_record (rq_Manifest demo_request))) False\<rparr>"
    "sv_catalog (sy_service s') = sv_catalog (sy_service ?s)"
    unfolding if_P [OF good] unfolding r(3) option.case by blast
  with run show ?thesis
    by (intro exI [of _ ?s] exI [of _ m] exI [of _ s'] exI [of _ out]) (simp add: submitted_def)
qed


section \<open>Answers about one operation\<close>

lemma got_For_Run:
  "\<not> startable (op_State op) \<Longrightarrow> \<exists>e. got For_Run op = Done (failed e) \<and> \<not> op_is e Is_NotFound"
  by (auto simp: got_def CanStart_def)

lemma got_For_Cancel: "terminal_state (op_State op) \<Longrightarrow> got For_Cancel op = Done (failed ErrTerminal)"
  by (simp add: got_def Terminal_def)

lemma read_alone:
  "find_operation i sv = Inl e \<Longrightarrow> \<exists>m\<le>2. alone env x j m (P_Get k i, sv) = Some (Done (failed e), sv)"
  "find_operation i sv = Inr op \<Longrightarrow> alone env x j 2 (P_Get k i, sv) = Some (got k op, sv)"
proof -
  assume "find_operation i sv = Inr op"
  then show "alone env x j 2 (P_Get k i, sv) = Some (got k op, sv)"
    by (auto simp: numeral_2_eq_2 get_step_def GetOperation_def find_operation_def table_def request_step_def
        split: option.splits)
next
  assume e: "find_operation i sv = Inl e"
  show "\<exists>m\<le>2. alone env x j m (P_Get k i, sv) = Some (Done (failed e), sv)"
  proof (cases "table (sv_catalog sv) i")
    case None
    with e have "alone env x j 1 (P_Get k i, sv) = Some (Done (failed e), sv)"
      by (simp add: get_step_def GetOperation_def table_def find_operation_def)
    then show ?thesis by (metis one_le_numeral)
  next
    case (Some r)
    with e have "alone env x j 2 (P_Get k i, sv) = Some (Done (failed e), sv)"
      by (auto simp: numeral_2_eq_2 get_step_def GetOperation_def table_def find_operation_def
          request_step_def split: option.splits)
    then show ?thesis by blast
  qed
qed

text \<open>The answer to a call that runs alone and changes nothing.\<close>

definition answers :: "svc_env \<Rightarrow> step_input \<Rightarrow> call \<Rightarrow> (outcome \<Rightarrow> bool) \<Rightarrow> system \<Rightarrow> bool" where
  "answers env x cl P s \<longleftrightarrow>
     (\<exists>m\<le>2. \<exists>s' out. svc_run env (undivided cl m x s) s = Some s' \<and> sy_service s' = sy_service s
        \<and> th_pc (sy_threads s' ! length (sy_threads s)) = Done out \<and> P out)"

lemma answersI:
  assumes "alone env x (length (sy_threads s)) m (first_pc cl, sy_service s) = Some (Done out, sy_service s)"
    "m \<le> 2" "P out"
  shows "answers env x cl P s"
  using undivided_run [OF assms(1)] assms(2,3) unfolding answers_def by blast

lemma first_pc_get: "first_pc (Call_Get i) = P_Get For_Get i" "first_pc (Call_Run i) = P_Get For_Run i"
  "first_pc (Call_Cancel i) = P_Get For_Cancel i"
  by simp_all

lemma find_operation_error: "find_operation i sv = Inl e \<Longrightarrow> op_is e Is_NotFound"
  by (auto simp: find_operation_def split: option.splits)

text \<open>
  C22: What the control plane answers about an operation, and what it refuses, without changing
  anything: GET returns the record with 200 where there is one whose request is kept, and 404
  otherwise; run and cancel return 404 for an identifier that is not known; run returns 409 for an operation
  that is neither accepted nor retrying; cancel returns 409 for one that is completed, failed or
  cancelled.
\<close>
theorem http_operation_answers:
  assumes "Router hr = Routed ep" "ep \<in> {At_Status i, At_Run i, At_Cancel i}"
  shows "\<exists>cl. serve env js cx cxs hr (sy_service s) = Calling ep cl
    \<and> (case find_operation i (sy_service s) of
         Inl e \<Rightarrow> answers env x cl (\<lambda>out. rs_Status (reply ep out) = 404) s
       | Inr op \<Rightarrow>
           (ep = At_Status i \<longrightarrow>
              answers env x cl (\<lambda>out. reply ep out = writeJSON 200 (Says_Operation (Some op))) s)
         \<and> (ep = At_Run i \<longrightarrow> \<not> startable (op_State op) \<longrightarrow>
              answers env x cl (\<lambda>out. rs_Status (reply ep out) = 409) s)
         \<and> (ep = At_Cancel i \<longrightarrow> terminal_state (op_State op) \<longrightarrow>
              answers env x cl
                (\<lambda>out. reply ep out = writeError 409 ''already_terminal'' (FromService ErrTerminal)) s))"
proof -
  obtain cl k where cl: "serve env js cx cxs hr (sy_service s) = Calling ep cl" "first_pc cl = P_Get k i"
    "ep = At_Status i \<Longrightarrow> k = For_Get" "ep = At_Run i \<Longrightarrow> k = For_Run" "ep = At_Cancel i \<Longrightarrow> k = For_Cancel"
    using assms by (auto simp: serve_def)
  show ?thesis
  proof (cases "find_operation i (sy_service s)")
    case (Inl e)
    obtain m where m: "m \<le> 2" "alone env x (length (sy_threads s)) m (P_Get k i, sy_service s)
        = Some (Done (failed e), sy_service s)"
      using read_alone(1) [OF Inl, of env x "length (sy_threads s)" k] by blast
    have "rs_Status (reply ep (failed e)) = 404"
      using find_operation_error [OF Inl] assms(2)
      by (auto simp: reply_def status_reply_def run_reply_def cancel_reply_def)
    with m cl(1,2) Inl show ?thesis
      by (intro exI [of _ cl]) (auto intro: answersI [of env x s m cl "failed e"])
  next
    case (Inr op)
    have al: "alone env x (length (sy_threads s)) 2 (first_pc cl, sy_service s) = Some (got k op, sy_service s)"
      using read_alone(2) [OF Inr] cl(2) by simp
    have "answers env x cl (\<lambda>out. reply ep out = writeJSON 200 (Says_Operation (Some op))) s" if "ep = At_Status i"
      using al that cl(3) by (intro answersI [of _ _ _ 2]) (auto simp: got_def reply_def status_reply_def)
    moreover have "answers env x cl (\<lambda>out. rs_Status (reply ep out) = 409) s"
      if "ep = At_Run i" "\<not> startable (op_State op)"
    proof -
      note not_startable = that(2)
      obtain e where e: "got For_Run op = Done (failed e)" "\<not> op_is e Is_NotFound"
        using got_For_Run [OF not_startable] by blast
      then have "rs_Status (reply ep (failed e)) = 409"
        using that(1) by (simp add: reply_def run_reply_def)
      then show ?thesis
        using al that(1) cl(4) e(1) by (intro answersI [of _ _ _ 2 _ "failed e"]) simp_all
    qed
    moreover have "answers env x cl
        (\<lambda>out. reply ep out = writeError 409 ''already_terminal'' (FromService ErrTerminal)) s"
      if "ep = At_Cancel i" "terminal_state (op_State op)"
    proof -
      have "reply ep (failed ErrTerminal) = writeError 409 ''already_terminal'' (FromService ErrTerminal)"
        using that(1) by (simp add: reply_def cancel_reply_def)
      then show ?thesis
        using al that(1) cl(5) got_For_Cancel [OF that(2)]
        by (intro answersI [of _ _ _ 2 _ "failed ErrTerminal"]) simp_all
    qed
    ultimately show ?thesis using cl(1) Inr by auto
  qed
qed


theorem http_operation_answers_witness:
  "answers demo_svc (at 5) (Call_Get demo_id) (\<lambda>out. rs_Status (reply (At_Status demo_id) out) = 200)
     \<lparr>sy_service = submitted 2, sy_threads = []\<rparr>"
proof -
  let ?s = "\<lparr>sy_service = submitted 2, sy_threads = []\<rparr>"
  let ?hr = "demo_post\<lparr>hr_Method := ''GET'', hr_Path := [''v1'', ''merges'', demo_id]\<rparr>"
  have "Router ?hr = Routed (At_Status demo_id)" by (rule Router_operation(1)) simp_all
  moreover have "find_operation demo_id (sy_service ?s) = Inr (fromRecord demo_record demo_manifest)"
    using demo_submitted_record [of 2] by (simp add: find_operation_def)
  moreover have "serve demo_svc demo_body_json None (\<lambda>_. None) ?hr (sy_service ?s) =
      Calling (At_Status demo_id) (Call_Get demo_id)"
    using calculation(1) by (simp add: serve_def)
  ultimately have "answers demo_svc (at 5) (Call_Get demo_id) (\<lambda>out. reply (At_Status demo_id) out =
      writeJSON 200 (Says_Operation (Some (fromRecord demo_record demo_manifest)))) ?s"
    using http_operation_answers [of ?hr "At_Status demo_id" demo_id demo_svc demo_body_json None "\<lambda>_. None" ?s "at 5"]
    by auto
  then show ?thesis by (auto simp: answers_def)
qed


section \<open>The listing\<close>

lemma digits_dec: "list_all digit (dec n)"
proof (induction n rule: dec.induct)
  case (1 n)
  have "digit (char_of (48 + k))" if "k < 10" for k :: nat
    using that by (simp add: digit_def)
  with 1 show ?case by (subst dec.simps) simp
qed

lemma unsigned_dec: "unsigned_digits (dec n) = (False, dec n)"
proof -
  have "\<not> digit (CHR ''-'')" "\<not> digit (CHR ''+'')" by (simp_all add: digit_def)
  with digits_dec [of n] show ?thesis
    by (cases "dec n") (auto simp: unsigned_digits_def)
qed

lemma limit_of_dec:
  "limit_of (dec n) = (if 1 \<le> n \<and> n \<le> 1000 then Inr (int n) else Inl LimitRange)"
  using digits_dec [of n] by (auto simp: limit_of_def Atoi_def unsigned_dec)

lemma limit_of_range: "limit_of raw = Inl LimitRange \<or> (\<exists>n. limit_of raw = Inr n \<and> 1 \<le> n \<and> n \<le> 1000)"
  by (simp add: limit_of_def not_less split: option.split)

lemma limit_of_cases:
  obtains (bad) "limit_of raw = Inl LimitRange"
    | (good) n where "limit_of raw = Inr n" "1 \<le> n" "n \<le> 1000"
  using limit_of_range [of raw] by blast

text \<open>
  C24: The listing answers 400 for a limit that is no number between 1 and 1000, and for every other
  request 200 with the newest operations in the state asked for, newest first and none twice: as many
  as there are, up to the limit, which is 100 when none is given. The decimal form of every number
  from 1 to 1000 is accepted, that of any other number refused.
\<close>
theorem http_list_bounded:
  assumes "svc_run env ls (system_of (NewService c None j lm a)) = Some s" "Router hr = Routed At_List"
  shows "\<exists>resp. serve env js cx cxs hr (sy_service s) = Answered resp
    \<and> (case limit_of (hr_Limit hr) of
         Inl e \<Rightarrow> resp = writeError 400 ''invalid_limit'' LimitRange
       | Inr n \<Rightarrow> 1 \<le> n \<and> n \<le> 1000 \<and> (hr_Limit hr = [] \<longrightarrow> n = 100)
           \<and> (\<exists>rs. resp = writeJSON 200 (Says_Operations rs (int (length rs)))
                \<and> length rs = min (card {r \<in> ran (table (sv_catalog (sy_service s))). matches (hr_State hr) r}) (nat n)
                \<and> set rs \<subseteq> {r \<in> ran (table (sv_catalog (sy_service s))). matches (hr_State hr) r}
                \<and> distinct rs \<and> sorted_wrt newer rs
                \<and> (\<forall>r\<in>{r \<in> ran (table (sv_catalog (sy_service s))). matches (hr_State hr) r} - set rs.
                     \<forall>r'\<in>set rs. newer r' r)))
    \<and> (\<forall>k. hr_Limit hr = dec k \<longrightarrow> rs_Status resp = (if 1 \<le> k \<and> k \<le> 1000 then 200 else 400))"
proof -
  let ?c = "sv_catalog (sy_service s)"
  have ok: "catalog_ok ?c" using service_okD(1) [OF reached_service [OF assms(1)]] .
  have serve: "serve env js cx cxs hr (sy_service s) = Answered (list_handler hr (sy_service s))"
    using assms(2) by (simp add: serve_def)
  have dec: "rs_Status (list_handler hr (sy_service s)) = (if 1 \<le> k \<and> k \<le> 1000 then 200 else 400)"
    if "hr_Limit hr = dec k" for k
    using that by (simp add: list_handler_def limit_of_dec Let_def)
  have ins: "slice_sorter newer (sort_slice newer)" by (rule newest.ins.slice_sorter_axioms)
  show ?thesis
  proof (cases rule: limit_of_cases [of "hr_Limit hr"])
    case bad
    then have "list_handler hr (sy_service s) = writeError 400 ''invalid_limit'' LimitRange"
      by (simp add: list_handler_def)
    with bad serve dec show ?thesis by auto
  next
    case (good n)
    have "list_handler hr (sy_service s) = writeJSON 200 (Says_Operations
        (ListOperations (hr_State hr) n ?c) (int (length (ListOperations (hr_State hr) n ?c))))"
      using good(1) by (simp add: list_handler_def Service_List_def Let_def)
    note handler = this
    have "list_limit n = n" using good(2,3) by (simp add: list_limit_def)
    note spec = ListOperations_spec [OF ok ins refl, of "hr_State hr" n, unfolded this]
    have empty: "hr_Limit hr = [] \<longrightarrow> n = 100" using good(1) by (auto simp: limit_of_def)
    show ?thesis
      unfolding good(1) sum.case
    proof (intro exI [of _ "list_handler hr (sy_service s)"] conjI)
      show "\<exists>rs. list_handler hr (sy_service s) = writeJSON 200 (Says_Operations rs (int (length rs)))
          \<and> length rs = min (card {r \<in> ran (table ?c). matches (hr_State hr) r}) (nat n)
          \<and> set rs \<subseteq> {r \<in> ran (table ?c). matches (hr_State hr) r} \<and> distinct rs \<and> sorted_wrt newer rs
          \<and> (\<forall>r\<in>{r \<in> ran (table ?c). matches (hr_State hr) r} - set rs. \<forall>r'\<in>set rs. newer r' r)"
        using handler spec by blast
    qed (use serve dec good(2,3) empty in blast)+
  qed
qed


theorem http_list_bounded_witness:
  "\<exists>rs. serve demo_svc demo_body_json None (\<lambda>_. None)
      (demo_post\<lparr>hr_Method := ''GET'', hr_Limit := ''7''\<rparr>) (submitted 2) = Answered (writeJSON 200 (Says_Operations rs 1))
    \<and> set rs \<subseteq> {demo_record}"
proof -
  let ?s = "\<lparr>sy_service = submitted 2, sy_threads = [plain None (Done (Returned (Some demo_op) True None))]\<rparr>"
  let ?hr = "demo_post\<lparr>hr_Method := ''GET'', hr_Limit := ''7''\<rparr>"
  have run: "svc_run demo_svc demo_submit (system_of (demo_service 2)) = Some ?s" by (rule demo_submitted) simp
  have list: "Router ?hr = Routed At_List" by (rule Router_operation(4)) (simp_all add: demo_post_def)
  have "ran (table (sv_catalog (sy_service ?s))) = {demo_record}"
    by (auto simp: table_def submitted_def demo_catalog_def ran_def)
  then have recs: "{r \<in> ran (table (sv_catalog (sy_service ?s))). matches (hr_State ?hr) r} = {demo_record}"
    by (auto simp: matches_def demo_post_def)
  have "''7'' = dec 7" by code_simp
  then have lim: "limit_of (hr_Limit ?hr) = Inr 7" using limit_of_dec [of 7] by simp
  from http_list_bounded [OF run [unfolded demo_system] list, of demo_body_json None "\<lambda>_. None"]
  show ?thesis unfolding recs lim by auto
qed


section \<open>What follows the body\<close>

text \<open>
  \<open>decodeJSON\<close> means to refuse a body with more than one value, but \<open>More\<close> is made for the inside of
  arrays and objects: behind a closing bracket or brace anything goes.
\<close>

lemma trailing_brace_accepted:
  assumes "qj_value js (b @ rest) = Some (rq, rest)" "dropWhile json_space rest = x # xs" "x = 93 \<or> x = 125"
    "length (b @ rest) \<le> max_body"
  shows "decodeJSON js (b @ rest) = Inr rq"
  using assms by (auto simp: decodeJSON_def More_def)

end
