(* ===== verification/Process.thy ===== *)
theory Process
  imports Control
begin

text \<open>
  The process of \<open>cmd/merge-server\<close>: \<open>main\<close> with \<open>Server.Start\<close>, the goroutine that waits for a
  signal and calls \<open>Server.Shutdown\<close>, and the handlers that are running meanwhile. Of the package
  \<open>net/http\<close> the documented behaviour is used: after \<open>Shutdown\<close> has been called \<open>Serve\<close> returns
  \<open>ErrServerClosed\<close> at once and no connection is accepted, but a request may still begin on one that
  was accepted before and is not closed yet; and \<open>Shutdown\<close> itself returns when every connection is
  closed or its context ends. What the network, the operating system and the timer do is a label of the
  step.
\<close>

section \<open>The state\<close>

datatype main_at =
    M_Start
  | M_Serving
  | M_Returned "server_error option"
  | M_Deferred
  | M_Exited int

datatype goroutine_at =
    G_Wait
  | G_Shutdown
  | G_Drain
  | G_Done "server_error option"

text \<open>
  \<open>ps_pending\<close> is the channel \<open>stopped\<close>, with room for one signal; \<open>ps_closing\<close> says that \<open>Shutdown\<close>
  of \<open>http.Server\<close> has been called, \<open>ps_requests\<close> counts the requests being served and
  \<open>ps_conns\<close> the connections on which none is.
\<close>

record process =
  ps_server :: server
  ps_main :: main_at
  ps_signal :: goroutine_at
  ps_pending :: bool
  ps_closing :: bool
  ps_conns :: nat
  ps_requests :: nat
  ps_journal :: journal_store

text \<open>
  The flags, the service and the server. \<open>opened\<close> is what \<open>OpenFileStore\<close> returned for the path of the
  flag: the store of the file's content, or an error, be it of that content or of the file system; on an
  error \<open>log.Fatal\<close> ends the process with 1, and there is no service yet.
\<close>

definition main_start ::
  "string option \<Rightarrow> string option \<Rightarrow> journal_error + file_store \<Rightarrow> process" where
  "main_start listen journalFlag opened =
     (let address = (case listen of None \<Rightarrow> ''127.0.0.1:8080'' | Some a \<Rightarrow> a);
          journalPath = (case journalFlag of None \<Rightarrow> [] | Some p \<Rightarrow> p);
         start = (\<lambda>at j. \<lparr>ps_server = NewServer address, ps_main = at, ps_signal = G_Wait, ps_pending = False,
            ps_closing = False, ps_conns = 0, ps_requests = 0, ps_journal = j\<rparr>)
      in case merge_server journalPath opened of
           Inl e \<Rightarrow> start (M_Exited 1) (MemoryStore NewMemoryStore)
         | Inr sv \<Rightarrow> start M_Start (sv_journal sv))"

text \<open>The journal could not be opened.\<close>

definition no_journal :: "string option \<Rightarrow> journal_error + file_store \<Rightarrow> bool" where
  "no_journal journalFlag opened \<longleftrightarrow>
     (\<exists>p e. journalFlag = Some p \<and> p \<noteq> [] \<and> opened = Inl e)"


section \<open>Steps\<close>

datatype process_label =
    Os_Signal
  | Main_Listen "nat + string"
  | Main_Serve server_error
  | Main_Return
  | Goroutine "nat option"
  | Http_Accept
  | Http_Request
  | Http_Finish bool
  | Http_Close
  | Http_Append io_result event

definition closeJournal :: "journal_store \<Rightarrow> journal_store" where
  "closeJournal j =
     (case j of MemoryStore m \<Rightarrow> MemoryStore m | FileStore f \<Rightarrow> FileStore (File_Close f))"

text \<open>
  The goroutine; \<open>Shutdown\<close> ends without an error once no connection is left (it closes the idle ones,
  \<open>Http_Close\<close>); \<open>expired\<close> is the error of its context once ten seconds have
  passed.
\<close>

definition await_signal :: "nat option \<Rightarrow> process \<Rightarrow> process option" where
  "await_signal expired ps =
     (case ps_signal ps of
        G_Wait \<Rightarrow>
          if ps_pending ps then Some (ps\<lparr>ps_pending := False, ps_signal := G_Shutdown\<rparr>) else None
      | G_Shutdown \<Rightarrow>
          (case sr_listener (ps_server ps) of
             None \<Rightarrow> Some (ps\<lparr>ps_signal := G_Done (Shutdown None (ps_server ps))\<rparr>)
           | Some a \<Rightarrow> Some (ps\<lparr>ps_signal := G_Drain, ps_closing := True\<rparr>))
      | G_Drain \<Rightarrow>
          if ps_requests ps = 0 \<and> ps_conns ps = 0 then Some (ps\<lparr>ps_signal := G_Done (Shutdown None (ps_server ps))\<rparr>)
          else (case expired of
                  None \<Rightarrow> None
                | Some e \<Rightarrow> Some (ps\<lparr>ps_signal := G_Done (Shutdown (Some e) (ps_server ps))\<rparr>))
      | G_Done r \<Rightarrow> None)"

definition serve_ends :: "bool \<Rightarrow> server_error \<Rightarrow> bool" where
  "serve_ends closing e =
     (case e of ErrServerClosed \<Rightarrow> closing | ServeFailed n \<Rightarrow> \<not> closing | _ \<Rightarrow> False)"

text \<open>
  \<open>main\<close>: in \<open>Start\<close>, and after it. When \<open>Start\<close> returns no error the deferred \<open>closeJournal\<close> runs
  and the process ends with 0; \<open>log.Fatal\<close> ends it with 1 and runs nothing.
\<close>

definition main_listen :: "nat + string \<Rightarrow> process \<Rightarrow> process option" where
  "main_listen res ps =
     (if ps_main ps = M_Start then
        (case Start_listen res (ps_server ps) of
           (Some e, s) \<Rightarrow> Some (ps\<lparr>ps_server := s, ps_main := M_Returned (Some e)\<rparr>)
         | (None, s) \<Rightarrow> Some (ps\<lparr>ps_server := s, ps_main := M_Serving\<rparr>))
      else None)"

definition main_return :: "process \<Rightarrow> process option" where
  "main_return ps =
     (case ps_main ps of
        M_Returned None \<Rightarrow> Some (ps\<lparr>ps_journal := closeJournal (ps_journal ps), ps_main := M_Deferred\<rparr>)
      | M_Returned (Some e) \<Rightarrow> Some (ps\<lparr>ps_main := M_Exited 1\<rparr>)
      | M_Deferred \<Rightarrow> Some (ps\<lparr>ps_main := M_Exited 0\<rparr>)
      | _ \<Rightarrow> None)"

definition exited :: "process \<Rightarrow> bool" where
  "exited ps = (case ps_main ps of M_Exited c \<Rightarrow> True | _ \<Rightarrow> False)"

text \<open>
  One step of the process, none after its end. A signal finds the channel empty or is dropped. A
  connection whose request is finished may be kept, but not while the server closes.
\<close>

definition process_step :: "json \<Rightarrow> process_label \<Rightarrow> process \<Rightarrow> process option" where
  "process_step js l ps =
     (if exited ps then None
      else (case l of
          Os_Signal \<Rightarrow> Some (ps\<lparr>ps_pending := True\<rparr>)
        | Main_Listen res \<Rightarrow> main_listen res ps
        | Main_Serve e \<Rightarrow>
            if ps_main ps = M_Serving \<and> serve_ends (ps_closing ps) e
            then Some (ps\<lparr>ps_main := M_Returned (Start_return e)\<rparr>) else None
        | Main_Return \<Rightarrow> main_return ps
        | Goroutine expired \<Rightarrow> await_signal expired ps
        | Http_Accept \<Rightarrow>
            if ps_main ps = M_Serving \<and> \<not> ps_closing ps
            then Some (ps\<lparr>ps_conns := ps_conns ps + 1\<rparr>) else None
        | Http_Request \<Rightarrow>
            if ps_conns ps = 0 then None
            else Some (ps\<lparr>ps_conns := ps_conns ps - 1, ps_requests := ps_requests ps + 1\<rparr>)
        | Http_Finish keep \<Rightarrow>
            if ps_requests ps = 0 then None
            else Some (ps\<lparr>ps_requests := ps_requests ps - 1,
                   ps_conns := ps_conns ps + (if keep \<and> \<not> ps_closing ps then 1 else 0)\<rparr>)
        | Http_Close \<Rightarrow>
            if ps_conns ps = 0 then None else Some (ps\<lparr>ps_conns := ps_conns ps - 1\<rparr>)
        | Http_Append io e \<Rightarrow>
            if ps_requests ps = 0 then None
            else Some (ps\<lparr>ps_journal := snd (Append js io None e (ps_journal ps))\<rparr>)))"

fun process_run :: "json \<Rightarrow> process_label list \<Rightarrow> process \<Rightarrow> process option" where
  "process_run js [] ps = Some ps"
| "process_run js (l # ls) ps =
     (case process_step js l ps of None \<Rightarrow> None | Some ps' \<Rightarrow> process_run js ls ps')"

text \<open>A failure of the network: \<open>net.Listen\<close> or \<open>Serve\<close> returns an error of its own.\<close>

definition network_failure :: "process_label \<Rightarrow> bool" where
  "network_failure l =
     (case l of Main_Listen (Inl e) \<Rightarrow> True | Main_Serve (ServeFailed e) \<Rightarrow> True | _ \<Rightarrow> False)"


section \<open>The invariant\<close>

definition journal_closed :: "journal_store \<Rightarrow> bool" where
  "journal_closed j = (case j of MemoryStore m \<Rightarrow> False | FileStore f \<Rightarrow> fs_closed f)"

definition file_journal :: "journal_store \<Rightarrow> bool" where
  "file_journal j = (case j of MemoryStore m \<Rightarrow> False | FileStore f \<Rightarrow> True)"

lemma closeJournal_closed [simp]:
  "journal_closed (closeJournal j) = file_journal j" "file_journal (closeJournal j) = file_journal j"
  by (simp_all add: closeJournal_def journal_closed_def file_journal_def File_Close_def split: journal_store.split)

lemma Append_kind [simp]:
  "journal_closed (snd (Append js io cx e j)) = journal_closed j"
  "file_journal (snd (Append js io cx e j)) = file_journal j"
  by (auto simp: Append_def File_Append_def journal_closed_def file_journal_def Let_def
      split: journal_store.split prod.split sum.split option.split io_result.split)

lemma Append_closed: "journal_closed j \<Longrightarrow> fst (Append js io None e j) = Inl JournalClosed"
  by (auto simp: Append_def File_Append_def journal_closed_def split: journal_store.splits prod.splits)

text \<open>What the goroutine's counter says of the server, and what \<open>main\<close>'s says.\<close>

definition signal_ok :: "process \<Rightarrow> bool" where
  "signal_ok ps =
     (case ps_signal ps of
        G_Wait \<Rightarrow> \<not> ps_closing ps
      | G_Shutdown \<Rightarrow> \<not> ps_closing ps
      | G_Drain \<Rightarrow> ps_closing ps \<and> sr_listener (ps_server ps) \<noteq> None
      | G_Done None \<Rightarrow> ps_closing ps \<and> sr_listener (ps_server ps) \<noteq> None \<and> ps_requests ps = 0
          \<and> ps_conns ps = 0
      | G_Done (Some NotStarted) \<Rightarrow> \<not> ps_closing ps
      | G_Done (Some e) \<Rightarrow> ps_closing ps \<and> sr_listener (ps_server ps) \<noteq> None)"

definition main_ok :: "process \<Rightarrow> bool" where
  "main_ok ps =
     (case ps_main ps of
        M_Start \<Rightarrow> sr_listener (ps_server ps) = None \<and> \<not> journal_closed (ps_journal ps)
      | M_Serving \<Rightarrow> sr_listener (ps_server ps) \<noteq> None \<and> \<not> journal_closed (ps_journal ps)
      | M_Returned None \<Rightarrow> ps_closing ps \<and> \<not> journal_closed (ps_journal ps)
      | M_Returned (Some e) \<Rightarrow> \<not> journal_closed (ps_journal ps)
      | M_Deferred \<Rightarrow> ps_closing ps \<and> journal_closed (ps_journal ps) = file_journal (ps_journal ps)
      | M_Exited c \<Rightarrow>
          c = 0 \<and> ps_closing ps \<and> journal_closed (ps_journal ps) = file_journal (ps_journal ps)
          \<or> c = 1 \<and> \<not> journal_closed (ps_journal ps))"

definition process_ok :: "process \<Rightarrow> bool" where
  "process_ok ps \<longleftrightarrow> signal_ok ps \<and> main_ok ps"

lemma process_okI: "signal_ok ps \<Longrightarrow> main_ok ps \<Longrightarrow> process_ok ps"
  by (simp add: process_ok_def)

text \<open>The moves of the process, one by one.\<close>

inductive process_move :: "json \<Rightarrow> process_label \<Rightarrow> process \<Rightarrow> process \<Rightarrow> bool" for js where
  signalled: "\<not> exited ps \<Longrightarrow> process_move js Os_Signal ps (ps\<lparr>ps_pending := True\<rparr>)"
| no_listener: "ps_main ps = M_Start \<Longrightarrow>
    process_move js (Main_Listen (Inl e)) ps (ps\<lparr>ps_main := M_Returned (Some (ListenFailed e))\<rparr>)"
| listening: "ps_main ps = M_Start \<Longrightarrow>
    process_move js (Main_Listen (Inr a)) ps
      (ps\<lparr>ps_server := (ps_server ps)\<lparr>sr_listener := Some a\<rparr>, ps_main := M_Serving\<rparr>)"
| serve_failed: "ps_main ps = M_Serving \<Longrightarrow> \<not> ps_closing ps \<Longrightarrow>
    process_move js (Main_Serve (ServeFailed n)) ps (ps\<lparr>ps_main := M_Returned (Some (ServeFailed n))\<rparr>)"
| serve_closed: "ps_main ps = M_Serving \<Longrightarrow> ps_closing ps \<Longrightarrow>
    process_move js (Main_Serve ErrServerClosed) ps (ps\<lparr>ps_main := M_Returned None\<rparr>)"
| deferred: "ps_main ps = M_Returned None \<Longrightarrow>
    process_move js Main_Return ps (ps\<lparr>ps_journal := closeJournal (ps_journal ps), ps_main := M_Deferred\<rparr>)"
| fatal: "ps_main ps = M_Returned (Some e) \<Longrightarrow> process_move js Main_Return ps (ps\<lparr>ps_main := M_Exited 1\<rparr>)"
| ended: "ps_main ps = M_Deferred \<Longrightarrow> process_move js Main_Return ps (ps\<lparr>ps_main := M_Exited 0\<rparr>)"
| taken: "\<not> exited ps \<Longrightarrow> ps_signal ps = G_Wait \<Longrightarrow> ps_pending ps \<Longrightarrow>
    process_move js (Goroutine x) ps (ps\<lparr>ps_pending := False, ps_signal := G_Shutdown\<rparr>)"
| too_early: "\<not> exited ps \<Longrightarrow> ps_signal ps = G_Shutdown \<Longrightarrow> sr_listener (ps_server ps) = None \<Longrightarrow>
    process_move js (Goroutine x) ps (ps\<lparr>ps_signal := G_Done (Some NotStarted)\<rparr>)"
| closing: "\<not> exited ps \<Longrightarrow> ps_signal ps = G_Shutdown \<Longrightarrow> sr_listener (ps_server ps) \<noteq> None \<Longrightarrow>
    process_move js (Goroutine x) ps (ps\<lparr>ps_signal := G_Drain, ps_closing := True\<rparr>)"
| drained: "\<not> exited ps \<Longrightarrow> ps_signal ps = G_Drain \<Longrightarrow> ps_requests ps = 0 \<Longrightarrow> ps_conns ps = 0 \<Longrightarrow>
    process_move js (Goroutine x) ps (ps\<lparr>ps_signal := G_Done (Shutdown None (ps_server ps))\<rparr>)"
| expired: "\<not> exited ps \<Longrightarrow> ps_signal ps = G_Drain \<Longrightarrow> ps_requests ps \<noteq> 0 \<or> ps_conns ps \<noteq> 0 \<Longrightarrow>
    process_move js (Goroutine (Some e)) ps (ps\<lparr>ps_signal := G_Done (Shutdown (Some e) (ps_server ps))\<rparr>)"
| accepted: "ps_main ps = M_Serving \<Longrightarrow> \<not> ps_closing ps \<Longrightarrow>
    process_move js Http_Accept ps (ps\<lparr>ps_conns := Suc (ps_conns ps)\<rparr>)"
| begun: "\<not> exited ps \<Longrightarrow> 0 < ps_conns ps \<Longrightarrow>
    process_move js Http_Request ps (ps\<lparr>ps_conns := ps_conns ps - Suc 0, ps_requests := Suc (ps_requests ps)\<rparr>)"
| kept: "\<not> exited ps \<Longrightarrow> 0 < ps_requests ps \<Longrightarrow> \<not> ps_closing ps \<Longrightarrow>
    process_move js (Http_Finish True) ps
      (ps\<lparr>ps_requests := ps_requests ps - Suc 0, ps_conns := Suc (ps_conns ps)\<rparr>)"
| finished: "\<not> exited ps \<Longrightarrow> 0 < ps_requests ps \<Longrightarrow> keep \<longrightarrow> ps_closing ps \<Longrightarrow>
    process_move js (Http_Finish keep) ps (ps\<lparr>ps_requests := ps_requests ps - Suc 0\<rparr>)"
| dropped: "\<not> exited ps \<Longrightarrow> 0 < ps_conns ps \<Longrightarrow>
    process_move js Http_Close ps (ps\<lparr>ps_conns := ps_conns ps - Suc 0\<rparr>)"
| appends: "\<not> exited ps \<Longrightarrow> ps_requests ps \<noteq> 0 \<Longrightarrow>
    process_move js (Http_Append io e) ps (ps\<lparr>ps_journal := snd (Append js io None e (ps_journal ps))\<rparr>)"

lemma listen_move: "main_listen res ps = Some ps' \<Longrightarrow> process_move js (Main_Listen res) ps ps'"
  by (cases res) (auto simp: main_listen_def Start_listen_def intro: process_move.intros split: if_splits)

lemma return_move:
  assumes "main_return ps = Some ps'"
  shows "process_move js Main_Return ps ps'"
proof (cases "ps_main ps")
  case (M_Returned r)
  with assms show ?thesis by (cases r) (auto simp: main_return_def intro: process_move.intros)
qed (use assms in \<open>auto simp: main_return_def intro: process_move.intros\<close>)

lemma goroutine_move:
  assumes "await_signal x ps = Some ps'" "\<not> exited ps"
  shows "process_move js (Goroutine x) ps ps'"
proof (cases "ps_signal ps")
  case G_Wait
  with assms show ?thesis by (auto simp: await_signal_def intro: process_move.intros split: if_splits)
next
  case G_Shutdown
  have "Shutdown None (ps_server ps) = Some NotStarted" if "sr_listener (ps_server ps) = None"
    using that by (simp add: Shutdown_def)
  with G_Shutdown assms show ?thesis
    by (auto simp: await_signal_def intro: process_move.intros split: option.splits)
next
  case G_Drain
  with assms show ?thesis
    by (auto simp: await_signal_def intro: process_move.intros split: option.splits if_splits)
qed (use assms in \<open>simp add: await_signal_def\<close>)

lemma process_step_move:
  assumes s: "process_step js l ps = Some ps'"
  shows "process_move js l ps ps'"
proof -
  have run: "\<not> exited ps" using s by (auto simp: process_step_def split: if_splits)
  show ?thesis
  proof (cases l)
    case (Main_Serve e)
    with s run show ?thesis
      by (cases e) (auto simp: process_step_def serve_ends_def Start_return_def intro: process_move.intros
          split: if_splits)
  next
    case (Http_Finish keep)
    have "ps\<lparr>ps_requests := n, ps_conns := ps_conns ps\<rparr> = ps\<lparr>ps_requests := n\<rparr>" for n by simp
    with Http_Finish s run show ?thesis
      by (cases "keep \<and> \<not> ps_closing ps") (auto simp: process_step_def intro: process_move.intros split: if_splits)
  qed (use s run in \<open>auto simp: process_step_def intro: process_move.intros listen_move return_move
      goroutine_move split: if_splits\<close>)
qed

lemma exited_simps [simp]:
  "ps_main ps = M_Exited c \<Longrightarrow> exited ps" "ps_main ps = M_Start \<Longrightarrow> \<not> exited ps"
  "ps_main ps = M_Serving \<Longrightarrow> \<not> exited ps" "ps_main ps = M_Deferred \<Longrightarrow> \<not> exited ps"
  "ps_main ps = M_Returned r \<Longrightarrow> \<not> exited ps"
  by (simp_all add: exited_def)

lemma signal_ok_move: "process_move js l ps ps' \<Longrightarrow> signal_ok ps \<Longrightarrow> main_ok ps \<Longrightarrow> signal_ok ps'"
  by (induction rule: process_move.induct)
    (auto simp: signal_ok_def main_ok_def Shutdown_def split: goroutine_at.splits option.splits server_error.splits)

lemma main_ok_move: "process_move js l ps ps' \<Longrightarrow> signal_ok ps \<Longrightarrow> main_ok ps \<Longrightarrow> main_ok ps'"
  by (induction rule: process_move.induct)
    (auto simp: main_ok_def split: main_at.splits option.splits)

lemma process_ok_run: "process_run js ls ps = Some ps' \<Longrightarrow> process_ok ps \<Longrightarrow> process_ok ps'"
proof (induction ls arbitrary: ps)
  case (Cons l ls)
  then obtain t where t: "process_step js l ps = Some t" "process_run js ls t = Some ps'"
    by (auto split: option.splits)
  have "process_ok t"
    using Cons.prems(2) signal_ok_move [OF process_step_move [OF t(1)]] main_ok_move [OF process_step_move [OF t(1)]]
    by (simp add: process_ok_def)
  with Cons.IH [OF t(2)] show ?case .
qed simp

lemma main_start_fields:
  assumes "ps = main_start listen path opened" "\<And>f. opened = Inr f \<Longrightarrow> OpenFileStore js p data = Inr f"
  shows "ps_main ps = (if no_journal path opened then M_Exited 1 else M_Start)"
    "ps_signal ps = G_Wait" "\<not> ps_pending ps" "process_ok ps"
proof -
  have "\<not> fs_closed f" if "opened = Inr f" for f
    using assms(2) [OF that] by (auto simp: OpenFileStore_def split: if_splits sum.splits)
  then show "ps_main ps = (if no_journal path opened then M_Exited 1 else M_Start)"
    "ps_signal ps = G_Wait" "\<not> ps_pending ps" "process_ok ps"
    unfolding assms(1)
    by (auto simp: main_start_def merge_server_def NewService_def NewServer_def Let_def process_ok_def
        signal_ok_def main_ok_def journal_closed_def no_journal_def split: sum.split option.split)
qed

lemma exited_run: "exited ps \<Longrightarrow> process_run js ls ps = Some ps' \<Longrightarrow> ps' = ps \<and> ls = []"
  by (cases ls) (simp_all add: process_step_def)

lemma process_run_append:
  "process_run js (ls @ ls') ps = Option.bind (process_run js ls ps) (process_run js ls')"
  by (induction ls arbitrary: ps) (auto split: option.split)

text \<open>Without a signal the goroutine waits; without a failure of the network no error is returned.\<close>

lemma waits_move:
  "process_move js l ps ps' \<Longrightarrow> l \<noteq> Os_Signal \<Longrightarrow> ps_signal ps = G_Wait \<and> \<not> ps_pending ps \<Longrightarrow>
   ps_signal ps' = G_Wait \<and> \<not> ps_pending ps'"
  by (induction rule: process_move.induct) auto

lemma waits_run:
  "process_run js ls ps = Some ps' \<Longrightarrow> Os_Signal \<notin> set ls \<Longrightarrow> ps_signal ps = G_Wait \<and> \<not> ps_pending ps \<Longrightarrow>
   ps_signal ps' = G_Wait"
  by (induction ls arbitrary: ps) (auto split: option.splits dest: process_step_move waits_move)

definition gave_up :: "process \<Rightarrow> bool" where
  "gave_up ps =
     (case ps_main ps of M_Returned (Some e) \<Rightarrow> True | M_Exited c \<Rightarrow> c \<noteq> 0 | _ \<Rightarrow> False)"

lemma gave_up_move:
  "process_move js l ps ps' \<Longrightarrow> \<not> network_failure l \<Longrightarrow> \<not> gave_up ps \<Longrightarrow> \<not> gave_up ps'"
  by (induction rule: process_move.induct) (auto simp: network_failure_def gave_up_def)

lemma gave_up_run:
  "process_run js ls ps = Some ps' \<Longrightarrow> \<forall>l\<in>set ls. \<not> network_failure l \<Longrightarrow> \<not> gave_up ps \<Longrightarrow> \<not> gave_up ps'"
proof (induction ls arbitrary: ps)
  case (Cons l ls)
  then obtain t where "process_step js l ps = Some t" "process_run js ls t = Some ps'"
    by (auto split: option.splits)
  with Cons show ?case using gave_up_move [OF process_step_move] by simp
qed simp

text \<open>Once the goroutine has given up, no signal is listened to any more.\<close>

lemma deaf_move:
  "process_move js l ps ps' \<Longrightarrow> ps_signal ps = G_Done r \<Longrightarrow> ps_signal ps' = G_Done r"
  by (induction rule: process_move.induct) auto

lemma deaf_run: "process_run js ls ps = Some ps' \<Longrightarrow> ps_signal ps = G_Done r \<Longrightarrow> ps_signal ps' = G_Done r"
  by (induction ls arbitrary: ps) (auto split: option.splits dest: process_step_move deaf_move)


text \<open>A server with an empty journal file, and one that serves two requests.\<close>

definition small_file :: file_store where
  "small_file = \<lparr>fs_data = [], fs_next = 0, fs_closed = False\<rparr>"

definition small_start :: process where
  "small_start =
     \<lparr>ps_server = NewServer ''127.0.0.1:8080'', ps_main = M_Start, ps_signal = G_Wait,
      ps_pending = False, ps_closing = False, ps_conns = 0, ps_requests = 0, ps_journal = FileStore small_file\<rparr>"

definition small_serving :: process where
  "small_serving = small_start\<lparr>ps_server := (NewServer ''127.0.0.1:8080'')\<lparr>sr_listener := Some ''a''\<rparr>,
     ps_main := M_Serving, ps_requests := 2\<rparr>"

lemma small_open: "OpenFileStore js ''j'' [] = Inr small_file"
  by (simp add: OpenFileStore_def decodeStream_def empty_replay_def small_file_def)

lemma small_main: "small_start = main_start None (Some ''j'') (OpenFileStore js ''j'' [])"
  by (simp add: small_open main_start_def merge_server_def NewService_def small_start_def)

lemma small_to_serving:
  "process_run js [Main_Listen (Inr ''a''), Http_Accept, Http_Accept, Http_Request, Http_Request] small_start = Some small_serving"
  by (simp add: process_step_def main_listen_def Start_listen_def exited_def small_start_def
      small_serving_def NewServer_def)


section \<open>Properties\<close>

text \<open>
  C25: How the server process ends. It exits with 0 only after a signal, when \<open>Shutdown\<close> has been
  called on the listening server, and then a file journal has been closed; it exits with 1 only where the
  journal of its flag could not be opened, or after a failure of \<open>net.Listen\<close> or \<open>Serve\<close>, and then the
  journal has not been closed; it exits with nothing else. Where \<open>Shutdown\<close> has returned no
  error, no request is being served and no connection is left.
\<close>
theorem exit_ordered:
  assumes "ps0 = main_start listen path opened" "\<And>f. opened = Inr f \<Longrightarrow> OpenFileStore js p data = Inr f"
    "process_run js ls ps0 = Some ps"
  shows "(ps_main ps = M_Exited c \<longrightarrow>
      c = 0 \<and> Os_Signal \<in> set ls \<and> ps_closing ps \<and> journal_closed (ps_journal ps) = file_journal (ps_journal ps)
      \<or> c = 1 \<and> (no_journal path opened \<or> (\<exists>l\<in>set ls. network_failure l)) \<and> \<not> journal_closed (ps_journal ps))
    \<and> (no_journal path opened \<longrightarrow> ps_main ps = M_Exited 1)
    \<and> (ps_signal ps = G_Done None \<longrightarrow> ps_requests ps = 0 \<and> ps_conns ps = 0)"
proof -
  note start = main_start_fields [OF assms(1,2)]
  have ok: "signal_ok ps" "main_ok ps"
    using process_ok_run [OF assms(3) start(4)] by (simp_all add: process_ok_def)
  have "ps_signal ps \<noteq> G_Wait" if "ps_closing ps"
    using ok(1) that by (auto simp: signal_ok_def)
  then have "Os_Signal \<in> set ls" if "ps_closing ps"
    using waits_run [OF assms(3)] start(2,3) that by blast
  moreover have "no_journal path opened \<or> (\<exists>l\<in>set ls. network_failure l)" if "ps_main ps = M_Exited 1"
    using gave_up_run [OF assms(3)] start(1) that
    by (cases "no_journal path opened") (auto simp: gave_up_def)
  moreover have "ps_main ps = M_Exited 1" if "no_journal path opened"
    using exited_run [OF _ assms(3)] start(1) that by simp
  ultimately show ?thesis using ok by (auto simp: main_ok_def signal_ok_def)
qed

theorem exit_ordered_witness:
  "\<exists>ps. process_run (se_json demo_svc) ([Main_Listen (Inr ''a''), Http_Accept, Http_Accept, Http_Request, Http_Request] @
      [Os_Signal, Goroutine None, Goroutine None, Main_Serve ErrServerClosed, Main_Return] @ [Main_Return]) small_start
      = Some ps
    \<and> ps_main ps = M_Exited 0 \<and> journal_closed (ps_journal ps)"
proof -
  let ?js = "se_json demo_svc" and ?ps = "small_serving\<lparr>ps_signal := G_Drain, ps_closing := True,
      ps_journal := FileStore (File_Close small_file), ps_main := M_Exited 0\<rparr>"
  let ?ls = "[Main_Listen (Inr ''a''), Http_Accept, Http_Accept, Http_Request, Http_Request] @
      [Os_Signal, Goroutine None, Goroutine None, Main_Serve ErrServerClosed, Main_Return] @ [Main_Return]"
  have "process_run ?js ?ls small_start = Some ?ps"
    unfolding process_run_append small_to_serving
    by (simp add: process_step_def await_signal_def main_return_def serve_ends_def Start_return_def exited_def
        small_serving_def small_start_def closeJournal_def)
  moreover have "ps_main ?ps = M_Exited 0" "file_journal (ps_journal ?ps)" by (simp_all add: file_journal_def)
  moreover have "journal_closed (ps_journal ?ps)"
    using exit_ordered [where c = 0 and p = "''j''" and data = "[]", OF small_main _ calculation(1)] calculation(2,3) by simp
  ultimately show ?thesis by blast
qed

text \<open>
  C26: A signal stops a server that is listening, but does not wait for it: from every state in
  which it serves and no signal has been taken, the process can exit with 0 in six moves none of which is a
  handler's, so with all its requests unfinished. For \<open>Serve\<close> and \<open>Start\<close> return as soon as \<open>Shutdown\<close>
  has been called, and \<open>main\<close> returns with them. A file journal is closed before that, and what
  the handlers still append to it is lost.
\<close>
theorem exit_cuts_requests:
  assumes "ps0 = main_start listen path opened" "\<And>f. opened = Inr f \<Longrightarrow> OpenFileStore js p data = Inr f"
    "process_run js ls ps0 = Some ps" "ps_main ps = M_Serving" "ps_signal ps = G_Wait"
  shows "\<exists>ps1 ps2.
    process_run js [Os_Signal, Goroutine None, Goroutine None, Main_Serve ErrServerClosed, Main_Return] ps = Some ps1
    \<and> ps_requests ps1 = ps_requests ps
    \<and> (file_journal (ps_journal ps) \<longrightarrow>
         (\<forall>io e. fst (Append js io None e (ps_journal ps1)) = Inl JournalClosed))
    \<and> process_step js Main_Return ps1 = Some ps2
    \<and> ps_main ps2 = M_Exited 0 \<and> ps_requests ps2 = ps_requests ps \<and> (\<forall>l. process_step js l ps2 = None)"
proof -
  have "main_ok ps"
    using process_ok_run [OF assms(3) main_start_fields(4) [OF assms(1,2)]] by (simp add: process_ok_def)
  then obtain a where a: "sr_listener (ps_server ps) = Some a" using assms(4) by (auto simp: main_ok_def)
  let ?ps1 = "ps\<lparr>ps_pending := False, ps_signal := G_Drain, ps_closing := True,
      ps_journal := closeJournal (ps_journal ps), ps_main := M_Deferred\<rparr>"
  have "process_run js [Os_Signal, Goroutine None, Goroutine None, Main_Serve ErrServerClosed, Main_Return] ps = Some ?ps1"
    using assms(4,5) a
    by (simp add: process_step_def await_signal_def main_return_def serve_ends_def Start_return_def exited_def)
  moreover have "fst (Append js io None e (closeJournal (ps_journal ps))) = Inl JournalClosed"
    if "file_journal (ps_journal ps)" for io e
    by (rule Append_closed) (simp add: that)
  ultimately show ?thesis
    by (intro exI [of _ ?ps1] exI [of _ "?ps1\<lparr>ps_main := M_Exited 0\<rparr>"])
      (simp add: process_step_def main_return_def exited_def)
qed

theorem exit_cuts_requests_witness:
  "\<exists>ps1 ps2.
     process_run (se_json demo_svc)
       [Os_Signal, Goroutine None, Goroutine None, Main_Serve ErrServerClosed, Main_Return] small_serving = Some ps1
     \<and> (\<forall>io e. fst (Append (se_json demo_svc) io None e (ps_journal ps1)) = Inl JournalClosed)
     \<and> process_step (se_json demo_svc) Main_Return ps1 = Some ps2
     \<and> ps_main ps2 = M_Exited 0 \<and> ps_requests ps2 = 2"
proof -
  have at: "ps_main small_serving = M_Serving" "ps_signal small_serving = G_Wait"
    "file_journal (ps_journal small_serving)" "ps_requests small_serving = 2"
    by (simp_all add: small_serving_def small_start_def file_journal_def)
  show ?thesis
    using exit_cuts_requests [where p = "''j''" and data = "[]", OF small_main _ small_to_serving at(1,2)] at(3,4) by fastforce
qed

text \<open>
  A signal that arrives before the server listens is lost, and every later one with it: once
  \<open>Shutdown\<close> has answered that the server has not started, the goroutine is gone, its error is
  dropped, and as long as the network does not fail no schedule, with whatever further signals,
  brings the process to an end.
\<close>
theorem early_signal_lost:
  assumes "ps0 = main_start listen path opened" "\<And>f. opened = Inr f \<Longrightarrow> OpenFileStore js p data = Inr f"
    "process_run js ls ps0 = Some ps" "ps_signal ps = G_Done (Some NotStarted)"
    "process_run js ls' ps = Some ps'" "\<forall>l\<in>set (ls @ ls'). \<not> network_failure l"
  shows "ps_main ps' \<in> {M_Start, M_Serving} \<and> \<not> ps_closing ps' \<and> ps_signal ps' = ps_signal ps"
proof -
  note start = main_start_fields [OF assms(1,2)]
  have run: "process_run js (ls @ ls') ps0 = Some ps'" using assms(3,5) by (simp add: process_run_append)
  have ok: "signal_ok ps'" "main_ok ps'" using process_ok_run [OF run start(4)] by (simp_all add: process_ok_def)
  have lost: "ps_signal ps' = G_Done (Some NotStarted)" using deaf_run [OF assms(5,4)] .
  then have "\<not> ps_closing ps'" using ok(1) by (simp add: signal_ok_def)
  moreover have "\<not> no_journal path opened"
    using exited_run [OF _ assms(3)] start(1,2) assms(4) by (cases "no_journal path opened") auto
  then have "\<not> gave_up ps'"
    using gave_up_run [OF run assms(6)] start(1) by (simp add: gave_up_def)
  ultimately show ?thesis
    using ok(2) lost assms(4) by (cases "ps_main ps'") (auto simp: main_ok_def gave_up_def split: option.splits)
qed


theorem early_signal_lost_witness:
  "\<exists>ps ps'. process_run (se_json demo_svc) [Os_Signal, Goroutine None, Goroutine None] small_start = Some ps
     \<and> process_run (se_json demo_svc) [Main_Listen (Inr ''a''), Http_Accept, Http_Request, Os_Signal, Os_Signal] ps = Some ps'
     \<and> ps_main ps' \<in> {M_Start, M_Serving}"
proof -
  let ?js = "se_json demo_svc" and ?ps = "small_start\<lparr>ps_signal := G_Done (Some NotStarted)\<rparr>"
  let ?ls = "[Os_Signal, Goroutine None, Goroutine None]"
  let ?ls' = "[Main_Listen (Inr ''a''), Http_Accept, Http_Request, Os_Signal, Os_Signal]"
  have early: "process_run ?js ?ls small_start = Some ?ps"
    by (simp add: process_step_def await_signal_def Shutdown_def exited_def small_start_def NewServer_def)
  obtain ps' where later: "process_run ?js ?ls' ?ps = Some ps'"
    by (simp add: process_step_def main_listen_def Start_listen_def exited_def small_start_def NewServer_def)
  have "\<forall>l\<in>set (?ls @ ?ls'). \<not> network_failure l" by (simp add: network_failure_def)
  from early_signal_lost [where p = "''j''" and data = "[]", OF small_main _ early _ later this] early later show ?thesis by simp
qed

end
