(* ===== verification/Identifiers.thy ===== *)
theory Identifiers
  imports Calls
begin

text \<open>
  The identifiers of operations, made from a counter. In every reachable state the identifier that a
  submission is about to use is new: the catalog has no record under it and no other submission
  carries it. So \<open>Create\<close> never fails for an identifier that exists.
\<close>

section \<open>Identifiers in use\<close>

text \<open>The identifier under which a submission is about to create a record.\<close>

definition creating :: "pc \<Rightarrow> string option" where
  "creating c = (case c of S_Create op rq \<Rightarrow> Some (op_ID op) | _ \<Rightarrow> None)"

lemma creating_simps [simp]:
  "creating (S_Create op rq) = Some (op_ID op)"
  "(\<And>op rq. c \<noteq> S_Create op rq) \<Longrightarrow> creating c = None"
  by (auto simp: creating_def split: pc.split)

lemma creating_cancel [simp]: "creating (cancel_pc e c) = creating c"
  by (cases c) (simp_all add: cancel_pc_def)

definition drafts :: "thread list \<Rightarrow> string option list" where
  "drafts ths = map (\<lambda>th. creating (th_pc th)) ths"

lemma drafts_simps [simp]:
  "drafts (ths @ ths') = drafts ths @ drafts ths'" "drafts [th] = [creating (th_pc th)]"
  "drafts (ths[i := th]) = (drafts ths)[i := creating (th_pc th)]" "length (drafts ths) = length ths"
  "i < length ths \<Longrightarrow> drafts ths ! i = creating (th_pc (ths ! i))"
  by (simp_all add: drafts_def map_update)

lemma drafts_same: "i < length ths \<Longrightarrow> creating (th_pc th) = creating (th_pc (ths ! i)) \<Longrightarrow>
    drafts (ths[i := th]) = drafts ths"
  by (metis drafts_simps(3,5) list_update_id)

lemma drafts_signal [simp]: "drafts (signal sig ths) = drafts ths"
proof (cases sig)
  case (Some j)
  then show ?thesis
    using drafts_same [of j ths "cancel_worker Canceled (ths ! j)"]
    by (simp add: signal_def cancel_worker_def del: drafts_simps(3))
qed (simp add: signal_def)

text \<open>
  The identifiers of a counter that stands at \<open>q\<close>; those of the catalog \<open>D\<close> and those that
  submissions carry are among them, and all different.
\<close>

definition numbered_id :: "u64 \<Rightarrow> string \<Rightarrow> bool" where
  "numbered_id q i \<longleftrightarrow> (\<exists>p m. i = operation_id p m \<and> m \<le> q)"

definition fresh :: "u64 \<Rightarrow> string set \<Rightarrow> string option list \<Rightarrow> bool" where
  "fresh q D ds \<longleftrightarrow>
     (\<forall>i\<in>D. numbered_id q i)
     \<and> (\<forall>j<length ds. \<forall>i. ds ! j = Some i \<longrightarrow>
          numbered_id q i \<and> i \<notin> D \<and> (\<forall>k<length ds. ds ! k = Some i \<longrightarrow> k = j))"

lemma freshI:
  assumes "\<And>i. i \<in> D \<Longrightarrow> numbered_id q i"
    "\<And>j i. j < length ds \<Longrightarrow> ds ! j = Some i \<Longrightarrow> numbered_id q i \<and> i \<notin> D"
    "\<And>j k i. j < length ds \<Longrightarrow> k < length ds \<Longrightarrow> ds ! j = Some i \<Longrightarrow> ds ! k = Some i \<Longrightarrow> k = j"
  shows "fresh q D ds"
  using assms by (auto simp: fresh_def)

lemma freshD:
  assumes "fresh q D ds"
  shows "i \<in> D \<Longrightarrow> numbered_id q i" "j < length ds \<Longrightarrow> ds ! j = Some i \<Longrightarrow> numbered_id q i"
    "j < length ds \<Longrightarrow> ds ! j = Some i \<Longrightarrow> i \<notin> D"
    "j < length ds \<Longrightarrow> ds ! j = Some i \<Longrightarrow> k < length ds \<Longrightarrow> ds ! k = Some i \<Longrightarrow> k = j"
  using assms by (auto simp: fresh_def)

lemma fresh_start: "fresh 0 {} []"
  by (simp add: fresh_def)

lemma fresh_append: "fresh q D ds \<Longrightarrow> fresh q D (ds @ [None])"
  by (auto simp: fresh_def nth_append less_Suc_eq split: if_splits)

lemma dropped: "k < length ds \<Longrightarrow> ds[j := None] ! k = Some i \<longleftrightarrow> k \<noteq> j \<and> ds ! k = Some i"
  by (cases "k = j") auto

lemma fresh_create:
  assumes f: "fresh q D ds" and D: "D' \<subseteq> D \<or> j < length ds \<and> (\<exists>x. ds ! j = Some x \<and> D' \<subseteq> insert x D)"
  shows "fresh q D' (ds[j := None])"
proof (rule freshI)
  have other: "i \<notin> D'" if "k < length ds" "k \<noteq> j" "ds ! k = Some i" for k i
    using D freshD(3,4) [OF f that(1,3)] that(2) by blast
  show "numbered_id q i" if "i \<in> D'" for i
    using that D freshD(1,2) [OF f] by blast
  show "numbered_id q i \<and> i \<notin> D'" if "k < length (ds[j := None])" "ds[j := None] ! k = Some i" for k i
    using that other [of k i] freshD(2) [OF f, of k i] by (simp add: dropped)
  show "l = k" if "k < length (ds[j := None])" "l < length (ds[j := None])"
    "ds[j := None] ! k = Some i" "ds[j := None] ! l = Some i" for k l i
    using that freshD(4) [OF f, of k i l] by (simp add: dropped)
qed

text \<open>The next number makes a new identifier, as long as the counter does not wrap.\<close>

lemma next_number: "numbered_id q i \<Longrightarrow> q < q + 1 \<Longrightarrow> i \<noteq> operation_id p (q + 1)"
  by (auto simp: numbered_id_def dest: operation_id_inj)

lemma fresh_number:
  assumes f: "fresh q D ds" and q: "q < q + 1"
  shows "fresh (q + 1) D (ds[j := Some (operation_id p (q + 1))])"
proof (rule freshI)
  have "m \<le> q + 1" if "m \<le> q" for m using order.trans [OF that less_imp_le [OF q]] .
  then have more: "numbered_id (q + 1) i" if "numbered_id q i" for i
    using that unfolding numbered_id_def by blast
  have new: "numbered_id (q + 1) (operation_id p (q + 1))" by (auto simp: numbered_id_def)
  show "numbered_id (q + 1) i" if "i \<in> D" for i using freshD(1) [OF f that] more by blast
  let ?ds = "ds[j := Some (operation_id p (q + 1))]"
  fix k i
  assume k: "k < length ?ds" "?ds ! k = Some i"
  show "numbered_id (q + 1) i \<and> i \<notin> D"
    using k more new freshD [OF f] next_number [OF _ q, of i p] by (cases "k = j") auto
  show "l = k" if l: "l < length ?ds" "?ds ! l = Some i" for l
    using k l freshD(4) [OF f] next_number [OF freshD(2) [OF f] q]
    by (cases "k = j"; cases "l = j") (auto, blast+)
qed


section \<open>The sections\<close>

definition known_ids :: "service \<Rightarrow> string set" where
  "known_ids sv = dom (table (sv_catalog sv))"

lemma known_ids_same [simp]:
  "known_ids (sv\<lparr>sv_requests := rqs\<rparr>) = known_ids sv" "known_ids (sv\<lparr>sv_cancels := cs\<rparr>) = known_ids sv"
  "known_ids (sv\<lparr>sv_leases := lm\<rparr>) = known_ids sv"
  "known_ids (snd (submit_append env inp cx op n sv)) = known_ids sv"
  "known_ids (snd (run_started env inp cx run l t n sv)) = known_ids sv"
  "known_ids (snd (run_completed env inp cx op l r rq res sv)) = known_ids sv"
  "known_ids (snd (finish_append env inp cx run f l r e d bg sv)) = known_ids sv"
  "known_ids (snd (cancel_append env inp cx op r t sv)) = known_ids sv"
  by (simp_all add: known_ids_def append_tables)

lemma update_record_dom:
  "update_record op n sv = (u, sv') \<Longrightarrow>
   dom (table (sv_catalog sv')) = dom (table (sv_catalog sv)) \<and> sv_sequence sv' = sv_sequence sv"
  using Update_table [of "toRecord op" n "sv_catalog sv"]
  by (auto simp: update_record_def split: prod.splits sum.splits option.splits if_splits)

lemma PutArtifact_table: "PutArtifact a c = (u, c') \<Longrightarrow> table c' = table c"
  by (auto simp: PutArtifact_def table_def split: option.splits if_splits)

lemma sections_dom [simp]:
  "known_ids (snd (update_record op n sv)) = known_ids sv"
  "known_ids (snd (run_update run l t n sv)) = known_ids sv"
  "known_ids (snd (run_complete op l n rq res sv)) = known_ids sv"
  "known_ids (snd (cancel_update p q t n sv)) = known_ids sv"
  "known_ids (snd (finish_update env t run l n e c bg sv)) = known_ids sv"
  "known_ids (snd (run_artifact op l r rq res sv)) = known_ids sv"
  by (simp_all add: known_ids_def run_update_def run_complete_def finish_update_def cancel_update_def run_artifact_def Let_def
      update_record_dom [OF prod.collapse [symmetric]] split: prod.split sum.split option.split)
    (simp_all add: update_record_dom PutArtifact_table)

lemma create_section:
  assumes "submit_create op rq sv = (c', sv')"
  shows "known_ids sv' \<subseteq> insert (op_ID op) (known_ids sv)"
    "sv_sequence sv' = sv_sequence sv" "creating c' = None"
  using assms
  by (auto simp: known_ids_def submit_create_def Create_def table_def Let_def update_conv'
      split: prod.splits sum.splits option.splits if_splits)

lemma tools_sequence [simp]:
  "sv_sequence (snd (update_record op n sv)) = sv_sequence sv"
  "sv_sequence (snd (append_event env inp cx e sv)) = sv_sequence sv"
  by (auto simp: update_record_def append_event_def split: prod.split sum.split)

lemma call_step_sequence:
  assumes "call_step env inp self cx wcx c sv = Some ((c', sv'), sig)" "\<And>rq. c \<noteq> S_Number rq"
  shows "sv_sequence sv' = sv_sequence sv"
  using assms
  by (cases c) (auto simp: submit_create_def submit_append_def run_acquire_def
      run_update_def run_started_def run_register_def run_complete_def run_artifact_def run_completed_def
      finish_update_def finish_append_def run_unregister_def run_release_def cancel_update_def
      cancel_append_def Let_def split: prod.splits sum.splits option.splits
      dest!: arg_cong [of _ _ "snd :: _ \<times> service \<Rightarrow> service"])

lemma call_step_creating:
  assumes "call_step env inp self cx wcx c sv = Some ((c', sv'), sig)" "\<And>rq. c \<noteq> S_Number rq"
  shows "creating c' = None"
  using assms
  by (cases c) (auto simp: get_step_def request_step_def got_def submit_admit_def
    submit_create_def submit_append_def run_acquire_def run_start_def run_update_def run_started_def
    run_register_def run_admit_def run_begin_def run_merged_def merge_failed_def run_complete_def run_artifact_def
    run_completed_def finish_update_def finish_append_def run_unregister_def run_release_def cancel_read_def
    cancel_update_def cancel_append_def wait_delay_def wait_select_def Let_def
    split: option.splits sum.splits prod.splits caller.splits main_pc.splits if_splits)

lemma call_step_dom:
  assumes "call_step env inp self cx wcx c sv = Some ((c', sv'), sig)"
  shows "known_ids sv' \<subseteq> known_ids sv
    \<or> (\<exists>x. creating c = Some x \<and> known_ids sv' \<subseteq> insert x (known_ids sv))"
proof (cases c)
  case (S_Create op rq)
  with assms create_section(1) [of op rq sv c' sv'] show ?thesis by simp
next
  case (S_Number rq)
  with assms show ?thesis by (auto simp: submit_number_def Let_def known_ids_def)
next
  case (R_Acquire op)
  with assms show ?thesis by (auto simp: run_acquire_def known_ids_def split: prod.splits sum.splits)
qed (use assms in \<open>auto simp: run_register_def run_unregister_def run_release_def
      dest!: arg_cong [of _ _ "snd :: pc \<times> service \<Rightarrow> service"]\<close>)


section \<open>The system\<close>

definition ids_ok :: "system \<Rightarrow> bool" where
  "ids_ok s \<longleftrightarrow>
     fresh (sv_sequence (sy_service s)) (known_ids (sy_service s)) (drafts (sy_threads s))"

lemma call_step_fresh:
  assumes f: "fresh (sv_sequence sv) (known_ids sv) ds" and q: "sv_sequence sv < sv_sequence sv + 1"
    and j: "j < length ds" "ds ! j = creating c"
    and s: "call_step env inp self cx wcx c sv = Some ((c', sv'), sig)"
  shows "fresh (sv_sequence sv') (known_ids sv') (ds[j := creating c'])"
    "sv_sequence sv' = sv_sequence sv \<or> sv_sequence sv' = sv_sequence sv + 1"
proof -
  have "fresh (sv_sequence sv') (known_ids sv') (ds[j := creating c'])
      \<and> (sv_sequence sv' = sv_sequence sv \<or> sv_sequence sv' = sv_sequence sv + 1)"
  proof (cases "\<exists>rq. c = S_Number rq")
    case True
    with s fresh_number [OF f q, of j] show ?thesis
      by (auto simp: submit_number_def submit_operation_def Let_def known_ids_def)
  next
    case False
    then have "sv_sequence sv' = sv_sequence sv" "creating c' = None"
      using call_step_sequence [OF s] call_step_creating [OF s] by blast+
    with fresh_create [OF f, of "known_ids sv'" j] call_step_dom [OF s] j show ?thesis by auto
  qed
  then show "fresh (sv_sequence sv') (known_ids sv') (ds[j := creating c'])"
    "sv_sequence sv' = sv_sequence sv \<or> sv_sequence sv' = sv_sequence sv + 1" by blast+
qed

lemma ready_creating: "ready_step th sv = Some th' \<Longrightarrow> creating (th_pc th) = None \<and> creating (th_pc th') = None"
  by (auto simp: ready_step_def split: pc.splits list.splits if_splits)

lemma merge_creating:
  "merge_thread env m th = Some th' \<Longrightarrow> creating (th_pc th') = creating (th_pc th)"
  by (auto simp: merge_thread_def simp del: merge_step.simps split: pc.splits merge_label.splits)

lemma ids_step:
  assumes ok: "ids_ok s" and q: "sv_sequence (sy_service s) < sv_sequence (sy_service s) + 1"
    and s: "svc_step env l s = Some s'"
  shows "ids_ok s' \<and> (sv_sequence (sy_service s') = sv_sequence (sy_service s)
    \<or> sv_sequence (sy_service s') = sv_sequence (sy_service s) + 1)"
proof (cases l)
  case (Start k cx)
  have "creating (first_pc k) = None" by (cases k) simp_all
  with Start s ok show ?thesis by (auto simp: ids_ok_def new_thread_def intro: fresh_append)
next
  case (Step i inp)
  then obtain th sv sig where i: "i < length (sy_threads s)"
    "thread_step env inp i (sy_threads s ! i) (sy_service s) = Some (th, sv, sig)"
    "s' = s\<lparr>sy_service := sv, sy_threads := signal sig ((sy_threads s)[i := th])\<rparr>"
    using s by (auto split: if_splits option.splits)
  let ?c = "call_step env inp i (th_ctx (sy_threads s ! i)) (th_wctx (sy_threads s ! i))
    (th_pc (sy_threads s ! i)) (sy_service s)"
  show ?thesis
  proof (cases ?c)
    case None
    with i(2) have "ready_step (sy_threads s ! i) (sy_service s) = Some th" "sv = sy_service s"
      by (auto simp: thread_step_def)
    with ready_creating drafts_same [OF i(1), of th] ok show ?thesis
      by (simp add: i(3) ids_ok_def del: drafts_simps(3))
  next
    case (Some r)
    then obtain c where c: "?c = Some ((c, sv), sig)" "th_pc th = c"
      using i(2) by (auto simp: thread_step_def split: prod.splits)
    from call_step_fresh [OF ok [unfolded ids_ok_def] q _ _ c(1)] i(1) c(2) show ?thesis
      by (simp add: i(3) ids_ok_def)
  qed
next
  case (MergeStep i m)
  then obtain th where i: "i < length (sy_threads s)" "merge_thread env m (sy_threads s ! i) = Some th"
    "s' = s\<lparr>sy_threads := (sy_threads s)[i := th]\<rparr>"
    using s by (auto split: if_splits)
  with merge_creating [OF i(2)] drafts_same [OF i(1), of th] ok show ?thesis
    by (simp add: ids_ok_def del: drafts_simps(3))
next
  case (CancelCaller i e)
  let ?th = "(cancel_worker e (sy_threads s ! i))\<lparr>th_ctx := first_error e (th_ctx (sy_threads s ! i))\<rparr>"
  have i: "i < length (sy_threads s)" "s' = s\<lparr>sy_threads := (sy_threads s)[i := ?th]\<rparr>"
    using s CancelCaller by (auto split: if_splits)
  have "creating (th_pc ?th) = creating (th_pc (sy_threads s ! i))" by (simp add: cancel_worker_def)
  with drafts_same [OF i(1), of ?th] ok i(2) show ?thesis
    by (simp add: ids_ok_def del: drafts_simps(3))
next
  case (OtherLease op)
  with s ok show ?thesis by (auto simp: ids_ok_def)
qed

text \<open>The counter rises by at most one in a step, so it does not wrap in a schedule of less than \<open>2 ^ 64\<close>.\<close>

lemma ids_run:
  "svc_run env ls s = Some s' \<Longrightarrow> ids_ok s \<Longrightarrow> unat (sv_sequence (sy_service s)) + length ls < 2 ^ 64 \<Longrightarrow> ids_ok s'"
proof (induction ls arbitrary: s)
  case (Cons l ls)
  then obtain t where t: "svc_step env l s = Some t" "svc_run env ls t = Some s'" by (auto split: option.splits)
  let ?q = "sv_sequence (sy_service s)"
  have "unat ?q + 1 < 2 ^ 64" using Cons.prems(3) by simp
  then have up: "unat (?q + 1) = unat ?q + 1" by (simp add: unat_word_ariths)
  then have "?q < ?q + 1" by (simp add: word_less_nat_alt)
  with ids_step [OF Cons.prems(2) _ t(1)] have "ids_ok t"
    "sv_sequence (sy_service t) = ?q \<or> sv_sequence (sy_service t) = ?q + 1" by blast+
  with Cons.IH [OF t(2)] Cons.prems(3) up show ?case by (auto simp del: svc_step.simps)
qed simp

lemma ids_start: "ids_ok (system_of (NewService c None j lm a))"
  by (simp add: ids_ok_def system_of_def NewService_def known_ids_def drafts_def fresh_start)
    (simp add: New_def table_def fresh_def)


section \<open>The property\<close>

text \<open>
  C19: The identifier of a submission is new, in every reachable state of the service and for any
  interleaving of submissions: when it is about to create its record, there is no record under
  it and no other submission carries it. So the catalog never answers that the operation exists: it creates
  the record where the idempotency key is new, and otherwise returns the record of that key or, for
  another file, refuses.
\<close>
theorem identifiers_fresh:
  assumes "svc_run env ls (system_of (NewService c None j lm a)) = Some s" "length ls < 2 ^ 64"
    "k < length (sy_threads s)" "th_pc (sy_threads s ! k) = S_Create op rq"
  shows "table (sv_catalog (sy_service s)) (op_ID op) = None
    \<and> (\<forall>l<length (sy_threads s). \<forall>op' rq'. th_pc (sy_threads s ! l) = S_Create op' rq' \<longrightarrow>
         op_ID op' = op_ID op \<longrightarrow> l = k)
    \<and> (case fst (Create (toRecord op) (sv_catalog (sy_service s))) of
         Inl e \<Rightarrow> \<exists>r\<in>ran (table (sv_catalog (sy_service s))).
           or_IdempotencyKey r = rq_IdempotencyKey rq \<and> or_FileID r \<noteq> mf_FileID (rq_Manifest rq)
           \<and> e = KeyBelongsTo (or_FileID r)
       | Inr (r, new) \<Rightarrow>
           or_IdempotencyKey r = rq_IdempotencyKey rq \<and> or_FileID r = mf_FileID (rq_Manifest rq)
           \<and> (if new then or_ID r = op_ID op
                \<and> (\<forall>r'\<in>ran (table (sv_catalog (sy_service s))). or_IdempotencyKey r' \<noteq> rq_IdempotencyKey rq)
              else r \<in> ran (table (sv_catalog (sy_service s)))))"
proof -
  let ?c = "sv_catalog (sy_service s)" and ?ths = "sy_threads s"
  have "unat (sv_sequence (sy_service (system_of (NewService c None j lm a)))) = 0"
    by (simp add: system_of_def NewService_def)
  with ids_run [OF assms(1) ids_start] assms(2) have
    f: "fresh (sv_sequence (sy_service s)) (known_ids (sy_service s)) (drafts ?ths)"
    by (simp add: ids_ok_def)
  have d: "k < length (drafts ?ths)" "drafts ?ths ! k = Some (op_ID op)" using assms(3,4) by simp_all
  have free: "table ?c (op_ID op) = None" using freshD(3) [OF f d] by (auto simp: known_ids_def)
  have other: "l = k" if "l < length ?ths" "th_pc (?ths ! l) = S_Create op' rq'" "op_ID op' = op_ID op" for l op' rq'
    using freshD(4) [OF f d, of l] that by simp
  have ok: "catalog_ok ?c" using service_okD(1) [OF reached_service [OF assms(1)]] .
  have "pc_ok env (sy_service s) (S_Create op rq)"
    using threads_okD [of env "sy_service s" ?ths k] reached_ok [OF assms(1)] assms(3,4) by (simp add: system_ok_def)
  then have op: "Validate rq = None" "op_Manifest op = rq_Manifest rq" "op_IdempotencyKey op = rq_IdempotencyKey rq"
    by (simp_all add: new_op_def)
  obtain q m where "op_ID op = operation_id q m" using freshD(2) [OF f d] by (auto simp: numbered_id_def)
  with op Validate_fields [OF op(1)] have fields: "record_fields (toRecord op)"
    by (simp add: record_fields_def)
  show ?thesis
  proof (cases "\<exists>r\<in>ran (table ?c). or_IdempotencyKey r = rq_IdempotencyKey rq")
    case True
    then obtain i r where r: "table ?c i = Some r" "or_IdempotencyKey r = or_IdempotencyKey (toRecord op)"
      using op(3) by (auto simp: ran_def)
    then have "r \<in> ran (table ?c)" by (auto simp: ran_def)
    with free other r op show ?thesis
      by (auto simp: Create_known_key [OF ok fields r])
  next
    case False
    then have "\<forall>r\<in>ran (table ?c). or_IdempotencyKey r \<noteq> or_IdempotencyKey (toRecord op)" using op(3) by simp
    with False free other op show ?thesis
      by (auto simp: Create_fresh_key [OF ok fields])
  qed
qed

theorem identifiers_fresh_witness:
  "\<exists>s. svc_run demo_svc [Start (Call_Submit demo_request) None, Step 0 (at 1), Step 0 (at 1)]
      (system_of (demo_service 2)) = Some s
    \<and> th_pc (sy_threads s ! 0) = S_Create demo_op demo_request
    \<and> table (sv_catalog (sy_service s)) demo_id = None"
proof -
  let ?s = "\<lparr>sy_service = (demo_service 2)\<lparr>sv_sequence := 1\<rparr>,
      sy_threads = [plain None (S_Create demo_op demo_request)]\<rparr>"
  have run: "svc_run demo_svc [Start (Call_Submit demo_request) None, Step 0 (at 1), Step 0 (at 1)]
      (system_of (demo_service 2)) = Some ?s"
    by (simp add: demo_numbered del: svc_run.simps(2))
  have pc: "0 < length (sy_threads ?s)" "th_pc (sy_threads ?s ! 0) = S_Create demo_op demo_request" by simp_all
  have "table (sv_catalog (sy_service ?s)) (op_ID demo_op) = None"
    using identifiers_fresh [OF run [unfolded demo_system] _ pc] by simp
  with run pc(2) show ?thesis by (intro exI [of _ ?s]) simp
qed

end
