(* ===== verification/Middleware.thy ===== *)
theory Middleware
  imports Control
begin

text \<open>
  The handlers of \<open>control/handler.go\<close> statement by statement, on the response writer they share, and what
  is around them: the router, \<open>requestLog\<close> and \<open>recoverPanic\<close>. The writer keeps all that goes out, so
  that a handler which forgets to return after an error sends a second body. \<open>Control\<close> says of
  the same handlers which one response each of them means; \<open>http_answered_once\<close> shows that exactly that
  one goes out.

  \<open>enc\<close> says which values the JSON encoder can write: \<open>writeJSON\<close> ignores its error, and then the header is
  out without a body. \<open>crash\<close> says that the call of the service panics. The bodies of the answers to HEAD, which
  \<open>net/http\<close> drops, are kept here; a panic inside the encoder is not modelled.
\<close>

section \<open>The response writer\<close>

record http_header =
  hd_ContentType :: "string option"
  hd_Location :: "string option"

text \<open>The header as it is set so far, the status and the header that went out, and the bodies.\<close>

record writer =
  wr_Header :: http_header
  wr_Sent :: "(int \<times> http_header) option"
  wr_Bodies :: "payload_json list"

definition new_writer :: writer where
  "new_writer = \<lparr>wr_Header = \<lparr>hd_ContentType = None, hd_Location = None\<rparr>, wr_Sent = None, wr_Bodies = []\<rparr>"

definition set_type :: "string \<Rightarrow> writer \<Rightarrow> writer" where
  "set_type v w = w\<lparr>wr_Header := (wr_Header w)\<lparr>hd_ContentType := Some v\<rparr>\<rparr>"

definition set_location :: "string \<Rightarrow> writer \<Rightarrow> writer" where
  "set_location v w = w\<lparr>wr_Header := (wr_Header w)\<lparr>hd_Location := Some v\<rparr>\<rparr>"

text \<open>The first \<open>WriteHeader\<close> counts; \<open>Write\<close> makes up for a missing one.\<close>

definition WriteHeader :: "int \<Rightarrow> writer \<Rightarrow> writer" where
  "WriteHeader status w =
     (case wr_Sent w of None \<Rightarrow> w\<lparr>wr_Sent := Some (status, wr_Header w)\<rparr> | Some h \<Rightarrow> w)"

definition Write :: "payload_json \<Rightarrow> writer \<Rightarrow> writer" where
  "Write b w = (let w' = WriteHeader 200 w in w'\<lparr>wr_Bodies := wr_Bodies w' @ [b]\<rparr>)"

text \<open>\<open>Encoder.Encode\<close> writes the whole value, or nothing.\<close>

definition Encode :: "(payload_json \<Rightarrow> bool) \<Rightarrow> payload_json \<Rightarrow> writer \<Rightarrow> writer" where
  "Encode enc b w = (if enc b then Write b w else w)"

definition write_json :: "(payload_json \<Rightarrow> bool) \<Rightarrow> int \<Rightarrow> payload_json \<Rightarrow> writer \<Rightarrow> writer" where
  "write_json enc status b w = Encode enc b (WriteHeader status (set_type ''application/json'' w))"

text \<open>\<open>http.Error\<close>, with which the router answers what no handler serves.\<close>

definition plain_error :: "int \<Rightarrow> payload_json \<Rightarrow> writer \<Rightarrow> writer" where
  "plain_error status b w = Write b (WriteHeader status (set_type ''text/plain; charset=utf-8'' w))"


section \<open>Statements\<close>

datatype flow = Goes_On writer | Returns writer | Panics writer

type_synonym statement = "writer \<Rightarrow> flow"

fun stmts :: "statement list \<Rightarrow> statement" where
  "stmts [] w = Goes_On w"
| "stmts (st # sts) w =
     (case st w of Goes_On w' \<Rightarrow> stmts sts w' | Returns w' \<Rightarrow> Returns w' | Panics w' \<Rightarrow> Panics w')"

definition guarded :: "bool \<Rightarrow> statement list \<Rightarrow> statement" where
  "guarded c sts w = (if c then stmts sts w else Goes_On w)"

definition calls :: "bool \<Rightarrow> statement" where
  "calls crash w = (if crash then Panics w else Goes_On w)"

definition effect :: "(writer \<Rightarrow> writer) \<Rightarrow> statement" where
  "effect f w = Goes_On (f w)"

text \<open>\<open>writeError\<close> reads the text of the error first: there is no text of \<open>nil\<close>.\<close>

definition write_error ::
  "(payload_json \<Rightarrow> bool) \<Rightarrow> int \<Rightarrow> string \<Rightarrow> control_error option \<Rightarrow> statement" where
  "write_error enc status code err w =
     (case err of None \<Rightarrow> Panics w | Some e \<Rightarrow> Goes_On (write_json enc status (Says_Error code e) w))"

definition error_is :: "op_error option \<Rightarrow> op_sentinel \<Rightarrow> bool" where
  "error_is err t = (case err of None \<Rightarrow> False | Some e \<Rightarrow> op_is e t)"

abbreviation service_error :: "op_error option \<Rightarrow> control_error option" where
  "service_error \<equiv> map_option FromService"


section \<open>The handlers\<close>

definition handle_health :: "(payload_json \<Rightarrow> bool) \<Rightarrow> statement" where
  "handle_health enc = stmts [effect (write_json enc 200 Says_Ok)]"

text \<open>What a failed decoding leaves in the request is not read any more; here it is the empty request.\<close>

definition handle_submit ::
  "(payload_json \<Rightarrow> bool) \<Rightarrow> request_json \<Rightarrow> bool \<Rightarrow> (call \<Rightarrow> outcome) \<Rightarrow> http_request \<Rightarrow> statement" where
  "handle_submit enc js crash svc hr =
     (let (rq, bad) = (case decodeJSON js (hr_Body hr) of Inl e \<Rightarrow> (zero_request, Some e) | Inr q \<Rightarrow> (q, None));
          h = trim_space (hr_Key hr);
          rq' = (if h \<noteq> [] then rq\<lparr>rq_IdempotencyKey := h\<rparr> else rq)
      in case svc (Call_Submit rq') of
           Returned op fresh err \<Rightarrow>
             stmts
              [guarded (bad \<noteq> None) [write_error enc 400 ''invalid_request'' bad, Returns],
               guarded (h \<noteq> [])
                [guarded (rq_IdempotencyKey rq \<noteq> [] \<and> rq_IdempotencyKey rq \<noteq> h)
                  [write_error enc 400 ''idempotency_mismatch'' (Some KeysDiffer), Returns]],
               calls crash,
               guarded (err \<noteq> None) [write_error enc 422 ''submit_rejected'' (service_error err), Returns],
               effect (set_location (''/v1/merges/'' @ (case op of None \<Rightarrow> [] | Some p \<Rightarrow> op_ID p))),
               effect (write_json enc (if \<not> fresh then 200 else 202) (Says_Submitted op fresh))])"

definition handle_status ::
  "(payload_json \<Rightarrow> bool) \<Rightarrow> bool \<Rightarrow> (call \<Rightarrow> outcome) \<Rightarrow> string \<Rightarrow> statement" where
  "handle_status enc crash svc i =
     (case svc (Call_Get i) of
        Returned op b err \<Rightarrow>
          stmts
           [calls crash,
            guarded (error_is err Is_NotFound) [write_error enc 404 ''not_found'' (service_error err), Returns],
            guarded (err \<noteq> None) [write_error enc 500 ''status_failed'' (service_error err), Returns],
            effect (write_json enc 200 (Says_Operation op))])"

definition handle_list ::
  "(payload_json \<Rightarrow> bool) \<Rightarrow> bool \<Rightarrow> service \<Rightarrow> http_request \<Rightarrow> statement" where
  "handle_list enc crash sv hr =
     (let raw = hr_Limit hr;
          parsed = (case Atoi raw of None \<Rightarrow> 0 | Some n \<Rightarrow> n);
          limit = (if raw \<noteq> [] then parsed else 100);
          records = Service_List (hr_State hr) limit sv
      in stmts
          [guarded (raw \<noteq> [])
            [guarded (Atoi raw = None \<or> parsed < 1 \<or> parsed > 1000)
              [write_error enc 400 ''invalid_limit'' (Some LimitRange), Returns]],
           calls crash,
           effect (write_json enc 200 (Says_Operations records (int (length records))))])"

definition handle_run ::
  "(payload_json \<Rightarrow> bool) \<Rightarrow> bool \<Rightarrow> (call \<Rightarrow> outcome) \<Rightarrow> string \<Rightarrow> statement" where
  "handle_run enc crash svc i =
     (case svc (Call_Run i) of
        Returned op b err \<Rightarrow>
          stmts
           [calls crash,
            guarded (error_is err Is_NotFound) [write_error enc 404 ''not_found'' (service_error err), Returns],
            guarded (err \<noteq> None) [write_error enc 409 ''run_failed'' (service_error err), Returns],
            effect (write_json enc 200 (Says_Operation op))])"

definition handle_cancel ::
  "(payload_json \<Rightarrow> bool) \<Rightarrow> bool \<Rightarrow> (call \<Rightarrow> outcome) \<Rightarrow> string \<Rightarrow> statement" where
  "handle_cancel enc crash svc i =
     (case svc (Call_Cancel i) of
        Returned op b err \<Rightarrow>
          stmts
           [calls crash,
            guarded (error_is err Is_NotFound) [write_error enc 404 ''not_found'' (service_error err), Returns],
            guarded (error_is err Is_Terminal) [write_error enc 409 ''already_terminal'' (service_error err), Returns],
            guarded (err \<noteq> None) [write_error enc 500 ''cancel_failed'' (service_error err), Returns],
            effect (write_json enc 200 (Says_Operation op))])"

definition handle_events ::
  "(payload_json \<Rightarrow> bool) \<Rightarrow> bool \<Rightarrow> op_error + envelope list \<Rightarrow> statement" where
  "handle_events enc crash res =
     (let (events, err) = (case res of Inl e \<Rightarrow> ([], Some e) | Inr evs \<Rightarrow> (evs, None))
      in stmts
          [calls crash,
           guarded (error_is err Is_NotFound) [write_error enc 404 ''not_found'' (service_error err), Returns],
           guarded (err \<noteq> None) [write_error enc 500 ''replay_failed'' (service_error err), Returns],
           effect (write_json enc 200 (Says_Events events (int (length events))))])"

definition zero_artifact :: artifact_record where
  "zero_artifact = \<lparr>ar_Receipt = \<lparr>rc_FileID = [], rc_Version = [], rc_Size = 0, rc_Digest = []\<rparr>, ar_OperationID = [], ar_CommittedAt = 0\<rparr>"

definition handle_artifact ::
  "(payload_json \<Rightarrow> bool) \<Rightarrow> bool \<Rightarrow> op_error + artifact_record \<Rightarrow> statement" where
  "handle_artifact enc crash res =
     (let (art, err) = (case res of Inl e \<Rightarrow> (zero_artifact, Some e) | Inr a \<Rightarrow> (a, None))
      in stmts
          [calls crash,
           guarded (error_is err Is_ArtifactNotFound) [write_error enc 404 ''not_found'' (service_error err), Returns],
           guarded (err \<noteq> None) [write_error enc 500 ''artifact_failed'' (service_error err), Returns],
           effect (write_json enc 200 (Says_Artifact art))])"


section \<open>The router and what is around it\<close>

datatype log_line = Log_Request string "string list" int | Log_Panic "string list"

text \<open>\<open>svc\<close> is what the calls of the service return that are threads of \<open>Service\<close>.\<close>

definition ServeHTTP ::
  "(payload_json \<Rightarrow> bool) \<Rightarrow> svc_env \<Rightarrow> request_json \<Rightarrow> bool \<Rightarrow> (call \<Rightarrow> outcome) \<Rightarrow> ctx_error option
     \<Rightarrow> (u64 \<Rightarrow> ctx_error option) \<Rightarrow> http_request \<Rightarrow> service \<Rightarrow> statement" where
  "ServeHTTP enc env js crash svc cx cxs hr sv =
     (case Router hr of
        PathNotFound \<Rightarrow> stmts [effect (plain_error 404 Says_NotFound)]
      | MethodNotAllowed \<Rightarrow> stmts [effect (plain_error 405 Says_MethodNotAllowed)]
      | Routed ep \<Rightarrow>
          (case ep of
             At_Health \<Rightarrow> handle_health enc
           | At_Submit \<Rightarrow> handle_submit enc js crash svc hr
           | At_List \<Rightarrow> handle_list enc crash sv hr
           | At_Status i \<Rightarrow> handle_status enc crash svc i
           | At_Run i \<Rightarrow> handle_run enc crash svc i
           | At_Cancel i \<Rightarrow> handle_cancel enc crash svc i
           | At_Events i \<Rightarrow> handle_events enc crash (Service_Replay env cxs i sv)
           | At_Artifact f \<Rightarrow> handle_artifact enc crash (Artifact cx f sv)))"

type_synonym logging = "writer \<Rightarrow> flow \<times> log_line list"

definition requestLog :: "int \<Rightarrow> http_request \<Rightarrow> logging \<Rightarrow> logging" where
  "requestLog duration hr next_handler w =
     (case next_handler w of
        (Panics w', log) \<Rightarrow> (Panics w', log)
      | (f, log) \<Rightarrow> (f, log @ [Log_Request (hr_Method hr) (hr_Path hr) duration]))"

definition recoverPanic :: "(payload_json \<Rightarrow> bool) \<Rightarrow> http_request \<Rightarrow> logging \<Rightarrow> logging" where
  "recoverPanic enc hr next_handler w =
     (case next_handler w of
        (Panics w', log) \<Rightarrow>
          (write_error enc 500 ''internal_panic'' (Some RequestFailed) w', log @ [Log_Panic (hr_Path hr)])
      | (f, log) \<Rightarrow> (f, log))"

text \<open>What \<open>Router\<close> returns: the chain around the router.\<close>

definition respond ::
  "(payload_json \<Rightarrow> bool) \<Rightarrow> svc_env \<Rightarrow> request_json \<Rightarrow> bool \<Rightarrow> (call \<Rightarrow> outcome) \<Rightarrow> ctx_error option
     \<Rightarrow> (u64 \<Rightarrow> ctx_error option) \<Rightarrow> int \<Rightarrow> http_request \<Rightarrow> service \<Rightarrow> flow \<times> log_line list" where
  "respond enc env js crash svc cx cxs duration hr sv =
     recoverPanic enc hr (requestLog duration hr (\<lambda>w. (ServeHTTP enc env js crash svc cx cxs hr sv w, []))) new_writer"


section \<open>One answer\<close>

definition is_error :: "payload_json \<Rightarrow> bool" where
  "is_error b =
     (case b of
        Says_Error code e \<Rightarrow> True | Says_NotFound \<Rightarrow> True | Says_MethodNotAllowed \<Rightarrow> True | _ \<Rightarrow> False)"

text \<open>The responses of the control plane: errors have an error status, a location only submissions that succeed.\<close>

definition response_ok :: "response \<Rightarrow> bool" where
  "response_ok r \<longleftrightarrow>
     rs_Status r \<in> {200, 202, 400, 404, 405, 409, 422, 500}
     \<and> is_error (rs_Body r) = (400 \<le> rs_Status r)
     \<and> (rs_Location r \<noteq> None \<longrightarrow> (\<exists>op fresh. rs_Body r = Says_Submitted op fresh))"

lemma response_ok_writeError: "st \<in> {400, 404, 405, 409, 422, 500} \<Longrightarrow> response_ok (writeError st code e)"
  by (auto simp: response_ok_def is_error_def)

lemma response_ok_writeJSON:
  "st \<in> {200, 202} \<and> \<not> is_error b \<or> st \<in> {404, 405} \<and> is_error b \<Longrightarrow> response_ok (writeJSON st b)"
  by (auto simp: response_ok_def)

lemma response_ok_reply: "response_ok (reply ep out)"
proof (cases out)
  case (Returned op b e)
  then show ?thesis
    by (cases ep; cases e)
      (auto simp: reply_def submit_reply_def status_reply_def run_reply_def cancel_reply_def health_def
        intro: response_ok_writeError response_ok_writeJSON,
       auto simp: response_ok_def is_error_def)
qed

lemma response_ok_serve: "serve env js cx cxs hr sv = Answered r \<Longrightarrow> response_ok r"
  by (auto simp: serve_def health_def submit_request_def list_handler_def events_handler_def artifact_handler_def
      is_error_def Let_def intro!: response_ok_writeError response_ok_writeJSON
      split: routed.splits endpoint.splits sum.splits if_splits)

subsection \<open>What the handlers send\<close>

text \<open>Answers of the router are plain text; all others are JSON.\<close>

definition plain :: "payload_json \<Rightarrow> bool" where
  "plain b \<longleftrightarrow> b = Says_NotFound \<or> b = Says_MethodNotAllowed"

text \<open>The response went out, and nothing else: its header, and its body where it can be written.\<close>

definition sent_once :: "(payload_json \<Rightarrow> bool) \<Rightarrow> response \<Rightarrow> writer \<Rightarrow> bool" where
  "sent_once enc r w \<longleftrightarrow>
     wr_Sent w = Some (rs_Status r,
       \<lparr>hd_ContentType =
          Some (if plain (rs_Body r) then ''text/plain; charset=utf-8'' else ''application/json''),
        hd_Location = rs_Location r\<rparr>)
     \<and> wr_Bodies w = (if plain (rs_Body r) \<or> enc (rs_Body r) then [rs_Body r] else [])"

definition finished :: "flow \<Rightarrow> writer option" where
  "finished f = (case f of Goes_On w \<Rightarrow> Some w | Returns w \<Rightarrow> Some w | Panics w \<Rightarrow> None)"

definition accepted :: "'e + 'a \<Rightarrow> bool" where
  "accepted x = (case x of Inl e \<Rightarrow> False | Inr y \<Rightarrow> True)"

lemma accepted_simps [simp]: "\<not> accepted (Inl e)" "accepted (Inr y)"
  by (simp_all add: accepted_def)

text \<open>The handler calls the service, rather than answering before.\<close>

definition calls_service :: "request_json \<Rightarrow> http_request \<Rightarrow> bool" where
  "calls_service js hr =
     (case Router hr of
        Routed ep \<Rightarrow>
          (case ep of
             At_Health \<Rightarrow> False
           | At_Submit \<Rightarrow> accepted (submit_request js hr)
           | At_List \<Rightarrow> accepted (limit_of (hr_Limit hr))
           | _ \<Rightarrow> True)
      | _ \<Rightarrow> False)"

text \<open>One handler: it panics before anything is sent, or sends its response.\<close>

definition sends :: "(payload_json \<Rightarrow> bool) \<Rightarrow> bool \<Rightarrow> response \<Rightarrow> statement \<Rightarrow> bool" where
  "sends enc crash r st \<longleftrightarrow>
     (if crash then st new_writer = Panics new_writer
      else (\<exists>w. finished (st new_writer) = Some w \<and> sent_once enc r w))"

lemma sent_json:
  "\<not> plain b \<Longrightarrow> sent_once enc (writeJSON status b) (write_json enc status b new_writer)"
  "\<not> plain b \<Longrightarrow>
     sent_once enc ((writeJSON status b)\<lparr>rs_Location := Some l\<rparr>) (write_json enc status b (set_location l new_writer))"
  "sent_once enc (writeError status code e) (write_json enc status (Says_Error code e) new_writer)"
  by (simp_all add: sent_once_def write_json_def Encode_def Write_def WriteHeader_def set_type_def set_location_def
      new_writer_def plain_def writeJSON_def writeError_def)

lemma sent_plain: "plain b \<Longrightarrow> sent_once enc (writeJSON status b) (plain_error status b new_writer)"
  by (simp add: sent_once_def plain_error_def Write_def WriteHeader_def set_type_def new_writer_def writeJSON_def)

lemmas statement_simps =
  guarded_def calls_def effect_def write_error_def error_is_def finished_def

lemma sends_health: "sends enc False health (handle_health enc)"
  by (simp add: sends_def handle_health_def health_def statement_simps sent_json plain_def)

lemma sends_submit:
  "sends enc (crash \<and> accepted (submit_request js hr))
     (case submit_request js hr of Inl r \<Rightarrow> r | Inr rq \<Rightarrow> submit_reply (svc (Call_Submit rq)))
     (handle_submit enc js crash svc hr)"
proof (cases "submit_request js hr")
  case (Inl r)
  then show ?thesis
    by (auto simp: sends_def handle_submit_def submit_request_def with_key_def statement_simps sent_json plain_def Let_def
        split: sum.splits if_splits outcome.split)
next
  case (Inr rq)
  obtain op fresh err where out: "svc (Call_Submit rq) = Returned op fresh err" by (cases "svc (Call_Submit rq)")
  show ?thesis
    using Inr out
    by (auto simp: sends_def handle_submit_def submit_request_def with_key_def statement_simps sent_json plain_def Let_def
        submit_reply_def split: sum.splits if_splits option.split)
qed

lemma sends_status: "sends enc crash (status_reply (svc (Call_Get i))) (handle_status enc crash svc i)"
  by (auto simp: sends_def handle_status_def status_reply_def statement_simps sent_json plain_def
      split: outcome.split option.split)

lemma sends_run: "sends enc crash (run_reply (svc (Call_Run i))) (handle_run enc crash svc i)"
  by (auto simp: sends_def handle_run_def run_reply_def statement_simps sent_json plain_def
      split: outcome.split option.split)

lemma sends_cancel: "sends enc crash (cancel_reply (svc (Call_Cancel i))) (handle_cancel enc crash svc i)"
  by (auto simp: sends_def handle_cancel_def cancel_reply_def statement_simps sent_json plain_def
      split: outcome.split option.split)

lemma sends_list:
  "sends enc (crash \<and> accepted (limit_of (hr_Limit hr))) (list_handler hr sv) (handle_list enc crash sv hr)"
  by (auto simp: sends_def handle_list_def list_handler_def limit_of_def statement_simps sent_json plain_def Let_def
      split: option.split)

lemma sends_events:
  "sends enc crash (events_handler env cxs i sv) (handle_events enc crash (Service_Replay env cxs i sv))"
  by (auto simp: sends_def handle_events_def events_handler_def statement_simps sent_json plain_def Let_def
      split: sum.split)

lemma sends_artifact: "sends enc crash (artifact_handler cx f sv) (handle_artifact enc crash (Artifact cx f sv))"
  by (auto simp: sends_def handle_artifact_def artifact_handler_def statement_simps sent_json plain_def Let_def
      split: sum.split)

text \<open>The response that the request is to get.\<close>

definition meant ::
  "svc_env \<Rightarrow> request_json \<Rightarrow> (call \<Rightarrow> outcome) \<Rightarrow> ctx_error option \<Rightarrow> (u64 \<Rightarrow> ctx_error option)
     \<Rightarrow> http_request \<Rightarrow> service \<Rightarrow> response" where
  "meant env js svc cx cxs hr sv =
     (case serve env js cx cxs hr sv of Answered r \<Rightarrow> r | Calling ep cl \<Rightarrow> reply ep (svc cl))"

lemma meant_ok: "response_ok (meant env js svc cx cxs hr sv)"
  using response_ok_serve [of env js cx cxs hr sv]
  by (auto simp: meant_def response_ok_reply split: served.split)

lemma ServeHTTP_sends:
  "sends enc (crash \<and> calls_service js hr) (meant env js svc cx cxs hr sv)
     (ServeHTTP enc env js crash svc cx cxs hr sv)"
proof (cases "Router hr")
  case (Routed ep)
  then show ?thesis
    using sends_health [of enc] sends_submit [of enc crash js hr svc] sends_status [of enc crash svc]
      sends_run [of enc crash svc] sends_cancel [of enc crash svc] sends_list [of enc crash hr sv]
      sends_events [of enc crash env cxs _ sv] sends_artifact [of enc crash cx _ sv]
    by (cases ep) (auto simp: ServeHTTP_def meant_def serve_def reply_def calls_service_def
        split: sum.splits)
qed (simp_all add: sends_def ServeHTTP_def meant_def serve_def calls_service_def statement_simps sent_plain plain_def)

text \<open>
  C23: Every request is answered exactly once: one header goes out, and after it the one body that belongs to it,
  or none where the encoder refuses that body. The handlers, which go on after an error unless they return, send
  what their endpoint means (\<open>serve\<close> and \<open>reply\<close>), and where the service panics, in whichever of the seven handlers
  that call it, 500 with the code \<open>internal_panic\<close> goes out. Every status from 400 goes with an
  error and only those, a location only with a submission that succeeded, and the content type is
  JSON except for the router's own errors. One line is logged, which tells a panic from an answer.
\<close>
theorem http_answered_once:
  "\<exists>r w f. respond enc env js crash svc cx cxs duration hr sv =
      (f, [if crash \<and> calls_service js hr then Log_Panic (hr_Path hr)
           else Log_Request (hr_Method hr) (hr_Path hr) duration])
    \<and> finished f = Some w
    \<and> r = (if crash \<and> calls_service js hr then writeError 500 ''internal_panic'' RequestFailed
           else (case serve env js cx cxs hr sv of Answered a \<Rightarrow> a | Calling ep cl \<Rightarrow> reply ep (svc cl)))
    \<and> response_ok r
    \<and> wr_Sent w = Some (rs_Status r,
        \<lparr>hd_ContentType =
           Some (if plain (rs_Body r) then ''text/plain; charset=utf-8'' else ''application/json''),
         hd_Location = rs_Location r\<rparr>)
    \<and> wr_Bodies w = (if plain (rs_Body r) \<or> enc (rs_Body r) then [rs_Body r] else [])"
proof -
  let ?panic = "crash \<and> calls_service js hr"
  let ?r = "if ?panic then writeError 500 ''internal_panic'' RequestFailed else meant env js svc cx cxs hr sv"
  let ?log = "if ?panic then Log_Panic (hr_Path hr) else Log_Request (hr_Method hr) (hr_Path hr) duration"
  have "\<exists>w f. respond enc env js crash svc cx cxs duration hr sv = (f, [?log]) \<and> finished f = Some w
      \<and> sent_once enc ?r w"
    using ServeHTTP_sends [of enc crash js hr env svc cx cxs sv]
    by (cases ?panic)
      (auto simp: sends_def respond_def recoverPanic_def requestLog_def write_error_def finished_def sent_json
        split: flow.splits)
  moreover have "response_ok ?r" using meant_ok by (simp add: response_ok_writeError)
  ultimately show ?thesis unfolding sent_once_def meant_def by blast
qed

end
