(* ===== verification/Trail.thy ===== *)
theory Trail
  imports Services Journals
begin

text \<open>
  The journal and the catalog together. What the journal of the service says of an operation is
  true of the catalog and stays true: the operation exists, and where its completion is recorded, an
  artifact with the verified version and digest has been published before.
\<close>

section \<open>What the threads know\<close>

text \<open>
  A property \<open>P\<close> of the counters that the sections keep, together with a property \<open>good\<close> of the
  service, holds in every reachable state. Only the sections have to be looked at: beginning a call,
  the loop of \<open>RunReady\<close>, the steps of a merge, cancellations and other clients of the leases do not
  touch it.
\<close>

locale counter_invariant =
  fixes env :: svc_env
    and good :: "service \<Rightarrow> bool"
    and P :: "service \<Rightarrow> pc \<Rightarrow> bool"
  assumes section_good: "service_ok env sv \<Longrightarrow> pc_ok env sv c \<Longrightarrow> good sv \<Longrightarrow> P sv c \<Longrightarrow>
      call_step env inp self cx wcx c sv = Some ((c', sv'), sig) \<Longrightarrow> good sv' \<and> P sv' c'"
    and section_kept: "service_ok env sv \<Longrightarrow> pc_ok env sv c \<Longrightarrow>
      call_step env inp self cx wcx c sv = Some ((c', sv'), sig) \<Longrightarrow> P sv d \<Longrightarrow> P sv' d"
    and idle: "P sv (first_pc k)" "P sv (P_Get f i)" "P sv Q_Next" "P sv Q_Finished"
    and merging: "P sv (R_Merge p le n rq g) \<Longrightarrow> merge_step (merge_env_of env rq) l g = Some g' \<Longrightarrow>
      P sv (R_Merge p le n rq g')"
    and leases: "good sv \<Longrightarrow> good (sv\<lparr>sv_leases := lm\<rparr>)" "P sv c \<Longrightarrow> P (sv\<lparr>sv_leases := lm\<rparr>) c"
begin

definition holds_in :: "system \<Rightarrow> bool" where
  "holds_in s \<longleftrightarrow> good (sy_service s) \<and> (\<forall>th\<in>set (sy_threads s). P (sy_service s) (th_pc th))"

lemma cancelled: "P sv c \<Longrightarrow> P sv (cancel_pc e c)"
  using merging [where l = "L_Cancel e"] by (cases c) (simp_all add: cancel_pc_def)

lemma updated:
  assumes "\<forall>th\<in>set ths. P sv (th_pc th)" "P sv (th_pc x)"
  shows "\<forall>th\<in>set (ths[k := x]). P sv (th_pc th)"
  using assms set_update_subset_insert [of ths k x] by auto

lemma signalled:
  assumes "\<forall>th\<in>set ths. P sv (th_pc th)"
  shows "\<forall>th\<in>set (signal sig ths). P sv (th_pc th)"
proof -
  have "P sv (th_pc (cancel_worker Canceled (ths ! j)))" if "j < length ths" for j
    using assms nth_mem [OF that] by (simp add: cancel_worker_def cancelled)
  from updated [OF assms this] assms show ?thesis by (auto simp: signal_def split: option.split)
qed

lemma thread_step:
  assumes ok: "service_ok env sv" "threads_ok env sv ths" and g: "good sv" "\<forall>th\<in>set ths. P sv (th_pc th)"
    and i: "i < length ths" and s: "thread_step env inp i (ths ! i) sv = Some (th, sv', sig)"
  shows "good sv' \<and> (\<forall>th\<in>set (signal sig (ths[i := th])). P sv' (th_pc th))"
proof (cases "call_step env inp i (th_ctx (ths ! i)) (th_wctx (ths ! i)) (th_pc (ths ! i)) sv")
  case None
  with s have r: "ready_step (ths ! i) sv = Some th" "sv' = sv" by (auto simp: thread_step_def)
  then have "P sv (th_pc th)"
    by (auto simp: ready_step_def idle split: pc.splits list.splits if_splits)
  with r g show ?thesis by (intro conjI signalled updated) auto
next
  case (Some r)
  then obtain c where c: "call_step env inp i (th_ctx (ths ! i)) (th_wctx (ths ! i)) (th_pc (ths ! i)) sv
      = Some ((c, sv'), sig)" "th_pc th = c"
    using s by (auto simp: thread_step_def split: prod.splits)
  note pc = threads_okD [OF ok(2) i]
  have "good sv' \<and> P sv' c" using section_good [OF ok(1) pc g(1) _ c(1)] g(2) i by simp
  moreover have "\<forall>th\<in>set ths. P sv' (th_pc th)" using section_kept [OF ok(1) pc c(1)] g(2) by blast
  ultimately show ?thesis using c(2) by (intro conjI signalled updated) auto
qed

lemma step:
  assumes ok: "system_ok env s" and h: "holds_in s" and s: "svc_step env l s = Some s'"
  shows "holds_in s'"
proof (cases l)
  case (Start k cx)
  with s h show ?thesis by (auto simp: holds_in_def new_thread_def idle)
next
  case (Step i inp)
  then obtain th sv sig where i: "i < length (sy_threads s)"
    "thread_step env inp i (sy_threads s ! i) (sy_service s) = Some (th, sv, sig)"
    "s' = s\<lparr>sy_service := sv, sy_threads := signal sig ((sy_threads s)[i := th])\<rparr>"
    using s by (auto split: if_splits option.splits)
  have "good sv \<and> (\<forall>th\<in>set (signal sig ((sy_threads s)[i := th])). P sv (th_pc th))"
    using ok h by (intro thread_step [OF _ _ _ _ i(1,2)]) (auto simp: holds_in_def system_ok_def)
  then show ?thesis by (simp add: holds_in_def i(3))
next
  case (MergeStep i m)
  then obtain th where i: "i < length (sy_threads s)" "merge_thread env m (sy_threads s ! i) = Some th"
    "s' = s\<lparr>sy_threads := (sy_threads s)[i := th]\<rparr>"
    using s by (auto split: if_splits)
  have "P (sy_service s) (th_pc (sy_threads s ! i))" using h i(1) by (simp add: holds_in_def)
  then have "P (sy_service s) (th_pc th)"
    using i(2)
    by (auto simp: merge_thread_def intro: merging simp del: merge_step.simps split: pc.splits merge_label.splits)
  with h have "\<forall>th\<in>set ((sy_threads s)[i := th]). P (sy_service s) (th_pc th)"
    by (intro updated) (simp_all add: holds_in_def)
  with h show ?thesis by (simp add: holds_in_def i(3))
next
  case (CancelCaller i e)
  let ?th = "(cancel_worker e (sy_threads s ! i))\<lparr>th_ctx := first_error e (th_ctx (sy_threads s ! i))\<rparr>"
  have i: "i < length (sy_threads s)" "s' = s\<lparr>sy_threads := (sy_threads s)[i := ?th]\<rparr>"
    using s CancelCaller by (auto split: if_splits)
  have "P (sy_service s) (th_pc (sy_threads s ! i))" using h i(1) by (simp add: holds_in_def)
  then have "P (sy_service s) (th_pc ?th)" by (simp add: cancel_worker_def cancelled)
  with h have "\<forall>th\<in>set ((sy_threads s)[i := ?th]). P (sy_service s) (th_pc th)"
    by (intro updated) (simp_all add: holds_in_def)
  with h show ?thesis by (simp add: holds_in_def i(2))
next
  case (OtherLease op)
  with s h show ?thesis by (auto simp: holds_in_def intro!: leases)
qed

lemma run: "svc_run env ls s = Some s' \<Longrightarrow> system_ok env s \<Longrightarrow> holds_in s \<Longrightarrow> holds_in s'"
proof (induction ls arbitrary: s)
  case (Cons l ls)
  then obtain t where "svc_step env l s = Some t" "svc_run env ls t = Some s'" by (auto split: option.splits)
  with Cons show ?case by (blast intro: step system_ok_step)
qed simp

lemma reachable:
  assumes "svc_run env ls (system_of sv) = Some s" "service_ok env sv" "good sv"
  shows "good (sy_service s)" "i < length (sy_threads s) \<Longrightarrow> P (sy_service s) (th_pc (sy_threads s ! i))"
proof -
  have "holds_in s"
    using assms(2,3)
    by (intro run [OF assms(1)]) (simp_all add: holds_in_def system_of_def system_ok_def threads_ok_def)
  then show "good (sy_service s)" "i < length (sy_threads s) \<Longrightarrow> P (sy_service s) (th_pc (sy_threads s ! i))"
    by (simp_all add: holds_in_def)
qed

end


section \<open>Artifacts stay\<close>

definition keeps_artifacts :: "service \<Rightarrow> service \<Rightarrow> bool" where
  "keeps_artifacts sv sv' \<longleftrightarrow>
     (\<forall>f a. map_of (ct_artifacts (sv_catalog sv)) f = Some a \<longrightarrow>
        map_of (ct_artifacts (sv_catalog sv')) f = Some a)"

lemma keeps_same: "sv_catalog sv' = sv_catalog sv \<Longrightarrow> keeps_artifacts sv sv'"
  by (simp add: keeps_artifacts_def)

lemma update_record_artifacts:
  "update_record op n sv = (u, sv') \<Longrightarrow> ct_artifacts (sv_catalog sv') = ct_artifacts (sv_catalog sv)"
  by (auto simp: update_record_def Update_def Let_def split: prod.splits sum.splits option.splits if_splits)

lemma update_sections_artifacts [simp]:
  "ct_artifacts (sv_catalog (snd (update_record op n sv))) = ct_artifacts (sv_catalog sv)"
  "ct_artifacts (sv_catalog (snd (run_update run l t n sv))) = ct_artifacts (sv_catalog sv)"
  "ct_artifacts (sv_catalog (snd (run_complete op l n rq res sv))) = ct_artifacts (sv_catalog sv)"
  "ct_artifacts (sv_catalog (snd (cancel_update p q t n sv))) = ct_artifacts (sv_catalog sv)"
  "ct_artifacts (sv_catalog (snd (finish_update env t run l n e c bg sv))) = ct_artifacts (sv_catalog sv)"
  by (auto simp: run_update_def run_complete_def finish_update_def cancel_update_def Let_def
      split: prod.split sum.split intro: update_record_artifacts prod.collapse [symmetric])

lemma create_artifacts [simp]:
  "ct_artifacts (sv_catalog (snd (submit_create p rq sv))) = ct_artifacts (sv_catalog sv)"
  by (auto simp: submit_create_def Create_def Let_def split: prod.splits sum.splits option.splits if_splits)

lemma run_artifact_artifacts: "keeps_artifacts sv (snd (run_artifact op l r rq res sv))"
  by (auto simp: keeps_artifacts_def run_artifact_def PutArtifact_def update_conv'
      split: prod.splits option.splits if_splits)

lemma call_step_artifacts:
  assumes "call_step env inp self cx wcx c sv = Some ((c', sv'), sig)"
  shows "keeps_artifacts sv sv'"
proof (cases c)
  case (R_Artifact op l r rq res)
  with assms run_artifact_artifacts [of sv op l r rq res] show ?thesis by simp
next
  case (S_Number rq)
  with assms show ?thesis by (auto simp: submit_number_def Let_def keeps_same)
next
  case (R_Acquire op)
  with assms show ?thesis by (auto simp: run_acquire_def keeps_same split: prod.splits sum.splits)
qed (use assms in \<open>auto simp: keeps_artifacts_def run_register_def run_unregister_def run_release_def
      append_tables dest!: arg_cong [of _ _ "snd :: pc \<times> service \<Rightarrow> service"]\<close>)


section \<open>What the journal says\<close>

text \<open>The artifact of the result's file, of its version and digest.\<close>

definition put_in :: "service \<Rightarrow> merge_result \<Rightarrow> bool" where
  "put_in sv res \<longleftrightarrow>
     (\<exists>a. GetArtifact (mr_FileID res) (sv_catalog sv) = Inr a
        \<and> rc_Version (ar_Receipt a) = mr_Version res \<and> rc_Digest (ar_Receipt a) = mr_Digest res)"

definition true_event :: "svc_env \<Rightarrow> service \<Rightarrow> event \<Rightarrow> bool" where
  "true_event env sv ev \<longleftrightarrow>
     (\<exists>rq. sv_requests sv (ev_OperationID ev) = Some rq
        \<and> (ev_Kind ev = ''completed'' \<longrightarrow> (\<exists>res. verified env rq res \<and> put_in sv res)))"

definition trail :: "svc_env \<Rightarrow> service \<Rightarrow> bool" where
  "trail env sv \<longleftrightarrow>
     (\<exists>m. sv_journal sv = MemoryStore m
        \<and> (\<forall>line\<in>set (ms_lines m). \<exists>n ev. line_of (se_json env) n ev = Some line \<and> event_ok ev
             \<and> true_event env sv ev))"

text \<open>A thread that is about to record a completion has published it.\<close>

definition announced :: "service \<Rightarrow> pc \<Rightarrow> bool" where
  "announced sv c = (case c of R_Completed op l r rq res \<Rightarrow> put_in sv res | _ \<Rightarrow> True)"

lemma put_in_kept: "put_in sv res \<Longrightarrow> keeps_artifacts sv sv' \<Longrightarrow> put_in sv' res"
  by (auto simp: put_in_def GetArtifact_def keeps_artifacts_def split: option.splits)

lemma true_event_kept:
  "true_event env sv ev \<Longrightarrow> extends sv sv' \<Longrightarrow> keeps_artifacts sv sv' \<Longrightarrow> true_event env sv' ev"
  unfolding true_event_def extends_def using put_in_kept by blast

lemma trail_kept:
  assumes "trail env sv" "extends sv sv'" "keeps_artifacts sv sv'" "sv_journal sv' = sv_journal sv"
  shows "trail env sv'"
  using assms true_event_kept unfolding trail_def by metis

lemma announced_kept: "announced sv c \<Longrightarrow> keeps_artifacts sv sv' \<Longrightarrow> announced sv' c"
  by (auto simp: announced_def intro: put_in_kept split: pc.splits)

lemma event_of_ok:
  "event_ok (event_of env i k t p) \<Longrightarrow> ev_OperationID (event_of env i k t p) = i \<and> ev_Kind (event_of env i k t p) = k"
  by (auto simp: event_of_def NewEvent_def event_ok_def zero_event_def split: sum.splits option.splits if_splits)

lemma stamped_simps [simp]:
  "ev_OperationID (stamped op e) = ev_OperationID e" "ev_Kind (stamped op e) = ev_Kind e"
  "event_ok (stamped op e) = event_ok e"
  by (simp_all add: stamped_def event_ok_def)

lemma append_event_trail:
  assumes t: "trail env sv" and e: "event_ok e \<Longrightarrow> true_event env sv e"
    and a: "append_event env inp cx e sv = (u, sv')"
  shows "trail env sv'"
proof -
  obtain m where m: "sv_journal sv = MemoryStore m" "\<forall>line\<in>set (ms_lines m).
      \<exists>n ev. line_of (se_json env) n ev = Some line \<and> event_ok ev \<and> true_event env sv ev"
    using t by (auto simp: trail_def)
  have "true_event env sv' ev = true_event env sv ev" for ev
    using append_event_same(1,2) [OF a] by (simp add: true_event_def put_in_def)
  moreover have "\<exists>m'. sv_journal sv' = MemoryStore m' \<and> (ms_lines m' = ms_lines m
      \<or> event_ok e \<and> (\<exists>n b. line_of (se_json env) n e = Some b \<and> ms_lines m' = ms_lines m @ [b]))"
    using a m(1)
    by (auto simp: append_event_def Append_def Memory_Append_def encodeEnvelope_line event_ok_def Let_def
        split: option.splits prod.splits sum.splits if_splits)
  ultimately obtain m' where m': "sv_journal sv' = MemoryStore m'" "ms_lines m' = ms_lines m
      \<or> event_ok e \<and> (\<exists>n b. line_of (se_json env) n e = Some b \<and> ms_lines m' = ms_lines m @ [b])"
    and same: "\<And>ev. true_event env sv' ev = true_event env sv ev" by blast
  have "\<exists>n ev. line_of (se_json env) n ev = Some line \<and> event_ok ev \<and> true_event env sv ev"
    if "line \<in> set (ms_lines m')" for line
    using m'(2) that m(2) e by (elim disjE) (force, force)
  with m'(1) show ?thesis by (simp add: trail_def same)
qed

lemma op_ok_event:
  assumes "op_ok env sv op" "k \<noteq> ''completed''" "event_ok (event_of env (op_ID op) k t p)"
  shows "true_event env sv (event_of env (op_ID op) k t p)"
  using event_of_ok [OF assms(3)] assms(1,2) by (auto simp: true_event_def op_ok_def)

lemma true_event_stamped [simp]: "true_event env sv (stamped op e) = true_event env sv e"
  by (simp add: true_event_def)


text \<open>The five sections that append.\<close>

lemma append_sections_trail:
  assumes t: "trail env sv"
  shows "op_ok env sv op \<Longrightarrow> trail env (snd (submit_append env inp cx op n sv))"
    "run_ok env sv run \<Longrightarrow> trail env (snd (run_started env inp cx run l now n sv))"
    "done_ok env sv op rq res \<Longrightarrow> put_in sv res \<Longrightarrow> trail env (snd (run_completed env inp cx op l r rq res sv))"
    "run_ok env sv run \<Longrightarrow> trail env (snd (finish_append env inp cx run f l r e d bg sv))"
    "op_ok env sv op \<Longrightarrow> trail env (snd (cancel_append env inp cx op r now sv))"
proof -
  show "op_ok env sv op \<Longrightarrow> trail env (snd (submit_append env inp cx op n sv))"
    by (auto simp: submit_append_def split: prod.split option.split sum.split
        elim!: append_event_trail [OF t, rotated] intro: op_ok_event)
  show "run_ok env sv run \<Longrightarrow> trail env (snd (run_started env inp cx run l now n sv))"
    by (auto simp: run_started_def run_ok_def split: prod.split option.split
        elim!: append_event_trail [OF t, rotated] intro: op_ok_event)
  show "run_ok env sv run \<Longrightarrow> trail env (snd (finish_append env inp cx run f l r e d bg sv))"
    by (auto simp: finish_append_def run_ok_def split: prod.split option.split
        elim!: append_event_trail [OF t, rotated] intro: op_ok_event)
  show "op_ok env sv op \<Longrightarrow> trail env (snd (cancel_append env inp cx op r now sv))"
    by (auto simp: cancel_append_def split: prod.split option.split
        elim!: append_event_trail [OF t, rotated] intro: op_ok_event)
  have "true_event env sv (event_of env (op_ID op) k now' p)"
    if "done_ok env sv op rq res" "put_in sv res" "event_ok (event_of env (op_ID op) k now' p)" for k now' p
    using event_of_ok [OF that(3)] that(1,2)
    by (auto simp: true_event_def done_ok_def op_ok_def result_fits_def)
  then show "done_ok env sv op rq res \<Longrightarrow> put_in sv res \<Longrightarrow>
      trail env (snd (run_completed env inp cx op l r rq res sv))"
    by (auto simp: run_completed_def split: prod.split option.split elim!: append_event_trail [OF t, rotated])
qed


section \<open>Every section keeps the trail\<close>

lemma update_record_journal [simp]: "sv_journal (snd (update_record op n sv)) = sv_journal sv"
  by (auto simp: update_record_def split: prod.split sum.split)

lemma update_record_journal' : "update_record op n sv = (u, sv') \<Longrightarrow> sv_journal sv' = sv_journal sv"
  by (auto simp: update_record_def split: prod.splits sum.splits)

lemma sections_journal [simp]:
  "sv_journal (snd (submit_number now rq sv)) = sv_journal sv"
  "sv_journal (snd (submit_create op rq sv)) = sv_journal sv"
  "sv_journal (snd (run_acquire now op sv)) = sv_journal sv"
  "sv_journal (snd (run_update run l t n sv)) = sv_journal sv"
  "sv_journal (snd (run_register self run l n sv)) = sv_journal sv"
  "sv_journal (snd (run_complete op l n rq res sv)) = sv_journal sv"
  "sv_journal (snd (run_artifact op l r rq res sv)) = sv_journal sv"
  "sv_journal (snd (finish_update env t run l n e c bg sv)) = sv_journal sv"
  "sv_journal (snd (run_unregister l i out sv)) = sv_journal sv"
  "sv_journal (snd (run_release l out sv)) = sv_journal sv"
  "sv_journal (snd (cancel_update p q t n sv)) = sv_journal sv"
  by (auto simp: submit_number_def submit_create_def run_acquire_def run_update_def run_register_def
      run_complete_def run_artifact_def finish_update_def run_unregister_def run_release_def
      cancel_update_def Let_def split: prod.split sum.split option.split dest: update_record_journal')

definition appends :: "pc \<Rightarrow> bool" where
  "appends c = (case c of
      S_Append p n \<Rightarrow> True | R_Started p l t n \<Rightarrow> True | R_Completed p l r rq res \<Rightarrow> True
    | R_Failed p f l r e d bg \<Rightarrow> True | C_Append p r t \<Rightarrow> True | _ \<Rightarrow> False)"

lemma call_step_journal:
  assumes "call_step env inp self cx wcx c sv = Some ((c', sv'), sig)" "\<not> appends c"
  shows "sv_journal sv' = sv_journal sv"
  using assms
  by (cases c) (auto simp: appends_def dest!: arg_cong [of _ _ "snd :: pc \<times> service \<Rightarrow> service"])

lemma call_step_trail:
  assumes ok: "service_ok env sv" "pc_ok env sv c" and t: "trail env sv" "announced sv c"
    and s: "call_step env inp self cx wcx c sv = Some ((c', sv'), sig)"
  shows "trail env sv'"
proof (cases "appends c")
  case False
  have "extends sv sv'" using call_step_ok [OF ok s] by (simp add: step_ok_def)
  then show ?thesis
    using trail_kept [OF t(1) _ call_step_artifacts [OF s] call_step_journal [OF s False]] by blast
next
  case True
  then show ?thesis
    using s ok(2) t(2) append_sections_trail [OF t(1)]
    by (cases c) (auto simp: appends_def announced_def
        dest!: arg_cong [of _ _ "snd :: pc \<times> service \<Rightarrow> service"])
qed

lemma announced_simps [simp]:
  "announced sv (R_Completed op l r rq res) = put_in sv res"
  "(\<And>op l r rq res. c \<noteq> R_Completed op l r rq res) \<Longrightarrow> announced sv c"
  by (auto simp: announced_def split: pc.split)

lemma run_artifact_announced:
  assumes "run_artifact op l r rq res sv = (c', sv')"
  shows "announced sv' c'"
proof -
  obtain u c where put: "PutArtifact \<lparr>ar_Receipt = receipt_of res, ar_OperationID = op_ID op,
      ar_CommittedAt = op_UpdatedAt op\<rparr> (sv_catalog sv) = (u, c)" by fastforce
  then have "sv' = sv\<lparr>sv_catalog := c\<rparr>" "u \<noteq> None \<Longrightarrow> announced sv' c'"
    "u = None \<Longrightarrow> c' = R_Completed op l r rq res"
    using assms by (auto simp: run_artifact_def split: option.splits)
  with put show ?thesis
    by (cases rule: PutArtifact_cases)
      (auto simp: put_in_def GetArtifact_def receipt_of_def update_conv')
qed

lemma call_step_announced:
  assumes s: "call_step env inp self cx wcx c sv = Some ((c', sv'), sig)"
  shows "announced sv' c'"
proof (cases c)
  case (R_Artifact op l r rq res)
  with s run_artifact_announced [of op l r rq res sv c' sv'] show ?thesis by simp
qed (use s in \<open>auto simp: get_step_def request_step_def got_def submit_admit_def submit_number_def
    submit_create_def submit_append_def run_acquire_def run_start_def run_update_def run_started_def
    run_register_def run_admit_def run_begin_def run_merged_def merge_failed_def run_complete_def
    run_completed_def finish_update_def finish_append_def run_unregister_def run_release_def cancel_read_def
    cancel_update_def cancel_append_def wait_delay_def wait_select_def Let_def
    split: option.splits sum.splits prod.splits caller.splits main_pc.splits if_splits\<close>)

interpretation trail: counter_invariant env "trail env" announced for env
proof
  fix sv sv' :: service and c c' d :: pc and inp self cx wcx sig
  assume ok: "service_ok env sv" "pc_ok env sv c"
    and s: "call_step env inp self cx wcx c sv = Some ((c', sv'), sig)"
  show "trail env sv' \<and> announced sv' c'" if "trail env sv" "announced sv c"
    using call_step_trail [OF ok that s] call_step_announced [OF s] by blast
  show "announced sv' d" if "announced sv d"
    using announced_kept [OF that call_step_artifacts [OF s]] .
next
  fix sv :: service and c :: pc and lm
  show "trail env (sv\<lparr>sv_leases := lm\<rparr>)" if "trail env sv"
    using that by (simp add: trail_def true_event_def put_in_def)
  show "announced (sv\<lparr>sv_leases := lm\<rparr>) c" if "announced sv c"
    using announced_kept [OF that] by (simp add: keeps_same)
next
  show "announced sv (first_pc k)" for sv k by (cases k) simp_all
qed simp_all


section \<open>The names of the operations\<close>

text \<open>Every operation has an identifier in ASCII, so JSON keeps it.\<close>

definition named :: "service \<Rightarrow> bool" where
  "named sv \<longleftrightarrow> (\<forall>i rq. sv_requests sv i = Some rq \<longrightarrow> ascii i)"

fun naming :: "pc \<Rightarrow> bool" where
  "naming (S_Create p rq) = ascii (op_ID p)"
| "naming (S_Store p rq n) = ascii (op_ID p)"
| "naming _ = True"

lemma operation_id_ascii: "ascii (operation_id part seq)"
proof -
  have "ascii (hex_digits k n)" for k n
    by (induction k arbitrary: n) simp_all
  moreover have "ascii (pad k s) \<longleftrightarrow> ascii s" for k s by (auto simp: pad_def ascii_def)
  ultimately show ?thesis by (simp add: operation_id_def)
qed

lemma call_step_naming:
  assumes s: "call_step env inp self cx wcx c sv = Some ((c', sv'), sig)" and n: "naming c"
  shows "naming c'"
  using s n by (cases c)
    (auto simp: get_step_def request_step_def got_def submit_admit_def submit_number_def
      submit_operation_def operation_id_ascii
      submit_create_def submit_append_def run_acquire_def run_start_def run_update_def run_started_def
      run_register_def run_admit_def run_begin_def run_merged_def merge_failed_def run_complete_def
      run_artifact_def run_completed_def finish_update_def finish_append_def run_unregister_def
      run_release_def cancel_read_def cancel_update_def cancel_append_def wait_delay_def wait_select_def
      Let_def split: option.splits sum.splits prod.splits caller.splits main_pc.splits if_splits)

lemma update_record_requests: "update_record op n sv = (u, sv') \<Longrightarrow> sv_requests sv' = sv_requests sv"
  by (auto simp: update_record_def split: prod.splits sum.splits)

lemma append_event_requests: "append_event env inp cx e sv = (u, sv') \<Longrightarrow> sv_requests sv' = sv_requests sv"
  by (auto simp: append_event_def split: prod.splits sum.splits)

lemma sections_requests [simp]:
  "sv_requests (snd (update_record op n sv)) = sv_requests sv"
  "sv_requests (snd (submit_number now rq sv)) = sv_requests sv"
  "sv_requests (snd (submit_create op rq sv)) = sv_requests sv"
  "sv_requests (snd (submit_append env inp cx op n sv)) = sv_requests sv"
  "sv_requests (snd (run_acquire now op sv)) = sv_requests sv"
  "sv_requests (snd (run_update run l t n sv)) = sv_requests sv"
  "sv_requests (snd (run_started env inp cx run l t n sv)) = sv_requests sv"
  "sv_requests (snd (run_register self run l n sv)) = sv_requests sv"
  "sv_requests (snd (run_complete op l n rq res sv)) = sv_requests sv"
  "sv_requests (snd (run_artifact op l r rq res sv)) = sv_requests sv"
  "sv_requests (snd (run_completed env inp cx op l r rq res sv)) = sv_requests sv"
  "sv_requests (snd (finish_update env t run l n e c bg sv)) = sv_requests sv"
  "sv_requests (snd (finish_append env inp cx run f l r e d bg sv)) = sv_requests sv"
  "sv_requests (snd (run_unregister l i out sv)) = sv_requests sv"
  "sv_requests (snd (run_release l out sv)) = sv_requests sv"
  "sv_requests (snd (cancel_update p q t n sv)) = sv_requests sv"
  "sv_requests (snd (cancel_append env inp cx op r t sv)) = sv_requests sv"
  by (auto simp: submit_number_def submit_create_def submit_append_def run_acquire_def run_update_def
      run_started_def run_register_def run_complete_def run_artifact_def run_completed_def
      finish_update_def finish_append_def run_unregister_def run_release_def cancel_update_def
      cancel_append_def Let_def split: prod.split sum.split option.split
      dest: update_record_requests append_event_requests intro: update_record_requests prod.collapse [symmetric])

lemma call_step_requests:
  assumes "call_step env inp self cx wcx c sv = Some ((c', sv'), sig)" "\<nexists>p rq n. c = S_Store p rq n"
  shows "sv_requests sv' = sv_requests sv"
  using assms
  by (cases c) (auto dest!: arg_cong [of _ _ "snd :: pc \<times> service \<Rightarrow> service"])

lemma call_step_named:
  assumes s: "call_step env inp self cx wcx c sv = Some ((c', sv'), sig)" and n: "naming c" "named sv"
  shows "named sv'"
proof (cases "\<exists>p rq n. c = S_Store p rq n")
  case True
  with s n show ?thesis by (auto simp: named_def split: if_splits)
next
  case False
  with call_step_requests [OF s] n(2) show ?thesis by (simp add: named_def)
qed

interpretation names: counter_invariant env named "\<lambda>_. naming" for env
proof
  fix sv sv' :: service and c c' :: pc and inp self cx wcx sig
  assume s: "call_step env inp self cx wcx c sv = Some ((c', sv'), sig)"
  show "named sv' \<and> naming c'" if "named sv" "naming c"
    using call_step_named [OF s] call_step_naming [OF s] that by blast
next
  show "naming (first_pc k)" for k by (cases k) simp_all
qed (simp_all add: named_def)


section \<open>What is read back\<close>

lemma decode_lines_decoded:
  assumes "decode_lines js cx i n res ls = Inr rp" "e \<in> set (rp_Events rp)"
  shows "e \<in> set (rp_Events res) \<or> selects i e \<and> (\<exists>l\<in>set ls. js_decode js (dropCR l) = Some e)"
  using assms
proof (induction ls arbitrary: n res)
  case (Cons l ls)
  from Cons.prems(1) obtain x res' where x: "js_decode js (dropCR l) = Some x"
    "decode_lines js cx i (n + 1) res' ls = Inr rp"
    "rp_Events res' = rp_Events res \<or> selects i x \<and> rp_Events res' = rp_Events res @ [x]"
    by (auto simp: selects_def split: if_splits option.splits)
  from Cons.IH [OF x(2) Cons.prems(2)] x(1,3) show ?case by auto
qed simp

lemma trail_text: "named sv \<Longrightarrow> event_ok ev \<Longrightarrow> true_event env sv ev \<Longrightarrow> event_text ev"
  by (auto simp: named_def true_event_def event_text_def event_ok_def kind_ascii ascii_valid)

lemma true_event_compacted [simp]: "true_event env sv (compacted js ev) = true_event env sv ev"
  by (simp add: true_event_def)

lemma trail_replayed:
  assumes t: "trail env sv" "named sv" and js: "codec_ok (se_json env)"
    and r: "Service_Replay env cx i sv = Inr es" "e \<in> set es"
  shows "true_event env sv (en_Event e) \<and> ev_OperationID (en_Event e) = i"
proof -
  obtain m where m: "sv_journal sv = MemoryStore m" "\<And>line. line \<in> set (ms_lines m) \<Longrightarrow>
      \<exists>n ev. line_of (se_json env) n ev = Some line \<and> event_ok ev \<and> true_event env sv ev"
    using t(1) by (auto simp: trail_def)
  have "\<forall>l\<in>set (ms_lines m). 10 \<notin> set l" using m(2) line_of_clean(2) [OF js] by blast
  then have "split_lines [] (joinLines (ms_lines m)) = ms_lines m"
    using split_lines_join [of "ms_lines m" "[]"] by simp
  then obtain rp where "i \<noteq> []" "decode_lines (se_json env) cx i 1 empty_replay (ms_lines m) = Inr rp"
    "e \<in> set (rp_Events rp)"
    using r m(1)
    by (auto simp: Service_Replay_def journal_Replay_def Memory_Replay_def decodeStream_def
        split: sum.splits if_splits)
  with decode_lines_decoded [OF this(2,3)] obtain l where l: "l \<in> set (ms_lines m)" "selects i e" "i \<noteq> []"
    "js_decode (se_json env) (dropCR l) = Some e" by (auto simp: empty_replay_def)
  from m(2) [OF l(1)] obtain n ev where ev: "line_of (se_json env) n ev = Some l" "event_ok ev"
    "true_event env sv ev" by blast
  from line_of_decode(1) [OF js ev(2) trail_text [OF t(2) ev(2,3)] ev(1)] l(4)
  have "e = recorded (se_json env) n ev" by simp
  with l(2,3) ev(3) show ?thesis by (simp add: recorded_def selects_def)
qed

lemma trail_new: "trail env (NewService c None None lm a)"
  by (simp add: trail_def NewService_def NewMemoryStore_def)


section \<open>The property\<close>

text \<open>
  C20: What the event history of an operation says is true, in every state that a service with a
  journal in memory reaches, whatever the calls, their interleaving and their failures. Each event
  that \<open>Replay\<close> returns for an identifier is an event of that operation, which is in the catalog; and
  where the event returned says that the operation is completed, the artifact of its file is in the
  catalog, with the version and the digest that a merge of the operation's request has verified.
\<close>
theorem journal_tells_truth:
  assumes "svc_run env ls (system_of (NewService c None None lm a)) = Some s" "codec_ok (se_json env)"
    "Service_Replay env cx i (sy_service s) = Inr es" "e \<in> set es"
  shows "ev_OperationID (en_Event e) = i
    \<and> (\<exists>r. table (sv_catalog (sy_service s)) i = Some r)
    \<and> (ev_Kind (en_Event e) = ''completed'' \<longrightarrow>
         (\<exists>rq res art. sv_requests (sy_service s) i = Some rq \<and> verified env rq res
            \<and> GetArtifact (mr_FileID res) (sv_catalog (sy_service s)) = Inr art
            \<and> rc_Version (ar_Receipt art) = mr_Version res \<and> rc_Digest (ar_Receipt art) = mr_Digest res))"
proof -
  have "trail env (sy_service s)"
    using trail.reachable(1) [OF assms(1) service_ok_NewService trail_new] .
  moreover have "named (NewService c None None lm a)" by (simp add: named_def NewService_def)
  from names.reachable(1) [OF assms(1) service_ok_NewService this] have "named (sy_service s)" .
  ultimately have ev: "true_event env (sy_service s) (en_Event e)" "ev_OperationID (en_Event e) = i"
    using trail_replayed [OF _ _ assms(2-4)] by blast+
  moreover obtain r where "table (sv_catalog (sy_service s)) i = Some r"
    using ev service_okD(3) [OF reached_service [OF assms(1)]]
    by (fastforce simp: true_event_def request_ok_def)
  ultimately show ?thesis unfolding true_event_def put_in_def by blast
qed

text \<open>The submission of the demo, with a journal format that satisfies \<open>codec_ok\<close>.\<close>

definition plain_svc :: svc_env where
  "plain_svc = demo_svc\<lparr>se_json := plain_json\<rparr>"

definition accepted_event :: event where
  "accepted_event = \<lparr>ev_OperationID = demo_id, ev_Kind = ''accepted'', ev_At = 1, ev_Attempt = 0,
     ev_Fence = 0, ev_Payload = []\<rparr>"

definition accepted_line :: bytes where
  "accepted_line = enc_fields (envelope_fields (sealed plain_json 1 accepted_event))"

definition plain_submitted :: service where
  "plain_submitted = (demo_sv 2 demo_record [] 0 NewManager Map.empty)
     \<lparr>sv_journal := MemoryStore \<lparr>ms_lines = [accepted_line], ms_next = 1\<rparr>\<rparr>"

lemma plain_run:
  "svc_run plain_svc demo_submit (system_of (demo_service 2)) =
    Some \<lparr>sy_service = plain_submitted, sy_threads = [plain None (Done (Returned (Some demo_op) True None))]\<rparr>"
proof -
  let ?sv = "demo_sv 2 demo_record [] 0 NewManager Map.empty"
  have ev: "event_of plain_svc demo_id ''accepted'' 1 p = accepted_event" for p
    by (simp add: event_of_def NewEvent_def plain_svc_def demo_svc_def json_null_def accepted_event_def)
  have "append_event plain_svc (at 1) None accepted_event ?sv = (None, plain_submitted)"
    by (simp add: append_event_def Append_def demo_journal_def Memory_Append_def encodeEnvelope_line
        plain_svc_def plain_line accepted_line_def plain_submitted_def) (simp add: accepted_event_def)
  then have "call_step plain_svc (at 1) 0 None None (S_Append demo_op 1) ?sv =
      Some ((Done (Returned (Some demo_op) True None), plain_submitted), None)"
    by (simp add: submit_append_def ev)
  then show ?thesis
    unfolding demo_submit_def
    by (simp add: demo_stored run_step del: svc_run.simps(2))
qed

lemma length_dec: "length (dec n) \<le> Suc n"
proof (induction n rule: dec.induct)
  case (1 n)
  then show ?case by (subst dec.simps) (cases "n < 10"; simp; linarith)
qed

lemma demo_partition: "unat (partition_of 64 ''k'') < 64"
proof -
  have "unat (ucast (x mod 64) :: u32) \<le> unat (x mod 64)" for x :: u64
    by (simp add: unsigned_ucast_eq take_bit_eq_mod)
  also have "unat (x mod 64) < 64" for x :: u64
    by (simp add: unat_mod_distrib)
  finally have "unat (ucast (x mod 64) :: u32) < 64" for x :: u64 .
  then show ?thesis by (simp add: partition_of_def del: unsigned_ucast_eq)
qed

lemma demo_id_short: "length demo_id \<le> 100"
  using demo_partition length_dec [of "unat (partition_of 64 ''k'')"]
  by (simp add: demo_id_def operation_id_def pad_def)

lemma plain_replay:
  "Service_Replay plain_svc (\<lambda>_. None) demo_id plain_submitted = Inr [recorded plain_json 1 accepted_event]"
proof -
  have "ascii demo_id" by (simp add: demo_id_def operation_id_ascii)
  then have "event_ok accepted_event" "event_text accepted_event"
    by (simp_all add: event_ok_def event_text_def accepted_event_def ascii_valid)
  moreover have "length accepted_line < max_token"
    using demo_id_short
    by (simp add: accepted_line_def plain_line_length accepted_event_def max_token_def enc_int_def dec.simps)
  ultimately have "logged plain_json 1 [accepted_event] [accepted_line]"
    by (simp add: plain_line accepted_line_def)
  then have "decodeStream plain_json (\<lambda>_. None) (joinLines [accepted_line]) demo_id =
      Inr \<lparr>rp_Events = filter (selects demo_id) [recorded plain_json 1 accepted_event],
        rp_LastSequence = 1, rp_Truncated = False\<rparr>"
    using decodeStream_log [OF plain_json_ok, of "[accepted_event]" "[accepted_line]" demo_id] by simp
  moreover have "selects demo_id (recorded plain_json 1 accepted_event)"
    by (simp add: selects_def recorded_def) (simp add: accepted_event_def)
  ultimately show ?thesis
    by (simp add: Service_Replay_def journal_Replay_def Memory_Replay_def plain_submitted_def plain_svc_def)
qed

theorem journal_tells_truth_witness:
  "Service_Replay plain_svc (\<lambda>_. None) demo_id plain_submitted = Inr [recorded plain_json 1 accepted_event]
   \<and> (\<exists>r. table (sv_catalog plain_submitted) demo_id = Some r)"
proof -
  have "codec_ok (se_json plain_svc)" by (simp add: plain_svc_def plain_json_ok)
  from journal_tells_truth [OF plain_run [unfolded demo_system] this] plain_replay
  show ?thesis by (fastforce simp: plain_svc_def)
qed

end
