(* ===== verification/MergerLiveness.thy ===== *)
theory MergerLiveness
  imports Merges
begin

text \<open>
  Whether a merge ends. Every step of the program uses up fuel, so no schedule runs for ever.
  With one worker some goroutine can always move until the merge returns, so it does return;
  with two it can get stuck on its own byte budget.
\<close>

section \<open>Every step uses fuel\<close>

text \<open>\<open>turns\<close> goes down with every move of the coarser view.\<close>

fun worker_work :: "worker \<Rightarrow> nat" where
  "worker_work W_Exit = 0"
| "worker_work W_Idle = 1"
| "worker_work (W_Send r) = 5"
| "worker_work (W_Hold e l) = 6"
| "worker_work (W_Wait e g) = 7"
| "worker_work (W_Enter e) = 8"

fun pc_work :: "main_pc \<Rightarrow> nat" where
  "pc_work M_Recv = 4"
| "pc_work M_Flush = 5"
| "pc_work (M_Save ld) = 5"
| "pc_work (M_Drain e) = 1"
| "pc_work M_Commit = 3"
| "pc_work (M_Index r) = 2"
| "pc_work (M_Clear r) = 1"
| "pc_work (M_Return r) = 0"

definition work :: "merge_state \<Rightarrow> nat" where
  "work s = 8 * length (g_jobs s) + (\<Sum>w\<leftarrow>g_workers s. worker_work w)
     + 3 * length (g_results s) + length (g_pending s) + pc_work (g_pc s)"

text \<open>A waiter whose generation has passed may wake and wait again, once per generation.\<close>

fun worker_stale :: "nat \<Rightarrow> worker \<Rightarrow> nat" where
  "worker_stale now (W_Wait e g) = (if g = now then 0 else 1)"
| "worker_stale now _ = 0"

definition stale :: "merge_state \<Rightarrow> nat" where
  "stale s = (\<Sum>w\<leftarrow>g_workers s. worker_stale (bb_changed (g_budget s)) w)"

definition turns :: "merge_state \<Rightarrow> nat" where
  "turns s = work s * Suc (length (g_workers s)) + stale s"

lemma stale_le: "stale s \<le> length (g_workers s)"
proof -
  have "worker_stale n w \<le> 1" for n w by (cases w) auto
  then show ?thesis
    using sum_list_mono [of "g_workers s" "worker_stale (bb_changed (g_budget s))" "\<lambda>_. 1"]
    by (simp add: stale_def sum_list_triv)
qed

lemma turns_work:
  assumes "work s' < work s" "length (g_workers s') = length (g_workers s)"
  shows "turns s' < turns s"
proof -
  have "work s' * Suc (length (g_workers s)) + Suc (length (g_workers s)) \<le> work s * Suc (length (g_workers s))"
    using mult_le_mono1 [of "Suc (work s')" "work s" "Suc (length (g_workers s))"] assms(1) by simp
  then show ?thesis using stale_le [of s'] assms(2) by (simp add: turns_def)
qed

lemma sum_list_update_nat:
  fixes f :: "'a \<Rightarrow> nat"
  shows "i < length xs \<Longrightarrow> (\<Sum>x\<leftarrow>xs[i := y]. f x) + f (xs ! i) = (\<Sum>x\<leftarrow>xs. f x) + f y"
proof (induction xs arbitrary: i)
  case (Cons x xs)
  then show ?case by (cases i) auto
qed simp

lemma work_worker:
  assumes "i < length (g_workers s)" "g_workers s' = (g_workers s)[i := w]"
    "8 * length (g_jobs s') + 3 * length (g_results s') + worker_work w
       < 8 * length (g_jobs s) + 3 * length (g_results s) + worker_work (g_workers s ! i)"
    "g_pending s' = g_pending s" "g_pc s' = g_pc s"
  shows "turns s' < turns s"
  using sum_list_update_nat [OF assms(1), of worker_work w] assms
  by (intro turns_work) (simp_all add: work_def)

text \<open>A wake-up in vain: the waiter now holds the current generation.\<close>

lemma turns_wait_again:
  assumes "i < length (g_workers s)" "g_workers s ! i = W_Wait e g" "g \<noteq> bb_changed (g_budget s)"
  shows "turns (set_worker i (W_Wait e (bb_changed (g_budget s))) s) < turns s"
proof -
  let ?w = "W_Wait e (bb_changed (g_budget s))"
  have "stale (set_worker i ?w s) < stale s"
    using sum_list_update_nat [OF assms(1), of "worker_stale (bb_changed (g_budget s))" ?w] assms(2,3)
    by (simp add: stale_def)
  moreover have "work (set_worker i ?w s) = work s"
    using sum_list_update_nat [OF assms(1), of worker_work ?w] assms(2) by (simp add: work_def)
  ultimately show ?thesis by (simp add: turns_def)
qed

lemma after_acquire_work:
  "worker_work (after_acquire e r) \<le> 7"
  by (cases r) (simp_all add: after_acquire_def)

lemma length_alist_update: "length (AList.update k v al) \<le> Suc (length al)"
  by (induction al) auto

lemma length_alist_delete:
  "map_of al k = Some v \<Longrightarrow> length (AList.delete k al) < length al"
proof (induction al)
  case (Cons p al)
  have "length (AList.delete k al) \<le> length al" by (simp add: AList.delete_eq)
  with Cons show ?case by (cases p) (auto simp: less_Suc_eq_le split: if_splits)
qed simp

lemma turns_main:
  assumes "g_workers s' = g_workers s" "g_jobs s' = g_jobs s"
    "3 * length (g_results s') + length (g_pending s') + pc_work (g_pc s')
       < 3 * length (g_results s) + length (g_pending s) + pc_work (g_pc s)"
  shows "turns s' < turns s"
  using assms by (intro turns_work) (simp_all add: work_def)

lemma merge_move_turns:
  assumes "merge_move env False s s'" "inv_entries s"
  shows "turns s' < turns s"
  using assms
proof (induction "False" s s' rule: merge_move.induct)
  case (dispatch i s e es)
  then show ?case by (intro work_worker [of i s _ "W_Enter e"]) auto
next
  case (exit i s)
  then show ?case by (intro work_worker [of i s _ W_Exit]) auto
next
  case (enter i s e r b)
  then show ?case
    using after_acquire_work [of e r] by (intro work_worker [of i s _ "after_acquire e r"]) auto
next
  case (wake i s e g r b)
  from wake(4) show ?case
  proof (cases rule: Acquire_loop_cases)
    case 1
    with wake show ?thesis
      by (intro work_worker [of i s _ "after_acquire e r"]) (auto simp: after_acquire_def)
  next
    case 2
    with wake show ?thesis
      using turns_wait_again [of i s e g] by (simp add: after_acquire_def)
  qed
next
  case (give_up i s e g err)
  then show ?case by (intro work_worker [of i s _ "W_Send (Inl (CtxErr err))"]) auto
next
  case (load i s e l r b)
  then show ?case by (intro work_worker [of i s _ "W_Send r"]) auto
next
  case (send i s r)
  then show ?case by (intro work_worker [of i s _ W_Idle]) auto
next
  case (recv_loaded s ld rs)
  then show ?case
    using length_alist_update [of "pe_Ordinal (ls_Entry ld)" ld "g_pending s"]
    by (intro turns_main) auto
next
  case (flush_saved s ld w s1 cps)
  then have "length (AList.delete (pe_Ordinal (ls_Entry ld)) (g_pending s)) < length (g_pending s)"
    using flush_entry(4) [of s ld] by (intro length_alist_delete [of _ _ ld]) simp
  with flush_saved show ?case by (intro turns_main) auto
next
  case (commit s)
  have "pc_work (g_pc (commit_step s)) < 3"
    by (auto simp: commit_step_def split: prod.splits sum.splits option.splits)
  with commit show ?case by (intro turns_main) auto
next
  case (index s r)
  have "pc_work (g_pc (index_step r s)) < 2"
    by (auto simp: index_step_def split: prod.splits option.splits)
  with index show ?case by (intro turns_main) auto
next
  case (clear s r)
  have "pc_work (g_pc (clear_step r s)) < 1"
    by (auto simp: clear_step_def split: prod.splits option.splits)
  with clear show ?case by (intro turns_main) auto
qed (auto intro!: turns_main)


text \<open>A turn of the inner loop is two steps of the code, so a move counts twice.\<close>

definition fuel :: "merge_state \<Rightarrow> nat" where
  "fuel s = 2 * turns (settled s) + (if saving s then 1 else 0)"

lemma merge_step_fuel:
  assumes "merge_step env l s = Some s'" "\<not> is_cancel l" "turn_ok s" "inv_entries (settled s)"
  shows "fuel s' < fuel s"
  using turn [OF assms(1,3)]
proof (elim conjE disjE)
  assume "merge_move env (is_cancel l) (settled s) (settled s')"
  with assms(2,4) have "turns (settled s') < turns (settled s)" by (intro merge_move_turns) auto
  then show ?thesis by (simp add: fuel_def del: settled_simps)
qed (simp add: fuel_def)

lemma cancel_fuel: "turns (cancel_ctx e s) = turns s"
  by (simp add: turns_def work_def stale_def)

lemma merge_step_entries:
  assumes "merge_step env l s = Some s'" "turn_ok s" "inv_entries (settled s)"
  shows "turn_ok s'" "inv_entries (settled s')"
  using turn [OF assms(1,2)] assms(3) by (auto intro: inv_entries_move)

lemma merge_run_fuel:
  assumes "merge_run env ls s = Some s'" "turn_ok s" "inv_entries (settled s)"
  shows "length (filter (\<lambda>l. \<not> is_cancel l) ls) + fuel s' \<le> fuel s"
  using assms
proof (induction ls arbitrary: s)
  case (Cons l ls)
  from Cons.prems(1) obtain t where t: "merge_step env l s = Some t" "merge_run env ls t = Some s'"
    by (auto split: option.splits)
  note ok = merge_step_entries [OF t(1) Cons.prems(2,3)]
  have IH: "length (filter (\<lambda>l. \<not> is_cancel l) ls) + fuel s' \<le> fuel t" using Cons.IH [OF t(2) ok] .
  show ?case
  proof (cases "is_cancel l")
    case True
    then obtain e where "t = cancel_ctx e s" using t(1) by (auto simp: is_cancel_def)
    moreover from this have "settled t = cancel_ctx e (settled s)" by (simp add: settled_cancel)
    ultimately have "fuel t = fuel s" by (simp add: fuel_def cancel_fuel saving_def)
    with IH True show ?thesis by simp
  next
    case False
    with merge_step_fuel [OF t(1) _ Cons.prems(2,3)] have "fuel t < fuel s" by simp
    with IH False show ?thesis by simp
  qed
qed simp


lemma merge_start_fuel:
  assumes "Merge_start n cx1 cx2 m b w cps x = Inr s0" "merge_run env ls s0 = Some s"
  shows "length (filter (\<lambda>l. \<not> is_cancel l) ls) + fuel s \<le> fuel s0"
  using merge_run_fuel [OF assms(2) Merge_start_turn_ok [OF assms(1)]] Merge_start_inv(2) [OF assms(1)]
    Merge_start_settled [OF assms(1)] by simp


section \<open>A waiter waits for a reason\<close>

text \<open>What the budget does while a worker waits.\<close>

definition later :: "byte_budget \<Rightarrow> byte_budget \<Rightarrow> bool" where
  "later b b' \<longleftrightarrow>
     bb_limit b' = bb_limit b \<and> bb_changed b \<le> bb_changed b'
     \<and> (bb_changed b' = bb_changed b \<longrightarrow> sint (bb_reserved b) \<le> sint (bb_reserved b'))"

lemma later_refl [simp]: "later b b"
  by (simp add: later_def)

lemma later_trans: "later a b \<Longrightarrow> later b c \<Longrightarrow> later a c"
  by (auto simp: later_def)

lemma later_release: "later b (snd (Release l b))" "later b (release_loaded ld b)"
  by (auto simp: later_def Release_def release_loaded_def Let_def split: option.split)

lemma later_release_all: "later b (fold (\<lambda>(o', ld). release_loaded ld) ps b)"
  by (induction ps arbitrary: b) (auto intro: later_trans later_release)

lemma later_Load_held: "Load_held g src cx e l b = (r, b') \<Longrightarrow> later b b'"
  by (auto simp: Load_held_def MarkResident_def Let_def later_def Release_def
      split: sum.splits option.splits prod.splits if_splits)

definition inv_wait :: "merge_state \<Rightarrow> bool" where
  "inv_wait s \<longleftrightarrow>
     (\<forall>e g. W_Wait e g \<in> set (g_workers s) \<longrightarrow> g \<le> bb_changed (g_budget s)
        \<and> (g = bb_changed (g_budget s) \<longrightarrow>
             sint (bb_limit (g_budget s)) < sint (bb_reserved (g_budget s)) + sint (pe_MemoryWeight e)))"

lemma inv_wait_later:
  assumes "inv_wait s" "later (g_budget s) (g_budget s')"
    "\<And>e g. W_Wait e g \<in> set (g_workers s') \<Longrightarrow> W_Wait e g \<in> set (g_workers s)"
  shows "inv_wait s'"
  unfolding inv_wait_def
proof (intro allI impI conjI)
  fix e g assume "W_Wait e g \<in> set (g_workers s')"
  then have "W_Wait e g \<in> set (g_workers s)" by (rule assms(3))
  with assms(1) have g: "g \<le> bb_changed (g_budget s)" "g = bb_changed (g_budget s) \<Longrightarrow>
      sint (bb_limit (g_budget s)) < sint (bb_reserved (g_budget s)) + sint (pe_MemoryWeight e)"
    by (auto simp: inv_wait_def)
  with assms(2) show "g \<le> bb_changed (g_budget s')" by (simp add: later_def)
  show "sint (bb_limit (g_budget s')) < sint (bb_reserved (g_budget s')) + sint (pe_MemoryWeight e)"
    if "g = bb_changed (g_budget s')"
    using g that assms(2) by (auto simp: later_def)
qed

lemma wait_in_update:
  "W_Wait e g \<in> set (ws[i := w]) \<Longrightarrow> (\<And>e g. w \<noteq> W_Wait e g) \<Longrightarrow> W_Wait e g \<in> set ws"
  using set_update_subset_insert [of ws i w] by auto

lemma inv_wait_acquire:
  assumes inv: "inv_wait s" and ok: "budget_ok (g_budget s)"
    and w: "1 \<le> sint (pe_MemoryWeight e)" "sint (pe_MemoryWeight e) \<le> sint (bb_limit (g_budget s))"
    and acq: "Acquire_loop (pe_MemoryWeight e) (g_budget s) = (r, b)"
  shows "inv_wait (set_worker i (after_acquire e r) (s\<lparr>g_budget := b\<rparr>))" (is "inv_wait ?s")
  using acq
proof (cases rule: Acquire_loop_cases)
  case 1
  have "later (g_budget s) b"
    using Acquire_loop_progress [OF ok w acq] 1 by (simp add: later_def)
  with 1 show ?thesis
    by (intro inv_wait_later [OF inv]) (auto simp: after_acquire_def dest: wait_in_update)
next
  case 2
  have "\<not> sint (bb_reserved (g_budget s)) + sint (pe_MemoryWeight e) \<le> sint (bb_limit (g_budget s))"
    using Acquire_loop_fits [OF ok w] acq 2 by (auto simp: Acquire_loop_def split: if_splits)
  then show ?thesis
    using inv 2 in_set_worker [of _ i "after_acquire e r" "s\<lparr>g_budget := b\<rparr>"]
    by (fastforce simp: inv_wait_def after_acquire_def)
qed

lemma inv_wait_move:
  assumes "merge_move env k s s'" "inv_budget s" "inv_wait s"
  shows "inv_wait s'"
  using assms
proof (induction rule: merge_move.induct)
  case (enter i s e r b)
  show ?case
  proof (cases "sint (pe_MemoryWeight e) < 1 \<or> sint (pe_MemoryWeight e) > sint (bb_limit (g_budget s))")
    case True
    with enter show ?thesis
      by (intro inv_wait_later [OF enter.prems(2)])
        (auto simp: Acquire_def after_acquire_def dest: wait_in_update)
  next
    case False
    with enter show ?thesis
      by (intro inv_wait_acquire) (auto simp: Acquire_def inv_budget_def)
  qed
next
  case (wake i s e g r b)
  then have "W_Wait e g \<in> set (g_workers s)" by (metis nth_mem)
  with wake show ?case by (intro inv_wait_acquire) (auto simp: inv_budget_def)
next
  case (load i s e l r b)
  show ?case
    by (rule inv_wait_later [OF load.prems(2)])
      (use later_Load_held [OF load(3)] in \<open>auto dest: wait_in_update\<close>)
next
  case (recv_error s e rs)
  then show ?case
    by (intro inv_wait_later [OF recv_error.prems(2)])
      (simp_all add: fail_with_def releasePending_def cancel_workers_def later_release_all)
next
  case (flush_write_error s ld e w)
  then show ?case
    by (intro inv_wait_later [OF flush_write_error.prems(2)])
      (simp_all add: fail_with_def releasePending_def cancel_workers_def
        later_trans [OF later_release(2) later_release_all])
next
  case (flush_abandoned s e k)
  then show ?case
    by (intro inv_wait_later [OF flush_abandoned.prems(2)])
      (simp_all add: fail_with_def releasePending_def cancel_workers_def later_release_all)
next
  case (recv_incomplete s)
  then show ?case
    by (intro inv_wait_later [OF recv_incomplete.prems(2)])
      (simp_all add: releasePending_def later_release_all)
qed (auto elim!: inv_wait_later simp: later_release dest: wait_in_update)



section \<open>One worker delivers in order\<close>

text \<open>
  With at most one worker the entries move through \<open>jobs\<close>, the worker, \<open>results\<close> and
  \<open>pending\<close> in the order of the plan. A slot is an entry, or \<open>None\<close> where the load failed.
\<close>

fun result_slot :: "load_result \<Rightarrow> plan_entry option" where
  "result_slot (Inl e) = None"
| "result_slot (Inr ld) = Some (ls_Entry ld)"

fun worker_slots :: "worker \<Rightarrow> plan_entry option list" where
  "worker_slots (W_Enter e) = [Some e]"
| "worker_slots (W_Wait e g) = [Some e]"
| "worker_slots (W_Hold e l) = [Some e]"
| "worker_slots (W_Send r) = [result_slot r]"
| "worker_slots _ = []"

definition pipeline :: "merge_state \<Rightarrow> plan_entry option list" where
  "pipeline s =
     map (\<lambda>p. Some (ls_Entry (snd p))) (g_pending s) @ map result_slot (g_results s)
     @ concat (map worker_slots (g_workers s)) @ map Some (g_jobs s)"

definition fills :: "plan_entry option \<Rightarrow> plan_entry \<Rightarrow> bool" where
  "fills o' e \<longleftrightarrow> o' = None \<or> o' = Some e"

definition inv_fifo :: "merge_state \<Rightarrow> bool" where
  "inv_fifo s \<longleftrightarrow>
     length (g_workers s) \<le> 1
     \<and> (list_all (\<lambda>w. w = W_Exit) (g_workers s) \<longrightarrow> g_jobs s = [])
     \<and> (running s \<longrightarrow> list_all2 fills (pipeline s) (to_write s))
     \<and> (g_pc s = M_Recv \<longrightarrow> g_pending s = [])
     \<and> (g_pc s = M_Flush \<longrightarrow> length (g_pending s) \<le> 1)"

lemma single_worker:
  assumes "length ws \<le> 1" "i < length ws"
  shows "ws = [ws ! i]" "ws[i := w] = [w]"
  using assms by (cases ws; auto)+

lemma inv_fifo_worker:
  assumes inv: "inv_fifo s" and i: "i < length (g_workers s)"
    and ws: "g_workers s' = (g_workers s)[i := w]"
    and same: "g_pending s' = g_pending s" "g_pc s' = g_pc s" "to_write s' = to_write s"
    and jobs: "w = W_Exit \<Longrightarrow> g_jobs s' = []"
    and slots: "\<And>rest. list_all2 fills
        (map result_slot (g_results s) @ worker_slots (g_workers s ! i) @ map Some (g_jobs s)) rest \<Longrightarrow>
      list_all2 fills (map result_slot (g_results s') @ worker_slots w @ map Some (g_jobs s')) rest"
  shows "inv_fifo s'"
proof -
  have one: "length (g_workers s) \<le> 1" using inv by (simp add: inv_fifo_def)
  note w1 = single_worker(1) [OF one i] and w2 = single_worker(2) [OF one i, of w]
  have pipe: "pipeline s = map (\<lambda>p. Some (ls_Entry (snd p))) (g_pending s) @
      (map result_slot (g_results s) @ worker_slots (g_workers s ! i) @ map Some (g_jobs s))"
    unfolding pipeline_def by (subst w1) simp
  have pipe': "pipeline s' = map (\<lambda>p. Some (ls_Entry (snd p))) (g_pending s) @
      (map result_slot (g_results s') @ worker_slots w @ map Some (g_jobs s'))"
    unfolding pipeline_def ws w2 same by simp
  have "list_all2 fills (pipeline s') (to_write s')" if "list_all2 fills (pipeline s) (to_write s)"
  proof -
    from that [unfolded pipe] obtain us vs where "to_write s = us @ vs"
      "list_all2 fills (map (\<lambda>p. Some (ls_Entry (snd p))) (g_pending s)) us"
      "list_all2 fills (map result_slot (g_results s) @ worker_slots (g_workers s ! i)
         @ map Some (g_jobs s)) vs"
      unfolding list_all2_append1 [of _ "map (\<lambda>p. Some (ls_Entry (snd p))) (g_pending s)"] by blast
    then show ?thesis unfolding pipe' same using slots by (auto intro: list_all2_appendI)
  qed
  moreover have "list_all (\<lambda>w. w = W_Exit) (g_workers s') \<Longrightarrow> g_jobs s' = []"
    using jobs unfolding ws w2 by simp
  ultimately show ?thesis
    using inv same ws w2 by (simp add: inv_fifo_def running_def)
qed

lemma fills_None [simp]: "fills None e"
  by (simp add: fills_def)

lemma fills_lost:
  "list_all2 fills (xs @ Some e # ys) rest \<Longrightarrow> list_all2 fills (xs @ None # ys) rest"
  by (auto simp: list_all2_append1 list_all2_Cons1)

lemma inv_fifo_lost:
  assumes "inv_fifo s" "i < length (g_workers s)" "worker_slots (g_workers s ! i) = [Some e]"
    "worker_slots w = [Some e] \<or> worker_slots w = [None]"
    "g_workers s' = (g_workers s)[i := w]" "g_pending s' = g_pending s" "g_pc s' = g_pc s"
    "to_write s' = to_write s" "g_results s' = g_results s" "g_jobs s' = g_jobs s"
  shows "inv_fifo s'"
  using assms fills_lost by (intro inv_fifo_worker [OF assms(1,2,5-8)]) auto

lemma after_acquire_slots: "worker_slots (after_acquire e r) = [Some e] \<or> worker_slots (after_acquire e r) = [None]"
  by (cases r) (simp_all add: after_acquire_def)

lemma to_write_simp: "g_next s' = g_next s \<Longrightarrow> g_plan s' = g_plan s \<Longrightarrow> to_write s' = to_write s"
  by (simp add: to_write_def)

text \<open>The segment the main goroutine looks for is the one it has just received.\<close>

lemma fifo_head:
  assumes "inv_fifo s" "inv_entries s" "g_pc s = M_Flush" "g_pending s = [p]"
  shows "fst p = g_next s" "to_write s = ls_Entry (snd p) # drop 1 (to_write s)"
proof -
  have all2: "list_all2 fills (pipeline s) (to_write s)"
    using assms(1,3) by (simp add: inv_fifo_def running_def)
  then obtain rest where rest: "to_write s = ls_Entry (snd p) # rest"
    by (auto simp: pipeline_def assms(4) list_all2_Cons1 fills_def)
  then show "to_write s = ls_Entry (snd p) # drop 1 (to_write s)" by simp
  have plan: "plan_ok s" and pend: "pending_ok s" using assms(2) by (auto simp: inv_entries_def)
  have "nat (g_next s) < length (mf_Segments (g_compiled s))"
    using rest unfolding to_write_eq [OF plan] by (cases "nat (g_next s) < length (mf_Segments (g_compiled s))") auto
  then have "ls_Entry (snd p) = plan_entry_at (mf_Segments (g_compiled s)) (nat (g_next s))"
    using rest unfolding to_write_eq [OF plan] by (simp add: upt_conv_Cons)
  then show "fst p = g_next s"
    using pend plan assms(4) by (simp add: pending_ok_def plan_ok_def)
qed

lemma inv_fifo_stop:
  assumes "inv_fifo s" "g_workers s' = g_workers s" "g_jobs s' = g_jobs s" "\<not> running s'"
  shows "inv_fifo s'"
  using assms by (auto simp: inv_fifo_def running_def)

lemma inv_fifo_recv:
  assumes inv: "inv_fifo s" and pc: "g_pc s = M_Recv" and rs: "g_results s = Inr ld # rs"
  shows "inv_fifo (s\<lparr>g_results := rs,
      g_pending := AList.update (pe_Ordinal (ls_Entry ld)) ld (g_pending s), g_pc := M_Flush\<rparr>)"
proof -
  have "g_pending s = []" using inv pc by (simp add: inv_fifo_def)
  with inv pc rs show ?thesis
    by (simp add: inv_fifo_def running_def pipeline_def to_write_def)
qed

lemma inv_fifo_flushed:
  assumes inv: "inv_fifo s" and entries: "inv_entries s" and pc: "g_pc s = M_Flush"
    and ld: "map_of (g_pending s) (g_next s) = Some ld"
  shows "inv_fifo (s\<lparr>g_writer := w, g_next := g_next s + 1, g_budget := b, g_checkpoints := cps,
      g_pending := AList.delete (pe_Ordinal (ls_Entry ld)) (g_pending s)\<rparr>)" (is "inv_fifo ?s")
proof -
  have "length (g_pending s) \<le> 1" using inv pc by (simp add: inv_fifo_def)
  then obtain p where p: "g_pending s = [p]" using ld by (cases "g_pending s") auto
  note head = fifo_head [OF inv entries pc p]
  have ord: "pe_Ordinal (ls_Entry ld) = g_next s" using flush_entry(4) [OF entries pc ld] .
  have plan: "plan_ok s" using entries by (simp add: inv_entries_def)
  have tw: "to_write ?s = drop 1 (to_write s)" using plan by (rule to_write_Suc) auto
  have key: "fst p = pe_Ordinal (ls_Entry ld)" using head(1) by (simp add: ord)
  have "list_all2 fills (pipeline s) (to_write s)" using inv pc by (simp add: inv_fifo_def running_def)
  then have "list_all2 fills (pipeline ?s) (to_write ?s)"
    unfolding tw by (subst (asm) head(2)) (simp add: pipeline_def p key)
  with inv pc key show ?thesis by (simp add: inv_fifo_def p)
qed

lemma inv_fifo_flush_none:
  assumes inv: "inv_fifo s" and entries: "inv_entries s" and pc: "g_pc s = M_Flush"
    and none: "map_of (g_pending s) (g_next s) = None"
  shows "inv_fifo (s\<lparr>g_pc := M_Recv\<rparr>)"
proof -
  have "length (g_pending s) \<le> 1" using inv pc by (simp add: inv_fifo_def)
  moreover have "g_pending s \<noteq> [p]" for p
  proof
    assume p: "g_pending s = [p]"
    with none fifo_head(1) [OF inv entries pc p] show False by (cases p) auto
  qed
  ultimately have "g_pending s = []" by (cases "g_pending s") auto
  with inv pc show ?thesis by (simp add: inv_fifo_def running_def pipeline_def to_write_def)
qed

lemma inv_fifo_move:
  assumes "merge_move env k s s'" "inv_entries s" "inv_fifo s"
  shows "inv_fifo s'"
  using assms
proof (induction rule: merge_move.induct)
  case (cancel s e)
  then show ?case by (auto simp: inv_fifo_def running_def pipeline_def to_write_def)
next
  case (dispatch i s e es)
  then show ?case
    by (intro inv_fifo_worker [OF dispatch.prems(2), of i _ "W_Enter e"]) (auto simp: to_write_def)
next
  case (exit i s)
  then show ?case
    by (intro inv_fifo_worker [OF exit.prems(2), of i _ W_Exit]) (auto simp: to_write_def)
next
  case (enter i s e r b)
  then show ?case
    using after_acquire_slots [of e r]
    by (intro inv_fifo_lost [OF enter.prems(2), of i e "after_acquire e r"]) (auto simp: to_write_def)
next
  case (wake i s e g r b)
  then show ?case
    using after_acquire_slots [of e r]
    by (intro inv_fifo_lost [OF wake.prems(2), of i e "after_acquire e r"]) (auto simp: to_write_def)
next
  case (give_up i s e g err)
  then show ?case
    by (intro inv_fifo_lost [OF give_up.prems(2), of i e "W_Send (Inl (CtxErr err))"])
      (auto simp: to_write_def)
next
  case (load i s e l r b)
  have "worker_slots (W_Send r) = [Some e] \<or> worker_slots (W_Send r) = [None]"
    using load(3) by (cases r) (auto simp: Load_held_def split: sum.splits option.splits prod.splits)
  with load show ?case
    by (intro inv_fifo_lost [OF load.prems(2), of i e "W_Send r"]) (auto simp: to_write_def)
next
  case (send i s r)
  then show ?case
    by (intro inv_fifo_worker [OF send.prems(2), of i _ W_Idle]) (auto simp: to_write_def)
next
  case (recv_loaded s ld rs)
  then show ?case by (intro inv_fifo_recv)
next
  case (flush_none s)
  then show ?case by (intro inv_fifo_flush_none)
next
  case (flush_saved s ld w s1 cps)
  then show ?case using inv_fifo_flushed [of s ld] by simp
next
  case (flush_abandoned s e k)
  then show ?case by (intro inv_fifo_stop [OF flush_abandoned.prems(2)]) (simp_all add: running_def)
next
  case (commit s)
  then show ?case
    by (intro inv_fifo_stop [OF commit.prems(2)])
      (auto simp: running_def commit_step_def split: prod.splits sum.splits option.splits)
next
  case (index s r)
  then show ?case
    by (intro inv_fifo_stop [OF index.prems(2)])
      (auto simp: running_def index_step_def split: prod.splits option.splits)
next
  case (clear s r)
  then show ?case
    by (intro inv_fifo_stop [OF clear.prems(2)])
      (auto simp: running_def clear_step_def split: prod.splits option.splits)
qed (auto elim!: inv_fifo_stop simp: running_def)



section \<open>Somebody can move\<close>

lemma worker_can_move:
  assumes "i < length (g_workers s)" "g_workers s ! i \<noteq> W_Exit"
    "\<And>e g. g_workers s ! i = W_Wait e g \<Longrightarrow> g \<noteq> bb_changed (g_budget s)"
  shows "\<exists>l s'. \<not> is_cancel l \<and> merge_step env l s = Some s'"
proof -
  have "\<exists>l\<in>{L_Dispatch i, L_Exit i, L_Enter i, L_Wake i, L_Load i, L_Send i}.
      \<exists>s'. merge_step env l s = Some s'"
    using assms
    by (cases "g_workers s ! i"; cases "g_jobs s")
      (auto simp: worker_step_def Acquire_wake_def Let_def split: prod.split)
  then obtain l s' where "l \<in> {L_Dispatch i, L_Exit i, L_Enter i, L_Wake i, L_Load i, L_Send i}"
    "merge_step env l s = Some s'" by blast
  then show ?thesis by (intro exI [of _ l] exI [of _ s']) (auto simp: is_cancel_def)
qed

lemma main_can_move:
  "main_step s \<noteq> None \<Longrightarrow> \<exists>l s'. \<not> is_cancel l \<and> merge_step env l s = Some s'"
  by (rule exI [of _ L_Main]) (auto simp: is_cancel_def)

text \<open>
  Without a pending segment behind a gap, a state in which nobody can move has returned: the
  only worker that cannot move waits for the budget, so somebody holds a lease, and the holder is
  a result or a pending segment that the main goroutine can take.
\<close>

lemma progress:
  assumes saving: "\<not> saving s" and phase: "inv_phase s" and budget: "inv_budget s" and wait: "inv_wait s"
    and gap: "g_pc s = M_Recv \<Longrightarrow> g_pending s = []"
    and one: "length (g_workers s) \<le> 1"
    and jobs: "list_all (\<lambda>w. w = W_Exit) (g_workers s) \<Longrightarrow> g_jobs s = []"
    and pc: "\<And>r. g_pc s \<noteq> M_Return r"
  shows "\<exists>l s'. \<not> is_cancel l \<and> merge_step env l s = Some s'"
proof (cases "main_step s = None")
  case False
  then show ?thesis by (rule main_can_move)
next
  case True
  have blocked: "g_results s = []" "\<not> results_closed s" "g_pending s = []"
    using True pc phase gap saving
    by (cases "g_pc s"; auto dest: saving_pc simp: main_step_def recv_step_def drain_step_def phase_defs
        split: list.splits sum.splits if_splits)+
  then obtain i where i: "i < length (g_workers s)" "g_workers s ! i \<noteq> W_Exit"
    using jobs by (auto simp: results_closed_def list_all_length)
  have ws: "g_workers s = [g_workers s ! i]" using single_worker(1) [OF one i(1)] .
  have "g \<noteq> bb_changed (g_budget s)" if w: "g_workers s ! i = W_Wait e g" for e g
  proof
    assume g: "g = bb_changed (g_budget s)"
    have mem: "W_Wait e g \<in> set (g_workers s)" using w i(1) by (metis nth_mem)
    have "sint (bb_limit (g_budget s)) < sint (bb_reserved (g_budget s)) + sint (pe_MemoryWeight e)"
      using wait mem g by (simp add: inv_wait_def)
    moreover have "sint (pe_MemoryWeight e) \<le> sint (bb_limit (g_budget s))"
      using budget mem by (auto simp: inv_budget_def)
    moreover have "held s = {#}" by (subst held_def, subst ws) (simp add: w blocked)
    then have "live (g_budget s) = {}" "budget_ok (g_budget s)"
      using budget by (simp_all add: inv_budget_def mset_set_empty_iff)
    then have "sint (bb_reserved (g_budget s)) = 0" by (simp add: live_empty)
    ultimately show False by simp
  qed
  with i show ?thesis by (intro worker_can_move)
qed



lemma saving_can_move:
  "saving s \<Longrightarrow> \<exists>l s'. \<not> is_cancel l \<and> merge_step env l s = Some s'"
  by (rule main_can_move) (auto simp: saving_def main_step_def)

text \<open>
  The opposite: one worker waits for the budget, the other has returned, and no result is on its
  way.
\<close>

lemma waiting_stuck:
  assumes "g_workers s = [W_Wait e g, W_Exit]" "g = bb_changed (g_budget s)" "g_wctx s = None"
    "g_pc s = M_Recv" "g_results s = []"
  shows "{l. merge_step env l s \<noteq> None} = range L_Cancel"
proof -
  have main: "main_step s = None"
    by (simp add: main_step_def recv_step_def results_closed_def assms)
  have worker: "worker_step env l i s = None" for l i
    by (cases "i = 0"; cases "i = 1"; cases l)
      (auto simp: worker_step_def assms Acquire_wake_def Acquire_cancelled_def)
  have "merge_step env l s \<noteq> None \<longleftrightarrow> l \<in> range L_Cancel" for l
    by (cases l) (auto simp: main worker)
  then show ?thesis by auto
qed


section \<open>Properties\<close>

lemma single_start:
  assumes "Merge_start 1 cx1 cx2 m b w cps x = Inr s"
  shows "inv_fifo s" "inv_wait s"
proof -
  note inv = Merge_start_inv [OF assms]
  from Merge_start_cases [OF assms] obtain plan where s:
    "g_workers s = loadAll_workers 1 (pl_Entries plan)" "g_jobs s = pl_Entries plan"
    "g_plan s = plan" "g_next s = pl_StartOrdinal plan" "g_results s = []" "g_pending s = []"
    by (metis merge_state.select_convs)
  have idle: "concat (map worker_slots (g_workers s)) = []" "length (g_workers s) \<le> 1"
    "list_all (\<lambda>w. w = W_Exit) (g_workers s) \<Longrightarrow> g_jobs s = []"
    unfolding s by (cases "pl_Entries plan"; simp add: loadAll_workers_def)+
  have "list_all2 fills (pipeline s) (to_write s)"
    unfolding pipeline_def idle s(5,6) s(2)
    by (simp add: to_write_def s list_all2_conv_all_nth fills_def)
  with idle s(6) inv(6) show "inv_fifo s" by (simp add: inv_fifo_def)
  show "inv_wait s" unfolding inv_wait_def s(1) by (auto dest: loadAll_workers_idle)
qed

text \<open>
  C7: A merge with one worker returns. Whatever is scheduled, and whether or not the context
  is cancelled, as long as \<open>Merge\<close> has not returned some goroutine can take a step, and no
  schedule has more than \<open>fuel s0\<close> steps; so every schedule that does not stand still comes to
  the return. In particular no worker waits for ever for the byte budget.
\<close>
theorem one_worker_returns:
  assumes "Merge_start 1 cx1 cx2 m b w cps x = Inr s0" "budget_ok b" "live b = {}"
    "merge_run env ls s0 = Some s"
  shows "length (filter (\<lambda>l. \<not> is_cancel l) ls) \<le> fuel s0
    \<and> ((\<exists>r. g_pc s = M_Return r) \<or> (\<exists>l s'. \<not> is_cancel l \<and> merge_step env l s = Some s'))"
proof -
  note inv = Merge_start_inv [OF assms(1)]
  let ?P = "\<lambda>s. inv_entries s \<and> inv_phase s \<and> inv_budget s \<and> inv_wait s \<and> inv_fifo s"
  note start = Merge_start_turn_ok [OF assms(1)] Merge_start_settled [OF assms(1)]
  have "?P (settled s0)" using inv single_start [OF assms(1)] assms(2,3) start(2) by auto
  with turns_run [of ?P, OF _ assms(4) start(1)] have P: "?P (settled s)"
    by (blast intro: inv_entries_move inv_phase_move inv_budget_move inv_wait_move inv_fifo_move)
  have "length (filter (\<lambda>l. \<not> is_cancel l) ls) \<le> fuel s0"
    using merge_start_fuel [OF assms(1,4)] by simp
  moreover have "(\<exists>r. g_pc s = M_Return r) \<or> (\<exists>l s'. \<not> is_cancel l \<and> merge_step env l s = Some s')"
    using P progress [of s env] saving_can_move [of s env]
    by (cases "saving s") (auto simp: inv_fifo_def)
  ultimately show ?thesis by blast
qed

theorem one_worker_returns_witness:
  "length (filter (\<lambda>l. \<not> is_cancel l) (one_segment @ one_segment @ publish)) \<le> fuel (demo_state 1 64)"
proof -
  have start: "Merge_start 1 None None demo_manifest (NewByteBudget 64) NewMemoryWriter
      NewMemoryCheckpoints NewMemoryIndex = Inr (demo_state 1 64)"
    by (rule demo_start) simp_all
  have "live (NewByteBudget 64) = {}" by (simp add: live_def NewByteBudget_def)
  then show ?thesis
    using one_worker_returns [OF start budget_ok_new] demo_publishes by blast
qed

text \<open>
  With two workers a merge can deadlock on its own byte budget. On the manifest of the
  demo program, with a budget that is enough for each segment alone, the second segment may take
  its lease first; it stays in \<open>pending\<close>, with the lease, until the first one is written, and
  the first one's worker waits for the budget. Nothing but a cancellation of the context can
  happen any more, and \<open>Merge\<close> has not returned.
\<close>
theorem two_workers_deadlock:
  "\<exists>s. Merge_start 2 None None demo_manifest (NewByteBudget 6) NewMemoryWriter
         NewMemoryCheckpoints NewMemoryIndex = Inr (demo_state 2 6)
     \<and> list_all (\<lambda>sg. sint (seg_LogicalSize sg) \<le> sint (Limit (NewByteBudget 6))) (mf_Segments demo_manifest)
     \<and> merge_run demo_env starve (demo_state 2 6) = Some s
     \<and> g_ctx s = None \<and> g_pc s = M_Recv
     \<and> {l. merge_step demo_env l s \<noteq> None} = range L_Cancel"
proof -
  obtain s where s: "merge_run demo_env starve (demo_state 2 6) = Some s" "g_pc s = M_Recv"
    "g_workers s = [W_Wait (demo_job 0) 0, W_Exit]" "g_results s = []" "g_jobs s = []"
    "bb_changed (g_budget s) = 0" "g_wctx s = None" "g_ctx s = None"
    using demo_starve by blast
  have "{l. merge_step demo_env l s \<noteq> None} = range L_Cancel"
    by (rule waiting_stuck) (use s in simp_all)
  moreover have "Merge_start 2 None None demo_manifest (NewByteBudget 6) NewMemoryWriter
      NewMemoryCheckpoints NewMemoryIndex = Inr (demo_state 2 6)"
    by (rule demo_start) simp_all
  moreover have "list_all (\<lambda>sg. sint (seg_LogicalSize sg) \<le> sint (Limit (NewByteBudget 6))) (mf_Segments demo_manifest)"
    by (simp add: Limit_def NewByteBudget_def demo_defs)
  ultimately show ?thesis using s by blast
qed

text \<open>
  However many workers there are, the goroutines of a merge take at most \<open>fuel s0\<close>
  steps: there is no livelock, and in particular the waiters that a release wakes do not wake each
  other for ever.
\<close>
theorem merge_steps_bounded:
  assumes "Merge_start n cx1 cx2 m b w cps x = Inr s0" "merge_run env ls s0 = Some s"
  shows "length (filter (\<lambda>l. \<not> is_cancel l) ls) + fuel s \<le> fuel s0"
  using merge_start_fuel [OF assms] .

theorem merge_steps_bounded_witness:
  "length (filter (\<lambda>l. \<not> is_cancel l) out_of_order) \<le> fuel (demo_state 2 64)"
proof -
  have start: "Merge_start 2 None None demo_manifest (NewByteBudget 64) NewMemoryWriter
      NewMemoryCheckpoints NewMemoryIndex = Inr (demo_state 2 64)"
    by (rule demo_start) simp_all
  then show ?thesis
    using merge_steps_bounded [OF start] demo_out_of_order by (metis add_leE)
qed

end
