(* ===== verification/MergerAmple.thy ===== *)
theory MergerAmple
  imports MergerLiveness
begin

text \<open>
  When a merge with many workers ends. If the byte budget has room for everything that is still
  to be merged, no worker ever waits for it, so the deadlock of \<open>two_workers_deadlock\<close> needs
  a budget smaller than the file.
\<close>

section \<open>What is still asked of the budget\<close>

definition asked :: "plan_entry \<Rightarrow> int" where
  "asked e = max 0 (sint (pe_MemoryWeight e))"

fun worker_asks :: "worker \<Rightarrow> int" where
  "worker_asks (W_Enter e) = asked e"
| "worker_asks (W_Wait e g) = asked e"
| "worker_asks _ = 0"

definition demand :: "merge_state \<Rightarrow> int" where
  "demand s =
     sint (bb_reserved (g_budget s)) + (\<Sum>e\<leftarrow>g_jobs s. asked e) + (\<Sum>w\<leftarrow>g_workers s. worker_asks w)"

text \<open>Room for all of it, and somebody to take the next job.\<close>

definition inv_ample :: "merge_state \<Rightarrow> bool" where
  "inv_ample s \<longleftrightarrow>
     demand s \<le> sint (bb_limit (g_budget s))
     \<and> (list_all (\<lambda>w. w = W_Exit) (g_workers s) \<longrightarrow> g_jobs s = [])"

lemma asked_nonneg [simp]: "0 \<le> asked e"
  by (simp add: asked_def)

lemma worker_asks_nonneg [simp]: "0 \<le> worker_asks w"
  by (cases w) simp_all

lemma sum_asked_nonneg [simp]:
  "0 \<le> (\<Sum>e\<leftarrow>es. asked e)" "0 \<le> (\<Sum>w\<leftarrow>ws. worker_asks w)"
  by (auto intro!: sum_list_nonneg)

lemma asks_set_worker:
  "i < length ws \<Longrightarrow> (\<Sum>w\<leftarrow>ws[i := w]. worker_asks w) = (\<Sum>w\<leftarrow>ws. worker_asks w) - worker_asks (ws ! i) + worker_asks w"
  by (rule sum_list_update_int)

lemma exits_set_worker:
  "i < length ws \<Longrightarrow> list_all (\<lambda>w. w = W_Exit) (ws[i := w]) \<Longrightarrow> w = W_Exit"
  by (auto simp: list_all_length dest!: spec [of _ i])

lemma demand_asks:
  assumes "i < length (g_workers s)"
  shows "sint (bb_reserved (g_budget s)) + worker_asks (g_workers s ! i) \<le> demand s"
proof -
  have "worker_asks (g_workers s ! i) \<le> (\<Sum>w\<leftarrow>g_workers s. worker_asks w)"
    using assms by (intro member_le_sum_list) auto
  moreover have "0 \<le> (\<Sum>e\<leftarrow>g_jobs s. asked e)" by (rule sum_asked_nonneg)
  ultimately show ?thesis unfolding demand_def by linarith
qed


section \<open>Giving back never asks for more\<close>

definition shrinks :: "byte_budget \<Rightarrow> byte_budget \<Rightarrow> bool" where
  "shrinks b b' \<longleftrightarrow>
     bb_limit b' = bb_limit b \<and> length (bb_leases b') = length (bb_leases b)
     \<and> (\<forall>l. bl_weight (bb_leases b' ! l) = bl_weight (bb_leases b ! l)
          \<and> (bl_released (bb_leases b ! l) \<longrightarrow> bl_released (bb_leases b' ! l)))"

lemma shrinks_refl [simp]: "shrinks b b"
  by (simp add: shrinks_def)

lemma shrinks_trans: "shrinks a b \<Longrightarrow> shrinks b c \<Longrightarrow> shrinks a c"
  by (simp add: shrinks_def)

lemma shrinks_update:
  assumes "bb_leases b' = (bb_leases b)[l := x]" "bb_limit b' = bb_limit b"
    "bl_weight x = bl_weight (bb_leases b ! l)" "bl_released (bb_leases b ! l) \<longrightarrow> bl_released x"
  shows "shrinks b b'"
proof -
  have "(bb_leases b)[l := x] ! k = (if k = l \<and> l < length (bb_leases b) then x else bb_leases b ! k)" for k
    by (cases "l < length (bb_leases b)") (auto simp: nth_list_update list_update_beyond nth_list_update_neq)
  with assms show ?thesis by (simp add: shrinks_def)
qed

lemma shrinks_Release: "shrinks b (snd (Release l b))"
  by (cases "bl_released (bb_leases b ! l)")
    (auto simp: Release_def Let_def intro: shrinks_update [where l = l])

lemma shrinks_release_loaded: "shrinks b (release_loaded ld b)"
  by (simp add: release_loaded_def shrinks_Release split: option.split)

lemma shrinks_release_all: "shrinks b (fold (\<lambda>(o', ld). release_loaded ld) ps b)"
  by (induction ps arbitrary: b) (auto intro: shrinks_trans shrinks_release_loaded)

lemma shrinks_MarkResident: "shrinks b (snd (MarkResident l n b))"
  by (auto simp: MarkResident_def Let_def intro: shrinks_update [where l = l])

lemma shrinks_Load_held:
  assumes "Load_held g src cx e l b = (r, b')"
  shows "shrinks b b'"
proof (cases "load_data g src cx (pe_Segment e)")
  case (Inl err)
  with assms show ?thesis by (auto simp: Load_held_def shrinks_Release)
next
  case (Inr d)
  obtain x b1 where m: "MarkResident l (int (length d)) b = (x, b1)" by fastforce
  then have "shrinks b b1" using shrinks_MarkResident [of b l "int (length d)"] by simp
  with assms Inr m show ?thesis
    by (auto simp: Load_held_def split: option.splits intro: shrinks_trans shrinks_Release)
qed

lemma shrinks_reserved:
  assumes "budget_ok b" "budget_ok b'" "shrinks b b'"
  shows "sint (bb_reserved b') \<le> sint (bb_reserved b)"
proof -
  have "held_weight (bb_leases b' ! l) \<le> held_weight (bb_leases b ! l)" if "l < length (bb_leases b)" for l
    using assms(1,3) that
    by (auto simp: shrinks_def held_weight_def budget_ok_def list_all_length lease_ok_def)
  then have "(\<Sum>l\<leftarrow>bb_leases b'. held_weight l) \<le> (\<Sum>l\<leftarrow>bb_leases b. held_weight l)"
    using assms(3) by (intro sum_list_mono2) (simp_all add: shrinks_def)
  with assms(1,2) show ?thesis by (simp add: budget_ok_def)
qed


section \<open>Every move keeps the room\<close>

lemma inv_ample_shrinks:
  assumes "inv_ample s" "inv_budget s" "inv_budget s'" "shrinks (g_budget s) (g_budget s')"
    "(\<Sum>e\<leftarrow>g_jobs s'. asked e) + (\<Sum>w\<leftarrow>g_workers s'. worker_asks w)
       \<le> (\<Sum>e\<leftarrow>g_jobs s. asked e) + (\<Sum>w\<leftarrow>g_workers s. worker_asks w)"
    "list_all (\<lambda>w. w = W_Exit) (g_workers s') \<Longrightarrow> g_jobs s' = []"
  shows "inv_ample s'"
proof -
  have "sint (bb_reserved (g_budget s')) \<le> sint (bb_reserved (g_budget s))"
    using assms(2-4) by (intro shrinks_reserved) (simp_all add: inv_budget_def)
  with assms show ?thesis by (simp add: inv_ample_def demand_def shrinks_def)
qed

lemma inv_ample_worker:
  assumes "inv_ample s" "inv_budget s" "inv_budget s'" "shrinks (g_budget s) (g_budget s')"
    "i < length (g_workers s)" "g_workers s' = (g_workers s)[i := w]" "w \<noteq> W_Exit"
    "(\<Sum>e\<leftarrow>g_jobs s'. asked e) + worker_asks w \<le> (\<Sum>e\<leftarrow>g_jobs s. asked e) + worker_asks (g_workers s ! i)"
  shows "inv_ample s'"
  using assms exits_set_worker [of i "g_workers s" w]
  by (intro inv_ample_shrinks [OF assms(1-4)]) (auto simp: asks_set_worker)

lemma inv_ample_main:
  assumes "inv_ample s" "inv_budget s" "inv_budget s'" "shrinks (g_budget s) (g_budget s')"
    "g_jobs s' = g_jobs s" "g_workers s' = g_workers s"
  shows "inv_ample s'"
  using assms by (intro inv_ample_shrinks [OF assms(1-4)]) (simp_all add: inv_ample_def)

text \<open>A worker that asks gets its lease: what it asked for is now reserved.\<close>

lemma inv_ample_acquire:
  assumes inv: "inv_ample s" and ok: "budget_ok (g_budget s)"
    and i: "i < length (g_workers s)" "worker_asks (g_workers s ! i) = asked e"
    and w: "1 \<le> sint (pe_MemoryWeight e)" "sint (pe_MemoryWeight e) \<le> sint (bb_limit (g_budget s))"
    and acq: "Acquire_loop (pe_MemoryWeight e) (g_budget s) = (r, b)"
  shows "inv_ample (set_worker i (after_acquire e r) (s\<lparr>g_budget := b\<rparr>))" (is "inv_ample ?s")
proof -
  have "sint (bb_reserved (g_budget s)) + sint (pe_MemoryWeight e) \<le> sint (bb_limit (g_budget s))"
    using inv demand_asks [OF i(1)] w(1) by (simp add: i(2) inv_ample_def asked_def)
  then have fits: "sint (bb_reserved (g_budget s)) \<le> sint (bb_limit (g_budget s) - pe_MemoryWeight e)"
    "sint (bb_reserved (g_budget s) + pe_MemoryWeight e) = sint (bb_reserved (g_budget s)) + sint (pe_MemoryWeight e)"
    using Acquire_loop_fits [OF ok w] budget_ok_bounds [OF ok] w
    by (auto intro!: sint_add_le [of _ _ "bb_limit (g_budget s)"])
  with acq have r: "r = AcqLease (length (bb_leases (g_budget s)))" "bb_limit b = bb_limit (g_budget s)"
    "sint (bb_reserved b) = sint (bb_reserved (g_budget s)) + sint (pe_MemoryWeight e)"
    by (auto simp: Acquire_loop_def)
  have "demand ?s = demand s"
    using i w(1) r by (simp add: demand_def asks_set_worker after_acquire_def asked_def)
  moreover have "\<not> list_all (\<lambda>w. w = W_Exit) (g_workers ?s)"
    using exits_set_worker [OF i(1), of "after_acquire e r"] r(1) by (auto simp: after_acquire_def)
  ultimately show ?thesis using inv r(2) by (simp add: inv_ample_def)
qed

lemma inv_ample_move:
  assumes "merge_move env k s s'" "inv_entries s" "inv_budget s" "inv_ample s"
  shows "inv_ample s'"
  using assms(1) inv_budget_move [OF assms(1-3)] assms(2-4)
proof (induction rule: merge_move.induct)
  case (exit i s)
  then show ?case
    by (intro inv_ample_shrinks [OF exit.prems(4,3,1)]) (simp_all add: asks_set_worker)
next
  case (enter i s e r b)
  show ?case
  proof (cases "sint (pe_MemoryWeight e) < 1 \<or> sint (pe_MemoryWeight e) > sint (bb_limit (g_budget s))")
    case True
    with enter show ?thesis
      by (intro inv_ample_worker [OF enter.prems(4,3,1), of i "after_acquire e r"])
        (auto simp: Acquire_def after_acquire_def)
  next
    case False
    with enter show ?thesis by (intro inv_ample_acquire) (auto simp: Acquire_def inv_budget_def)
  qed
next
  case (wake i s e g r b)
  then have "W_Wait e g \<in> set (g_workers s)" by (metis nth_mem)
  with wake show ?case by (intro inv_ample_acquire) (auto simp: inv_budget_def)
next
  case (load i s e l r b)
  then show ?case
    using shrinks_Load_held [OF load(3)]
    by (intro inv_ample_worker [OF load.prems(4,3,1), of i "W_Send r"]) auto
next
  case (dispatch i s e es)
  then show ?case
    by (intro inv_ample_worker [OF dispatch.prems(4,3,1), of i "W_Enter e"]) auto
next
  case (give_up i s e g err)
  then show ?case
    by (intro inv_ample_worker [OF give_up.prems(4,3,1), of i "W_Send (Inl (CtxErr err))"]) auto
next
  case (send i s r)
  then show ?case by (intro inv_ample_worker [OF send.prems(4,3,1), of i W_Idle]) auto
next
  case (recv_error s e rs)
  then show ?case
    by (intro inv_ample_main [OF recv_error.prems(4,3,1)])
      (simp_all add: fail_with_def releasePending_def cancel_workers_def shrinks_release_all)
next
  case (flush_write_error s ld e w)
  then show ?case
    by (intro inv_ample_main [OF flush_write_error.prems(4,3,1)])
      (simp_all add: fail_with_def releasePending_def cancel_workers_def
        shrinks_trans [OF shrinks_release_loaded shrinks_release_all])
next
  case (flush_abandoned s e k)
  then show ?case
    by (intro inv_ample_main [OF flush_abandoned.prems(4,3,1)])
      (simp_all add: fail_with_def releasePending_def cancel_workers_def shrinks_release_all)
next
  case (recv_incomplete s)
  then show ?case
    by (intro inv_ample_main [OF recv_incomplete.prems(4,3,1)])
      (simp_all add: releasePending_def shrinks_release_all)
qed (auto elim!: inv_ample_main simp: shrinks_release_loaded)


section \<open>Nobody waits\<close>

lemma ample_progress:
  assumes phase': "inv_phase (settled s)" and wait': "inv_wait (settled s)" and ample': "inv_ample (settled s)"
    and pc: "\<And>r. g_pc s \<noteq> M_Return r"
  shows "\<exists>l s'. \<not> is_cancel l \<and> merge_step env l s = Some s'"
proof (cases "main_step s = None")
  case False
  then show ?thesis by (rule main_can_move)
next
  case True
  then have saving: "\<not> saving s" by (auto simp: saving_def main_step_def)
  then have phase: "inv_phase s" and wait: "inv_wait s" and ample: "inv_ample s"
    using phase' wait' ample' by simp_all
  have "\<not> results_closed s"
    using True pc phase saving
    by (cases "g_pc s"; auto dest: saving_pc simp: main_step_def recv_step_def drain_step_def phase_defs
        split: list.splits sum.splits if_splits)+
  then obtain i where i: "i < length (g_workers s)" "g_workers s ! i \<noteq> W_Exit"
    using ample by (auto simp: results_closed_def list_all_length inv_ample_def)
  have "g \<noteq> bb_changed (g_budget s)" if w: "g_workers s ! i = W_Wait e g" for e g
  proof
    assume "g = bb_changed (g_budget s)"
    moreover have "W_Wait e g \<in> set (g_workers s)" using w i(1) by (metis nth_mem)
    ultimately have "sint (bb_limit (g_budget s)) < sint (bb_reserved (g_budget s)) + sint (pe_MemoryWeight e)"
      using wait by (simp add: inv_wait_def)
    then show False
      using ample demand_asks [OF i(1)] by (simp add: w inv_ample_def asked_def max_def split: if_splits)
  qed
  with i show ?thesis by (intro worker_can_move)
qed


section \<open>The first state\<close>

lemma asked_total:
  assumes "CompileManifest m = Inr c"
  shows "(\<Sum>e\<leftarrow>pl_Entries (plan_from c i sid). asked e) \<le> sint (mf_TotalSize c)"
proof -
  note lay = compiled_layout [OF assms]
  have ok: "seg_ok (mf_TotalSize c) sg" if "sg \<in> set (mf_Segments c)" for sg
    using lay(6) that by (simp add: list_all_iff)
  have pos: "0 < sint (seg_LogicalSize (mf_Segments c ! k))" if "k < length (mf_Segments c)" for k
    using seg_ok_sizes [OF ok [OF nth_mem [OF that]]] by simp
  let ?sizes = "map (\<lambda>sg. sint (seg_LogicalSize sg)) (mf_Segments c)"
  have "map asked (pl_Entries (plan_from c i sid)) = drop (nat i) ?sizes"
    using pos by (intro nth_equalityI) (auto simp: plan_entries_nth asked_def less_imp_le)
  moreover have "sum_list (take (nat i) ?sizes) + sum_list (drop (nat i) ?sizes) = sum_list ?sizes"
    by (metis append_take_drop_id sum_list_append)
  moreover have "0 \<le> sum_list (take (nat i) ?sizes)"
    by (intro sum_list_nonneg) (auto dest!: in_set_takeD simp: less_imp_le [OF seg_ok_sizes(2) [OF ok]])
  moreover have "sum_list ?sizes \<le> sint (mf_TotalSize c)"
    using in_order_sum [OF lay(6,2), of 0] lay(3) ok by (simp add: list_all_iff seg_ok_def)
  ultimately show ?thesis by simp
qed

lemma ample_start:
  assumes start: "Merge_start n cx1 cx2 m b w cps x = Inr s" and n: "1 \<le> n"
    and b: "budget_ok b" "live b = {}" and fits: "sint (mf_TotalSize m) \<le> sint (Limit b)"
  shows "inv_ample s" "inv_wait s"
proof -
  note inv = Merge_start_inv [OF start]
  from Merge_start_cases [OF start] obtain plan where s:
    "g_workers s = loadAll_workers n (pl_Entries plan)" "g_jobs s = pl_Entries plan"
    "g_plan s = plan" "g_budget s = b"
    by (metis merge_state.select_convs)
  obtain i sid where plan: "plan = plan_from (g_compiled s) i sid"
    using inv(2) s(3) by (auto simp: inv_entries_def plan_ok_def)
  have total: "mf_TotalSize (g_compiled s) = mf_TotalSize m"
    using inv(1) by (auto simp: CompileManifest_Inr normalise_def)
  have "(\<Sum>w\<leftarrow>g_workers s. worker_asks w) = (\<Sum>w\<leftarrow>g_workers s. 0)"
    unfolding s(1) by (intro arg_cong [of _ _ sum_list] map_cong) (auto dest: loadAll_workers_idle)
  moreover have "(\<Sum>e\<leftarrow>g_jobs s. asked e) \<le> sint (mf_TotalSize m)"
    unfolding s(2) plan using asked_total [OF inv(1)] total by simp
  moreover have "list_all (\<lambda>w. w = W_Exit) (g_workers s) \<Longrightarrow> g_jobs s = []"
    using n unfolding s by (cases "pl_Entries plan"; cases n; simp add: loadAll_workers_def split: if_splits)
  ultimately show "inv_ample s"
    using fits live_empty [OF b] by (simp add: inv_ample_def demand_def s(4) Limit_def)
  show "inv_wait s" unfolding inv_wait_def s(1) by (auto dest: loadAll_workers_idle)
qed


lemma ample_run:
  assumes "Merge_start n cx1 cx2 m b w cps x = Inr s0" "1 \<le> n" "budget_ok b" "live b = {}"
    "sint (mf_TotalSize m) \<le> sint (Limit b)" "merge_run env ls s0 = Some s"
  shows "turn_ok s \<and> inv_entries (settled s) \<and> inv_phase (settled s) \<and> inv_budget (settled s)
    \<and> inv_wait (settled s) \<and> inv_ample (settled s)"
proof -
  let ?P = "\<lambda>s. inv_entries s \<and> inv_phase s \<and> inv_budget s \<and> inv_wait s \<and> inv_ample s"
  have "?P (settled s0)"
    using Merge_start_inv [OF assms(1)] ample_start [OF assms(1-5)] assms(3,4)
      Merge_start_settled [OF assms(1)] by simp
  with turns_run [of ?P, OF _ assms(6) Merge_start_turn_ok [OF assms(1)]] show ?thesis
    by (blast intro: inv_entries_move inv_phase_move inv_budget_move inv_wait_move inv_ample_move)
qed


section \<open>Properties\<close>

text \<open>
  A merge whose whole file fits the byte budget returns, with any number of workers.
  Whatever is scheduled, and whether or not the context is cancelled, as long as \<open>Merge\<close> has
  not returned some goroutine can take a step, and no schedule has more than \<open>fuel s0\<close> steps.
  So the deadlock of two workers is a matter of budgets smaller than the file.
\<close>
theorem ample_budget_returns:
  assumes "Merge_start n cx1 cx2 m b w cps x = Inr s0" "1 \<le> n" "budget_ok b" "live b = {}"
    "sint (mf_TotalSize m) \<le> sint (Limit b)" "merge_run env ls s0 = Some s"
  shows "length (filter (\<lambda>l. \<not> is_cancel l) ls) \<le> fuel s0
    \<and> ((\<exists>r. g_pc s = M_Return r) \<or> (\<exists>l s'. \<not> is_cancel l \<and> merge_step env l s = Some s'))"
proof -
  have "length (filter (\<lambda>l. \<not> is_cancel l) ls) \<le> fuel s0"
    using merge_start_fuel [OF assms(1,6)] by simp
  moreover have "(\<exists>r. g_pc s = M_Return r) \<or> (\<exists>l s'. \<not> is_cancel l \<and> merge_step env l s = Some s')"
    using ample_run [OF assms] ample_progress [of s env] by blast
  ultimately show ?thesis by blast
qed

theorem ample_budget_returns_witness:
  "length (filter (\<lambda>l. \<not> is_cancel l) out_of_order) \<le> fuel (demo_state 2 64)"
proof -
  have start: "Merge_start 2 None None demo_manifest (NewByteBudget 64) NewMemoryWriter
      NewMemoryCheckpoints NewMemoryIndex = Inr (demo_state 2 64)"
    by (rule demo_start) simp_all
  have "live (NewByteBudget 64) = {}" by (simp add: live_def NewByteBudget_def)
  moreover have "sint (mf_TotalSize demo_manifest) \<le> sint (Limit (NewByteBudget 64))"
    by (simp add: Limit_def NewByteBudget_def demo_defs)
  ultimately show ?thesis
    using ample_budget_returns [OF start _ budget_ok_new] demo_out_of_order by fastforce
qed

end
