(* ===== verification/Admitted.thy ===== *)
theory Admitted
  imports MergerAmple Policy
begin

text \<open>
  The policy and the merger together, as \<open>Run\<close> composes them: a merger gets the number of workers
  and the byte budget of the decision that admits it. The decision sizes the budget for the workers
  that load, but segments that wait in \<open>pending\<close> for an earlier one keep their leases too.
\<close>

section \<open>A file of three segments of 256 MiB\<close>

definition zeros :: "nat \<Rightarrow> bytes" where
  "zeros n = replicate n 0"

definition big_manifest :: manifest where
  "big_manifest =
     \<lparr>mf_FileID = ''demo'', mf_Version = ''v1'', mf_TotalSize = 805306368,
      mf_Segments = [raw_segment ''a'' 0 (zeros 268435456), raw_segment ''b'' 268435456 (zeros 268435456),
        raw_segment ''c'' 536870912 (zeros 268435456)]\<rparr>"

text \<open>What \<open>Run\<close> finds when nothing else is running: itself.\<close>

definition own_load :: load where
  "own_load = \<lparr>lo_ActiveOperations = 1, lo_ResidentBytes = 0\<rparr>"

definition big_source :: source where
  "big_source = MemorySource_Open (NewMemorySource
     [''a'' \<mapsto> zeros 268435456, ''b'' \<mapsto> zeros 268435456, ''c'' \<mapsto> zeros 268435456])"

definition big_env :: merge_env where
  "big_env = \<lparr>en_gunzip = no_gunzip, en_source = big_source\<rparr>"

definition big_job :: "nat \<Rightarrow> plan_entry" where
  "big_job i = plan_entry_at (mf_Segments big_manifest) i"

definition big_state :: merge_state where
  "big_state =
     \<lparr>g_compiled = big_manifest, g_plan = plan_from big_manifest 0 [], g_found = False, g_ctx = None,
      g_wctx = None, g_jobs = [big_job 0, big_job 1, big_job 2], g_workers = [W_Idle, W_Idle],
      g_results = [],
      g_budget = \<lparr>bb_limit = 536870912, bb_reserved = 0, bb_resident = 0, bb_peak = 0, bb_changed = 0,
        bb_leases = []\<rparr>,
      g_writer = \<lparr>mw_next = 1, mw_drafts = [session_id 1 \<mapsto> 0],
        mw_heap = [\<lparr>md_fileID = ''demo'', md_version = ''v1'', md_data = zeros 805306368\<rparr>],
        mw_outputs = Map.empty, mw_data = Map.empty\<rparr>,
      g_session = \<lparr>ss_id = session_id 1, ss_draft = 0, ss_closed = False\<rparr>,
      g_checkpoints = Map.empty, g_index = Map.empty, g_pending = [], g_next = 0, g_pc = M_Recv\<rparr>"

lemma length_zeros [simp]: "length (zeros n) = n"
  by (simp add: zeros_def)

lemmas big_defs = big_manifest_def raw_segment_def

lemma big_manifest_simps [simp]:
  "mf_FileID big_manifest = ''demo''" "mf_Version big_manifest = ''v1''"
  "mf_TotalSize big_manifest = 805306368" "length (mf_Segments big_manifest) = 3"
  by (simp_all add: big_manifest_def)

lemma big_job_simps [simp]:
  "pe_Ordinal (big_job i) = int i"
  "pe_MemoryWeight (big_job 0) = 268435456" "pe_MemoryWeight (big_job (Suc 0)) = 268435456"
  "pe_MemoryWeight (big_job 2) = 268435456"
  by (simp_all add: big_job_def plan_entry_at_def big_defs)

lemma big_compiled: "CompileManifest big_manifest = Inr big_manifest"
proof -
  have "manifest_ok big_manifest"
    by (simp add: manifest_ok_def layout_ok_def seg_ok_def disjoint_segs_def seg_defs big_defs)
  moreover have "normalise big_manifest = big_manifest"
    by (simp add: normalise_def sort_slice_def seg_less_def big_defs)
  ultimately show ?thesis by (simp add: CompileManifest_Inr)
qed

text \<open>The default limits admit it, with two workers and 512 MiB.\<close>

lemma big_decision:
  "Evaluate DefaultLimits big_manifest own_load =
     \<lparr>de_Allowed = True, de_Reason = ''admitted'', de_Concurrency = 2, de_MemoryLimit = 536870912,
      de_EstimatedWeight = 268435456\<rparr>"
proof -
  have peak: "peak_of (mf_Segments big_manifest) = 268435456" by (simp add: peak_of_def big_defs)
  have ceil: "ceil_sqrt 3 = 2" by (simp add: ceil_sqrt_def ceil_sqrt_from.simps)
  show ?thesis
    by (simp add: Evaluate_def own_load_def DefaultLimits_def peak ceil Let_def max64_def
        minInt_def maxInt_def signed_divide_int_def)
qed

lemma big_start:
  "Merge_start 2 None None big_manifest (NewByteBudget 536870912) NewMemoryWriter
     NewMemoryCheckpoints NewMemoryIndex = Inr big_state"
proof -
  have b: "BuildPlan big_manifest None = Inr (plan_from big_manifest 0 [])"
    by (simp add: BuildPlan_compiled(1) [OF big_compiled])
  have e: "pl_Entries (plan_from big_manifest 0 []) = [big_job 0, big_job 1, big_job 2]"
    by (simp add: plan_from_def big_job_def upt_rec numeral_2_eq_2)
  have "Begin None (plan_from big_manifest 0 []) NewMemoryWriter = (Inr (g_session big_state), g_writer big_state)"
    by (simp add: Begin_def Let_def big_state_def NewMemoryWriter_def zeros_def [symmetric])
  then show ?thesis
    by (simp add: Merge_start_def big_compiled Checkpoints_Load_def NewMemoryCheckpoints_def b e
        loadAll_workers_def NewByteBudget_def NewMemoryIndex_def big_state_def numeral_2_eq_2)
qed

lemma big_load [simp]:
  "load_data no_gunzip big_source None (pe_Segment (big_job (Suc 0))) = Inr (zeros 268435456)"
  "load_data no_gunzip big_source None (pe_Segment (big_job 2)) = Inr (zeros 268435456)"
  by (simp_all add: load_data_def big_source_def MemorySource_Open_def NewMemorySource_def big_job_def
      plan_entry_at_def decode_stored_def verifyLogicalSegment_def EncodingGzip_def EncodingRaw_def big_defs)

text \<open>
  The first worker takes the first segment and is slow to ask for its lease; the second one
  loads the other two, and both wait in \<open>pending\<close> for the first.
\<close>

definition slow_first :: "merge_label list" where
  "slow_first = [L_Dispatch 0,
     L_Dispatch 1, L_Enter 1, L_Load 1, L_Send 1, L_Main, L_Main,
     L_Dispatch 1, L_Enter 1, L_Load 1, L_Send 1, L_Main, L_Main,
     L_Exit 1, L_Enter 0]"

lemma big_starve:
  "\<exists>s. merge_run big_env slow_first big_state = Some s \<and> g_pc s = M_Recv
     \<and> g_workers s = [W_Wait (big_job 0) 0, W_Exit] \<and> g_results s = [] \<and> g_jobs s = []
     \<and> bb_changed (g_budget s) = 0 \<and> g_wctx s = None \<and> g_ctx s = None"
  by (simp add: slow_first_def big_state_def big_env_def demo_run_defs)


section \<open>Properties\<close>

text \<open>
  C9: A merge that the service itself admits can deadlock. With the default limits the policy admits
  a file of three segments of 256 MiB, with two workers and the byte budget of 512 MiB that \<open>Run\<close>
  then hands to the merger. Two segments that wait in \<open>pending\<close> for the first one fill the
  budget, and the worker of the first one waits for it: nothing but a cancellation of the context can
  happen any more, and \<open>Merge\<close> has not returned.
\<close>
theorem admitted_merge_deadlocks:
  "\<exists>s0 s. de_Allowed (Evaluate DefaultLimits big_manifest own_load)
     \<and> Merge_start (NewMerger_concurrency (de_Concurrency (Evaluate DefaultLimits big_manifest own_load)))
         None None big_manifest (NewByteBudget (de_MemoryLimit (Evaluate DefaultLimits big_manifest own_load)))
         NewMemoryWriter NewMemoryCheckpoints NewMemoryIndex = Inr s0
     \<and> merge_run big_env slow_first s0 = Some s \<and> g_ctx s = None \<and> g_pc s = M_Recv
     \<and> {l. merge_step big_env l s \<noteq> None} = range L_Cancel"
proof -
  obtain s where s: "merge_run big_env slow_first big_state = Some s" "g_pc s = M_Recv"
    "g_workers s = [W_Wait (big_job 0) 0, W_Exit]" "g_results s = []" "g_jobs s = []"
    "bb_changed (g_budget s) = 0" "g_wctx s = None" "g_ctx s = None"
    using big_starve by blast
  have "{l. merge_step big_env l s \<noteq> None} = range L_Cancel"
    by (rule waiting_stuck) (use s in simp_all)
  with s big_start show ?thesis by (simp add: big_decision NewMerger_concurrency_def)
qed

end
