(* ===== verification/RunLiveness.thy ===== *)
theory RunLiveness
  imports Trail Races Admitted
begin

text \<open>
  The merge inside a run. \<open>CallBounds\<close> bounds the sections of a call but leaves out the merge it
  waits for; here the policy, the merger and the service come together: a merge that the service has
  begun ends, where the file fits the byte budget of the service's limits.
\<close>

section \<open>What a run hands to the merger\<close>

definition memory_limit :: "service \<Rightarrow> i64" where
  "memory_limit sv = li_MaxResidentBytes (sv_admission sv)"

text \<open>The merge of a run was begun with the whole limit, by at least one worker.\<close>

definition begun :: "svc_env \<Rightarrow> service \<Rightarrow> request \<Rightarrow> merge_state \<Rightarrow> bool" where
  "begun env sv rq g \<longleftrightarrow>
     0 < sint (memory_limit sv)
     \<and> (\<exists>k cx1 cx2 g0 ms. 1 \<le> k
          \<and> Merge_start k cx1 cx2 (rq_Manifest rq) (NewByteBudget (memory_limit sv)) NewMemoryWriter
              NewMemoryCheckpoints NewMemoryIndex = Inr g0
          \<and> merge_run (merge_env_of env rq) ms g0 = Some g)"

definition budgeted :: "svc_env \<Rightarrow> service \<Rightarrow> pc \<Rightarrow> bool" where
  "budgeted env sv c =
     (case c of
        R_Load p l n rq d \<Rightarrow> 0 < sint (memory_limit sv) \<and> de_MemoryLimit d = memory_limit sv
      | R_Begin p l n rq d cx1 \<Rightarrow> 0 < sint (memory_limit sv) \<and> de_MemoryLimit d = memory_limit sv
      | R_Merge p l n rq g \<Rightarrow> begun env sv rq g
      | _ \<Rightarrow> True)"

lemma budgeted_simps [simp]:
  "budgeted env sv (R_Load p l n rq d) \<longleftrightarrow> 0 < sint (memory_limit sv) \<and> de_MemoryLimit d = memory_limit sv"
  "budgeted env sv (R_Begin p l n rq d cx1) \<longleftrightarrow> 0 < sint (memory_limit sv) \<and> de_MemoryLimit d = memory_limit sv"
  "budgeted env sv (R_Merge p l n rq g) \<longleftrightarrow> begun env sv rq g"
  "(\<And>p l n rq d. c \<noteq> R_Load p l n rq d) \<Longrightarrow> (\<And>p l n rq d cx1. c \<noteq> R_Begin p l n rq d cx1) \<Longrightarrow>
     (\<And>p l n rq g. c \<noteq> R_Merge p l n rq g) \<Longrightarrow> budgeted env sv c"
  by (auto simp: budgeted_def split: pc.split)

lemma budgeted_kept:
  "budgeted env sv c \<Longrightarrow> sv_admission sv' = sv_admission sv \<Longrightarrow> budgeted env sv' c"
  by (cases c) (auto simp: begun_def memory_limit_def)

text \<open>No section changes the limits.\<close>

lemma tools_admission [simp]:
  "sv_admission (snd (update_record op n sv)) = sv_admission sv"
  "sv_admission (snd (append_event env inp cx e sv)) = sv_admission sv"
  by (auto simp: update_record_def append_event_def split: prod.split sum.split)

lemma call_step_admission:
  assumes "call_step env inp self cx wcx c sv = Some ((c', sv'), sig)"
  shows "sv_admission sv' = sv_admission sv"
  using assms
  by (cases c) (auto simp: submit_number_def submit_create_def submit_append_def run_acquire_def
      run_update_def run_started_def run_register_def run_complete_def run_artifact_def run_completed_def
      finish_update_def finish_append_def run_unregister_def run_release_def cancel_update_def
      cancel_append_def Let_def split: prod.splits sum.splits option.splits
      dest!: arg_cong [of _ _ "snd :: _ \<times> service \<Rightarrow> service"])


section \<open>Every section keeps it\<close>

text \<open>The service counts no resident bytes, so an admitted merge gets the whole limit.\<close>

lemma admitted_limit:
  assumes "de_Allowed (Evaluate a m (currentLoad c))"
  shows "0 < sint (li_MaxResidentBytes a)" "de_MemoryLimit (Evaluate a m (currentLoad c)) = li_MaxResidentBytes a"
  using assms by (auto simp: Evaluate_def rejected_def currentLoad_def Let_def split: if_splits)

lemma run_begin_budgeted:
  assumes "0 < sint (memory_limit sv)" "de_MemoryLimit d = memory_limit sv"
  shows "budgeted env sv (run_begin run l n rq d cx1 cx2)"
proof -
  have "begun env sv rq g"
    if "Merge_start (NewMerger_concurrency (de_Concurrency d)) cx1 cx2 (rq_Manifest rq)
      (NewByteBudget (de_MemoryLimit d)) NewMemoryWriter NewMemoryCheckpoints NewMemoryIndex = Inr g" for g
  proof -
    have "1 \<le> NewMerger_concurrency (de_Concurrency d)" by (simp add: NewMerger_concurrency_def, arith)
    with that assms show ?thesis
      unfolding begun_def by (metis merge_run.simps(1))
  qed
  then show ?thesis by (auto simp: run_begin_def merge_failed_def split: sum.split)
qed

lemma call_step_budgeted:
  assumes b: "budgeted env sv c" and s: "call_step env inp self cx wcx c sv = Some ((c', sv'), sig)"
  shows "budgeted env sv' c'"
proof (cases c)
  case (R_Begin p l n rq d cx1)
  with b s run_begin_budgeted [of sv d env p l n rq cx1 wcx] show ?thesis by auto
next
  case (R_Admit p l n rq)
  with s admitted_limit [of "sv_admission sv" "rq_Manifest rq" "sv_catalog sv"] show ?thesis
    by (auto simp: run_admit_def Let_def memory_limit_def)
qed (use b s in \<open>auto simp: get_step_def request_step_def got_def submit_admit_def submit_number_def
    submit_create_def submit_append_def run_acquire_def run_start_def run_update_def run_started_def
    run_register_def run_merged_def merge_failed_def run_complete_def run_artifact_def
    run_completed_def finish_update_def finish_append_def run_unregister_def run_release_def cancel_read_def
    cancel_update_def cancel_append_def wait_delay_def wait_select_def Let_def
    split: option.splits sum.splits prod.splits caller.splits main_pc.splits if_splits\<close>)

lemma begun_step:
  assumes "begun env sv rq g" "merge_step (merge_env_of env rq) l g = Some g'"
  shows "begun env sv rq g'"
proof -
  obtain k cx1 cx2 g0 ms where g: "0 < sint (memory_limit sv)" "1 \<le> k"
    "Merge_start k cx1 cx2 (rq_Manifest rq) (NewByteBudget (memory_limit sv)) NewMemoryWriter
       NewMemoryCheckpoints NewMemoryIndex = Inr g0"
    "merge_run (merge_env_of env rq) ms g0 = Some g"
    using assms(1) by (auto simp: begun_def)
  have "merge_run (merge_env_of env rq) (ms @ [l]) g0 = Some g'"
    using g(4) assms(2) by (simp add: merge_run_append)
  with g(1-3) show ?thesis unfolding begun_def by blast
qed

interpretation budgeted: counter_invariant env "\<lambda>_. True" "budgeted env" for env
proof
  fix sv sv' :: service and c c' d :: pc and inp self cx wcx sig
  assume s: "call_step env inp self cx wcx c sv = Some ((c', sv'), sig)"
  show "True \<and> budgeted env sv' c'" if "budgeted env sv c"
    using call_step_budgeted [OF that s] by blast
  show "budgeted env sv' d" if "budgeted env sv d"
    using budgeted_kept [OF that call_step_admission [OF s]] .
next
  fix sv :: service and c :: pc and lm
  show "budgeted env (sv\<lparr>sv_leases := lm\<rparr>) c" if "budgeted env sv c"
    using budgeted_kept [OF that] by simp
next
  show "budgeted env sv (first_pc k)" for sv k by (cases k) simp_all
  show "budgeted env sv (R_Merge p le n rq g')"
    if "budgeted env sv (R_Merge p le n rq g)" "merge_step (merge_env_of env rq) l g = Some g'"
    for sv p le n rq g l g'
    using begun_step [OF _ that(2)] that(1) by simp
qed simp_all


section \<open>The property\<close>

lemma begun_moves:
  assumes "begun env sv rq g" "sint (mf_TotalSize (rq_Manifest rq)) \<le> sint (memory_limit sv)"
  shows "(\<exists>r. g_pc g = M_Return r)
    \<or> (\<exists>l g'. \<not> is_cancel l \<and> merge_step (merge_env_of env rq) l g = Some g')"
    and "turn_ok g" "inv_entries (settled g)"
proof -
  obtain k cx1 cx2 g0 ms where g: "0 < sint (memory_limit sv)" "1 \<le> k"
    "Merge_start k cx1 cx2 (rq_Manifest rq) (NewByteBudget (memory_limit sv)) NewMemoryWriter
       NewMemoryCheckpoints NewMemoryIndex = Inr g0"
    "merge_run (merge_env_of env rq) ms g0 = Some g"
    using assms(1) by (auto simp: begun_def)
  have "live (NewByteBudget (memory_limit sv)) = {}" "Limit (NewByteBudget (memory_limit sv)) = memory_limit sv"
    using g(1) by (auto simp: live_def NewByteBudget_def Limit_def)
  with ample_run [OF g(3,2) budget_ok_new _ _ g(4)] assms(2)
  have inv: "turn_ok g \<and> inv_entries (settled g) \<and> inv_phase (settled g) \<and> inv_budget (settled g)
      \<and> inv_wait (settled g) \<and> inv_ample (settled g)" by simp
  then show "turn_ok g" "inv_entries (settled g)" by blast+
  from inv show "(\<exists>r. g_pc g = M_Return r)
    \<or> (\<exists>l g'. \<not> is_cancel l \<and> merge_step (merge_env_of env rq) l g = Some g')"
    using ample_progress [of g "merge_env_of env rq"] by blast
qed

text \<open>
  C17: The merge of a run ends, where the file fits the byte budget of the service. In every state
  that a service reaches, a thread that waits for its merge can go on: the merge has returned, and then
  the thread's next section is possible, or some goroutine of the merge can move. Every move of the
  merge lowers its fuel, so it returns after at most \<open>fuel g\<close> moves.
\<close>
theorem small_merges_end:
  assumes "svc_run env ls (system_of (NewService c None j lm a)) = Some s" "i < length (sy_threads s)"
    "th_pc (sy_threads s ! i) = R_Merge run l n rq g"
    "sint (mf_TotalSize (rq_Manifest rq)) \<le> sint (memory_limit (sy_service s))"
  shows "((\<forall>inp. svc_step env (Step i inp) s \<noteq> None) \<or> (\<exists>m s'. svc_step env (MergeStep i m) s = Some s'))
    \<and> (\<forall>m s'. svc_step env (MergeStep i m) s = Some s' \<longrightarrow>
         (\<exists>g'. th_pc (sy_threads s' ! i) = R_Merge run l n rq g' \<and> fuel g' < fuel g))"
proof -
  have "begun env (sy_service s) rq g"
    using budgeted.reachable(2) [OF assms(1) service_ok_NewService _ assms(2)] assms(3) by simp
  note moves = begun_moves [OF this assms(4)]
  from moves(1) have "(\<forall>inp. svc_step env (Step i inp) s \<noteq> None) \<or> (\<exists>m s'. svc_step env (MergeStep i m) s = Some s')"
  proof (elim disjE exE conjE)
    fix r assume "g_pc g = M_Return r"
    then show ?thesis using assms(2,3) by (cases r) (auto simp: thread_step_def run_merged_def)
  next
    fix m g' assume "\<not> is_cancel m" "merge_step (merge_env_of env rq) m g = Some g'"
    then have "svc_step env (MergeStep i m) s \<noteq> None"
      using assms(2,3) by (cases m) (auto simp: merge_thread_def is_cancel_def simp del: merge_step.simps)
    then show ?thesis by blast
  qed
  moreover have "\<exists>g'. th_pc (sy_threads s' ! i) = R_Merge run l n rq g' \<and> fuel g' < fuel g"
    if s': "svc_step env (MergeStep i m) s = Some s'" for m s'
  proof -
    have "\<not> is_cancel m" using s' assms(2,3) by (auto simp: merge_thread_def is_cancel_def)
    moreover from this obtain g' where g': "merge_step (merge_env_of env rq) m g = Some g'"
      "th_pc (sy_threads s' ! i) = R_Merge run l n rq g'"
      using s' assms(2,3) by (cases m) (auto simp: merge_thread_def is_cancel_def simp del: merge_step.simps)
    ultimately show ?thesis using merge_step_fuel [OF g'(1) _ moves(2,3)] by blast
  qed
  ultimately show ?thesis by blast
qed

lemma demo_merging:
  "svc_run demo_svc ((demo_submit @ demo_alone) @ [Step 1 (at 2), Step 1 (at 2), Step 1 (at 2)])
     (system_of (demo_service 2)) =
    Some \<lparr>sy_service = demo_sv 2 demo_running_record [] 2 demo_leases [demo_id \<mapsto> 1],
          sy_threads = [plain None (Done (Returned (Some demo_op) True None)),
            plain None (R_Merge demo_running demo_lease 2 demo_request (demo_state 2 64))]\<rparr>"
proof -
  have n: "1 < (2 :: int)" "0 < (2 :: int)" by simp_all
  show ?thesis
    unfolding svc_run_append [of _ "demo_submit @ demo_alone"] demo_alone_run [OF n(2)] option.case
    by (simp add: run_step [OF _ _ step_admit [OF n(1)]] run_step [OF _ _ step_load]
        run_step [OF _ _ step_begin] del: svc_run.simps(2))
qed

theorem small_merges_end_witness:
  "\<exists>s m s'. svc_run demo_svc ((demo_submit @ demo_alone) @ [Step 1 (at 2), Step 1 (at 2), Step 1 (at 2)])
       (system_of (demo_service 2)) = Some s
     \<and> svc_step demo_svc (MergeStep 1 m) s = Some s'"
proof -
  let ?s = "\<lparr>sy_service = demo_sv 2 demo_running_record [] 2 demo_leases [demo_id \<mapsto> 1],
      sy_threads = [plain None (Done (Returned (Some demo_op) True None)),
        plain None (R_Merge demo_running demo_lease 2 demo_request (demo_state 2 64))]\<rparr>"
  have th: "1 < length (sy_threads ?s)"
    "th_pc (sy_threads ?s ! 1) = R_Merge demo_running demo_lease 2 demo_request (demo_state 2 64)"
    by simp_all
  have "li_MaxResidentBytes (demo_limits 2) = 64" by (simp add: demo_limits_simps)
  then have "sint (mf_TotalSize (rq_Manifest demo_request)) \<le> sint (memory_limit (sy_service ?s))"
    by (simp add: memory_limit_def) (simp add: demo_defs)
  note small_merges_end [OF demo_merging [unfolded demo_system] th this]
  moreover have "svc_step demo_svc (Step 1 (at 2)) ?s = None"
    by (simp add: thread_step_def run_merged_def ready_step_def demo_state_def)
  ultimately show ?thesis using demo_merging by blast
qed

end
