(* ===== verification/CallBounds.thy ===== *)
theory CallBounds
  imports Races
begin

text \<open>
  Every call of the service ends: each section of a call brings it nearer to its return, whatever
  the other threads do in between, and a call that has not returned can always make its next step,
  unless it waits for its merge or for its timer. That a merge returns is the matter of
  \<open>MergerLiveness\<close>.
\<close>

section \<open>A measure\<close>

fun rank :: "pc \<Rightarrow> nat" where
  "rank Q_Finished = 1"
| "rank Q_Next = 2"
| "rank (Done out) = 3"
| "rank (R_Release l out) = 4"
| "rank (R_Unregister l i out) = 5"
| "rank (R_Completed op l r rq res) = 6"
| "rank (R_Artifact op l r rq res) = 7"
| "rank (R_Complete op l n rq res) = 8"
| "rank (R_Failed run f l r e d bg) = 6"
| "rank (R_Fail run l n e cls bg) = 7"
| "rank (R_Merge run l n rq g) = 9"
| "rank (R_Begin run l n rq d cx) = 10"
| "rank (R_Load run l n rq d) = 11"
| "rank (R_Admit run l n rq) = 12"
| "rank (R_Register run l n) = 13"
| "rank (R_Started run l t n) = 14"
| "rank (R_Update run l t n) = 15"
| "rank (R_Start op l) = 16"
| "rank (R_Acquire op) = 17"
| "rank (P_Request k i r) = 18"
| "rank (P_Get k i) = 19"
| "rank (S_Fail op n e) = 4"
| "rank (S_Append op n) = 5"
| "rank (S_Store op rq n) = 6"
| "rank (S_Create op rq) = 20"
| "rank (S_Number rq) = 21"
| "rank (S_Admit rq) = 22"
| "rank (C_Append op r t) = 4"
| "rank (C_Signal op r t) = 5"
| "rank (C_Update op q t n) = 6"
| "rank (C_Read op) = 7"
| "rank (W_Select t) = 4"
| "rank (W_Delay t) = 5"
| "rank (Q_List limit) = 20 * nat (list_limit (ready_limit limit)) + 3"

definition work :: "thread \<Rightarrow> nat" where
  "work th = rank (th_pc th) + 20 * length (th_todo th)"

lemma length_ListOperations: "length (ListOperations state limit c) \<le> nat (list_limit limit)"
proof -
  have "0 < list_limit limit" by (simp add: list_limit_def)
  then show ?thesis by (simp add: ListOperations_def list_with_def Let_def) linarith
qed

lemma call_step_rank:
  assumes "call_step env inp self cx wcx c sv = Some ((c', sv'), sig)"
  shows "rank c' < rank c"
proof (cases c)
  case (R_Merge run l n rq g)
  with assms show ?thesis
    by (auto simp: run_merged_def merge_failed_def split: main_pc.splits sum.splits)
next
  case (P_Request k i r)
  with assms show ?thesis
    by (auto simp: request_step_def got_def split: option.splits caller.splits)
next
  case (W_Select t)
  with assms show ?thesis by (auto simp: wait_select_def split: if_splits option.splits)
qed (use assms in \<open>auto simp: get_step_def submit_admit_def submit_number_def submit_create_def
      submit_append_def run_acquire_def run_start_def run_update_def run_started_def run_register_def
      run_admit_def run_begin_def merge_failed_def run_complete_def run_artifact_def run_completed_def
      finish_update_def finish_append_def run_unregister_def run_release_def cancel_read_def
      cancel_update_def cancel_append_def wait_delay_def Let_def
      split: option.splits sum.splits prod.splits if_splits\<close>)

lemma ready_step_work:
  assumes "ready_step th sv = Some th'"
  shows "work th' < work th"
proof (cases "th_pc th")
  case (Q_List limit)
  with assms length_ListOperations [of StateAccepted "ready_limit limit" "sv_catalog sv"] show ?thesis
    by (auto simp: ready_step_def work_def Service_List_def)
qed (use assms in \<open>auto simp: ready_step_def work_def split: list.splits if_splits\<close>)

lemma thread_step_work:
  assumes "thread_step env inp k th sv = Some (th', sv', sig)"
  shows "work th' < work th"
proof (cases "call_step env inp k (th_ctx th) (th_wctx th) (th_pc th) sv")
  case None
  with assms ready_step_work [of th sv] show ?thesis by (auto simp: thread_step_def)
next
  case (Some r)
  then obtain c sv1 sig1 where "r = ((c, sv1), sig1)" by (cases r) auto
  with Some assms call_step_rank [of env inp k "th_ctx th" "th_wctx th" "th_pc th" sv c sv1 sig1]
  show ?thesis by (auto simp: thread_step_def work_def)
qed

lemma rank_cancel [simp]: "rank (cancel_pc e c) = rank c"
  by (cases c) (simp_all add: cancel_pc_def)

lemma work_cancel [simp]: "work (cancel_worker e th) = work th"
  by (simp add: work_def cancel_worker_def)

lemma signal_work:
  "length (signal sig ths) = length ths" "k < length ths \<Longrightarrow> work (signal sig ths ! k) = work (ths ! k)"
  by (auto simp: signal_def nth_list_update split: option.split)


section \<open>Steps of one thread\<close>

definition own :: "nat \<Rightarrow> label \<Rightarrow> bool" where
  "own k l \<longleftrightarrow> (\<exists>inp. l = Step k inp)"

lemma own_simps [simp]:
  "own k (Step j inp) \<longleftrightarrow> j = k" "\<not> own k (Start cl cx)" "\<not> own k (MergeStep j m)"
  "\<not> own k (CancelCaller j e)" "\<not> own k (OtherLease op)"
  by (auto simp: own_def)

lemma svc_step_work:
  assumes s: "svc_step env l s = Some s'" and k: "k < length (sy_threads s)"
  shows "k < length (sy_threads s')
    \<and> work (sy_threads s' ! k) + (if own k l then 1 else 0) \<le> work (sy_threads s ! k)"
proof (cases l)
  case (Step j inp)
  then obtain th sv sig where t: "j < length (sy_threads s)"
    "thread_step env inp j (sy_threads s ! j) (sy_service s) = Some (th, sv, sig)"
    "s' = s\<lparr>sy_service := sv, sy_threads := signal sig ((sy_threads s)[j := th])\<rparr>"
    using s by (auto split: if_splits option.splits)
  have "work (sy_threads s' ! k) = work ((sy_threads s)[j := th] ! k)"
    using t(3) signal_work(2) [of k "(sy_threads s)[j := th]" sig] k by simp
  moreover have "k < length (sy_threads s')" using t(3) k by (simp add: signal_work)
  ultimately show ?thesis
    using thread_step_work [OF t(2)] t(1) k Step by (cases "j = k") simp_all
next
  case (MergeStep j m)
  then obtain th where t: "j < length (sy_threads s)" "merge_thread env m (sy_threads s ! j) = Some th"
    "s' = s\<lparr>sy_threads := (sy_threads s)[j := th]\<rparr>"
    using s by (auto split: if_splits)
  have "work th = work (sy_threads s ! j)"
    using t(2) by (auto simp: merge_thread_def work_def split: pc.splits merge_label.splits)
  with t k MergeStep show ?thesis by (cases "j = k") simp_all
next
  case (CancelCaller j e)
  have *: "work (th\<lparr>th_ctx := cx\<rparr>) = work th" for th cx by (simp add: work_def)
  from CancelCaller s k show ?thesis by (cases "j = k") (auto simp: * split: if_splits)
qed (use s k in \<open>auto simp: nth_append\<close>)

lemma svc_run_work:
  assumes "svc_run env ls s = Some s'" "k < length (sy_threads s)"
  shows "k < length (sy_threads s')
    \<and> work (sy_threads s' ! k) + length (filter (own k) ls) \<le> work (sy_threads s ! k)"
  using assms
proof (induction ls arbitrary: s)
  case (Cons l ls)
  then obtain s1 where s1: "svc_step env l s = Some s1" "svc_run env ls s1 = Some s'"
    by (auto split: option.splits)
  have "k < length (sy_threads s1)" using svc_step_work [OF s1(1) Cons.prems(2)] by simp
  with Cons.IH [OF s1(2)] svc_step_work [OF s1(1) Cons.prems(2)] show ?case
    by (auto split: if_splits)
qed simp

text \<open>A thread that has returned, and one that waits for something outside its own sections.\<close>

definition returned :: "thread \<Rightarrow> bool" where
  "returned th \<longleftrightarrow>
     (case th_pc th of Done out \<Rightarrow> \<not> th_batch th | Q_Finished \<Rightarrow> True | _ \<Rightarrow> False)"

definition waiting :: "thread \<Rightarrow> bool" where
  "waiting th \<longleftrightarrow>
     (case th_pc th of
        R_Merge run l n rq g \<Rightarrow> (\<forall>res. g_pc g \<noteq> M_Return res)
      | W_Select t \<Rightarrow> True
      | _ \<Rightarrow> False)"

lemma thread_step_enabled:
  assumes "\<not> returned th" "\<not> waiting th"
  shows "thread_step env inp k th sv \<noteq> None"
proof (cases "th_pc th")
  case (R_Merge run l n rq g)
  with assms(2) obtain res where "g_pc g = M_Return res" by (auto simp: waiting_def)
  with R_Merge show ?thesis by (cases res) (auto simp: thread_step_def run_merged_def)
next
  case (W_Select t)
  with assms(2) show ?thesis by (simp add: waiting_def)
qed (use assms in \<open>auto simp: thread_step_def ready_step_def returned_def split: prod.splits list.splits\<close>)

text \<open>
  C16: Every call of the service ends. Once called, a thread makes fewer sections of its own than the
  number given for its call, whatever the other threads do, also \<open>RunReady\<close>, whose loop is bounded by its
  limit; and as long as it has not returned it can make the next one, whatever the clock, the
  disk and the contexts say, except while it waits for its merge or for the retry timer.
\<close>
theorem calls_end:
  assumes "svc_run env (Start cl cx # ls) s = Some s'" "k = length (sy_threads s)"
  shows "length (filter (own k) ls)
      < (case cl of
           Call_Submit rq \<Rightarrow> 22
         | Call_RunReady limit \<Rightarrow> 20 * nat (list_limit (ready_limit limit)) + 3
         | _ \<Rightarrow> 19)
    \<and> (returned (sy_threads s' ! k) \<or> waiting (sy_threads s' ! k)
       \<or> (\<forall>inp. svc_step env (Step k inp) s' \<noteq> None))"
proof -
  let ?s = "s\<lparr>sy_threads := sy_threads s @ [new_thread cl cx]\<rparr>"
  have run: "svc_run env ls ?s = Some s'" using assms(1) by simp
  have k: "k < length (sy_threads ?s)" "sy_threads ?s ! k = new_thread cl cx" using assms(2) by simp_all
  note w = svc_run_work [OF run k(1), unfolded k(2)]
  have "0 < rank c" for c by (cases c) simp_all
  then have "0 < work (sy_threads s' ! k)" by (simp add: work_def)
  moreover have "work (new_thread cl cx) = rank (first_pc cl)" by (simp add: work_def new_thread_def)
  ultimately have "length (filter (own k) ls) < rank (first_pc cl)" using w by linarith
  moreover have "rank (first_pc cl) = (case cl of
           Call_Submit rq \<Rightarrow> 22
         | Call_RunReady limit \<Rightarrow> 20 * nat (list_limit (ready_limit limit)) + 3
         | _ \<Rightarrow> 19)"
    by (cases cl) simp_all
  moreover have "svc_step env (Step k inp) s' \<noteq> None"
    if "\<not> returned (sy_threads s' ! k)" "\<not> waiting (sy_threads s' ! k)" for inp
    using thread_step_enabled [OF that, of env inp k "sy_service s'"] w by auto
  ultimately show ?thesis by metis
qed

theorem calls_end_witness:
  "\<exists>s'. svc_run demo_svc demo_submit (system_of (demo_service 2)) = Some s'
     \<and> length (filter (own 0) (replicate 5 (Step 0 (at 1)))) < 22 \<and> returned (sy_threads s' ! 0)"
proof -
  let ?s = "\<lparr>sy_service = submitted 2, sy_threads = [plain None (Done (Returned (Some demo_op) True None))]\<rparr>"
  have run: "svc_run demo_svc demo_submit (system_of (demo_service 2)) = Some ?s" by (rule demo_submitted) simp
  have shape: "demo_submit = Start (Call_Submit demo_request) None # replicate 5 (Step 0 (at 1))"
    by (simp add: demo_submit_def numeral_eq_Suc)
  have "0 = length (sy_threads (system_of (demo_service 2)))" by (simp add: system_of_def)
  from calls_end [OF run [unfolded shape] this] run show ?thesis
    by (intro exI [of _ ?s]) (simp add: returned_def plain_def)
qed

end
