(* ===== verification/RunOutcome.thy ===== *)
theory RunOutcome
  imports CallBounds
begin

text \<open>
  How a run ends when nobody writes its record in the meantime: what it leaves in the catalog, the
  leases and the table of cancel functions, for a merge that succeeded and for every kind of failure.
\<close>

section \<open>The deferred functions\<close>

text \<open>The service after \<open>Run\<close> has unregistered its cancel function and released its lease.\<close>

definition left :: "lease \<Rightarrow> string \<Rightarrow> service \<Rightarrow> service" where
  "left l i sv =
     sv\<lparr>sv_cancels := (sv_cancels sv)(i := None),
        sv_leases := snd (Lease_Release (le_Resource l) (le_Owner l) (le_Fence l) (sv_leases sv))\<rparr>"

lemma left_simps [simp]:
  "sv_catalog (left l i sv) = sv_catalog sv" "sv_cancels (left l i sv) = (sv_cancels sv)(i := None)"
  "sv_leases (left l i sv) = snd (Lease_Release (le_Resource l) (le_Owner l) (le_Fence l) (sv_leases sv))"
  "sv_requests (left l i sv) = sv_requests sv"
  by (simp_all add: left_def)

lemma leave_run:
  assumes "i < length ths" "th_pc (ths ! i) = R_Unregister l j out"
  shows "\<exists>th. svc_run env [Step i x, Step i x] \<lparr>sy_service = sv, sy_threads = ths\<rparr> =
      Some \<lparr>sy_service = left l j sv, sy_threads = ths[i := th]\<rparr> \<and> th_pc th = Done out"
proof -
  let ?sv = "sv\<lparr>sv_cancels := (sv_cancels sv)(j := None)\<rparr>"
  let ?th = "cancel_worker Canceled ((ths ! i)\<lparr>th_pc := R_Release l out, th_wctx := th_wctx (ths ! i)\<rparr>)"
  have 1: "svc_step env (Step i x) \<lparr>sy_service = sv, sy_threads = ths\<rparr> =
      Some \<lparr>sy_service = ?sv, sy_threads = ths[i := ?th]\<rparr>"
    using assms by (simp add: thread_step_def run_unregister_def signal_def is_register_def)
  have "th_pc ?th = R_Release l out" by (simp add: cancel_worker_def cancel_pc_def)
  moreover have "run_release l out ?sv = (Done out, left l j sv)" by (simp add: run_release_def left_def)
  ultimately obtain th where "th_pc th = Done out"
    "svc_step env (Step i x) \<lparr>sy_service = ?sv, sy_threads = ths[i := ?th]\<rparr> =
      Some \<lparr>sy_service = left l j sv, sy_threads = ths[i := th]\<rparr>"
    using svc_run_step [of i "\<lparr>sy_service = ?sv, sy_threads = ths[i := ?th]\<rparr>" env x] assms(1) by fastforce
  with 1 show ?thesis by (intro exI [of _ th]) (simp del: svc_step.simps)
qed

text \<open>A section in the middle of a schedule, for a thread given by its counter.\<close>

lemma section_run:
  assumes "i < length ths" "th_pc (ths ! i) = c"
    "\<And>cx wcx. \<exists>c' sv'. call_step env x i cx wcx c sv = Some ((c', sv'), None) \<and> P c' sv'"
  shows "\<exists>c' sv' th. svc_run env [Step i x] \<lparr>sy_service = sv, sy_threads = ths\<rparr> =
      Some \<lparr>sy_service = sv', sy_threads = ths[i := th]\<rparr> \<and> th_pc th = c' \<and> P c' sv'"
proof -
  obtain c' sv' where c: "call_step env x i (th_ctx (ths ! i)) (th_wctx (ths ! i)) c sv = Some ((c', sv'), None)"
    "P c' sv'" using assms(3) by blast
  then obtain th where "th_pc th = c'"
    "svc_step env (Step i x) \<lparr>sy_service = sv, sy_threads = ths\<rparr> =
       Some \<lparr>sy_service = sv', sy_threads = ths[i := th]\<rparr>"
    using svc_run_step [of i "\<lparr>sy_service = sv, sy_threads = ths\<rparr>" env x c' sv'] assms(1,2) by fastforce
  with c(2) show ?thesis
    by (intro exI [of _ c'] exI [of _ sv'] exI [of _ th]) (simp del: svc_step.simps)
qed

text \<open>The section that writes the last event of a run changes the journal only, and goes on to leave.\<close>

definition only_journal :: "service \<Rightarrow> service \<Rightarrow> bool" where
  "only_journal sv sv' \<longleftrightarrow> (\<exists>j. sv' = sv\<lparr>sv_journal := j\<rparr>)"

lemma append_event_journal: "append_event env inp cx e sv = (er, sv') \<Longrightarrow> only_journal sv sv'"
  by (auto simp: only_journal_def append_event_def split: prod.splits sum.splits)

lemma completed_leaves:
  "\<exists>out sv'. run_completed env inp cx op l r rq res sv = (R_Unregister l (op_ID op) out, sv') \<and> only_journal sv sv'"
proof -
  let ?e = "stamped op (event_of env (op_ID op) ''completed'' (op_UpdatedAt op)
    (Pay_Completed (receipt_of res) (mr_PeakResidentBytes res)))"
  obtain er sv' where a: "append_event env inp cx ?e sv = (er, sv')" by fastforce
  show ?thesis using append_event_journal [OF a] a by (cases er) (simp_all add: run_completed_def)
qed

lemma failed_leaves:
  "\<exists>out sv'. finish_append env inp cx run f l r e d bg sv = (R_Unregister l (op_ID run) out, sv') \<and> only_journal sv sv'"
proof -
  let ?e = "stamped run (event_of env (op_ID run) (if rd_Retry d then ''retrying'' else ''failed'') (op_UpdatedAt f)
    (Pay_Finished (rd_Class d) (rd_Reason d) e (rd_After d)))"
  obtain er sv' where a: "append_event env inp (if bg then None else cx) ?e sv = (er, sv')" by fastforce
  show ?thesis using append_event_journal [OF a] a by (cases er) (simp_all add: finish_append_def)
qed

lemma only_journal_left:
  "only_journal sv sv' \<Longrightarrow> sv_catalog (left l i sv') = sv_catalog sv
     \<and> sv_cancels (left l i sv') i = None
     \<and> sv_leases (left l i sv') = snd (Lease_Release (le_Resource l) (le_Owner l) (le_Fence l) (sv_leases sv))"
  by (auto simp: only_journal_def)

lemma last_event_and_leave:
  assumes "i < length ths" "th_pc (ths ! i) = c"
    "\<And>cx wcx. \<exists>out sv'. call_step env x i cx wcx c sv = Some ((R_Unregister l j out, sv'), None) \<and> only_journal sv sv'"
  shows "\<exists>s' out. svc_run env [Step i x, Step i x, Step i x] \<lparr>sy_service = sv, sy_threads = ths\<rparr> = Some s'
    \<and> th_pc (sy_threads s' ! i) = Done out \<and> sv_catalog (sy_service s') = sv_catalog sv
    \<and> sv_cancels (sy_service s') j = None
    \<and> sv_leases (sy_service s') = snd (Lease_Release (le_Resource l) (le_Owner l) (le_Fence l) (sv_leases sv))"
proof -
  have "\<exists>c' sv' th. svc_run env [Step i x] \<lparr>sy_service = sv, sy_threads = ths\<rparr> =
      Some \<lparr>sy_service = sv', sy_threads = ths[i := th]\<rparr> \<and> th_pc th = c'
      \<and> ((\<exists>out. c' = R_Unregister l j out) \<and> only_journal sv sv')"
    by (rule section_run [OF assms(1,2)]) (use assms(3) in blast)
  then obtain sv' th out where 1: "svc_run env [Step i x] \<lparr>sy_service = sv, sy_threads = ths\<rparr> =
      Some \<lparr>sy_service = sv', sy_threads = ths[i := th]\<rparr>" "th_pc th = R_Unregister l j out" "only_journal sv sv'"
    by blast
  obtain th' where 2: "svc_run env [Step i x, Step i x] \<lparr>sy_service = sv', sy_threads = ths[i := th]\<rparr> =
      Some \<lparr>sy_service = left l j sv', sy_threads = ths[i := th']\<rparr>" "th_pc th' = Done out"
    using leave_run [of i "ths[i := th]" l j out env x sv'] assms(1) 1(2) by auto
  have "[Step i x, Step i x, Step i x] = [Step i x] @ [Step i x, Step i x]" by simp
  with 1(1) 2(1) have "svc_run env [Step i x, Step i x, Step i x] \<lparr>sy_service = sv, sy_threads = ths\<rparr> =
      Some \<lparr>sy_service = left l j sv', sy_threads = ths[i := th']\<rparr>"
    by (simp only: svc_run_append option.case)
  with 2(2) assms(1) only_journal_left [OF 1(3), of l j] show ?thesis by auto
qed


section \<open>Success\<close>

text \<open>The artifact of a result can be put where its file has none, or the same.\<close>

definition publishable :: "merge_result \<Rightarrow> catalog \<Rightarrow> bool" where
  "publishable res c \<longleftrightarrow>
     (\<forall>a. map_of (ct_artifacts c) (mr_FileID res) = Some a \<longrightarrow>
        rc_Version (ar_Receipt a) = mr_Version res \<and> rc_Digest (ar_Receipt a) = mr_Digest res)"

lemma PutArtifact_publishable:
  assumes "publishable res c" "mr_FileID res \<noteq> []" "i \<noteq> []"
  shows "\<exists>c' a. PutArtifact \<lparr>ar_Receipt = receipt_of res, ar_OperationID = i, ar_CommittedAt = t\<rparr> c = (None, c')
    \<and> table c' = table c \<and> map_of (ct_artifacts c') (mr_FileID res) = Some a
    \<and> rc_Version (ar_Receipt a) = mr_Version res \<and> rc_Digest (ar_Receipt a) = mr_Digest res"
  using assms
  by (cases "map_of (ct_artifacts c) (mr_FileID res)")
    (auto simp: publishable_def PutArtifact_def receipt_of_def table_def update_conv')

text \<open>
  A run whose merge has succeeded and whose record nobody has written since the start brings
  it to an end: alone, it makes five more sections, after which the record says completed with the result,
  one revision on, the artifact of the file has the result's version and digest, the lease is released and the
  cancel function is gone, whatever the journal does with the last event. Only another version of
  the artifact prevents this.
\<close>
theorem success_recorded:
  assumes "svc_run env ls (system_of (NewService c None j lm a)) = Some s" "i < length (sy_threads s)"
    "th_pc (sy_threads s ! i) = R_Complete op l n rq res"
    "table (sv_catalog (sy_service s)) (op_ID op) = Some r" "or_Revision r = n"
    "publishable res (sv_catalog (sy_service s))"
  shows "\<exists>s' out r' art. svc_run env (replicate 5 (Step i x)) s = Some s'
    \<and> th_pc (sy_threads s' ! i) = Done out
    \<and> table (sv_catalog (sy_service s')) (op_ID op) = Some r' \<and> or_State r' = StateCompleted
    \<and> or_Result r' = Some res \<and> or_Revision r' = n + 1
    \<and> map_of (ct_artifacts (sv_catalog (sy_service s'))) (mr_FileID res) = Some art
    \<and> rc_Version (ar_Receipt art) = mr_Version res \<and> rc_Digest (ar_Receipt art) = mr_Digest res
    \<and> sv_cancels (sy_service s') (op_ID op) = None
    \<and> sv_leases (sy_service s') =
        snd (Lease_Release (le_Resource l) (le_Owner l) (le_Fence l) (sv_leases (sy_service s)))"
proof -
  let ?sv = "sy_service s" and ?r = "(toRecord op)\<lparr>or_Revision := or_Revision r + 1\<rparr>"
  note ok = reached_pc [OF assms(1,2), unfolded assms(3)]
  have op: "op_ok env ?sv op" "op_State op = StateCompleted" "op_Result op = Some res"
    using ok(2) by (auto simp: done_ok_def)
  obtain c1 where c1: "update_record op (or_Revision r) ?sv = (Inr ?r, ?sv\<lparr>sv_catalog := c1\<rparr>)"
    "table c1 = (table (sv_catalog ?sv))(op_ID op \<mapsto> ?r)" "ct_artifacts c1 = ct_artifacts (sv_catalog ?sv)"
    using update_record_current [OF ok(1) op(1) assms(4)] by blast
  have names: "mr_FileID res \<noteq> []" "op_ID op \<noteq> []"
  proof -
    obtain m d where "CompileManifest (rq_Manifest rq) = Inr m" "receipt_of res = \<lparr>rc_FileID = mf_FileID m,
        rc_Version = mf_Version m, rc_Size = mf_TotalSize m, rc_Digest = Digest d\<rparr>"
      using ok(2) by (auto simp: done_ok_def op_ok_def result_fits_def verified_def)
    then show "mr_FileID res \<noteq> []"
      by (auto simp: receipt_of_def CompileManifest_Inr manifest_ok_def normalise_def)
    show "op_ID op \<noteq> []" using service_okD(1) [OF ok(1)] assms(4) by (auto simp: catalog_ok_def)
  qed
  obtain c2 art where c2: "PutArtifact \<lparr>ar_Receipt = receipt_of res, ar_OperationID = op_ID op,
      ar_CommittedAt = op_UpdatedAt op\<rparr> c1 = (None, c2)" "table c2 = table c1"
    "map_of (ct_artifacts c2) (mr_FileID res) = Some art"
    "rc_Version (ar_Receipt art) = mr_Version res" "rc_Digest (ar_Receipt art) = mr_Digest res"
    using PutArtifact_publishable [of res c1 "op_ID op" "op_UpdatedAt op"] assms(6) names c1(3)
    by (auto simp: publishable_def)
  let ?sv1 = "?sv\<lparr>sv_catalog := c1\<rparr>" and ?sv2 = "?sv\<lparr>sv_catalog := c2\<rparr>"
  have 1: "run_complete op l n rq res ?sv = (R_Artifact op l ?r rq res, ?sv1)"
    using c1(1) assms(5) by (simp add: run_complete_def)
  have 2: "run_artifact op l ?r rq res ?sv1 = (R_Completed op l ?r rq res, ?sv2)"
    using c2(1) by (simp add: run_artifact_def)
  obtain th1 where th1: "th_pc th1 = R_Artifact op l ?r rq res"
    "svc_step env (Step i x) s = Some \<lparr>sy_service = ?sv1, sy_threads = (sy_threads s)[i := th1]\<rparr>"
    using svc_run_step [OF assms(2), of env x "R_Artifact op l ?r rq res" ?sv1] assms(3) 1 by auto
  obtain th2 where th2: "th_pc th2 = R_Completed op l ?r rq res"
    "svc_step env (Step i x) \<lparr>sy_service = ?sv1, sy_threads = (sy_threads s)[i := th1]\<rparr>
       = Some \<lparr>sy_service = ?sv2, sy_threads = (sy_threads s)[i := th2]\<rparr>"
    using svc_run_step [of i "\<lparr>sy_service = ?sv1, sy_threads = (sy_threads s)[i := th1]\<rparr>" env x
        "R_Completed op l ?r rq res" ?sv2] assms(2) th1(1) 2 by auto
  have at: "i < length ((sy_threads s)[i := th2])" "th_pc ((sy_threads s)[i := th2] ! i) = R_Completed op l ?r rq res"
    using assms(2) th2(1) by simp_all
  have leaves: "\<exists>out sv'. call_step env x i cx wcx (R_Completed op l ?r rq res) ?sv2 =
      Some ((R_Unregister l (op_ID op) out, sv'), None) \<and> only_journal ?sv2 sv'" for cx wcx
    using completed_leaves [of env x cx op l ?r rq res ?sv2] by auto
  then obtain s' out where s': "svc_run env [Step i x, Step i x, Step i x]
      \<lparr>sy_service = ?sv2, sy_threads = (sy_threads s)[i := th2]\<rparr> = Some s'"
    "th_pc (sy_threads s' ! i) = Done out" "sv_catalog (sy_service s') = c2"
    "sv_cancels (sy_service s') (op_ID op) = None"
    "sv_leases (sy_service s') = snd (Lease_Release (le_Resource l) (le_Owner l) (le_Fence l) (sv_leases ?sv))"
    using last_event_and_leave [OF at leaves] by auto
  have "replicate 5 (Step i x) = [Step i x] @ [Step i x] @ [Step i x, Step i x, Step i x]"
    by (simp add: numeral_eq_Suc)
  with th1(2) th2(2) s'(1) have "svc_run env (replicate 5 (Step i x)) s = Some s'"
    by (simp del: svc_step.simps)
  with s'(2-5) c1(2) c2(2-5) op(2,3) assms(5) show ?thesis
    by (intro exI [of _ s'] exI [of _ out] exI [of _ ?r] exI [of _ art]) simp
qed


theorem success_recorded_witness:
  "\<exists>s s' r res. svc_run demo_svc demo_prefix (system_of (demo_service 2)) = Some s
     \<and> svc_run demo_svc (replicate 5 (Step 3 (at 3))) s = Some s'
     \<and> table (sv_catalog (sy_service s')) demo_id = Some r \<and> or_State r = StateCompleted
     \<and> or_Result r = Some res \<and> sv_cancels (sy_service s') demo_id = None"
proof -
  obtain res where r: "mr_FileID res = ''demo''" and all: "\<forall>ls.
    svc_run demo_svc (demo_prefix @ ls) (system_of (demo_service 2)) =
      svc_run demo_svc ls
        \<lparr>sy_service = demo_sv 2 demo_running_record [] 2 demo_leases [demo_id \<mapsto> 3],
         sy_threads = demo_waiting @ [plain None (R_Complete (demo_completed res) demo_lease 2 demo_request res)]\<rparr>"
    using demo_reaches_merged [of 2] by auto
  let ?s = "\<lparr>sy_service = demo_sv 2 demo_running_record [] 2 demo_leases [demo_id \<mapsto> 3],
         sy_threads = demo_waiting @ [plain None (R_Complete (demo_completed res) demo_lease 2 demo_request res)]\<rparr>"
  have run: "svc_run demo_svc demo_prefix (system_of (demo_service 2)) = Some ?s"
    using all [THEN spec, of "[]"] by (simp only: append_Nil2 svc_run.simps(1))
  have start: "3 < length (sy_threads ?s)"
    "th_pc (sy_threads ?s ! 3) = R_Complete (demo_completed res) demo_lease 2 demo_request res"
    "table (sv_catalog (sy_service ?s)) (op_ID (demo_completed res)) = Some demo_running_record"
    "or_Revision demo_running_record = 2" "publishable res (sv_catalog (sy_service ?s))"
    by (simp_all add: demo_waiting_def table_def demo_catalog_def publishable_def demo_completed_def)
  have "op_ID (demo_completed res) = demo_id" by (simp add: demo_completed_def)
  with success_recorded [OF run [unfolded demo_system] start, of "at 3"] run show ?thesis by auto
qed


section \<open>Failure\<close>

text \<open>
  C15: A run that fails, because admission refuses it or its merge returns an error, ends as the policy
  decides, where nobody has written its record since the start (a call of \<open>Cancel\<close> that has
  written it leaves it cancelled, and the failure is not recorded): alone, it makes four more sections; a transient failure
  below the limit of attempts leaves the record retrying, with the time of the retry; a cancelled merge, an
  invalid manifest, a segment that does not verify, a refused run and the last attempt leave it
  failed. The error's text is kept, no artifact changes, the lease is released and the
  cancel function is gone, whatever the journal does with the last event.
\<close>
theorem failure_recorded:
  assumes "svc_run env ls (system_of (NewService c None j lm a)) = Some s" "i < length (sy_threads s)"
    "th_pc (sy_threads s ! i) = R_Fail run l n cause cls bg"
    "table (sv_catalog (sy_service s)) (op_ID run) = Some r" "or_Revision r = n"
    "d = Retry (sv_admission (sy_service s)) (op_Attempt run) cls"
  shows "\<exists>s' out r'. svc_run env (replicate 4 (Step i x)) s = Some s'
    \<and> th_pc (sy_threads s' ! i) = Done out
    \<and> table (sv_catalog (sy_service s')) (op_ID run) = Some r' \<and> or_Revision r' = n + 1
    \<and> (if rd_Retry d
       then or_State r' = StateRetrying \<and> or_RetryAt r' = Some (in_now x + sint (rd_After d))
       else or_State r' = StateFailed)
    \<and> (rd_Retry d \<longleftrightarrow> cls = FailureTransient \<and> op_Attempt run < li_MaxAttempts (sv_admission (sy_service s)))
    \<and> or_LastError r' = se_text env cause
    \<and> ct_artifacts (sv_catalog (sy_service s')) = ct_artifacts (sv_catalog (sy_service s))
    \<and> sv_cancels (sy_service s') (op_ID run) = None
    \<and> sv_leases (sy_service s') =
        snd (Lease_Release (le_Resource l) (le_Owner l) (le_Fence l) (sv_leases (sy_service s)))"
proof -
  let ?sv = "sy_service s"
  note ok = reached_pc [OF assms(1,2), unfolded assms(3)]
  have run: "run_ok env ?sv run" using ok(2) by simp
  obtain f where f: "failure_record env (in_now x) run cause d = Inr f"
    using run
    by (cases "rd_Retry d") (auto simp: failure_record_def run_ok_def transition_def allowed_def state_defs)
  note g = failure_record_Inr [OF f]
  have extra: "op_LastError f = se_text env cause" "rd_Retry d \<Longrightarrow> op_RetryAt f = Some (in_now x + sint (rd_After d))"
    using f by (auto simp: failure_record_def transition_def Let_def split: if_splits)
  let ?r = "(toRecord f)\<lparr>or_Revision := or_Revision r + 1\<rparr>"
  obtain c1 where c1: "update_record f (or_Revision r) ?sv = (Inr ?r, ?sv\<lparr>sv_catalog := c1\<rparr>)"
    "table c1 = (table (sv_catalog ?sv))(op_ID f \<mapsto> ?r)" "ct_artifacts c1 = ct_artifacts (sv_catalog ?sv)"
    using update_record_current [OF ok(1) failure_record_ok [OF run f]] assms(4) g(2) by metis
  let ?sv1 = "?sv\<lparr>sv_catalog := c1\<rparr>" and ?pc = "R_Failed run f l ?r cause d bg"
  have 1: "finish_update env (in_now x) run l n cause cls bg ?sv = (?pc, ?sv1)"
    using c1(1) f assms(5,6) by (simp add: finish_update_def Let_def)
  obtain th1 where th1: "th_pc th1 = ?pc"
    "svc_step env (Step i x) s = Some \<lparr>sy_service = ?sv1, sy_threads = (sy_threads s)[i := th1]\<rparr>"
    using svc_run_step [OF assms(2), of env x ?pc ?sv1] assms(3) 1 by auto
  have at: "i < length ((sy_threads s)[i := th1])" "th_pc ((sy_threads s)[i := th1] ! i) = ?pc"
    using assms(2) th1(1) by simp_all
  have leaves: "\<exists>out sv'. call_step env x i cx wcx ?pc ?sv1 =
      Some ((R_Unregister l (op_ID run) out, sv'), None) \<and> only_journal ?sv1 sv'" for cx wcx
    using failed_leaves [of env x cx run f l ?r cause d bg ?sv1] by auto
  then obtain s' out where s': "svc_run env [Step i x, Step i x, Step i x]
      \<lparr>sy_service = ?sv1, sy_threads = (sy_threads s)[i := th1]\<rparr> = Some s'"
    "th_pc (sy_threads s' ! i) = Done out" "sv_catalog (sy_service s') = c1"
    "sv_cancels (sy_service s') (op_ID run) = None"
    "sv_leases (sy_service s') = snd (Lease_Release (le_Resource l) (le_Owner l) (le_Fence l) (sv_leases ?sv))"
    using last_event_and_leave [OF at leaves] by auto
  have "replicate 4 (Step i x) = [Step i x] @ [Step i x, Step i x, Step i x]" by (simp add: numeral_eq_Suc)
  with th1(2) s'(1) have steps: "svc_run env (replicate 4 (Step i x)) s = Some s'" by (simp del: svc_step.simps)
  have retry: "rd_Retry d \<longleftrightarrow> cls = FailureTransient \<and> op_Attempt run < li_MaxAttempts (sv_admission ?sv)"
    by (cases cls) (simp_all add: assms(6) Retry_def no_retry_def not_le)
  show ?thesis
    using steps s'(2-5) c1(2,3) g(1,2) extra assms(5) retry
    by (intro exI [of _ s'] exI [of _ out] exI [of _ ?r]) simp
qed

text \<open>The operation of the example, run at a limit of one operation, is refused by its own admission.\<close>

theorem failure_recorded_witness:
  "\<exists>s s' r. svc_run demo_svc (demo_submit @ demo_alone @ [Step 1 (at 2)]) (system_of (demo_service 1)) = Some s
     \<and> svc_run demo_svc (replicate 4 (Step 1 (at 2))) s = Some s'
     \<and> table (sv_catalog (sy_service s')) demo_id = Some r \<and> or_State r = StateFailed"
proof -
  let ?sv = "demo_sv 1 demo_running_record [] 2 demo_leases [demo_id \<mapsto> 1]"
    and ?done = "plain None (Done (Returned (Some demo_op) True None))"
    and ?admit = "R_Admit demo_running demo_lease 2 demo_request"
  let ?first = "\<lparr>sy_service = ?sv, sy_threads = [?done, plain None ?admit]\<rparr>"
  have run0: "svc_run demo_svc (demo_submit @ demo_alone) (system_of (demo_service 1)) = Some ?first"
    by (rule demo_alone_run) simp
  have "\<exists>e. run_admit demo_running demo_lease 2 demo_request ?sv =
      R_Fail demo_running demo_lease 2 e FailurePermanent False"
    by (simp add: run_admit_def demo_load_one demo_limits_simps Evaluate_def rejected_def Let_def)
  then obtain e where e: "run_admit demo_running demo_lease 2 demo_request ?sv =
      R_Fail demo_running demo_lease 2 e FailurePermanent False" by blast
  let ?fail = "R_Fail demo_running demo_lease 2 e FailurePermanent False"
  let ?s = "\<lparr>sy_service = ?sv, sy_threads = [?done, plain None ?fail]\<rparr>"
  have "svc_run demo_svc [Step 1 (at 2)] ?first = Some ?s"
    using run_step [of 1 "[?done, plain None ?admit]" None ?admit demo_svc "at 2" ?sv ?fail ?sv "[]"] e
    by (simp del: svc_run.simps(2))
  then have run: "svc_run demo_svc (demo_submit @ demo_alone @ [Step 1 (at 2)]) (system_of (demo_service 1)) = Some ?s"
    using run0 by (simp only: append_assoc [symmetric] svc_run_append [of _ "demo_submit @ demo_alone"] option.case)
  have start: "1 < length (sy_threads ?s)"
    "th_pc (sy_threads ?s ! 1) = R_Fail demo_running demo_lease 2 e FailurePermanent False"
    "table (sv_catalog (sy_service ?s)) (op_ID demo_running) = Some demo_running_record"
    "or_Revision demo_running_record = 2"
    by (simp_all add: table_def demo_catalog_def)
  from failure_recorded [OF run [unfolded demo_system] start refl, of "at 2"] run show ?thesis
    by auto
qed

end
