(* ===== verification/MergerSuccess.thy ===== *)
theory MergerSuccess
  imports MergerAmple
begin

text \<open>
  A merge that nothing stands in the way of succeeds: the context is not cancelled, every
  segment loads and verifies, and each fits the budget. \<open>inv_good\<close> says that no error is
  on its way, so what \<open>MergerAmple\<close> shows to return returns a result.
\<close>

section \<open>No error on its way\<close>

definition all_load :: "merge_env \<Rightarrow> manifest \<Rightarrow> bool" where
  "all_load env c \<longleftrightarrow>
     (\<forall>sg\<in>set (mf_Segments c). \<exists>d. load_data (en_gunzip env) (en_source env) None sg = Inr d)"

definition all_fit_in :: "i64 \<Rightarrow> manifest \<Rightarrow> bool" where
  "all_fit_in limit c \<longleftrightarrow> (\<forall>sg\<in>set (mf_Segments c). sint (seg_LogicalSize sg) \<le> sint limit)"

definition good_pc :: "main_pc \<Rightarrow> bool" where
  "good_pc pc = (case pc of M_Drain e \<Rightarrow> False | M_Return (Inl e) \<Rightarrow> False | _ \<Rightarrow> True)"

lemma good_pc_simps [simp]:
  "good_pc M_Recv" "good_pc M_Flush" "good_pc M_Commit" "good_pc (M_Index r)" "good_pc (M_Clear r)"
  "\<not> good_pc (M_Drain e)" "\<not> good_pc (M_Return (Inl e))" "good_pc (M_Return (Inr res))"
  by (simp_all add: good_pc_def)

definition inv_good :: "merge_state \<Rightarrow> bool" where
  "inv_good s \<longleftrightarrow>
     g_ctx s = None \<and> g_wctx s = None \<and> good_pc (g_pc s) \<and> (\<forall>r\<in>results_out s. \<exists>ld. r = Inr ld)"

text \<open>What the other invariants know of the state.\<close>

definition backed :: "merge_env \<Rightarrow> merge_state \<Rightarrow> bool" where
  "backed env s \<longleftrightarrow>
     inv_entries s \<and> inv_phase s \<and> inv_budget s \<and> inv_data env s
     \<and> (\<exists>w cps x. inv_output env w cps x s)
     \<and> all_load env (g_compiled s) \<and> all_fit_in (bb_limit (g_budget s)) (g_compiled s)"

lemma backedD:
  assumes "backed env s"
  shows "inv_entries s" "inv_phase s" "inv_budget s" "inv_data env s" "all_load env (g_compiled s)"
    "all_fit_in (bb_limit (g_budget s)) (g_compiled s)" "\<exists>w cps x. inv_output env w cps x s"
  using assms by (simp_all add: backed_def)

lemma merge_move_limit: "merge_move env k s s' \<Longrightarrow> bb_limit (g_budget s') = bb_limit (g_budget s)"
proof (induction rule: merge_move.induct)
  case (load i s e l r b)
  then show ?case using shrinks_Load_held by (simp add: shrinks_def)
qed (auto simp: Acquire_def Acquire_loop_def fail_with_def releasePending_def cancel_workers_def
    shrinks_release_all [unfolded shrinks_def] shrinks_release_loaded [unfolded shrinks_def] split: if_splits)

lemma backed_move: "merge_move env k s s' \<Longrightarrow> backed env s \<Longrightarrow> backed env s'"
  unfolding backed_def
  using inv_entries_move inv_phase_move inv_budget_move inv_data_move inv_output_move merge_move_compiled
    merge_move_limit by metis


section \<open>The entries of the workers\<close>

text \<open>An entry that a worker holds is one of the plan, while the loop runs; after it there are no workers.\<close>

lemma worker_entry:
  assumes "backed env s" "inv_good s" "i < length (g_workers s)" "worker_entries (g_workers s ! i) = {#e#}"
  shows "\<exists>k<length (mf_Segments (g_compiled s)). e = plan_entry_at (mf_Segments (g_compiled s)) k"
proof -
  note b = backedD [OF assms(1)]
  have "running s"
  proof (rule ccontr)
    assume "\<not> running s"
    then have "past_loop s" using assms(2) by (auto simp: past_loop_def inv_good_def)
    then have "g_workers s ! i = W_Exit" using b(2) assms(3) closed_worker by (auto simp: inv_phase_def)
    with assms(4) show False by simp
  qed
  then have acc: "plan_ok s" "accounted s" using b(1) by (auto simp: inv_entries_def)
  have "g_workers s ! i \<in> set (g_workers s)" using assms(3) by simp
  then have "e \<in># outstanding s" using assms(4) by (fastforce simp: outstanding_def in_sum_list_token)
  then have "e \<in> set (to_write s)" using mset_subset_eqD [OF outstanding_sub [OF acc(2)]] by simp
  then show ?thesis unfolding to_write_eq [OF acc(1)] by auto
qed

text \<open>So asking for its weight is no error, and loading it succeeds.\<close>

lemma worker_fits:
  assumes "backed env s" "inv_good s" "i < length (g_workers s)" "worker_entries (g_workers s ! i) = {#e#}"
  shows "1 \<le> sint (pe_MemoryWeight e)" "sint (pe_MemoryWeight e) \<le> sint (bb_limit (g_budget s))"
    "pe_MemoryWeight e = seg_LogicalSize (pe_Segment e)"
    "\<exists>d. load_data (en_gunzip env) (en_source env) None (pe_Segment e) = Inr d"
proof -
  obtain k where k: "k < length (mf_Segments (g_compiled s))" "e = plan_entry_at (mf_Segments (g_compiled s)) k"
    using worker_entry [OF assms] by blast
  note b = backedD [OF assms(1)]
  have "CompileManifest (g_compiled s) = Inr (g_compiled s)" using b(1) by (simp add: inv_entries_def plan_ok_def)
  from compiled_layout(6) [OF this] k(1) have "seg_ok (mf_TotalSize (g_compiled s)) (mf_Segments (g_compiled s) ! k)"
    by (simp add: list_all_length)
  from seg_ok_sizes [OF this] show "1 \<le> sint (pe_MemoryWeight e)" by (simp add: k(2))
  have "mf_Segments (g_compiled s) ! k \<in> set (mf_Segments (g_compiled s))" using k(1) by simp
  with b(5,6) show "sint (pe_MemoryWeight e) \<le> sint (bb_limit (g_budget s))"
    "\<exists>d. load_data (en_gunzip env) (en_source env) None (pe_Segment e) = Inr d"
    by (auto simp: all_load_def all_fit_in_def k(2))
  show "pe_MemoryWeight e = seg_LogicalSize (pe_Segment e)" by (simp add: k(2))
qed


lemma load_good:
  assumes b: "backed env s" and g: "inv_good s" and i: "i < length (g_workers s)" "g_workers s ! i = W_Hold e l"
    and load: "Load_held (en_gunzip env) (en_source env) (g_wctx s) e l (g_budget s) = (r, b')"
  shows "\<exists>ld. r = Inr ld"
proof -
  have e: "worker_entries (g_workers s ! i) = {#e#}" by (simp add: i(2))
  note fits = worker_fits [OF b g i(1) e]
  obtain d where d: "load_data (en_gunzip env) (en_source env) None (pe_Segment e) = Inr d" using fits(4) by blast
  have "W_Hold e l \<in> set (g_workers s)" using i by (metis nth_mem)
  then have "bl_weight (bb_leases (g_budget s) ! l) = pe_MemoryWeight e"
    using backedD(3) [OF b] by (simp add: inv_budget_def)
  then have "fst (MarkResident l (int (length d)) (g_budget s)) = None"
    using load_data_verified(1) [OF d] fits(3) by (simp add: MarkResident_def Let_def)
  moreover have "g_wctx s = None" using g by (simp add: inv_good_def)
  ultimately show ?thesis
    using load d by (auto simp: Load_held_def split: prod.splits option.splits)
qed

lemma acquire_good:
  assumes b: "backed env s" and g: "inv_good s" and i: "i < length (g_workers s)" "worker_entries (g_workers s ! i) = {#e#}"
    and acq: "Acquire (pe_MemoryWeight e) (g_budget s) = (r, b') \<or> Acquire_loop (pe_MemoryWeight e) (g_budget s) = (r, b')"
  shows "after_acquire e r \<noteq> W_Send res"
  using worker_fits(1,2) [OF b g i] acq
  by (auto simp: Acquire_def Acquire_loop_def after_acquire_def split: if_splits)

text \<open>The session is open when the loop has ended, so \<open>Commit\<close> returns a receipt that is valid.\<close>

lemma commit_good:
  assumes b: "backed env s" and g: "inv_good s" and pc: "g_pc s = M_Commit"
  shows "good_pc (g_pc (commit_step s))"
proof -
  obtain w cps x where "inv_output env w cps x s" using backedD(7) [OF b] by blast
  then have d: "draft_live env s" using pc by (simp add: inv_output_def paused_def)
  have c: "CompileManifest (g_compiled s) = Inr (g_compiled s)"
    using backedD(1) [OF b] by (simp add: inv_entries_def plan_ok_def)
  have "int (length (md_data (mw_heap (g_writer s) ! ss_draft (g_session s)))) = sint (mf_TotalSize (g_compiled s))"
    using d by (auto simp: draft_live_def written_ok_def draft_data_def)
  from arg_cong [OF this, of "word_of_int :: int \<Rightarrow> i64"]
  have len: "word_of_nat (length (md_data (mw_heap (g_writer s) ! ss_draft (g_session s))))
      = mf_TotalSize (g_compiled s)"
    by simp
  have "session_live (g_session s) (g_writer s)" using d by (simp add: draft_live_def)
  from Commit_live [OF this] show ?thesis
    using g d compiled_layout(3-5) [OF c]
    by (simp add: commit_step_def inv_good_def Let_def len draft_live_def validateReceipt_def)
qed

lemma commit_ctx: "g_ctx (commit_step s) = g_ctx s" "g_wctx (commit_step s) = g_wctx s"
  "g_ctx (index_step r s) = g_ctx s" "g_wctx (index_step r s) = g_wctx s"
  "g_ctx (clear_step r s) = g_ctx s" "g_wctx (clear_step r s) = g_wctx s"
  by (simp_all add: commit_step_def index_step_def clear_step_def split: prod.split sum.split option.split)


section \<open>Every move keeps it\<close>

lemma good_worker:
  assumes "inv_good s" "g_workers s' = (g_workers s)[i := w]" "\<And>r. w = W_Send r \<Longrightarrow> \<exists>ld. r = Inr ld"
    "g_results s' = g_results s" "g_pending s' = g_pending s" "g_pc s' = g_pc s" "g_ctx s' = g_ctx s" "g_wctx s' = g_wctx s"
  shows "inv_good s'"
proof -
  have "results_out s' \<subseteq> results_out s \<union> {r. w = W_Send r}"
    using assms(2,4,5) set_update_subset_insert [of "g_workers s" i w] by (auto simp: results_out_def)
  with assms show ?thesis by (auto simp: inv_good_def)
qed

lemma good_main:
  assumes "inv_good s" "g_workers s' = g_workers s" "good_pc (g_pc s')"
    "set (g_results s') \<subseteq> set (g_results s)" "snd ` set (g_pending s') \<subseteq> snd ` set (g_pending s)"
    "g_ctx s' = g_ctx s" "g_wctx s' = g_wctx s"
  shows "inv_good s'"
proof -
  have "results_out s' \<subseteq> results_out s" using assms(2,4,5) by (auto simp: results_out_def)
  with assms show ?thesis by (auto simp: inv_good_def)
qed

lemma inv_good_move:
  assumes "merge_move env k s s'" "\<not> k" "backed env s" "inv_good s"
  shows "inv_good s'"
  using assms
proof (induction rule: merge_move.induct)
  case (enter i s e r b)
  have "after_acquire e r \<noteq> W_Send res" for res
    using acquire_good [OF enter.prems(2,3) enter(1), of e r b res] enter(2,3) by simp
  then show ?case by (intro good_worker [OF enter.prems(3), of _ i "after_acquire e r"]) auto
next
  case (wake i s e g r b)
  have "after_acquire e r \<noteq> W_Send res" for res
    using acquire_good [OF wake.prems(2,3) wake(1), of e r b res] wake by simp
  then show ?case by (intro good_worker [OF wake.prems(3), of _ i "after_acquire e r"]) auto
next
  case (load i s e l r b)
  then show ?case
    using load_good [OF load.prems(2,3) load(1,2,3)]
    by (intro good_worker [OF load.prems(3), of _ i "W_Send r"]) auto
next
  case (dispatch i s e es)
  then show ?case by (intro good_worker [OF dispatch.prems(3), of _ i "W_Enter e"]) auto
next
  case (exit i s)
  then show ?case by (intro good_worker [OF exit.prems(3), of _ i W_Exit]) auto
next
  case (give_up i s e g err)
  then show ?case by (simp add: inv_good_def)
next
  case (send i s r)
  then have "W_Send r \<in> set (g_workers s)" by (metis nth_mem)
  then have "results_out (set_worker i W_Idle (s\<lparr>g_results := g_results s @ [r]\<rparr>)) \<subseteq> results_out s"
    using in_set_worker [of _ i W_Idle "s\<lparr>g_results := g_results s @ [r]\<rparr>"] by (auto simp: results_out_def)
  with send.prems(3) show ?case by (auto simp: inv_good_def)
next
  case (recv_error s e rs)
  then show ?case by (force simp: inv_good_def results_out_def)
next
  case (recv_loaded s ld rs)
  then show ?case
    using set_alist_update [of "pe_Ordinal (ls_Entry ld)" ld "g_pending s"]
    by (force simp: inv_good_def results_out_def)
next
  case (recv_incomplete s)
  then show ?case using recv_done(1) [of s] backedD(1) by blast
next
  case (flush_write_error s ld e w)
  obtain w0 cps x where "inv_output env w0 cps x s" using backedD(7) [OF flush_write_error.prems(2)] by blast
  then have d: "draft_live env s" using flush_write_error(1) by (simp add: inv_output_def paused_def)
  note refused = flush_refused [OF backedD(1,4) [OF flush_write_error.prems(2)] flush_write_error(1,2) d flush_write_error(3)]
  then show ?case using flush_write_error by (auto simp: AppendAt_def inv_good_def Let_def split: if_splits)
next
  case (flush_abandoned s e k)
  then show ?case by (simp add: inv_good_def)
next
  case (flush_saved s ld w s1 cps)
  then show ?case
    using set_delete_subset [of "pe_Ordinal (ls_Entry ld)" "g_pending s"]
    by (intro good_main [OF flush_saved.prems(3)]) auto
next
  case (commit s)
  then show ?case
    using commit_good [of env s] by (intro good_main [OF commit.prems(3)]) (simp_all add: commit_ctx)
next
  case (index s r)
  obtain w cps x where "inv_output env w cps x s" using backedD(7) [OF index.prems(2)] by blast
  then have "published env w r s" using index(1) by (simp add: inv_output_def)
  moreover have "CompileManifest (g_compiled s) = Inr (g_compiled s)"
    using backedD(1) [OF index.prems(2)] by (simp add: inv_entries_def plan_ok_def)
  ultimately have "validateReceipt r = None"
    using compiled_layout(3-5) by (auto simp: published_def validateReceipt_None)
  then have "good_pc (g_pc (index_step r s))"
    using index.prems(3) by (simp add: index_step_def Index_Put_def inv_good_def)
  then show ?case by (intro good_main [OF index.prems(3)]) (simp_all add: commit_ctx index_step_def split: prod.split option.split)
next
  case (clear s r)
  then show ?case
    by (intro good_main [OF clear.prems(3)])
      (auto simp: commit_ctx, simp add: clear_step_def Checkpoints_Clear_def inv_good_def)
qed (auto simp: inv_good_def results_out_def)


lemma good_run:
  assumes "merge_run env ls s = Some s'" "list_all (\<lambda>l. \<not> is_cancel l) ls" "turn_ok s"
    "backed env (settled s)" "inv_good (settled s)"
  shows "backed env (settled s') \<and> inv_good (settled s')"
  using turns_run_uncancelled [of "\<lambda>s. backed env s \<and> inv_good s", OF _ assms(1-3)] assms(4,5)
  by (blast intro: backed_move inv_good_move)

lemma good_result: "inv_good (settled s) \<Longrightarrow> g_pc s = M_Return r \<Longrightarrow> \<exists>res. r = Inr res"
  by (cases r) (auto simp: inv_good_def saving_def)


section \<open>The first state\<close>

lemma Merge_start_ok:
  assumes "CompileManifest m = Inr c" "cps (mf_FileID c) = None" "writer_ok w"
  obtains s where "Merge_start n None None m b w cps x = Inr s" "g_compiled s = c" "g_budget s = b"
    "g_ctx s = None" "g_wctx s = None" "inv_output env w cps x s"
proof -
  have c: "CompileManifest c = Inr c" using assms(1) by (rule compiled_again)
  have plan: "BuildPlan c None = Inr (plan_from c 0 [])" using BuildPlan_compiled(1) [OF c] .
  have "0 \<le> sint (pl_TotalSize (plan_from c 0 []))" "pl_SessionID (plan_from c 0 []) = []"
    using compiled_layout(3) [OF c] by (simp_all add: plan_from_def)
  then obtain session w' where "Begin None (plan_from c 0 []) w = (Inr session, w')"
    by (auto simp: Begin_def Let_def)
  then obtain s where s: "Merge_start n None None m b w cps x = Inr s" "g_compiled s = c"
    "g_budget s = b" "g_ctx s = None" "g_wctx s = None"
    using assms(1,2) plan by (auto simp: Merge_start_def Checkpoints_Load_def)
  have "inv_output env w cps x s"
    using Merge_start_fresh [OF s(1)] s(2) assms(2,3) by (auto simp: fun_upd_idem)
  with s that show ?thesis by blast
qed

lemma good_start:
  assumes start: "Merge_start n None None m b w cps x = Inr s" "inv_output env w0 cps0 x0 s"
    and b: "budget_ok b" "live b = {}" "sint (mf_TotalSize m) \<le> sint (Limit b)"
    and load: "all_load env (g_compiled s)"
  shows "backed env s" "inv_good s"
proof -
  note inv = Merge_start_inv [OF start(1)]
  have "g_ctx s = None \<and> g_wctx s = None \<and> g_results s = [] \<and> g_pending s = [] \<and> g_budget s = b
      \<and> (\<exists>es. g_workers s = loadAll_workers n es)"
    using start(1) by (cases rule: Merge_start_cases) auto
  then obtain es where s: "g_ctx s = None" "g_wctx s = None" "g_results s = []" "g_pending s = []"
    "g_budget s = b" "g_workers s = loadAll_workers n es"
    by blast
  have total: "mf_TotalSize (g_compiled s) = mf_TotalSize m"
    using inv(1) by (auto simp: CompileManifest_Inr normalise_def)
  have "sint (seg_LogicalSize sg) \<le> sint (mf_TotalSize m)" if "sg \<in> set (mf_Segments (g_compiled s))" for sg
  proof -
    have "seg_ok (mf_TotalSize (g_compiled s)) sg"
      using compiled_layout(6) [OF inv(1)] that by (simp add: list_all_iff)
    from seg_ok_sizes [OF this] total show ?thesis by simp
  qed
  then have "all_fit_in (bb_limit (g_budget s)) (g_compiled s)"
    using b(3) s(5) by (fastforce simp: all_fit_in_def Limit_def)
  then show "backed env s"
    using inv(2-4) inv(5) [OF b(1,2)] start(2) load by (auto simp: backed_def)
  have "results_out s = {}"
    using s(3,4) loadAll_workers_idle unfolding results_out_def s(6) by fastforce
  then show "inv_good s" using s(1,2) inv(6) by (simp add: inv_good_def)
qed


lemma demo_all_load: "all_load demo_env demo_manifest"
  using demo_load by (simp add: all_load_def demo_env_def demo_job_def plan_entry_at_def)
    (simp add: demo_manifest_def)


section \<open>Property\<close>

text \<open>
  C5: A merge of good input succeeds. For a manifest that compiles, with no checkpoint, a
  writer in order, at least one worker and an idle budget of at least the size of the file,
  when every segment opens, decodes and verifies, \<open>Merge\<close> starts; and whatever is scheduled
  without cancelling it, no schedule has more than \<open>fuel s0\<close> steps, and either \<open>Merge\<close> has
  returned a result, never an error, or some goroutine can still take a step.
\<close>
theorem merge_succeeds:
  assumes "CompileManifest m = Inr c" "all_load env c" "cps (mf_FileID c) = None" "writer_ok w"
    "1 \<le> n" "budget_ok b" "live b = {}" "sint (mf_TotalSize m) \<le> sint (Limit b)"
  shows "\<exists>s0. Merge_start n None None m b w cps x = Inr s0
    \<and> (\<forall>ls s. list_all (\<lambda>l. \<not> is_cancel l) ls \<longrightarrow> merge_run env ls s0 = Some s \<longrightarrow>
         length ls \<le> fuel s0
         \<and> ((\<exists>res. g_pc s = M_Return (Inr res)) \<or> (\<exists>l s'. \<not> is_cancel l \<and> merge_step env l s = Some s')))"
proof -
  obtain s0 where s0: "Merge_start n None None m b w cps x = Inr s0" "g_compiled s0 = c"
    "inv_output env w cps x s0"
    using Merge_start_ok [where cps = cps, OF assms(1,3,4)] by blast
  have good: "backed env s0" "inv_good s0"
    using good_start [OF s0(1,3) assms(6-8)] assms(2) s0(2) by auto
  have "length ls \<le> fuel s0
      \<and> ((\<exists>res. g_pc s = M_Return (Inr res)) \<or> (\<exists>l s'. \<not> is_cancel l \<and> merge_step env l s = Some s'))"
    if ls: "list_all (\<lambda>l. \<not> is_cancel l) ls" and run: "merge_run env ls s0 = Some s" for ls s
  proof -
    have "filter (\<lambda>l. \<not> is_cancel l) ls = ls" using ls by (simp add: list_all_iff filter_id_conv)
    then have len: "length ls \<le> fuel s0"
      using merge_start_fuel [OF s0(1) run] by simp
    have "inv_good (settled s)"
      using good_run [OF run ls Merge_start_turn_ok [OF s0(1)]] good Merge_start_settled [OF s0(1)] by simp
    from good_result [OF this] show ?thesis
      using len ample_progress [of s env] ample_run [OF s0(1) assms(5-8) run] by blast
  qed
  with s0(1) show ?thesis by blast
qed

theorem merge_succeeds_witness:
  "\<exists>s. merge_run demo_env out_of_order (demo_state 2 64) = Some s
     \<and> length out_of_order \<le> fuel (demo_state 2 64) \<and> (\<exists>res. g_pc s = M_Return (Inr res))"
proof -
  have start: "Merge_start 2 None None demo_manifest (NewByteBudget 64) NewMemoryWriter
      NewMemoryCheckpoints NewMemoryIndex = Inr (demo_state 2 64)"
    by (rule demo_start) simp_all
  have "live (NewByteBudget 64) = {}" by (simp add: live_def NewByteBudget_def)
  moreover have "sint (mf_TotalSize demo_manifest) \<le> sint (Limit (NewByteBudget 64))"
    by (simp add: Limit_def NewByteBudget_def demo_defs)
  moreover note demo_all_load
  moreover have "list_all (\<lambda>l. \<not> is_cancel l) out_of_order"
    by (simp add: out_of_order_def is_cancel_def)
  ultimately show ?thesis
    using merge_succeeds [OF demo_compiled, of demo_env NewMemoryCheckpoints NewMemoryWriter 2
        "NewByteBudget 64" NewMemoryIndex] start demo_out_of_order writer_ok_new budget_ok_new
    by (auto simp: NewMemoryCheckpoints_def)
qed

end
