(* ===== verification/RunSuccess.thy ===== *)
theory RunSuccess
  imports RunLiveness RunOutcome MergerSuccess
begin

text \<open>
  A run of good input from its merge to its end: \<open>MergerSuccess\<close> and \<open>RunLiveness\<close> bring the merge
  inside a run to its result, \<open>RunOutcome\<close> brings the result into the catalog.
\<close>

section \<open>A merge that is not cancelled\<close>

lemma uncancelled_move: "merge_move env k s s' \<Longrightarrow> g_ctx s' = None \<Longrightarrow> g_ctx s = None \<and> \<not> k"
  by (induction rule: merge_move.induct) (auto simp: cancel_ctx_def commit_ctx abort_return_def releasePending_def Let_def split: option.splits prod.splits)

lemma uncancelled_run:
  "merge_run env ls s = Some s' \<Longrightarrow> turn_ok s \<Longrightarrow> g_ctx s' = None \<Longrightarrow>
   g_ctx s = None \<and> list_all (\<lambda>l. \<not> is_cancel l) ls"
proof (induction ls arbitrary: s)
  case (Cons l ls)
  then obtain t where t: "merge_step env l s = Some t" "merge_run env ls t = Some s'"
    by (auto split: option.splits)
  note step = turn [OF t(1) Cons.prems(2)]
  with Cons t have "g_ctx (settled t) = None" "list_all (\<lambda>l. \<not> is_cancel l) ls" by simp_all
  with step uncancelled_move [of env "is_cancel l" "settled s" "settled t"] show ?case
    by (auto dest: arg_cong [of _ _ g_ctx])
qed simp

definition good_settled :: "merge_env \<Rightarrow> merge_state \<Rightarrow> bool" where
  "good_settled env g \<longleftrightarrow> backed env g \<and> inv_good g \<and> inv_wait g \<and> inv_ample g"

definition good_merge :: "merge_env \<Rightarrow> merge_state \<Rightarrow> bool" where
  "good_merge env g \<longleftrightarrow> turn_ok g \<and> good_settled env (settled g)"

lemma good_mergeD:
  assumes "good_merge env g"
  shows "turn_ok g" "inv_good (settled g)" "inv_wait (settled g)" "inv_ample (settled g)"
    "inv_entries (settled g)" "inv_phase (settled g)"
  using assms by (simp_all add: good_merge_def good_settled_def backed_def)

lemma good_settled_move: "good_settled env g \<Longrightarrow> merge_move env False g g' \<Longrightarrow> good_settled env g'"
  unfolding good_settled_def backed_def
  using backed_move [of env False g g'] inv_good_move [of env False g g'] inv_wait_move inv_ample_move
  by (auto simp: backed_def)

lemma good_merge_run:
  "merge_run env ls g = Some g' \<Longrightarrow> list_all (\<lambda>l. \<not> is_cancel l) ls \<Longrightarrow> good_merge env g \<Longrightarrow> good_merge env g'"
  using turns_run_uncancelled [of "good_settled env" env ls g g'] good_settled_move
  by (auto simp: good_merge_def)

text \<open>It returns a result within its fuel.\<close>

lemma good_merge_returns:
  "good_merge env g \<Longrightarrow> \<exists>ms g' res. list_all (\<lambda>l. \<not> is_cancel l) ms \<and> length ms \<le> fuel g
     \<and> merge_run env ms g = Some g' \<and> g_pc g' = M_Return (Inr res)"
proof (induction "fuel g" arbitrary: g rule: less_induct)
  case less
  note good = good_mergeD [OF less.prems]
  show ?case
  proof (cases "\<exists>r. g_pc g = M_Return r")
    case True
    then obtain r where r: "g_pc g = M_Return r" by blast
    with good_result [OF good(2)] obtain res where "r = Inr res" by blast
    with r show ?thesis by (intro exI [of _ "[]"] exI [of _ g] exI [of _ res]) simp
  next
    case False
    then obtain l t where l: "\<not> is_cancel l" "merge_step env l g = Some t"
      using ample_progress [OF good(6,3,4)] by blast
    have less_fuel: "fuel t < fuel g" using merge_step_fuel [OF l(2,1) good(1,5)] .
    have "good_merge env t" using good_merge_run [of env "[l]" g t] l less.prems by simp
    from less.hyps [OF less_fuel this] obtain ms g' res where
      "list_all (\<lambda>l. \<not> is_cancel l) ms" "length ms \<le> fuel t" "merge_run env ms t = Some g'"
      "g_pc g' = M_Return (Inr res)" by blast
    with l less_fuel show ?thesis
      by (intro exI [of _ "l # ms"] exI [of _ g'] exI [of _ res]) simp
  qed
qed


section \<open>The merge of a run\<close>

lemma begun_good:
  assumes "begun env sv rq g" "sint (mf_TotalSize (rq_Manifest rq)) \<le> sint (memory_limit sv)"
    "g_ctx g = None" "CompileManifest (rq_Manifest rq) = Inr c" "all_load (merge_env_of env rq) c"
  shows "good_merge (merge_env_of env rq) g"
proof -
  let ?env = "merge_env_of env rq" and ?b = "NewByteBudget (memory_limit sv)"
  obtain k cx1 cx2 g0 ms where g: "0 < sint (memory_limit sv)" "1 \<le> k"
    "Merge_start k cx1 cx2 (rq_Manifest rq) ?b NewMemoryWriter NewMemoryCheckpoints NewMemoryIndex = Inr g0"
    "merge_run ?env ms g0 = Some g"
    using assms(1) by (auto simp: begun_def)
  have "cx1 = None \<and> cx2 = None" using g(3) by (cases rule: Merge_start_cases) simp
  with g(3) have start: "Merge_start k None None (rq_Manifest rq) ?b NewMemoryWriter NewMemoryCheckpoints
      NewMemoryIndex = Inr g0" by simp
  have b: "budget_ok ?b" "live ?b = {}" "sint (mf_TotalSize (rq_Manifest rq)) \<le> sint (Limit ?b)"
    using g(1) assms(2) budget_ok_new [of "memory_limit sv"] by (auto simp: live_def NewByteBudget_def Limit_def)
  have "g_compiled g0 = c" using Merge_start_inv(1) [OF start] assms(4) by simp
  moreover have "inv_output ?env NewMemoryWriter NewMemoryCheckpoints NewMemoryIndex g0"
    using Merge_start_fresh [OF start _ writer_ok_new] by (simp add: NewMemoryCheckpoints_def fun_upd_idem)
  ultimately have "backed ?env g0" "inv_good g0" using good_start [OF start _ b] assms(5) by blast+
  moreover have "inv_ample g0" "inv_wait g0" using ample_start [OF start g(2) b] by blast+
  moreover note Merge_start_turn_ok [OF start] Merge_start_settled [OF start]
  ultimately have good: "turn_ok g0" "good_merge ?env g0" by (simp_all add: good_merge_def good_settled_def)
  with uncancelled_run [OF g(4) good(1) assms(3)] good_merge_run [OF g(4)] show ?thesis by blast
qed

text \<open>The moves of the merge in a schedule of the service.\<close>

lemma merge_steps_run:
  assumes "i < length (sy_threads s)" "th_pc (sy_threads s ! i) = R_Merge run l n rq g"
    "merge_run (merge_env_of env rq) ms g = Some g'" "list_all (\<lambda>l. \<not> is_cancel l) ms"
  shows "svc_run env (map (MergeStep i) ms) s =
    Some (s\<lparr>sy_threads := (sy_threads s)[i := (sy_threads s ! i)\<lparr>th_pc := R_Merge run l n rq g'\<rparr>]\<rparr>)"
  using assms
proof (induction ms arbitrary: s g)
  case Nil
  then have "(sy_threads s ! i)\<lparr>th_pc := R_Merge run l n rq g'\<rparr> = sy_threads s ! i" by simp
  then show ?case by simp
next
  case (Cons m ms)
  then obtain g1 where g1: "merge_step (merge_env_of env rq) m g = Some g1"
    "merge_run (merge_env_of env rq) ms g1 = Some g'" by (auto split: option.splits)
  let ?s = "s\<lparr>sy_threads := (sy_threads s)[i := (sy_threads s ! i)\<lparr>th_pc := R_Merge run l n rq g1\<rparr>]\<rparr>"
  have "svc_step env (MergeStep i m) s = Some ?s"
    using Cons.prems(1,2,4) g1(1)
    by (cases m) (auto simp: merge_thread_def is_cancel_def simp del: merge_step.simps)
  with Cons.IH [of ?s g1] Cons.prems(1,4) g1(2) show ?case
    by (simp del: svc_step.simps)
qed


section \<open>Property\<close>

text \<open>The section after the merge.\<close>

lemma merged_run:
  assumes "i < length (sy_threads s)" "th_pc (sy_threads s ! i) = R_Merge run l n rq g"
    "g_pc g = M_Return (Inr res)" "op_State run = StateRunning"
  shows "\<exists>op th. op_ID op = op_ID run \<and> th_pc th = R_Complete op l n rq res
    \<and> svc_run env [Step i x] s = Some (s\<lparr>sy_threads := (sy_threads s)[i := th]\<rparr>)"
proof -
  have "\<exists>op. run_merged (in_now x) run l n rq g = Some (R_Complete op l n rq res) \<and> op_ID op = op_ID run"
    using assms(3,4) by (simp add: run_merged_def transition_def allowed_def state_defs)
  then obtain op where op: "op_ID op = op_ID run"
    "run_merged (in_now x) run l n rq g = Some (R_Complete op l n rq res)" by blast
  from svc_run_step [OF assms(1), of env x "R_Complete op l n rq res" "sy_service s"] assms(2) op(2)
  obtain th where "th_pc th = R_Complete op l n rq res"
    "svc_step env (Step i x) s = Some \<lparr>sy_service = sy_service s, sy_threads = (sy_threads s)[i := th]\<rparr>"
    by auto
  with op(1) show ?thesis
    by (intro exI [of _ op] exI [of _ th]) (cases s, simp del: svc_step.simps)
qed

text \<open>So the thread of a good merge comes to the recording of its result.\<close>

lemma good_merge_merged:
  assumes "i < length (sy_threads s)" "th_pc (sy_threads s ! i) = R_Merge run l n rq g"
    "good_merge (merge_env_of env rq) g" "op_State run = StateRunning"
  shows "\<exists>ms op res th. length ms \<le> fuel g \<and> op_ID op = op_ID run \<and> th_pc th = R_Complete op l n rq res
    \<and> svc_run env (map (MergeStep i) ms @ [Step i x]) s = Some (s\<lparr>sy_threads := (sy_threads s)[i := th]\<rparr>)"
proof -
  obtain ms g' res where ms: "list_all (\<lambda>k. \<not> is_cancel k) ms" "length ms \<le> fuel g"
    "merge_run (merge_env_of env rq) ms g = Some g'" "g_pc g' = M_Return (Inr res)"
    using good_merge_returns [OF assms(3)] by blast
  let ?s = "s\<lparr>sy_threads := (sy_threads s)[i := (sy_threads s ! i)\<lparr>th_pc := R_Merge run l n rq g'\<rparr>]\<rparr>"
  have s: "svc_run env (map (MergeStep i) ms) s = Some ?s"
    using merge_steps_run [OF assms(1,2) ms(3,1)] .
  from merged_run [of i ?s, OF _ _ ms(4) assms(4), of l n rq env x] assms(1)
  obtain op th where op: "op_ID op = op_ID run" "th_pc th = R_Complete op l n rq res"
    "svc_run env [Step i x] ?s = Some (s\<lparr>sy_threads := (sy_threads s)[i := th]\<rparr>)" by auto
  have "svc_run env (map (MergeStep i) ms @ [Step i x]) s = Some (s\<lparr>sy_threads := (sy_threads s)[i := th]\<rparr>)"
    by (simp only: svc_run_append s option.case op(3))
  with ms(2) op(1,2) show ?thesis by blast
qed

text \<open>
  C6: A run of good input completes. Where a thread of a reachable service waits for its merge, the file
  fits the memory limit, every segment of the request decodes and verifies, and the run's context has not
  ended, then whatever the goroutines of the merge do without a cancellation, the merge returns no error; and the thread
  alone comes to its end in at most \<open>fuel g\<close> moves of the merge and six sections. If nobody has written
  the record since the start and the file has no artifact yet, the record then says
  completed, one revision on, the artifact has the version of the manifest, the cancel function is gone
  and the lease is released.
\<close>
theorem good_run_completes:
  assumes "svc_run env ls (system_of (NewService c None j lm a)) = Some s" "i < length (sy_threads s)"
    "th_pc (sy_threads s ! i) = R_Merge run l n rq g" "g_ctx g = None"
    "CompileManifest (rq_Manifest rq) = Inr m" "all_load (merge_env_of env rq) m"
    "sint (mf_TotalSize (rq_Manifest rq)) \<le> sint (memory_limit (sy_service s))"
    "table (sv_catalog (sy_service s)) (op_ID run) = Some r" "or_Revision r = n"
    "map_of (ct_artifacts (sv_catalog (sy_service s))) (mf_FileID m) = None"
  shows "(\<forall>ms g' e. list_all (\<lambda>k. \<not> is_cancel k) ms \<longrightarrow> merge_run (merge_env_of env rq) ms g = Some g' \<longrightarrow>
      g_pc g' \<noteq> M_Return (Inl e))
    \<and> (\<exists>ms s' out r' res art. length ms \<le> fuel g
      \<and> svc_run env (map (MergeStep i) ms @ [Step i x] @ replicate 5 (Step i x)) s = Some s'
      \<and> th_pc (sy_threads s' ! i) = Done out
      \<and> table (sv_catalog (sy_service s')) (op_ID run) = Some r' \<and> or_State r' = StateCompleted
      \<and> or_Result r' = Some res \<and> or_Revision r' = n + 1
      \<and> map_of (ct_artifacts (sv_catalog (sy_service s'))) (mf_FileID m) = Some art
      \<and> rc_Version (ar_Receipt art) = mf_Version m \<and> rc_Digest (ar_Receipt art) = mr_Digest res
      \<and> sv_cancels (sy_service s') (op_ID run) = None
      \<and> sv_leases (sy_service s') =
          snd (Lease_Release (le_Resource l) (le_Owner l) (le_Fence l) (sv_leases (sy_service s))))"
    (is "?safe \<and> ?ends")
proof -
  let ?env = "merge_env_of env rq"
  have "begun env (sy_service s) rq g"
    using budgeted.reachable(2) [OF assms(1) service_ok_NewService _ assms(2)] assms(3) by simp
  from begun_good [OF this assms(7,4,5,6)] have good: "good_merge ?env g" .
  have "g_pc g' \<noteq> M_Return (Inl e)"
    if "list_all (\<lambda>k. \<not> is_cancel k) ms" "merge_run ?env ms g = Some g'" for ms g' e
    using good_result [OF good_mergeD(2) [OF good_merge_run [OF that(2,1) good]]] by auto
  then have ?safe by blast
  moreover
  have "run_ok env (sy_service s) run" using reached_pc(2) [OF assms(1,2)] assms(3) by simp
  then have "op_State run = StateRunning" by (simp add: run_ok_def)
  from good_merge_merged [OF assms(2,3) good this]
  obtain ms op res th where op: "length ms \<le> fuel g" "op_ID op = op_ID run" "th_pc th = R_Complete op l n rq res"
    and t: "svc_run env (map (MergeStep i) ms @ [Step i x]) s = Some (s\<lparr>sy_threads := (sy_threads s)[i := th]\<rparr>)"
    by blast
  let ?t = "s\<lparr>sy_threads := (sy_threads s)[i := th]\<rparr>"
  have reach: "svc_run env (ls @ map (MergeStep i) ms @ [Step i x]) (system_of (NewService c None j lm a)) = Some ?t"
    by (simp only: svc_run_append [of env ls] assms(1) option.case t)
  have at: "i < length (sy_threads ?t)" "th_pc (sy_threads ?t ! i) = R_Complete op l n rq res"
    "table (sv_catalog (sy_service ?t)) (op_ID op) = Some r" using assms(2,8) op by simp_all
  have "done_ok env (sy_service s) op rq res" using reached_pc(2) [OF reach at(1)] at(2) by simp
  then have res: "mr_FileID res = mf_FileID m" "mr_Version res = mf_Version m"
    using assms(5) by (auto simp: done_ok_def op_ok_def result_fits_def verified_def receipt_of_def)
  then have "publishable res (sv_catalog (sy_service ?t))" using assms(10) by (simp add: publishable_def)
  from success_recorded [OF reach at assms(9) this, of x] op(2) res
  obtain s' out r' art where s': "svc_run env (replicate 5 (Step i x)) ?t = Some s'"
    "th_pc (sy_threads s' ! i) = Done out" "table (sv_catalog (sy_service s')) (op_ID run) = Some r'"
    "or_State r' = StateCompleted" "or_Result r' = Some res" "or_Revision r' = n + 1"
    "map_of (ct_artifacts (sv_catalog (sy_service s'))) (mf_FileID m) = Some art"
    "rc_Version (ar_Receipt art) = mf_Version m" "rc_Digest (ar_Receipt art) = mr_Digest res"
    "sv_cancels (sy_service s') (op_ID run) = None"
    "sv_leases (sy_service s') = snd (Lease_Release (le_Resource l) (le_Owner l) (le_Fence l) (sv_leases (sy_service s)))"
    by auto
  have "svc_run env (map (MergeStep i) ms @ [Step i x] @ replicate 5 (Step i x)) s = Some s'"
    by (simp only: append_assoc [symmetric] svc_run_append [of env "map (MergeStep i) ms @ [Step i x]"] t
        option.case s'(1))
  with op(1) s'(2-11) have ?ends by blast
  ultimately show ?thesis by blast
qed

theorem good_run_completes_witness:
  "\<exists>s ms s' r res. svc_run demo_svc ((demo_submit @ demo_alone) @ [Step 1 (at 2), Step 1 (at 2), Step 1 (at 2)])
       (system_of (demo_service 2)) = Some s
     \<and> svc_run demo_svc (map (MergeStep 1) ms @ [Step 1 (at 3)] @ replicate 5 (Step 1 (at 3))) s = Some s'
     \<and> table (sv_catalog (sy_service s')) demo_id = Some r \<and> or_State r = StateCompleted \<and> or_Result r = Some res"
proof -
  let ?s = "\<lparr>sy_service = demo_sv 2 demo_running_record [] 2 demo_leases [demo_id \<mapsto> 1],
      sy_threads = [plain None (Done (Returned (Some demo_op) True None)),
        plain None (R_Merge demo_running demo_lease 2 demo_request (demo_state 2 64))]\<rparr>"
  have th: "1 < length (sy_threads ?s)"
    "th_pc (sy_threads ?s ! 1) = R_Merge demo_running demo_lease 2 demo_request (demo_state 2 64)"
    "g_ctx (demo_state 2 64) = None" "CompileManifest (rq_Manifest demo_request) = Inr demo_manifest"
    "all_load (merge_env_of demo_svc demo_request) demo_manifest"
    using demo_all_load by (simp_all add: demo_compiled demo_state_def)
  have "li_MaxResidentBytes (demo_limits 2) = 64" by (simp add: demo_limits_simps)
  then have fits: "sint (mf_TotalSize (rq_Manifest demo_request)) \<le> sint (memory_limit (sy_service ?s))"
    by (simp add: memory_limit_def) (simp add: demo_defs)
  have rec: "table (sv_catalog (sy_service ?s)) (op_ID demo_running) = Some demo_running_record"
    "or_Revision demo_running_record = 2"
    "map_of (ct_artifacts (sv_catalog (sy_service ?s))) (mf_FileID demo_manifest) = None"
    "op_ID demo_running = demo_id"
    by (simp_all add: table_def demo_catalog_def demo_running_def)
  from good_run_completes [OF demo_merging [unfolded demo_system] th fits rec(1-3), of "at 3"] rec(4)
  show ?thesis using demo_merging by auto
qed

end
