(* ===== verification/Demo.thy ===== *)
theory Demo
  imports MergerSuccess
begin

text \<open>
  The program \<open>cmd/merge-demo\<close>: a merger with two workers and the default budget on two segments
  in memory, and the line that it prints. \<open>context.Background\<close> is never cancelled.
\<close>

section \<open>The program\<close>

text \<open>The budget of \<open>NewMerger\<close>, \<open>1 << 30\<close>.\<close>

definition NewMerger_limit :: i64 where
  "NewMerger_limit = push_bit 30 1"

definition demo_main :: "(sm_error \<times> memory_writer) + merge_state" where
  "demo_main =
     Merge_start (NewMerger_concurrency 2) None None demo_manifest (NewByteBudget NewMerger_limit)
       NewMemoryWriter NewMemoryCheckpoints NewMemoryIndex"

text \<open>What \<open>Printf\<close> is given: the file, the size, the data and the error, once \<open>Merge\<close> has returned.\<close>

definition demo_line :: "merge_state \<Rightarrow> (string \<times> i64 \<times> bytes \<times> sm_error option) option" where
  "demo_line s =
     (let data = (case Output ''demo'' (g_writer s) of None \<Rightarrow> [] | Some (d, r) \<Rightarrow> d)
      in case g_pc s of
           M_Return (Inl e) \<Rightarrow> Some ([], 0, data, Some e)
         | M_Return (Inr result) \<Rightarrow> Some (mr_FileID result, mr_Size result, data, None)
         | _ \<Rightarrow> None)"


section \<open>What it prints\<close>

lemma NewMerger_limit_eq: "NewMerger_limit = 1073741824"
  by (simp add: NewMerger_limit_def push_bit_eq_mult)

lemma demo_main_start: "demo_main = Inr (demo_state 2 NewMerger_limit)"
  using demo_start [of 2 NewMerger_limit]
  by (simp add: demo_main_def NewMerger_concurrency_def NewMerger_limit_eq)

text \<open>The file of the two segments is determined.\<close>

lemma demo_loads: "loads no_gunzip demo_source sg b \<longleftrightarrow> load_data no_gunzip demo_source None sg = Inr b"
proof -
  have "load_data no_gunzip demo_source cx sg = Inr b \<Longrightarrow> cx = None" for cx by (cases cx) simp_all
  then show ?thesis by (auto simp: loads_def)
qed

lemma demo_data:
  assumes "written_ok demo_env demo_manifest 2 d"
  shows "d = demo_first @ demo_second"
proof -
  have len: "length d = 11" using assms by (simp add: written_ok_def) (simp add: demo_defs)
  have "seg_slice (mf_Segments demo_manifest ! i) d = b"
    if "load_data no_gunzip demo_source None (pe_Segment (demo_job i)) = Inr b" "i < 2" for i b
    using assms that by (auto simp: written_ok_def demo_env_def demo_job_def demo_loads)
  from this [OF demo_load(1)] this [OF demo_load(2)]
  have "take 6 d = demo_first" "take 5 (drop 6 d) = demo_second"
    by (simp_all add: seg_slice_def demo_defs)
  moreover have "take 5 (drop 6 d) = drop 6 d" using len by simp
  ultimately show ?thesis by (metis append_take_drop_id)
qed

lemma demo_published:
  assumes "inv_output demo_env NewMemoryWriter NewMemoryCheckpoints NewMemoryIndex s"
    "g_compiled s = demo_manifest" "g_pc s = M_Return (Inr res)"
  shows "demo_line s = Some (''demo'', 11, demo_first @ demo_second, None)"
proof -
  obtain r where r: "published demo_env NewMemoryWriter r s" "reports r s res"
    using assms(1,3) by (auto simp: inv_output_def)
  obtain d where d: "Output ''demo'' (g_writer s) = Some (d, r)" "written_ok demo_env demo_manifest 2 d"
    "rc_Size r = mf_TotalSize demo_manifest" "rc_FileID r = ''demo''"
    using published_Output [OF r(1)] by (simp add: assms(2)) metis
  have "mf_TotalSize demo_manifest = 11" by (simp add: demo_defs)
  with r(2) d demo_data [OF d(2)] assms(3) show ?thesis by (simp add: demo_line_def reports_def)
qed

lemma demo_out_of_order_limit:
  "\<exists>s res. merge_run demo_env out_of_order (demo_state 2 NewMerger_limit) = Some s
     \<and> g_pc s = M_Return (Inr res)"
  unfolding NewMerger_limit_eq by (simp add: out_of_order_def demo_run_defs numeral_2_eq_2)

text \<open>
  The demo prints the size and the text of the whole file and no error, whatever the scheduling of its
  goroutines: no schedule has more than \<open>fuel\<close> steps, and until the line is printed some goroutine can move.
\<close>
theorem demo_prints:
  "\<exists>s0. demo_main = Inr s0
    \<and> (\<forall>ls s. list_all (\<lambda>l. \<not> is_cancel l) ls \<longrightarrow> merge_run demo_env ls s0 = Some s \<longrightarrow>
         length ls \<le> fuel s0
         \<and> (case demo_line s of
              None \<Rightarrow> \<exists>l s'. \<not> is_cancel l \<and> merge_step demo_env l s = Some s'
            | Some line \<Rightarrow> line = (''demo'', 11, bytes_of ''hello world'', None)))"
proof -
  let ?s0 = "demo_state 2 NewMerger_limit" and ?b = "NewByteBudget NewMerger_limit"
  have start: "Merge_start 2 None None demo_manifest ?b NewMemoryWriter NewMemoryCheckpoints NewMemoryIndex = Inr ?s0"
    by (rule demo_start) (simp_all add: NewMerger_limit_eq)
  have b: "live ?b = {}" "sint (mf_TotalSize demo_manifest) \<le> sint (Limit ?b)"
    by (simp add: live_def NewByteBudget_def)
      (simp add: Limit_def NewByteBudget_def NewMerger_limit_eq, simp add: demo_defs)
  have out: "inv_output demo_env NewMemoryWriter NewMemoryCheckpoints NewMemoryIndex ?s0"
    using Merge_start_fresh [OF start _ writer_ok_new] by (simp add: NewMemoryCheckpoints_def fun_upd_idem)
  have comp: "g_compiled ?s0 = demo_manifest" by (simp add: demo_state_def)
  have good: "backed demo_env ?s0" "inv_good ?s0"
    using good_start [OF start out budget_ok_new b] demo_all_load comp by auto
  have inv0: "merge_ok demo_env demo_manifest NewMemoryWriter NewMemoryCheckpoints NewMemoryIndex ?s0"
    using merge_ok_start [OF start out] .
  have "length ls \<le> fuel ?s0
      \<and> (case demo_line s of
           None \<Rightarrow> \<exists>l s'. \<not> is_cancel l \<and> merge_step demo_env l s = Some s'
         | Some line \<Rightarrow> line = (''demo'', 11, bytes_of ''hello world'', None))"
    if ls: "list_all (\<lambda>l. \<not> is_cancel l) ls" and run: "merge_run demo_env ls ?s0 = Some s" for ls s
  proof -
    have "filter (\<lambda>l. \<not> is_cancel l) ls = ls" using ls by (simp add: list_all_iff filter_id_conv)
    then have len: "length ls \<le> fuel ?s0"
      using merge_start_fuel [OF start run] by simp
    have inv: "merge_ok demo_env demo_manifest NewMemoryWriter NewMemoryCheckpoints NewMemoryIndex s"
      using merge_ok_run [OF run inv0] .
    then have c: "g_compiled s = demo_manifest" using merge_okD(2) by (fastforce simp: demo_compiled)
    have whole: "demo_first @ demo_second = bytes_of ''hello world''"
      by (simp add: demo_first_def demo_second_def bytes_of_def)
    show ?thesis
    proof (cases "\<exists>r. g_pc s = M_Return r")
      case True
      then obtain r where r: "g_pc s = M_Return r" by blast
      have "inv_good (settled s)"
        using good_run [OF run ls Merge_start_turn_ok [OF start]] good Merge_start_settled [OF start] by simp
      from good_result [OF this r] obtain res where "g_pc s = M_Return (Inr res)" using r by blast
      from demo_published [OF _ c this] merge_okD(3) [OF inv] r len show ?thesis
        by (simp add: merge_inv_def whole saving_def)
    next
      case False
      then have "demo_line s = None" by (cases "g_pc s") (auto simp: demo_line_def)
      with False ample_progress [of s demo_env] ample_run [OF start _ budget_ok_new b run] len
      show ?thesis by auto
    qed
  qed
  with demo_main_start show ?thesis by blast
qed

theorem demo_prints_witness:
  "\<exists>s. merge_run demo_env out_of_order (demo_state 2 NewMerger_limit) = Some s
     \<and> demo_line s = Some (''demo'', 11, bytes_of ''hello world'', None)"
proof -
  obtain s res where s: "merge_run demo_env out_of_order (demo_state 2 NewMerger_limit) = Some s"
    "g_pc s = M_Return (Inr res)" using demo_out_of_order_limit by blast
  have "list_all (\<lambda>l. \<not> is_cancel l) out_of_order" by (simp add: out_of_order_def is_cancel_def)
  moreover have "demo_line s \<noteq> None" using s(2) by (simp add: demo_line_def)
  ultimately show ?thesis using demo_prints s(1) by (auto simp: demo_main_start)
qed

end
