(* ===== verification/Spec2Isabelle.thy ===== *)
theory Spec2Isabelle
  imports Lease Policy Catalog Journals ServiceStates Controls Process
    Identifiers Middleware RunSuccess Demo
begin

text \<open>
  The file segment merger: a Go service that takes a manifest and the segments of a file, checks,
  decodes and verifies them, and puts the file together, under a byte budget and with several
  workers, resumable after an interruption; around it a service that accepts merge operations, runs
  them under leases and admission limits, records them in a catalog and a journal, and answers over
  HTTP.

  \<^bold>\<open>Parts and theories.\<close>

  \<^item> \<open>Prelude\<close>, \<open>Sha256\<close>, \<open>XXHash\<close>: machine integers, byte strings, hexadecimal and decimal numbers,
    \<open>strings.TrimSpace\<close>, \<open>sort.Slice\<close> (the locale \<open>slice_sorter\<close>: a permutation, sorted), and the
    two hash functions, executable, checked on test vectors.

  \<^item> \<open>Model\<close>, \<open>Manifest\<close>, \<open>Codec\<close>, \<open>Planner\<close> (\<open>segmentmerge/model.go\<close>, \<open>errors.go\<close>, \<open>checksum.go\<close>,
    \<open>manifest.go\<close>, \<open>codec.go\<close>, \<open>planner.go\<close>): data, sentinel errors, verification of a segment,
    \<open>CompileManifest\<close>, the manifest's JSON text, \<open>BuildPlan\<close>.

  \<^item> \<open>Budget\<close>, \<open>Stores\<close>, \<open>Writer\<close>, \<open>Loader\<close> (\<open>budget.go\<close>, \<open>source.go\<close>, \<open>checkpoint.go\<close>, \<open>index.go\<close>,
    \<open>writer.go\<close>, \<open>worker.go\<close>): what a merge works with. The drafts of the writer are a heap, because
    sessions on one draft share it; the checkpoint store is a locale with the memory store as its
    interpretation.

  \<^item> \<open>Merger\<close> and its satellites (\<open>service.go\<close> of \<open>segmentmerge\<close>): \<open>Merge\<close> with its dispatcher and
    workers is the function \<open>merge_step\<close> from a label (who moves) and a state to the next state,
    \<open>None\<close> where that goroutine is blocked; a schedule is a list of labels. The append of a segment and
    the saving of its checkpoint are two steps (\<open>flush_step\<close>, \<open>save_step\<close>), so the context can end in
    between; \<open>MergerTurns\<close> proves that every step is a move of a coarser view in which they are
    one, and the invariants are proved on its moves. \<open>MergerEntries\<close> follows
    the plan entries, \<open>MergerBudget\<close> the leases, \<open>MergerOutput\<close> the bytes, \<open>MergerLiveness\<close> and
    \<open>MergerAmple\<close> termination and deadlock, \<open>MergerSuccess\<close> merges in which nothing goes wrong,
    \<open>Merges\<close> whole histories of interrupted and resumed merges; \<open>MergerDemo\<close> evaluates the example
    of \<open>cmd/merge-demo\<close>, and \<open>Demo\<close> shows what that program prints under every schedule.

  \<^item> \<open>Lease\<close>, \<open>Policy\<close>, \<open>Catalog\<close>, \<open>Journal\<close>, \<open>JournalDemo\<close>, \<open>Journals\<close> (\<open>lease/manager.go\<close>,
    \<open>policy/policy.go\<close>, \<open>catalog/catalog.go\<close>, \<open>journal/\<close>): the stores and rules of the service.
    Every method runs under its lock, so it is one function on the state. \<open>Admitted\<close> puts the policy
    and the merger together.

  \<^item> \<open>Operation\<close>, \<open>Service\<close> (\<open>operation/\<close>): the operation and its state machine; \<open>Submit\<close>, \<open>Get\<close>,
    \<open>Run\<close>, \<open>Cancel\<close>, \<open>RunReady\<close> and \<open>WaitUntilRetry\<close> as threads of a transition system. A program
    counter names the next section of a call that touches shared state; \<open>call_step\<close> runs it and
    \<open>svc_step\<close> lets calls begin, threads and merges step, contexts end and other clients use the
    leases, in any order. The merge of a run is the system of \<open>Merger\<close> inside the counter \<open>R_Merge\<close>.

  \<^item> \<open>ServiceSafety\<close> is the invariant of that system, \<open>ServiceMoves\<close> how records move, \<open>ServiceReads\<close>
    which record a start or a cancellation was made from,
    \<open>ServiceStates\<close> the refinement of the declared state machine, \<open>CallBounds\<close> and \<open>RunLiveness\<close> the
    termination of calls and of the merges they wait for, \<open>RunOutcome\<close> the ends of a run,
    \<open>RunSuccess\<close> a run of good input from its merge to its end, \<open>Services\<close> and \<open>Races\<close> the
    properties of all reachable states, \<open>Identifiers\<close> the identifiers of submissions, \<open>Trail\<close> what
    the journal says of the catalog (the locale \<open>counter_invariant\<close> lifts what each section keeps to
    all reachable states), \<open>ServiceDemo\<close> the evaluated example.

  \<^item> \<open>Calls\<close>, \<open>Control\<close>, \<open>Controls\<close>, \<open>Middleware\<close> (\<open>control/handler.go\<close>, \<open>control/server.go\<close>): calls
    that run alone, the routes and what each handler means, what a client may rely on, and the handlers
    statement by statement on the response writer, with the router, the request log and the recovery
    from panics around them.

  \<^item> \<open>Process\<close> (\<open>cmd/merge-server/main.go\<close>): \<open>main\<close>, the goroutine that waits for a signal, and the
    connections and requests being served, as steps of one process from the flags to the exit code, a
    journal that cannot be opened included.
\<close>

text \<open>
  \<^bold>\<open>How the code is translated.\<close> Structs are records, tagged values datatypes, \<open>int64\<close> and
  \<open>time.Duration\<close> 64-bit words read with \<open>sint\<close>, \<open>uint64\<close> and \<open>uint32\<close> words read with \<open>unat\<close>, so
  every sum and product wraps as in Go; a plain \<open>int\<close> that counts something in memory is an integer.
  Strings are lists of bytes, times integers (nanoseconds, in UTC). A Go map is a function to
  options, or an association list where the code ranges over it, and then no property depends on its
  order. Errors are values that keep their sentinel and what they wrap; their texts are not built,
  except as the parameter \<open>se_text\<close> where a record stores one. A context is what a section reads of
  it: \<open>None\<close> or the error.

  \<^bold>\<open>Parameters.\<close> \<open>compress/gzip\<close> is any function; \<open>encoding/json\<close> is \<open>json\<close> for the journal,
  \<open>manifest_json\<close> for manifests and \<open>request_json\<close> for requests, with the laws \<open>codec_ok\<close>,
  \<open>codec_prefix_free\<close> and \<open>manifest_json_ok\<close> as named hypotheses that concrete formats satisfy. They are
  the documented behaviour only: \<open>codec_ok\<close> promises a way back for strings of valid UTF-8 alone, since
  the bytes of others are replaced, and for payloads up to their compaction. What
  the clock, the disk and the timer say is the input of the step that asks.

  \<^bold>\<open>What is shown.\<close> Of the merger: what it publishes is exactly the verified segments with zeros
  between, under every schedule and through any number of interruptions (\<open>merge_publishes\<close>,
  \<open>merge_resumes\<close>, \<open>merge_deterministic\<close>), within its byte budget and without a leak
  (\<open>merge_within_budget\<close>), failing in one of three described ways (\<open>merge_failure\<close>); it returns
  under every schedule with one worker (\<open>one_worker_returns\<close>) and, with any number, when the file
  fits the budget (\<open>ample_budget_returns\<close>), but two workers can deadlock on a smaller budget, also
  one that the policy suggests. Of the stores: the catalog refines a table with unique keys, updates
  are not lost, artifacts are written once; fencing tokens increase; admission and retries stay in
  their bounds; a journal is read back as written, and the file journal and the memory journal
  simulate each other. Of the service: types, results and artifacts are right in every reachable
  state, and what the journal in memory says of operations is true; a record moves only by starts and
  cancellations of a record that was read before, and by the outcomes of starts, and by the declared
  state machine as long as nobody writes between another's reading and writing; every call ends, and
  the merge of a run does where the file fits the memory limit; a run that is left alone ends as the
  policy says, and one on good input completes (\<open>merge_succeeds\<close>, \<open>good_run_completes\<close>); the
  identifiers of submissions never clash. Of the control plane: repeated submissions find their
  operation, the answers about operations and the listing are exact, and every request is answered
  once, with the response its endpoint means, also where a call panics. Of the process: with which code it ends and what has happened by
  then. \<open>Races\<close>, \<open>Process\<close> and single theorems elsewhere show where the code does not keep what it
  means to: stale reads, leases that are not checked again, a run that counts itself, journals that
  one failed write makes unreadable, a shutdown that does not wait for the requests, a signal that
  comes too early.

  \<^bold>\<open>Bounds and fuel.\<close> No definition runs on fuel. The fuel of \<open>MergerLiveness\<close> (twice the turns of the
  coarser view, and one more between an append and its checkpoint) and the rank of
  \<open>CallBounds\<close> are measures: each step uses some up, which bounds the length of a schedule.
  \<open>record_lifecycle\<close> and \<open>undisturbed_states_follow\<close> ask for schedules shorter than \<open>2 ^ 64\<close> less
  two, so that a revision does not wrap, and \<open>identifiers_fresh\<close> for ones shorter than \<open>2 ^ 64\<close>, so
  that the sequence does not. Loops that shrink their input by blocks (\<open>xx_blocks\<close>,
  \<open>trim_with\<close>) have termination proofs.

  \<^bold>\<open>Not modelled.\<close> The streaming \<open>Digest\<close> of the vendored hash and its assembly versions; log
  output beyond which lines are written; the JSON text of responses; the parsing of the server's
  flags and the format of the line of the demo; the test hooks of the loader; errors of
  opening, seeking and closing the journal file; \<open>marshalPayload\<close>, which nothing calls, and
  \<open>cloneRequest\<close>, which is the identity on values. \<open>GOMAXPROCS\<close>, memory exhaustion and integer \<open>int\<close>
  counters beyond 63 bits are left aside.
\<close>

end
